(* ===== verification/Prelude.thy ===== *)
theory Prelude
  imports Complex_Main "HOL-Library.Word" "HOL-Library.Sublist" "HOL-Library.Char_ord"
    "HOL-Library.List_Lexorder"
begin

text \<open>
  What the components share: the exceptions of the Python code and results that may be one,
  Python's floats with their two infinities and NaN, byte strings with their hexadecimal
  text, decimal numerals, character classes and slices of text, keyed row lists (the tables
  of a SQLite store), and the interface \<open>codec\<close> of an encoder with its decoder.

  Text is \<open>string\<close>: a \<open>char\<close> stands for one code point of U+0000 to U+00FF, so a text with
  other code points is outside the model. A finite float is its rational value; the rounding
  of float arithmetic is not modelled.
\<close>

section \<open>Collections of facts\<close>

named_theorems py_simps \<open>unfolding the Python primitives\<close>
named_theorems tbl_simps \<open>reading a keyed row list after a write\<close>

section \<open>Exceptions and results\<close>

datatype exn =
    ValueError | TypeError | KeyError | AttributeError | IndexError | OverflowError
  | InterfaceError | IntegrityError
  | ConsentTransitionError string
  | InviteError string
  | ConnectCodeError string
  | RelayUnavailableError string
  | ProviderError string
  | OtherError string

type_synonym 'a res = "exn + 'a"

text \<open>
  A stateful Python function is a function from the state to its outcome and the state it
  leaves behind; an exception keeps every write made before it.
\<close>

type_synonym ('s, 'a) prog = "'s \<Rightarrow> 'a res \<times> 's"

definition bind_res :: "'a res \<Rightarrow> ('a \<Rightarrow> 'b res) \<Rightarrow> 'b res" where
  "bind_res m k = (case m of Inl e \<Rightarrow> Inl e | Inr x \<Rightarrow> k x)"

lemma bind_res_simps [simp]:
  "bind_res (Inl e) k = Inl e"
  "bind_res (Inr x) k = k x"
  by (simp_all add: bind_res_def)

lemma bind_res_Inr_iff: "bind_res m k = Inr y \<longleftrightarrow> (\<exists>x. m = Inr x \<and> k x = Inr y)"
  by (cases m) auto

definition ret :: "'a \<Rightarrow> ('s, 'a) prog" where
  "ret x s = (Inr x, s)"

definition raise :: "exn \<Rightarrow> ('s, 'a) prog" where
  "raise e s = (Inl e, s)"

definition lift :: "'a res \<Rightarrow> ('s, 'a) prog" where
  "lift r s = (r, s)"

definition reads :: "('s \<Rightarrow> 'a) \<Rightarrow> ('s, 'a) prog" where
  "reads f s = (Inr (f s), s)"

definition writes :: "('s \<Rightarrow> 's) \<Rightarrow> ('s, unit) prog" where
  "writes f s = (Inr (), f s)"

text \<open>A method that returns a value and the new state, and one that may refuse to write.\<close>

definition calls_to :: "('s \<Rightarrow> 'a \<times> 's) \<Rightarrow> ('s, 'a) prog" where
  "calls_to f s = (case f s of (x, s') \<Rightarrow> (Inr x, s'))"

definition attempts :: "('s \<Rightarrow> 's res) \<Rightarrow> ('s, unit) prog" where
  "attempts f s = (case f s of Inl e \<Rightarrow> (Inl e, s) | Inr s' \<Rightarrow> (Inr (), s'))"

definition seqp :: "('s, 'a) prog \<Rightarrow> ('a \<Rightarrow> ('s, 'b) prog) \<Rightarrow> ('s, 'b) prog" where
  "seqp m k s = (case m s of (Inl e, s') \<Rightarrow> (Inl e, s') | (Inr x, s') \<Rightarrow> k x s')"

text \<open>\<open>try: m except Exception as e: h e\<close>, keeping the writes made before the exception.\<close>

definition catch :: "('s, 'a) prog \<Rightarrow> (exn \<Rightarrow> ('s, 'a) prog) \<Rightarrow> ('s, 'a) prog" where
  "catch m h s = (case m s of (Inl e, s') \<Rightarrow> h e s' | (Inr x, s') \<Rightarrow> (Inr x, s'))"

text \<open>\<open>for x in xs: f x\<close>.\<close>

primrec forp :: "('a \<Rightarrow> ('s, unit) prog) \<Rightarrow> 'a list \<Rightarrow> ('s, unit) prog" where
  "forp f [] = ret ()"
| "forp f (x # xs) = seqp (f x) (\<lambda>_. forp f xs)"

lemma prog_simps [simp]:
  "ret x s = (Inr x, s)" "raise e s = (Inl e, s)" "lift r s = (r, s)"
  "reads f s = (Inr (f s), s)" "writes g s = (Inr (), g s)"
  by (simp_all add: ret_def raise_def lift_def reads_def writes_def)

lemma seqp_simps [simp]:
  "m s = (Inl e, s') \<Longrightarrow> seqp m k s = (Inl e, s')"
  "m s = (Inr x, s') \<Longrightarrow> seqp m k s = k x s'"
  by (simp_all add: seqp_def)

text \<open>
  A property of the state that every part of a program keeps: the parts of the proofs that a
  function never undoes something.
\<close>

definition keeps :: "('s \<Rightarrow> bool) \<Rightarrow> ('s, 'a) prog \<Rightarrow> bool" where
  "keeps P m \<longleftrightarrow> (\<forall>s. P s \<longrightarrow> P (snd (m s)))"

named_theorems keeps_intros \<open>programs that keep a property of the state\<close>

lemma keepsI: "(\<And>s. P s \<Longrightarrow> P (snd (m s))) \<Longrightarrow> keeps P m"
  by (simp add: keeps_def)

lemma keepsD: "keeps P m \<Longrightarrow> P s \<Longrightarrow> P (snd (m s))"
  by (simp add: keeps_def)

lemma keeps_basic [keeps_intros]:
  "keeps P (ret x)" "keeps P (raise e)" "keeps P (lift r)" "keeps P (reads f)"
  by (simp_all add: keeps_def)

lemma keeps_seqp [keeps_intros]: "keeps P m \<Longrightarrow> (\<And>x. keeps P (k x)) \<Longrightarrow> keeps P (seqp m k)"
  unfolding keeps_def seqp_def by (auto split: prod.splits sum.splits)

lemma keeps_catch [keeps_intros]: "keeps P m \<Longrightarrow> (\<And>e. keeps P (h e)) \<Longrightarrow> keeps P (catch m h)"
  unfolding keeps_def catch_def by (auto split: prod.splits sum.splits)

lemma keeps_forp [keeps_intros]: "(\<And>x. x \<in> set xs \<Longrightarrow> keeps P (f x)) \<Longrightarrow> keeps P (forp f xs)"
  by (induction xs) (auto intro!: keeps_intros)

lemma keeps_writes [keeps_intros]: "(\<And>s. P s \<Longrightarrow> P (f s)) \<Longrightarrow> keeps P (writes f)"
  by (simp add: keeps_def)

lemma keeps_calls_to [keeps_intros]: "(\<And>s. P s \<Longrightarrow> P (snd (f s))) \<Longrightarrow> keeps P (calls_to f)"
  by (simp add: keeps_def calls_to_def split: prod.split) (metis snd_conv)

lemma keeps_attempts [keeps_intros]:
  "(\<And>s s'. P s \<Longrightarrow> f s = Inr s' \<Longrightarrow> P s') \<Longrightarrow> keeps P (attempts f)"
  by (simp add: keeps_def attempts_def split: sum.split)

lemma keeps_if [keeps_intros]: "keeps P m \<Longrightarrow> keeps P m' \<Longrightarrow> keeps P (if b then m else m')"
  by simp

lemma keeps_option [keeps_intros]:
  "keeps P m \<Longrightarrow> (\<And>x. keeps P (k x)) \<Longrightarrow> keeps P (case x of None \<Rightarrow> m | Some y \<Rightarrow> k y)"
  by (cases x) auto

lemma keeps_prod [keeps_intros]:
  "(\<And>a b. keeps P (k a b)) \<Longrightarrow> keeps P (case x of (a, b) \<Rightarrow> k a b)"
  by (cases x) auto

lemma keeps_sum [keeps_intros]:
  "(\<And>a. keeps P (k a)) \<Longrightarrow> (\<And>b. keeps P (l b)) \<Longrightarrow> keeps P (case x of Inl a \<Rightarrow> k a | Inr b \<Rightarrow> l b)"
  by (cases x) auto

lemma keeps_let [keeps_intros]: "(\<And>y. keeps P (k y)) \<Longrightarrow> keeps P (let y = x in k y)"
  by simp

section \<open>Sublists\<close>

lemma subseq_subset: "subseq xs ys \<Longrightarrow> set xs \<subseteq> set ys"
  by (induction rule: list_emb.induct) auto

lemma subseq_concat_map: "subseq xs ys \<Longrightarrow> subseq (concat (map f xs)) (concat (map f ys))"
  by (induction rule: list_emb.induct) (auto intro: list_emb_append2 list_emb_append_mono)

section \<open>Floats\<close>

datatype pyfloat = Fin rat | PInf | NInf | NaN

fun flt_lt :: "pyfloat \<Rightarrow> pyfloat \<Rightarrow> bool" where
  "flt_lt NaN _ = False"
| "flt_lt _ NaN = False"
| "flt_lt (Fin a) (Fin b) = (a < b)"
| "flt_lt NInf NInf = False"
| "flt_lt NInf _ = True"
| "flt_lt _ PInf = True"
| "flt_lt _ _ = False"

text \<open>
  Python's \<open>max(a, b)\<close> keeps \<open>a\<close> unless \<open>b > a\<close>, and \<open>min(a, b)\<close> keeps \<open>a\<close> unless
  \<open>b < a\<close>; every comparison with NaN is false.
\<close>

definition py_max :: "pyfloat \<Rightarrow> pyfloat \<Rightarrow> pyfloat" where
  "py_max a b = (if flt_lt a b then b else a)"

definition py_min :: "pyfloat \<Rightarrow> pyfloat \<Rightarrow> pyfloat" where
  "py_min a b = (if flt_lt b a then b else a)"

text \<open>A decimal literal read as a float: beyond the largest double it is infinite.\<close>

definition float_of_rat :: "rat \<Rightarrow> pyfloat" where
  "float_of_rat q =
     (if q \<ge> 2 ^ 1024 - 2 ^ 970 then PInf else if q \<le> - (2 ^ 1024 - 2 ^ 970) then NInf else Fin q)"

text \<open>\<open>max(0.0, min(1.0, x))\<close> is a number of the unit interval whatever \<open>x\<close> is, NaN included.\<close>

definition clamp01 :: "pyfloat \<Rightarrow> rat" where
  "clamp01 x = (case py_max (Fin 0) (py_min (Fin 1) x) of Fin q \<Rightarrow> q | _ \<Rightarrow> 1)"

lemma clamp01_range: "0 \<le> clamp01 x \<and> clamp01 x \<le> 1"
  by (cases x) (auto simp: clamp01_def py_max_def py_min_def)

lemma clamp01_cases:
  "py_max (Fin 0) (py_min (Fin 1) x) = Fin (clamp01 x)"
  by (cases x) (auto simp: clamp01_def py_max_def py_min_def)

section \<open>An encoder and its decoder\<close>

text \<open>
  \<open>enc\<close> writes a value of the domain \<open>valid\<close>, \<open>dec\<close> reads it back as \<open>norm\<close> of it (the
  identity, or the reordering a canonical encoder applies).
\<close>

locale codec =
  fixes enc :: "'a \<Rightarrow> 'b" and dec :: "'b \<Rightarrow> 'a option" and valid :: "'a \<Rightarrow> bool"
    and norm :: "'a \<Rightarrow> 'a"
  assumes dec_enc: "valid x \<Longrightarrow> dec (enc x) = Some (norm x)"
begin

lemma enc_eqD: "valid x \<Longrightarrow> valid y \<Longrightarrow> enc x = enc y \<Longrightarrow> norm x = norm y"
  using dec_enc [of x] dec_enc [of y] by simp

lemma enc_distinct: "valid x \<Longrightarrow> valid y \<Longrightarrow> norm x \<noteq> norm y \<Longrightarrow> enc x \<noteq> enc y"
  using enc_eqD by blast

end

section \<open>Byte strings and hexadecimal\<close>

type_synonym bytes = "8 word list"

definition hex_digit :: "nat \<Rightarrow> char" where
  "hex_digit n = (if n < 10 then char_of (48 + n) else char_of (87 + n))"

definition hex_val :: "char \<Rightarrow> nat option" where
  "hex_val c =
     (let n = of_char c :: nat in
      if 48 \<le> n \<and> n \<le> 57 then Some (n - 48)
      else if 97 \<le> n \<and> n \<le> 102 then Some (n - 87)
      else if 65 \<le> n \<and> n \<le> 70 then Some (n - 55)
      else None)"

lemma of_char_char_of [simp]: "n < 256 \<Longrightarrow> (of_char (char_of n) :: nat) = n"
  by (simp add: of_char_of)

lemma hex_val_digit: "n < 16 \<Longrightarrow> hex_val (hex_digit n) = Some n"
  by (auto simp: hex_val_def hex_digit_def Let_def)

text \<open>\<open>bytes.hex()\<close>: two lower-case digits for each byte.\<close>

definition bytes_hex :: "bytes \<Rightarrow> string" where
  "bytes_hex bs = concat (map (\<lambda>b. [hex_digit (unat b div 16), hex_digit (unat b mod 16)]) bs)"

definition is_ascii_space :: "char \<Rightarrow> bool" where
  "is_ascii_space c = (let n = of_char c :: nat in (9 \<le> n \<and> n \<le> 13) \<or> n = 32)"

text \<open>\<open>bytes.fromhex(s)\<close>: pairs of digits, ASCII whitespace between pairs skipped;
  \<open>None\<close> is its \<open>ValueError\<close>.\<close>

fun bytes_fromhex :: "string \<Rightarrow> bytes option" where
  "bytes_fromhex [] = Some []"
| "bytes_fromhex [c] = (if is_ascii_space c then Some [] else None)"
| "bytes_fromhex (c # d # s) =
     (if is_ascii_space c then bytes_fromhex (d # s)
      else case (hex_val c, hex_val d) of
             (Some a, Some b) \<Rightarrow> map_option ((#) (word_of_nat (16 * a + b))) (bytes_fromhex s)
           | _ \<Rightarrow> None)"

lemma hex_digit_not_space: "n < 16 \<Longrightarrow> \<not> is_ascii_space (hex_digit n)"
  by (auto simp: is_ascii_space_def hex_digit_def Let_def)

lemma unat_byte_bound: "unat (b :: 8 word) < 256"
  using unsigned_less [of b, where 'a = nat] by simp

interpretation hexc: codec bytes_hex bytes_fromhex "\<lambda>_. True" "\<lambda>bs. bs"
proof
  show "bytes_fromhex (bytes_hex bs) = Some bs" for bs
  proof (induction bs)
    case Nil
    then show ?case by (simp add: bytes_hex_def)
  next
    case (Cons b bs)
    have "unat b div 16 < 16" using unat_byte_bound [of b] by simp
    moreover have "unat b mod 16 < 16" by simp
    moreover have "word_of_nat (16 * (unat b div 16) + unat b mod 16) = b" by simp
    ultimately show ?case
      using Cons by (simp add: bytes_hex_def hex_val_digit hex_digit_not_space)
  qed
qed

section \<open>Decimal numerals\<close>

definition is_digit :: "char \<Rightarrow> bool" where
  "is_digit c = (let n = of_char c :: nat in 48 \<le> n \<and> n \<le> 57)"

definition digit_val :: "char \<Rightarrow> nat" where
  "digit_val c = of_char c - 48"

definition dec_digit :: "nat \<Rightarrow> char" where
  "dec_digit n = char_of (48 + n)"

fun dec_nat :: "nat \<Rightarrow> string" where
  "dec_nat n = (if n < 10 then [dec_digit n] else dec_nat (n div 10) @ [dec_digit (n mod 10)])"

declare dec_nat.simps [simp del]

definition dec_int :: "int \<Rightarrow> string" where
  "dec_int i = (if i < 0 then CHR ''-'' # dec_nat (nat (- i)) else dec_nat (nat i))"

definition digits_val :: "string \<Rightarrow> nat" where
  "digits_val s = foldl (\<lambda>a c. 10 * a + digit_val c) 0 s"

lemma dec_digit_simps [simp]:
  "n < 10 \<Longrightarrow> is_digit (dec_digit n)"
  "n < 10 \<Longrightarrow> digit_val (dec_digit n) = n"
  by (auto simp: is_digit_def digit_val_def dec_digit_def Let_def)

lemma dec_nat_digits: "list_all is_digit (dec_nat n)"
  by (induction n rule: dec_nat.induct) (subst dec_nat.simps, simp)

lemma dec_nat_nonempty [simp]: "dec_nat n \<noteq> []"
  by (subst dec_nat.simps) simp

lemma digits_val_snoc [simp]: "digits_val (s @ [c]) = 10 * digits_val s + digit_val c"
  by (simp add: digits_val_def)

lemma digits_val_dec_nat [simp]: "digits_val (dec_nat n) = n"
proof (induction n rule: dec_nat.induct)
  case (1 n)
  show ?case
  proof (cases "n < 10")
    case True
    then show ?thesis by (subst dec_nat.simps) (simp add: digits_val_def)
  next
    case False
    with 1 show ?thesis by (subst dec_nat.simps) simp
  qed
qed

text \<open>The numeral of a positive number has no leading zero.\<close>

lemma dec_nat_hd: "0 < n \<Longrightarrow> hd (dec_nat n) \<noteq> CHR ''0''"
proof (induction n rule: dec_nat.induct)
  case (1 n)
  show ?case
  proof (cases "n < 10")
    case True
    have "of_char (dec_digit n) \<noteq> (of_char CHR ''0'' :: nat)"
      using True 1 by (simp add: dec_digit_def)
    with True show ?thesis by (subst dec_nat.simps) auto
  next
    case False
    with 1 show ?thesis by (subst dec_nat.simps) (simp add: hd_append)
  qed
qed

lemma dec_nat_0 [simp]: "dec_nat 0 = ''0''"
  by (subst dec_nat.simps) (simp add: dec_digit_def, code_simp)

section \<open>Text\<close>

definition is_space :: "char \<Rightarrow> bool" where
  "is_space c = (let n = of_char c :: nat in
     (9 \<le> n \<and> n \<le> 13) \<or> (28 \<le> n \<and> n \<le> 32) \<or> n = 133 \<or> n = 160)"

definition py_strip :: "string \<Rightarrow> string" where
  "py_strip s = rev (dropWhile is_space (rev (dropWhile is_space s)))"

text \<open>\<open>re.sub("\s+", " ", s)\<close>.\<close>

fun collapse :: "bool \<Rightarrow> string \<Rightarrow> string" where
  "collapse gap [] = []"
| "collapse gap (c # s) = (if is_space c then (if gap then [] else '' '') @ collapse True s else c # collapse False s)"

definition join :: "string \<Rightarrow> string list \<Rightarrow> string" where
  "join sep xs = (case xs of [] \<Rightarrow> [] | x # ys \<Rightarrow> x @ concat (map (\<lambda>y. sep @ y) ys))"

lemma join_simps [simp]:
  "join sep [] = []"
  "join sep [x] = x"
  "join sep (x # y # ys) = x @ sep @ join sep (y # ys)"
  by (simp_all add: join_def)

section \<open>Keyed row lists\<close>

text \<open>
  A table is the list of its rows in row-id order. \<open>tget\<close> is a \<open>SELECT\<close> by key, \<open>tput\<close> an
  upsert, \<open>tins\<close> an \<open>INSERT OR IGNORE\<close>, \<open>tupd\<close> an \<open>UPDATE\<close> and \<open>tdel\<close> a \<open>DELETE\<close> by key.
\<close>

definition tget :: "('r \<Rightarrow> 'k) \<Rightarrow> 'k \<Rightarrow> 'r list \<Rightarrow> 'r option" where
  "tget key k t = find (\<lambda>r. key r = k) t"

fun tput :: "('r \<Rightarrow> 'k) \<Rightarrow> 'r \<Rightarrow> 'r list \<Rightarrow> 'r list" where
  "tput key r [] = [r]"
| "tput key r (x # xs) = (if key x = key r then r # xs else x # tput key r xs)"

definition tins :: "('r \<Rightarrow> 'k) \<Rightarrow> 'r \<Rightarrow> 'r list \<Rightarrow> 'r list" where
  "tins key r t = (if tget key (key r) t = None then t @ [r] else t)"

definition tupd :: "('r \<Rightarrow> 'k) \<Rightarrow> 'k \<Rightarrow> ('r \<Rightarrow> 'r) \<Rightarrow> 'r list \<Rightarrow> 'r list" where
  "tupd key k f t = map (\<lambda>r. if key r = k then f r else r) t"

definition tdel :: "('r \<Rightarrow> 'k) \<Rightarrow> 'k \<Rightarrow> 'r list \<Rightarrow> 'r list" where
  "tdel key k t = filter (\<lambda>r. key r \<noteq> k) t"

lemma tget_Nil [simp]: "tget key k [] = None"
  by (simp add: tget_def)

lemma tget_Cons [simp]: "tget key k (r # t) = (if key r = k then Some r else tget key k t)"
  by (simp add: tget_def)

lemma tget_append [simp]:
  "tget key k (t @ u) = (case tget key k t of None \<Rightarrow> tget key k u | Some r \<Rightarrow> Some r)"
  by (induction t) auto

lemma tget_key: "tget key k t = Some r \<Longrightarrow> key r = k"
  by (induction t) (auto split: if_splits)

lemma tget_mem: "tget key k t = Some r \<Longrightarrow> r \<in> set t"
  by (induction t) (auto split: if_splits)

lemma tget_None_iff: "tget key k t = None \<longleftrightarrow> k \<notin> key ` set t"
  by (induction t) auto

lemma tget_distinct: "distinct (map key t) \<Longrightarrow> r \<in> set t \<Longrightarrow> tget key (key r) t = Some r"
  by (induction t) (auto simp: image_iff)

lemma tget_tput [tbl_simps]:
  "tget key k (tput key r t) = (if key r = k then Some r else tget key k t)"
  by (induction t) auto

lemma tget_tins [tbl_simps]:
  "tget key k (tins key r t) =
     (if key r = k \<and> tget key k t = None then Some r else tget key k t)"
  by (auto simp: tins_def split: option.splits)

lemma tget_tupd [tbl_simps]:
  "(\<And>r. key r = k \<Longrightarrow> key (f r) = k) \<Longrightarrow>
   tget key k' (tupd key k f t) =
     (if k' = k then map_option f (tget key k t) else tget key k' t)"
  by (induction t) (auto simp: tupd_def)

lemma tget_tdel [tbl_simps]:
  "tget key k' (tdel key k t) = (if k' = k then None else tget key k' t)"
  by (induction t) (auto simp: tdel_def)

lemma keys_tput: "key ` set (tput key r t) = insert (key r) (key ` set t)"
  by (induction t) auto

lemma distinct_tput: "distinct (map key t) \<Longrightarrow> distinct (map key (tput key r t))"
proof (induction t)
  case (Cons x t)
  then show ?case using keys_tput [of key r t] by auto
qed simp

lemma distinct_tins: "distinct (map key t) \<Longrightarrow> distinct (map key (tins key r t))"
  by (auto simp: tins_def tget_None_iff)

lemma map_key_tupd: "(\<And>r. key r = k \<Longrightarrow> key (f r) = k) \<Longrightarrow> map key (tupd key k f t) = map key t"
  by (induction t) (auto simp: tupd_def)

lemma distinct_tdel: "distinct (map key t) \<Longrightarrow> distinct (map key (tdel key k t))"
  by (simp add: tdel_def distinct_map_filter)

lemmas distinct_table = distinct_tput distinct_tins distinct_tdel

end
