(* ===== verification/Regex.thy ===== *)
theory Regex
  imports Prelude
begin

text \<open>
  The part of Python's \<open>re\<close> that the privacy gate uses (\<open>kindled_link/privacy_gate.py\<close>): a
  pattern is a sequence of items, \<open>search\<close> says whether \<open>p.search(text)\<close> finds a match. Which
  match is found does not matter to the gate, so the greedy order of the engine is not modelled.
  The reference is the relation \<open>den\<close> between a pattern and the texts it matches.
\<close>

section \<open>Patterns\<close>

text \<open>
  One character of a class, at least \<open>n\<close> characters of a class, a choice between sequences, a word
  boundary \<open>\b\<close>, and the start of the text \<open>^\<close>.
\<close>

datatype item = Cls "char \<Rightarrow> bool" | Rep nat "char \<Rightarrow> bool" | Alt "item list list" | Bnd | Bol

text \<open>\<open>\w\<close> and \<open>\s\<close> on the first 256 code points.\<close>

definition is_word :: "char \<Rightarrow> bool" where
  "is_word c = (let n = of_char c :: nat in
     (48 \<le> n \<and> n \<le> 57) \<or> (65 \<le> n \<and> n \<le> 90) \<or> n = 95 \<or> (97 \<le> n \<and> n \<le> 122) \<or>
     n \<in> {170, 178, 179, 181, 185, 186, 188, 189, 190} \<or> (192 \<le> n \<and> n \<noteq> 215 \<and> n \<noteq> 247))"

fun word_at :: "char option \<Rightarrow> bool" where
  "word_at None = False"
| "word_at (Some c) = is_word c"

fun head_of :: "string \<Rightarrow> char option" where
  "head_of [] = None"
| "head_of (c # s) = Some c"

fun last_or :: "char option \<Rightarrow> string \<Rightarrow> char option" where
  "last_or p [] = p"
| "last_or p (c # s) = last_or (Some c) s"

fun weight :: "item \<Rightarrow> nat" where
  "weight (Alt alts) = Suc (sum_list (map (\<lambda>a. sum_list (map weight a)) alts))"
| "weight _ = 1"

lemma weight_alt: "a \<in> set alts \<Longrightarrow> sum_list (map weight a) < weight (Alt alts)"
  using member_le_sum_list [of "sum_list (map weight a)" "map (\<lambda>a. sum_list (map weight a)) alts"] by simp

text \<open>Does a match of the pattern start here, after the character \<open>prev\<close>?\<close>

function (sequential) match_here :: "item list \<Rightarrow> char option \<Rightarrow> string \<Rightarrow> bool" where
  "match_here [] prev s = True"
| "match_here (Cls c # r) prev [] = False"
| "match_here (Cls c # r) prev (x # s) = (c x \<and> match_here r (Some x) s)"
| "match_here (Rep 0 c # r) prev s =
     (match_here r prev s \<or> (case s of [] \<Rightarrow> False | x # s' \<Rightarrow> c x \<and> match_here (Rep 0 c # r) (Some x) s'))"
| "match_here (Rep (Suc n) c # r) prev [] = False"
| "match_here (Rep (Suc n) c # r) prev (x # s) = (c x \<and> match_here (Rep n c # r) (Some x) s)"
| "match_here (Alt alts # r) prev s = list_ex (\<lambda>a. match_here (a @ r) prev s) alts"
| "match_here (Bnd # r) prev s = (word_at prev \<noteq> word_at (head_of s) \<and> match_here r prev s)"
| "match_here (Bol # r) prev s = (prev = None \<and> match_here r prev s)"
  by pat_completeness auto

termination
  by (relation "measures [\<lambda>(p, prev, s). length s, \<lambda>(p, prev, s). sum_list (map weight p)]")
    (auto dest: weight_alt)

lemma match_rep0 [simp]:
  "match_here (Rep 0 c # r) prev [] = match_here r prev []"
  "match_here (Rep 0 c # r) prev (x # s) = (match_here r prev (x # s) \<or> c x \<and> match_here (Rep 0 c # r) (Some x) s)"
  by simp_all

declare match_here.simps(4) [simp del]

fun search_from :: "item list \<Rightarrow> char option \<Rightarrow> string \<Rightarrow> bool" where
  "search_from p prev [] = match_here p prev []"
| "search_from p prev (x # s) = (match_here p prev (x # s) \<or> search_from p (Some x) s)"

definition search :: "item list \<Rightarrow> string \<Rightarrow> bool" where
  "search p s = search_from p None s"

text \<open>Shorthands the patterns are written with.\<close>

definition rng :: "char \<Rightarrow> char \<Rightarrow> char \<Rightarrow> bool" where
  "rng a b c \<longleftrightarrow> (of_char a :: nat) \<le> of_char c \<and> (of_char c :: nat) \<le> of_char b"

definition lit_of :: "string \<Rightarrow> item list" where
  "lit_of s = map (\<lambda>c. Cls (\<lambda>x. x = c)) s"

definition opt :: "item list \<Rightarrow> item" where
  "opt p = Alt [[], p]"

section \<open>What a pattern means\<close>

text \<open>\<open>den p prev u v\<close>: the pattern matches \<open>u\<close> when \<open>prev\<close> stands before it and \<open>v\<close> follows.\<close>

inductive den :: "item list \<Rightarrow> char option \<Rightarrow> string \<Rightarrow> string \<Rightarrow> bool" where
  den_nil: "den [] prev [] v"
| den_cls: "c x \<Longrightarrow> den r (Some x) u v \<Longrightarrow> den (Cls c # r) prev (x # u) v"
| den_rep: "n \<le> length w \<Longrightarrow> list_all c w \<Longrightarrow> den r (last_or prev w) u v \<Longrightarrow> den (Rep n c # r) prev (w @ u) v"
| den_alt: "a \<in> set alts \<Longrightarrow> den (a @ r) prev u v \<Longrightarrow> den (Alt alts # r) prev u v"
| den_bnd: "word_at prev \<noteq> word_at (head_of (u @ v)) \<Longrightarrow> den r prev u v \<Longrightarrow> den (Bnd # r) prev u v"
| den_bol: "den r None u v \<Longrightarrow> den (Bol # r) None u v"

inductive_cases den_nilE: "den [] prev u v"
inductive_cases den_clsE: "den (Cls c # r) prev u v"
inductive_cases den_repE: "den (Rep n c # r) prev u v"
inductive_cases den_altE: "den (Alt alts # r) prev u v"
inductive_cases den_bndE: "den (Bnd # r) prev u v"
inductive_cases den_bolE: "den (Bol # r) prev u v"

lemmas den_elims = den_nilE den_clsE den_altE den_bndE den_bolE

lemma match_sound: "match_here p prev s \<Longrightarrow> \<exists>u v. s = u @ v \<and> den p prev u v"
proof (induction p prev s rule: match_here.induct)
  case (4 c r prev s)
  then consider "match_here r prev s" | x s' where "s = x # s'" "c x" "match_here (Rep 0 c # r) (Some x) s'"
    by (cases s) auto
  then show ?case
  proof cases
    case 1
    with 4 obtain u v where uv: "s = u @ v" "den r prev u v" by blast
    then show ?thesis using den_rep [of 0 "[]" c r prev u v] by auto
  next
    case 2
    with 4 obtain u v where "s' = u @ v" "den (Rep 0 c # r) (Some x) u v" by blast
    then obtain w u' where "u = w @ u'" "list_all c w" "den r (last_or (Some x) w) u' v" by (auto elim: den_repE)
    then have "den (Rep 0 c # r) prev ((x # w) @ u') v" using \<open>c x\<close> by (intro den_rep) auto
    moreover have "s = ((x # w) @ u') @ v" using \<open>s = x # s'\<close> \<open>s' = u @ v\<close> \<open>u = w @ u'\<close> by simp
    ultimately show ?thesis by blast
  qed
next
  case (6 n c r prev x s)
  then obtain u v where "s = u @ v" "den (Rep n c # r) (Some x) u v" by auto
  then obtain w u' where "u = w @ u'" "n \<le> length w" "list_all c w" "den r (last_or (Some x) w) u' v" by (auto elim: den_repE)
  then have "den (Rep (Suc n) c # r) prev ((x # w) @ u') v" using 6 by (intro den_rep) auto
  moreover have "x # s = ((x # w) @ u') @ v" using \<open>s = u @ v\<close> \<open>u = w @ u'\<close> by simp
  ultimately show ?case by blast
next
  case (1 prev s)
  show ?case by (metis append_Nil den_nil)
next
  case (3 c r prev x s)
  then obtain u v where "s = u @ v" "den r (Some x) u v" "c x" by auto
  then show ?case by (metis append_Cons den_cls)
next
  case (7 alts r prev s)
  then obtain a where a: "a \<in> set alts" "match_here (a @ r) prev s" by (auto simp: list_ex_iff)
  with 7 obtain u v where "s = u @ v" "den (a @ r) prev u v" by blast
  then show ?case using a den_alt by blast
next
  case (8 r prev s)
  then obtain u v where "s = u @ v" "den r prev u v" "word_at prev \<noteq> word_at (head_of s)" by auto
  then show ?case using den_bnd by blast
next
  case (9 r prev s)
  then obtain u v where "s = u @ v" "den r None u v" "prev = None" by auto
  then show ?case using den_bol by blast
qed simp_all

lemma match_rep:
  "n \<le> length w \<Longrightarrow> list_all c w \<Longrightarrow> match_here r (last_or prev w) s \<Longrightarrow> match_here (Rep n c # r) prev (w @ s)"
proof (induction w arbitrary: n prev)
  case (Cons x w)
  then show ?case by (cases n) auto
next
  case Nil
  then show ?case by (cases s) auto
qed

lemma match_complete: "den p prev u v \<Longrightarrow> match_here p prev (u @ v)"
  by (induction rule: den.induct) (auto simp: list_ex_iff intro: match_rep)

lemma match_here_iff: "match_here p prev s \<longleftrightarrow> (\<exists>u v. s = u @ v \<and> den p prev u v)"
  using match_sound match_complete by blast

lemma search_from_iff:
  "search_from p prev s \<longleftrightarrow> (\<exists>a u v. s = a @ u @ v \<and> den p (last_or prev a) u v)"
proof (induction s arbitrary: prev)
  case Nil
  then show ?case by (auto simp: match_here_iff)
next
  case (Cons x s)
  note IH = Cons.IH
  show ?case
  proof
    assume "search_from p prev (x # s)"
    then show "\<exists>a u v. x # s = a @ u @ v \<and> den p (last_or prev a) u v"
    proof (unfold search_from.simps, elim disjE)
      assume "match_here p prev (x # s)"
      then obtain u v where "x # s = u @ v" "den p prev u v" by (auto simp: match_here_iff)
      then show ?thesis by (metis append_Nil last_or.simps(1))
    next
      assume "search_from p (Some x) s"
      then obtain a u v where "s = a @ u @ v" "den p (last_or (Some x) a) u v" using IH by blast
      then show ?thesis by (metis append_Cons last_or.simps(2))
    qed
  next
    assume "\<exists>a u v. x # s = a @ u @ v \<and> den p (last_or prev a) u v"
    then obtain a u v where auv: "x # s = a @ u @ v" "den p (last_or prev a) u v" by blast
    then show "search_from p prev (x # s)"
    proof (cases a)
      case Nil
      then have "match_here p prev (x # s)" using auv match_here_iff [of p prev "x # s"] by auto
      then show ?thesis by simp
    next
      case (Cons y a')
      then have "s = a' @ u @ v" "den p (last_or (Some x) a') u v" using auv by auto
      then show ?thesis using IH by auto
    qed
  qed
qed

text \<open>
  \<open>search\<close> finds exactly what the pattern describes: it answers true when, and only when, some
  part of the text, read between what stands before it and what follows it, is matched by the
  pattern's items one after the other.
\<close>

lemma search_correct:
  "search p s \<longleftrightarrow> (\<exists>before u after. s = before @ u @ after \<and> den p (last_or None before) u after)"
  by (simp add: search_def search_from_iff)

end
