(* ===== verification/Json.thy ===== *)
theory Json
  imports Prelude "HOL-Library.Monad_Syntax"
begin

text \<open>
  JSON values as Python holds them, the conversions \<open>int()\<close>, \<open>float()\<close>, \<open>str()\<close> and the
  truth test on them, UTF-8, \<open>json.dumps\<close> with the keys in their own order or sorted (\<open>canonical_json\<close> of
  \<open>kindled_link/codec.py\<close>) and \<open>json.loads\<close>. The main facts: a text with either kind of separators reads
  back as its value, and a canonical text as the value with its keys sorted, so the text determines the value.

  The record \<open>ext\<close> collects the functions of code outside the repository (cryptography,
  SQLite, the Unicode tables, the float printer); every definition that needs one takes
  \<open>ext\<close> as an argument.
\<close>

section \<open>Values\<close>

datatype json =
    JNull | JBool bool | JInt int | JFloat pyfloat | JStr string
  | JList "json list" | JObj "(string \<times> json) list"

type_synonym dict = "(string \<times> json) list"

record ext =
  sha256 :: "bytes \<Rightarrow> bytes"
  ed_pub :: "bytes \<Rightarrow> bytes"
  ed_sign :: "bytes \<Rightarrow> bytes \<Rightarrow> bytes"
  ed_verify :: "bytes \<Rightarrow> bytes \<Rightarrow> bytes \<Rightarrow> bool"
  x_pub :: "bytes \<Rightarrow> bytes"
  x_exchange :: "bytes \<Rightarrow> bytes \<Rightarrow> bytes option"
  hkdf :: "bytes \<Rightarrow> bytes \<Rightarrow> bytes \<Rightarrow> bytes"
  aead_enc :: "bytes \<Rightarrow> bytes \<Rightarrow> bytes \<Rightarrow> bytes \<Rightarrow> bytes"
  aead_dec :: "bytes \<Rightarrow> bytes \<Rightarrow> bytes \<Rightarrow> bytes \<Rightarrow> bytes option"
  float_repr :: "rat \<Rightarrow> string"
  sqlite_real :: "rat \<Rightarrow> string"
  py_repr :: "json \<Rightarrow> string"
  nfc :: "string \<Rightarrow> string"
  casefold :: "string \<Rightarrow> string"

definition dget :: "string \<Rightarrow> dict \<Rightarrow> json option" where
  "dget k d = map_of d k"

fun dset :: "string \<Rightarrow> json \<Rightarrow> dict \<Rightarrow> dict" where
  "dset k v [] = [(k, v)]"
| "dset k v (p # d) = (if fst p = k then (k, v) # d else p # dset k v d)"

definition dict_of :: "(string \<times> json) list \<Rightarrow> dict" where
  "dict_of ps = foldl (\<lambda>d p. dset (fst p) (snd p) d) [] ps"

text \<open>\<open>d.get(k)\<close> and \<open>d.get(k, default)\<close>.\<close>

definition dget_or :: "string \<Rightarrow> json \<Rightarrow> dict \<Rightarrow> json" where
  "dget_or k v d = (case dget k d of None \<Rightarrow> v | Some x \<Rightarrow> x)"

lemma dget_simps [simp]:
  "dget k [] = None"
  "dget k ((k', v) # d) = (if k' = k then Some v else dget k d)"
  by (simp_all add: dget_def)

lemma dget_dset: "dget k (dset k' v d) = (if k = k' then Some v else dget k d)"
  by (induction d) (auto simp: dget_def)

lemma dset_fresh: "k \<notin> fst ` set d \<Longrightarrow> dset k v d = d @ [(k, v)]"
  by (induction d) auto

lemma dict_of_distinct: "distinct (map fst ps) \<Longrightarrow> dict_of ps = ps"
proof (induction ps rule: rev_induct)
  case (snoc p ps)
  then show ?case by (cases p) (auto simp: dict_of_def dset_fresh)
qed (simp add: dict_of_def)

fun truthy :: "json \<Rightarrow> bool" where
  "truthy JNull = False"
| "truthy (JBool b) = b"
| "truthy (JInt i) = (i \<noteq> 0)"
| "truthy (JFloat f) = (f \<noteq> Fin 0)"
| "truthy (JStr s) = (s \<noteq> [])"
| "truthy (JList xs) = (xs \<noteq> [])"
| "truthy (JObj d) = (d \<noteq> [])"

section \<open>Conversions\<close>

fun us_digits :: "bool \<Rightarrow> string \<Rightarrow> string option" where
  "us_digits p [] = (if p then Some [] else None)"
| "us_digits p (c # s) =
     (if is_digit c then map_option ((#) c) (us_digits True s)
      else if c = CHR ''_'' \<and> p then us_digits False s else None)"

definition split_sign :: "string \<Rightarrow> bool \<times> string" where
  "split_sign s =
     (case s of c # r \<Rightarrow> if c = CHR ''-'' then (True, r) else if c = CHR ''+'' then (False, r) else (False, s)
      | [] \<Rightarrow> (False, s))"

definition py_int_str :: "string \<Rightarrow> int res" where
  "py_int_str s =
     (let (neg, t) = split_sign (py_strip s) in
      case us_digits False t of
        None \<Rightarrow> Inl ValueError
      | Some ds \<Rightarrow> Inr (if neg then - int (digits_val ds) else int (digits_val ds)))"

text \<open>\<open>int(x)\<close>: an infinite float is an \<open>OverflowError\<close>, NaN a \<open>ValueError\<close>.\<close>

fun py_int :: "json \<Rightarrow> int res" where
  "py_int JNull = Inl TypeError"
| "py_int (JBool b) = Inr (of_bool b)"
| "py_int (JInt i) = Inr i"
| "py_int (JFloat (Fin q)) = Inr (if q < 0 then \<lceil>q\<rceil> else \<lfloor>q\<rfloor>)"
| "py_int (JFloat NaN) = Inl ValueError"
| "py_int (JFloat _) = Inl OverflowError"
| "py_int (JStr s) = py_int_str s"
| "py_int (JList _) = Inl TypeError"
| "py_int (JObj _) = Inl TypeError"

definition lower :: "string \<Rightarrow> string" where
  "lower s = map (\<lambda>c. let n = of_char c :: nat in if 65 \<le> n \<and> n \<le> 90 then char_of (n + 32) else c) s"

text \<open>The value of \<open>ip.fr\<close> times ten to the power \<open>e\<close>.\<close>

definition dec_value :: "string \<Rightarrow> string \<Rightarrow> int \<Rightarrow> rat" where
  "dec_value ip fr e =
     of_nat (digits_val (ip @ fr))
       * (if int (length fr) \<le> e then 10 ^ nat (e - int (length fr)) else 1 / 10 ^ nat (int (length fr) - e))"

definition signed :: "bool \<Rightarrow> rat \<Rightarrow> rat" where
  "signed neg q = (if neg then - q else q)"

definition opt_digits :: "string \<Rightarrow> string option" where
  "opt_digits s = (if s = [] then Some [] else us_digits False s)"

definition py_float_str :: "string \<Rightarrow> pyfloat res" where
  "py_float_str s =
     (let (neg, t) = split_sign (py_strip s) in
      if lower t = ''nan'' then Inr NaN
      else if lower t = ''inf'' \<or> lower t = ''infinity'' then Inr (if neg then NInf else PInf)
      else
        let man = takeWhile (\<lambda>c. c \<noteq> CHR ''e'' \<and> c \<noteq> CHR ''E'') t;
            ex = drop (length man) t;
            ip = takeWhile (\<lambda>c. c \<noteq> CHR ''.'') man;
            fr = drop (Suc (length ip)) man;
            e = (if ex = [] then Inr 0
                 else let (en, ed) = split_sign (tl ex) in
                      case us_digits False ed of None \<Rightarrow> Inl ValueError
                      | Some ds \<Rightarrow> Inr (if en then - int (digits_val ds) else int (digits_val ds)))
        in case (opt_digits ip, opt_digits fr, e) of
             (Some a, Some b, Inr k) \<Rightarrow>
               if a = [] \<and> b = [] then Inl ValueError
               else Inr (float_of_rat (signed neg (dec_value a b k)))
           | _ \<Rightarrow> Inl ValueError)"

text \<open>\<open>float(x)\<close>: an \<open>int\<close> beyond the largest double is an \<open>OverflowError\<close>.\<close>

fun py_float :: "json \<Rightarrow> pyfloat res" where
  "py_float JNull = Inl TypeError"
| "py_float (JBool b) = Inr (Fin (of_bool b))"
| "py_float (JInt i) =
     (case float_of_rat (of_int i) of Fin q \<Rightarrow> Inr (Fin q) | _ \<Rightarrow> Inl OverflowError)"
| "py_float (JFloat f) = Inr f"
| "py_float (JStr s) = py_float_str s"
| "py_float (JList _) = Inl TypeError"
| "py_float (JObj _) = Inl TypeError"

definition float_text :: "ext \<Rightarrow> pyfloat \<Rightarrow> string" where
  "float_text X f = (case f of Fin q \<Rightarrow> float_repr X q | PInf \<Rightarrow> ''inf'' | NInf \<Rightarrow> ''-inf'' | NaN \<Rightarrow> ''nan'')"

fun py_str :: "ext \<Rightarrow> json \<Rightarrow> string" where
  "py_str X JNull = ''None''"
| "py_str X (JBool b) = (if b then ''True'' else ''False'')"
| "py_str X (JInt i) = dec_int i"
| "py_str X (JFloat f) = float_text X f"
| "py_str X (JStr s) = s"
| "py_str X j = py_repr X j"

section \<open>UTF-8\<close>

definition utf8_enc :: "string \<Rightarrow> bytes" where
  "utf8_enc s = concat (map (\<lambda>c. let n = of_char c :: nat in
     if n < 128 then [word_of_nat n] else [word_of_nat (192 + n div 64), word_of_nat (128 + n mod 64)]) s)"

text \<open>\<open>None\<close>: the bytes are not UTF-8, or encode a code point the model has no \<open>char\<close> for.\<close>

fun utf8_dec :: "bytes \<Rightarrow> string option" where
  "utf8_dec [] = Some []"
| "utf8_dec [b] = (if unat b < 128 then Some [char_of (unat b)] else None)"
| "utf8_dec (b # c # bs) =
     (if unat b < 128 then map_option ((#) (char_of (unat b))) (utf8_dec (c # bs))
      else if (unat b = 194 \<or> unat b = 195) \<and> 128 \<le> unat c \<and> unat c < 192
      then map_option ((#) (char_of (64 * (unat b - 192) + (unat c - 128)))) (utf8_dec bs)
      else None)"

lemma utf8_dec_ascii:
  "n < 128 \<Longrightarrow> utf8_dec (word_of_nat n # bs) = map_option ((#) (char_of n)) (utf8_dec bs)"
  by (cases bs) (auto simp: unat_of_nat)

lemma of_char_less_256: "(of_char c :: nat) < 256"
  by (rule nat_of_char_less_256)

interpretation utf8: codec utf8_enc utf8_dec "\<lambda>_. True" "\<lambda>s. s"
proof
  show "utf8_dec (utf8_enc s) = Some s" for s
  proof (induction s)
    case Nil
    then show ?case by (simp add: utf8_enc_def)
  next
    case (Cons c s)
    let ?n = "of_char c :: nat"
    have n: "?n < 256" by (rule of_char_less_256)
    show ?case
    proof (cases "?n < 128")
      case True
      with Cons show ?thesis by (simp add: utf8_enc_def Let_def utf8_dec_ascii)
    next
      case False
      then have q: "?n div 64 = 2 \<or> ?n div 64 = 3" using n by linarith
      define m where "m = ?n mod 64"
      have m: "m < 64" "64 * (?n div 64) + m = ?n" by (simp_all add: m_def)
      then have low: "unat (word_of_nat (128 + m) :: 8 word) = 128 + m"
        by (simp add: unat_of_nat del: of_nat_add)
      have step: "utf8_dec (utf8_enc (c # s)) = Some (c # s)" if q: "?n div 64 = k" "k \<in> {2, 3}" for k
      proof -
        have "char_of (64 * k + m) = c" using q m by (metis char_of_char)
        with q low m(1) Cons False show ?thesis
          by (auto simp: utf8_enc_def Let_def m_def [symmetric] simp del: of_nat_add)
      qed
      from q show ?thesis using step by blast
    qed
  qed
qed

section \<open>Writing\<close>

definition escape_char :: "bool \<Rightarrow> char \<Rightarrow> string" where
  "escape_char ascii c =
     (let n = of_char c :: nat in
      if n = 34 then [CHR 0x5C, CHR 0x22] else if n = 92 then [CHR 0x5C, CHR 0x5C]
      else if n = 10 then [CHR 0x5C, CHR ''n''] else if n = 13 then [CHR 0x5C, CHR ''r'']
      else if n = 9 then [CHR 0x5C, CHR ''t''] else if n = 8 then [CHR 0x5C, CHR ''b'']
      else if n = 12 then [CHR 0x5C, CHR ''f'']
      else if n < 32 \<or> (ascii \<and> 126 < n)
      then [CHR 0x5C, CHR ''u'', CHR ''0'', CHR ''0'', hex_digit (n div 16), hex_digit (n mod 16)]
      else [c])"

definition quote :: "bool \<Rightarrow> string \<Rightarrow> string" where
  "quote ascii s = CHR 0x22 # concat (map (escape_char ascii) s) @ [CHR 0x22]"

definition json_float :: "ext \<Rightarrow> pyfloat \<Rightarrow> string" where
  "json_float X f = (case f of Fin q \<Rightarrow> float_repr X q | PInf \<Rightarrow> ''Infinity'' | NInf \<Rightarrow> ''-Infinity'' | NaN \<Rightarrow> ''NaN'')"

text \<open>
  \<open>json.dumps(x, sort_keys=True, separators=(isep, ksep), ensure_ascii=ascii)\<close>.
\<close>

fun dumps :: "ext \<Rightarrow> string \<Rightarrow> string \<Rightarrow> bool \<Rightarrow> json \<Rightarrow> string" where
  "dumps X isep ksep ascii JNull = ''null''"
| "dumps X isep ksep ascii (JBool b) = (if b then ''true'' else ''false'')"
| "dumps X isep ksep ascii (JInt i) = dec_int i"
| "dumps X isep ksep ascii (JFloat f) = json_float X f"
| "dumps X isep ksep ascii (JStr s) = quote ascii s"
| "dumps X isep ksep ascii (JList xs) = ''['' @ join isep (map (dumps X isep ksep ascii) xs) @ '']''"
| "dumps X isep ksep ascii (JObj d) =
     ''{'' @ join isep (map (\<lambda>(k, t). quote ascii k @ ksep @ t)
        (sort_key fst (map (\<lambda>(k, v). (k, dumps X isep ksep ascii v)) d))) @ ''}''"

text \<open>\<open>json.dumps(x, separators=(isep, ksep), ensure_ascii=ascii)\<close>: the keys in their own order.\<close>

fun json_text :: "ext \<Rightarrow> string \<Rightarrow> string \<Rightarrow> bool \<Rightarrow> json \<Rightarrow> string" where
  "json_text X isep ksep ascii (JList xs) = ''['' @ join isep (map (json_text X isep ksep ascii) xs) @ '']''"
| "json_text X isep ksep ascii (JObj d) =
     ''{'' @ join isep (map (\<lambda>(k, v). quote ascii k @ ksep @ json_text X isep ksep ascii v) d) @ ''}''"
| "json_text X isep ksep ascii j = dumps X isep ksep ascii j"

abbreviation canon_text :: "ext \<Rightarrow> json \<Rightarrow> string" where
  "canon_text X j \<equiv> dumps X '','' '':'' False j"

definition canonical_json :: "ext \<Rightarrow> json \<Rightarrow> bytes" where
  "canonical_json X j = utf8_enc (canon_text X j)"

section \<open>Reading\<close>

definition skip_ws :: "string \<Rightarrow> string" where
  "skip_ws s = dropWhile (\<lambda>c. let n = of_char c :: nat in n = 32 \<or> n = 9 \<or> n = 10 \<or> n = 13) s"

definition unescape :: "char \<Rightarrow> char option" where
  "unescape c =
     (let n = of_char c :: nat in
      if n = 34 \<or> n = 92 \<or> n = 47 then Some c else if n = 98 then Some (char_of (8 :: nat))
      else if n = 102 then Some (char_of (12 :: nat)) else if n = 110 then Some (char_of (10 :: nat))
      else if n = 114 then Some (char_of (13 :: nat)) else if n = 116 then Some (char_of (9 :: nat)) else None)"

text \<open>The rest of a string after its opening quote; an escape \<open>\u\<close> beyond U+00FF is outside the model.\<close>

fun scan_str :: "string \<Rightarrow> (string \<times> string) option" where
  "scan_str [] = None"
| "scan_str (c # s) =
     (if of_char c = (34 :: nat) then Some ([], s)
      else if of_char c = (92 :: nat) then
        (case s of
           [] \<Rightarrow> None
         | e # s' \<Rightarrow>
             if e = CHR ''u'' then
               (case s' of a # b # x # y # t \<Rightarrow>
                  (case (hex_val a, hex_val b, hex_val x, hex_val y) of
                     (Some 0, Some 0, Some p, Some q) \<Rightarrow>
                       map_option (\<lambda>(v, r). (char_of (16 * p + q) # v, r)) (scan_str t)
                   | _ \<Rightarrow> None)
                | _ \<Rightarrow> None)
             else (case unescape e of None \<Rightarrow> None
                   | Some z \<Rightarrow> map_option (\<lambda>(v, r). (z # v, r)) (scan_str s')))
      else if of_char c < (32 :: nat) then None
      else map_option (\<lambda>(v, r). (c # v, r)) (scan_str s))"

definition scan_frac :: "string \<Rightarrow> string \<times> string" where
  "scan_frac s =
     (case s of c # r \<Rightarrow> if c = CHR ''.'' \<and> takeWhile is_digit r \<noteq> []
                      then (takeWhile is_digit r, dropWhile is_digit r) else ([], s)
      | [] \<Rightarrow> ([], s))"

definition scan_exp :: "string \<Rightarrow> int option \<times> string" where
  "scan_exp s =
     (case s of c # r \<Rightarrow>
        if c = CHR ''e'' \<or> c = CHR ''E'' then
          let (neg, t) = split_sign r; ds = takeWhile is_digit t in
          if ds = [] then (None, s)
          else (Some (if neg then - int (digits_val ds) else int (digits_val ds)), dropWhile is_digit t)
        else (None, s)
      | [] \<Rightarrow> (None, s))"

definition scan_int_part :: "string \<Rightarrow> (string \<times> string) option" where
  "scan_int_part t =
     (let ds = takeWhile is_digit t in
      if ds = [] then None else if hd ds = CHR ''0'' then Some (''0'', tl t)
      else Some (ds, dropWhile is_digit t))"

definition scan_unsigned :: "bool \<Rightarrow> string \<Rightarrow> (json \<times> string) option" where
  "scan_unsigned neg t =
     (case scan_int_part t of
        None \<Rightarrow> None
      | Some (ip, u) \<Rightarrow>
          let (fr, v) = scan_frac u; (ex, w) = scan_exp v
          in if fr = [] \<and> ex = None
             then Some (JInt (if neg then - int (digits_val ip) else int (digits_val ip)), w)
             else Some (JFloat (float_of_rat (signed neg (dec_value ip fr (case ex of None \<Rightarrow> 0 | Some e \<Rightarrow> e)))), w))"

fun scan_num :: "string \<Rightarrow> (json \<times> string) option" where
  "scan_num [] = None"
| "scan_num (c # r) = (if c = CHR ''-'' then scan_unsigned True r else scan_unsigned False (c # r))"

definition lit :: "string \<Rightarrow> string \<Rightarrow> string option" where
  "lit w s = (if take (length w) s = w then Some (drop (length w) s) else None)"

definition scan_atom :: "string \<Rightarrow> (json \<times> string) option" where
  "scan_atom s =
     (case lit ''null'' s of Some r \<Rightarrow> Some (JNull, r) | None \<Rightarrow>
      case lit ''true'' s of Some r \<Rightarrow> Some (JBool True, r) | None \<Rightarrow>
      case lit ''false'' s of Some r \<Rightarrow> Some (JBool False, r) | None \<Rightarrow>
      case lit ''NaN'' s of Some r \<Rightarrow> Some (JFloat NaN, r) | None \<Rightarrow>
      case lit ''Infinity'' s of Some r \<Rightarrow> Some (JFloat PInf, r) | None \<Rightarrow>
      case lit ''-Infinity'' s of Some r \<Rightarrow> Some (JFloat NInf, r) | None \<Rightarrow> scan_num s)"

fun parse_val :: "nat \<Rightarrow> string \<Rightarrow> (json \<times> string) option"
  and parse_elems :: "nat \<Rightarrow> string \<Rightarrow> (json list \<times> string) option"
  and parse_members :: "nat \<Rightarrow> string \<Rightarrow> ((string \<times> json) list \<times> string) option" where
  "parse_val 0 s = None"
| "parse_val (Suc n) s =
     (case s of [] \<Rightarrow> None
      | c # r \<Rightarrow>
          if c = CHR 0x22 then map_option (\<lambda>(v, t). (JStr v, t)) (scan_str r)
          else if c = CHR ''['' then
            (case lit '']'' (skip_ws r) of Some t \<Rightarrow> Some (JList [], t)
             | None \<Rightarrow> map_option (\<lambda>(vs, t). (JList vs, t)) (parse_elems n (skip_ws r)))
          else if c = CHR ''{'' then
            (case lit ''}'' (skip_ws r) of Some t \<Rightarrow> Some (JObj [], t)
             | None \<Rightarrow> map_option (\<lambda>(ms, t). (JObj (dict_of ms), t)) (parse_members n (skip_ws r)))
          else scan_atom s)"
| "parse_elems 0 s = None"
| "parse_elems (Suc n) s = do {
     (v, r) \<leftarrow> parse_val n s;
     (case skip_ws r of
        [] \<Rightarrow> None
      | c # t \<Rightarrow>
          if c = CHR '']'' then Some ([v], t)
          else if c = CHR '','' then do { (vs, u) \<leftarrow> parse_elems n (skip_ws t); Some (v # vs, u) }
          else None) }"
| "parse_members 0 s = None"
| "parse_members (Suc n) s = do {
     q \<leftarrow> lit [CHR 0x22] s;
     (k, r) \<leftarrow> scan_str q;
     r \<leftarrow> lit '':'' (skip_ws r);
     (v, r) \<leftarrow> parse_val n (skip_ws r);
     (case skip_ws r of
        [] \<Rightarrow> None
      | c # t \<Rightarrow>
          if c = CHR ''}'' then Some ([(k, v)], t)
          else if c = CHR '','' then do { (ms, u) \<leftarrow> parse_members n (skip_ws t); Some ((k, v) # ms, u) }
          else None) }"

text \<open>\<open>json.loads(s)\<close>; \<open>None\<close> is its \<open>JSONDecodeError\<close>, a \<open>ValueError\<close>. The fuel is the
  length of the text, which bounds the nesting.\<close>

definition json_loads :: "string \<Rightarrow> json option" where
  "json_loads s = do {
     (v, r) \<leftarrow> parse_val (Suc (length s)) (skip_ws s);
     if skip_ws r = [] then Some v else None }"

section \<open>The round trip\<close>

text \<open>The value with the keys of every object sorted, which is equal to it as a Python value.\<close>

fun canon :: "json \<Rightarrow> json" where
  "canon (JList xs) = JList (map canon xs)"
| "canon (JObj d) = JObj (sort_key fst (map (\<lambda>(k, v). (k, canon v)) d))"
| "canon j = j"

text \<open>The values the program itself writes: no float, distinct keys.\<close>

fun plain :: "json \<Rightarrow> bool" where
  "plain (JFloat f) = False"
| "plain (JList xs) = list_all plain xs"
| "plain (JObj d) = (distinct (map fst d) \<and> list_all (\<lambda>(k, v). plain v) d)"
| "plain j = True"

definition stops :: "string \<Rightarrow> bool" where
  "stops r \<longleftrightarrow> r = [] \<or> hd r \<in> {CHR '','', CHR '']'', CHR ''}''}"

lemma stops_simps [simp]:
  "stops []" "stops (c # r) \<longleftrightarrow> c \<in> {CHR '','', CHR '']'', CHR ''}''}"
  by (simp_all add: stops_def)

lemma char_conv: "(c :: char) = d \<longleftrightarrow> (of_char c :: nat) = of_char d"
  by simp

lemma scan_str_plain:
  "n = of_char c \<Longrightarrow> 32 \<le> n \<Longrightarrow> n \<noteq> (34 :: nat) \<Longrightarrow> n \<noteq> 92 \<Longrightarrow>
   scan_str (c # s) = map_option (\<lambda>(v, r). (c # v, r)) (scan_str s)"
  by simp

lemma scan_str_u00:
  "n < 256 \<Longrightarrow>
   scan_str (CHR 0x5C # CHR ''u'' # CHR ''0'' # CHR ''0'' # hex_digit (n div 16) # hex_digit (n mod 16) # s)
     = map_option (\<lambda>(v, r). (char_of n # v, r)) (scan_str s)"
proof -
  assume "n < 256"
  then have "hex_val (hex_digit (n div 16)) = Some (n div 16)"
    "hex_val (hex_digit (n mod 16)) = Some (n mod 16)"
    by (auto intro!: hex_val_digit)
  moreover have "hex_val CHR ''0'' = Some 0" by (simp add: hex_val_def)
  ultimately show ?thesis by simp
qed

declare scan_str.simps(2) [simp del]

lemma scan_str_escape:
  "scan_str (escape_char ascii c @ s) = map_option (\<lambda>(v, r). (c # v, r)) (scan_str s)"
proof -
  let ?n = "of_char c :: nat"
  consider "?n \<in> {34, 92, 10, 13, 9, 8, 12}" | "?n \<notin> {34, 92, 10, 13, 9, 8, 12}" "?n < 32 \<or> ascii \<and> 126 < ?n"
    | "32 \<le> ?n" "?n \<noteq> 34" "?n \<noteq> 92" "\<not> (ascii \<and> 126 < ?n)" by fastforce
  then show ?thesis
  proof cases
    case 1
    then have "c \<in> {CHR 0x22, CHR 0x5C, CHR 0x0A, CHR 0x0D, CHR 0x09, CHR 0x08, CHR 0x0C}"
      by (simp only: insert_iff empty_iff char_conv) simp
    then show ?thesis
      by (elim insertE emptyE)
        (simp_all add: escape_char_def Let_def scan_str.simps(2) unescape_def, code_simp+)
  next
    case 2
    then show ?thesis using of_char_less_256 [of c]
      by (simp add: escape_char_def Let_def scan_str_u00)
  next
    case 3
    then show ?thesis by (auto simp: escape_char_def Let_def scan_str_plain)
  qed
qed

lemma scan_str_quote:
  "scan_str (concat (map (escape_char ascii) s) @ CHR 0x22 # r) = Some (s, r)"
proof (induction s)
  case Nil
  then show ?case by (simp add: scan_str.simps(2))
next
  case (Cons c s)
  then show ?case by (simp add: scan_str_escape)
qed

lemma stops_not_digit: "stops r \<Longrightarrow> r = [] \<or> \<not> is_digit (hd r)"
  by (auto simp: stops_def is_digit_def)

lemma takeWhile_digits:
  "list_all is_digit ds \<Longrightarrow> r = [] \<or> \<not> is_digit (hd r) \<Longrightarrow>
   takeWhile is_digit (ds @ r) = ds \<and> dropWhile is_digit (ds @ r) = r"
  by (induction ds; cases r) auto

lemma scan_frac_exp_stops: "stops r \<Longrightarrow> scan_frac r = ([], r) \<and> scan_exp r = (None, r)"
  by (cases r) (auto simp: scan_frac_def scan_exp_def)

lemma dec_nat_Cons: obtains c u where "dec_nat n = c # u" "is_digit c" "c \<noteq> CHR ''-''"
proof -
  obtain c u where cu: "dec_nat n = c # u" by (cases "dec_nat n") auto
  moreover have "is_digit c" using dec_nat_digits [of n] cu by simp
  moreover have "\<not> is_digit CHR ''-''" by (simp add: is_digit_def)
  ultimately show ?thesis using that by metis
qed

lemma scan_unsigned_nat:
  assumes "stops r"
  shows "scan_unsigned neg (dec_nat n @ r) = Some (JInt (if neg then - int n else int n), r)"
proof -
  have span: "takeWhile is_digit (dec_nat n @ r) = dec_nat n" "dropWhile is_digit (dec_nat n @ r) = r"
    using takeWhile_digits [OF dec_nat_digits stops_not_digit [OF assms]] by auto
  have "scan_int_part (dec_nat n @ r) = Some (dec_nat n, r)"
    using dec_nat_hd [of n] span by (cases "n = 0") (auto simp: scan_int_part_def Let_def)
  then show ?thesis
    using scan_frac_exp_stops [OF assms] by (simp add: scan_unsigned_def)
qed

lemma scan_num_int: "stops r \<Longrightarrow> scan_num (dec_int i @ r) = Some (JInt i, r)"
proof -
  assume r: "stops r"
  obtain c u where "dec_nat (nat i) = c # u" "c \<noteq> CHR ''-''" using dec_nat_Cons by metis
  then show ?thesis
    using scan_unsigned_nat [OF r, of False "nat i"] scan_unsigned_nat [OF r, of True "nat (- i)"]
    by (auto simp: dec_int_def)
qed

lemma lit_Cons [simp]:
  "lit [] s = Some s" "lit (c # w) [] = None"
  "lit (c # w) (d # s) = (if c = d then lit w s else None)"
  by (simp_all add: lit_def)

lemma scan_atom_int: "stops r \<Longrightarrow> scan_atom (dec_int i @ r) = Some (JInt i, r)"
proof -
  assume r: "stops r"
  obtain c u where cu: "dec_nat (nat \<bar>i\<bar>) = c # u" "is_digit c" using dec_nat_Cons by metis
  moreover have "\<not> is_digit x" if "x \<in> {CHR ''n'', CHR ''t'', CHR ''f'', CHR ''N'', CHR ''I'', CHR ''-''}" for x
    using that by (auto simp: is_digit_def)
  ultimately have c: "c \<notin> {CHR ''n'', CHR ''t'', CHR ''f'', CHR ''N'', CHR ''I'', CHR ''-''}" by blast
  have "dec_int i = (if i < 0 then CHR ''-'' # c # u else c # u)"
    using cu by (auto simp: dec_int_def)
  with c have "scan_atom (dec_int i @ r) = scan_num (dec_int i @ r)"
    by (auto simp: scan_atom_def)
  then show ?thesis using scan_num_int [OF r] by simp
qed

lemma skip_ws_id: "s = [] \<or> hd s \<notin> {CHR '' '', CHR 0x09, CHR 0x0A, CHR 0x0D} \<Longrightarrow> skip_ws s = s"
proof (cases s)
  case (Cons c t)
  assume "s = [] \<or> hd s \<notin> {CHR '' '', CHR 0x09, CHR 0x0A, CHR 0x0D}"
  with Cons have "of_char c \<notin> {32, 9, 10, 13 :: nat}"
    by (simp only: insert_iff empty_iff char_conv list.sel) simp
  with Cons show ?thesis by (simp add: skip_ws_def Let_def)
qed (simp add: skip_ws_def)

lemma insort_key_map:
  "(\<And>x. key' (g x) = key x) \<Longrightarrow> insort_key key' (g x) (map g xs) = map g (insort_key key x xs)"
  by (induction xs) auto

lemma sort_key_map:
  assumes "\<And>x. key' (g x) = key x"
  shows "sort_key key' (map g xs) = map g (sort_key key xs)"
  by (induction xs) (simp_all add: insort_key_map [of key' g key, OF assms])

definition first_ok :: "string \<Rightarrow> bool" where
  "first_ok s \<longleftrightarrow> s \<noteq> [] \<and> hd s \<notin> {CHR '' '', CHR 0x09, CHR 0x0A, CHR 0x0D, CHR '']'', CHR ''}''}"

lemma first_ok_append [simp]: "first_ok s \<Longrightarrow> first_ok (s @ r)"
  by (auto simp: first_ok_def)

lemma first_ok_skip [simp]: "first_ok s \<Longrightarrow> skip_ws s = s"
  by (rule skip_ws_id) (auto simp: first_ok_def)

lemma first_ok_lit: "first_ok s \<Longrightarrow> lit '']'' s = None \<and> lit ''}'' s = None"
  by (cases s) (auto simp: first_ok_def)

lemma digit_first_ok: "is_digit c \<Longrightarrow> first_ok (c # s)"
  by (auto simp: first_ok_def is_digit_def)

lemma dec_int_first:
  "first_ok (dec_int i) \<and> hd (dec_int i) \<notin> {CHR 0x22, CHR ''['', CHR ''{''} \<and> dec_int i \<noteq> []"
proof -
  have neg: "\<not> is_digit c" if "c \<in> {CHR 0x22, CHR ''['', CHR ''{''}" for c
    using that by (auto simp: is_digit_def)
  obtain c u where "dec_nat (nat i) = c # u" "is_digit c" using dec_nat_Cons by metis
  moreover from this neg have "c \<notin> {CHR 0x22, CHR ''['', CHR ''{''}" by blast
  ultimately show ?thesis using digit_first_ok [of c u] by (auto simp: dec_int_def first_ok_def)
qed

lemma quote_first_ok [simp]: "first_ok (quote ascii k @ s)"
  by (simp add: first_ok_def quote_def)

lemma json_text_first_ok: "plain j \<Longrightarrow> first_ok (json_text X isep ksep ascii j)"
  by (cases j) (auto simp: dec_int_first quote_def, auto simp: first_ok_def)

lemma json_text_length: "plain j \<Longrightarrow> 1 \<le> length (json_text X isep ksep ascii j)"
  using json_text_first_ok [of j X isep ksep ascii] by (cases "json_text X isep ksep ascii j") (auto simp: first_ok_def)

lemma join_first_ok: "xs \<noteq> [] \<Longrightarrow> first_ok (hd xs) \<Longrightarrow> first_ok (join sep xs)"
  by (cases xs rule: list.exhaust [case_names Nil Cons]) (auto simp: join_def)

lemma skip_ws_stops: "stops r \<Longrightarrow> skip_ws r = r"
  by (rule skip_ws_id) (auto simp: stops_def)

text \<open>The separators \<open>json.dumps\<close> is called with: the sign, and perhaps a blank after it.\<close>

definition separators :: "string \<Rightarrow> string \<Rightarrow> bool" where
  "separators isep ksep \<longleftrightarrow> isep \<in> {'','', '', ''} \<and> ksep \<in> {'':'', '': ''}"

lemma skip_blank [simp]: "skip_ws (CHR '' '' # s) = skip_ws s"
  by (simp add: skip_ws_def)

lemma separatorsE:
  assumes "separators isep ksep"
  obtains w u where "isep = CHR '','' # w" "ksep = CHR '':'' # u" "\<And>s. skip_ws (w @ s) = skip_ws s" "\<And>s. skip_ws (u @ s) = skip_ws s"
  using assms that by (auto simp: separators_def)

definition reads_back :: "ext \<Rightarrow> string \<Rightarrow> string \<Rightarrow> bool \<Rightarrow> json \<Rightarrow> bool" where
  "reads_back X isep ksep ascii j \<longleftrightarrow> (\<forall>n r. stops r \<longrightarrow> length (json_text X isep ksep ascii j) \<le> n \<longrightarrow>
     parse_val n (json_text X isep ksep ascii j @ r) = Some (j, r))"

lemma parse_elems_join:
  assumes "xs \<noteq> []" "\<And>x. x \<in> set xs \<Longrightarrow> plain x \<and> reads_back X isep ksep ascii x"
    and "length (join isep (map (json_text X isep ksep ascii) xs)) + 1 \<le> n" "separators isep ksep"
  shows "parse_elems n (join isep (map (json_text X isep ksep ascii) xs) @ CHR '']'' # r) = Some (xs, r)"
  using assms(1-3)
proof (induction xs arbitrary: n)
  case (Cons x xs)
  let ?text = "json_text X isep ksep ascii"
  obtain w where sep: "isep = CHR '','' # w" "\<And>s. skip_ws (w @ s) = skip_ws s" using separatorsE [OF assms(4)] by metis
  from Cons.prems obtain k where n: "n = Suc k" by (cases n) auto
  have x: "plain x" "reads_back X isep ksep ascii x" using Cons.prems by auto
  have val: "parse_val k (?text x @ u) = Some (x, u)" if "stops u" for u
    using x that Cons.prems(3) n by (cases xs) (auto simp: reads_back_def)
  show ?case
  proof (cases xs)
    case Nil
    then show ?thesis using n val by (simp add: skip_ws_stops)
  next
    case (Cons y ys)
    have ok: "first_ok (join isep (map ?text xs))"
      using Cons.prems(2) \<open>xs = y # ys\<close> json_text_first_ok [of y X] by (intro join_first_ok) auto
    have "length (join isep (map ?text xs)) + 1 \<le> k"
      using Cons.prems(3) n \<open>xs = y # ys\<close> json_text_length [OF x(1), of X isep ksep ascii] by (simp add: sep(1))
    then have "parse_elems k (join isep (map ?text xs) @ CHR '']'' # r) = Some (xs, r)"
      using Cons.IH Cons.prems(2) \<open>xs = y # ys\<close> by auto
    then show ?thesis using n val ok \<open>xs = y # ys\<close> by (simp add: skip_ws_stops sep)
  qed
qed simp

abbreviation member_of :: "ext \<Rightarrow> string \<Rightarrow> string \<Rightarrow> bool \<Rightarrow> string \<times> json \<Rightarrow> string" where
  "member_of X isep ksep ascii m \<equiv> quote ascii (fst m) @ ksep @ json_text X isep ksep ascii (snd m)"

lemma scan_member:
  "lit [CHR 0x22] (quote ascii k @ s) = Some (concat (map (escape_char ascii) k) @ CHR 0x22 # s)"
  by (simp add: quote_def)

lemma parse_members_join:
  assumes "ms \<noteq> []" "\<And>m. m \<in> set ms \<Longrightarrow> plain (snd m) \<and> reads_back X isep ksep ascii (snd m)"
    and "length (join isep (map (member_of X isep ksep ascii) ms)) + 1 \<le> n" "separators isep ksep"
  shows "parse_members n (join isep (map (member_of X isep ksep ascii) ms) @ CHR ''}'' # r) = Some (ms, r)"
  using assms(1-3)
proof (induction ms arbitrary: n)
  case (Cons m ms)
  let ?member = "member_of X isep ksep ascii"
  obtain w z where sep: "isep = CHR '','' # w" "ksep = CHR '':'' # z"
    "\<And>s. skip_ws (w @ s) = skip_ws s" "\<And>s. skip_ws (z @ s) = skip_ws s" using separatorsE [OF assms(4)] by metis
  from Cons.prems obtain k where n: "n = Suc k" by (cases n) auto
  obtain key v where m: "m = (key, v)" by fastforce
  have x: "plain v" "reads_back X isep ksep ascii v" using Cons.prems(2) [of m] m by auto
  have val: "parse_val k (json_text X isep ksep ascii v @ u) = Some (v, u)" if "stops u" for u
    using x that Cons.prems(3) n m by (cases ms) (auto simp: reads_back_def quote_def)
  note sk = skip_ws_id [of "CHR '':'' # _"] first_ok_skip [OF first_ok_append [OF json_text_first_ok [OF x(1)]]]
  show ?case
  proof (cases ms)
    case Nil
    then show ?thesis using n m val by (simp add: scan_member scan_str_quote sk skip_ws_stops sep)
  next
    case (Cons m' ms')
    have ok: "first_ok (join isep (map ?member ms))"
      using \<open>ms = m' # ms'\<close> by (intro join_first_ok) auto
    have "length (join isep (map ?member ms)) + 1 \<le> k"
      using Cons.prems(3) n \<open>ms = m' # ms'\<close> m by (simp add: quote_def sep)
    then have "parse_members k (join isep (map ?member ms) @ CHR ''}'' # r) = Some (ms, r)"
      using Cons.IH Cons.prems(2) \<open>ms = m' # ms'\<close> by auto
    then show ?thesis
      using n m val ok \<open>ms = m' # ms'\<close> by (simp add: scan_member scan_str_quote sk skip_ws_stops sep)
  qed
qed simp

lemma json_text_obj:
  "json_text X isep ksep ascii (JObj d) = ''{'' @ join isep (map (member_of X isep ksep ascii) d) @ ''}''"
  by (simp add: case_prod_unfold)

lemma plain_reads_back: "plain j \<Longrightarrow> separators isep ksep \<Longrightarrow> reads_back X isep ksep ascii j"
proof (induction j)
  case (JInt i)
  have "parse_val n (dec_int i @ r) = Some (JInt i, r)" if "stops r" "length (dec_int i) \<le> n" for n r
  proof -
    obtain c u where c: "dec_int i = c # u" using dec_int_first by (cases "dec_int i") auto
    moreover have "0 < n" using that(2) c by simp
    then obtain k where "n = Suc k" by (cases n) auto
    ultimately show ?thesis using dec_int_first [of i] scan_atom_int [OF that(1), of i] by simp
  qed
  then show ?case by (simp add: reads_back_def)
next
  case (JStr s)
  have "parse_val n (quote ascii s @ r) = Some (JStr s, r)" if "length (quote ascii s) \<le> n" for n r
    using that by (cases n) (auto simp: quote_def scan_str_quote)
  then show ?case by (simp add: reads_back_def)
next
  case (JList xs)
  let ?text = "json_text X isep ksep ascii"
  show ?case
  proof (cases "xs = []")
    case True
    have "parse_val n (''[]'' @ r) = Some (JList [], r)" if "2 \<le> n" for n r
      using that by (cases n) (auto simp: skip_ws_id)
    then show ?thesis using True by (simp add: reads_back_def)
  next
    case False
    have el: "plain x \<and> reads_back X isep ksep ascii x" if "x \<in> set xs" for x
      using JList that by (auto simp: list_all_iff)
    have ok: "first_ok (join isep (map ?text xs) @ u)" for u
      using False el json_text_first_ok [of "hd xs" X]
      by (intro first_ok_append join_first_ok) (auto simp: hd_map)
    have "parse_val n (?text (JList xs) @ r) = Some (JList xs, r)"
      if "length (?text (JList xs)) \<le> n" for n r
    proof -
      have "0 < n" using that by simp
      then obtain k where n: "n = Suc k" by (cases n) auto
      then have "parse_elems k (join isep (map ?text xs) @ CHR '']'' # r) = Some (xs, r)"
        using that JList.prems(2) by (intro parse_elems_join False el) auto
      then show ?thesis
        using n first_ok_lit [OF ok [of "CHR '']'' # r"]] first_ok_skip [OF ok [of "CHR '']'' # r"]] by simp
    qed
    then show ?thesis by (simp add: reads_back_def)
  qed
next
  case (JObj d)
  let ?text = "json_text X isep ksep ascii" and ?member = "member_of X isep ksep ascii"
  show ?case
  proof (cases "d = []")
    case True
    have "parse_val n (''{}'' @ r) = Some (JObj [], r)" if "2 \<le> n" for n r
      using that by (cases n) (auto simp: skip_ws_id)
    then show ?thesis using True by (simp add: reads_back_def)
  next
    case False
    have el: "plain (snd m) \<and> reads_back X isep ksep ascii (snd m)" if "m \<in> set d" for m
      using JObj that by (cases m) (fastforce simp: list_all_iff)
    have ok: "first_ok (join isep (map ?member d) @ u)" for u
      using False by (intro first_ok_append join_first_ok) (auto simp: hd_map)
    have dict: "dict_of d = d"
      using JObj.prems by (intro dict_of_distinct) simp
    have "parse_val n (?text (JObj d) @ r) = Some (JObj d, r)" if "length (?text (JObj d)) \<le> n" for n r
    proof -
      have "0 < n" using that by simp
      then obtain k where n: "n = Suc k" by (cases n) auto
      then have "parse_members k (join isep (map ?member d) @ CHR ''}'' # r) = Some (d, r)"
        using that JObj.prems(2) unfolding json_text_obj by (intro parse_members_join False el) auto
      then show ?thesis
        using n first_ok_lit [OF ok [of "CHR ''}'' # r"]] first_ok_skip [OF ok [of "CHR ''}'' # r"]] dict
        unfolding json_text_obj by simp
    qed
    then show ?thesis unfolding reads_back_def by blast
  qed
next
  case JNull
  have "parse_val n (''null'' @ r) = Some (JNull, r)" if "4 \<le> n" for n r
    using that by (cases n) (auto simp: scan_atom_def)
  then show ?case by (simp add: reads_back_def)
next
  case (JBool b)
  have "parse_val n (''true'' @ r) = Some (JBool True, r)"
    "parse_val n (''false'' @ r) = Some (JBool False, r)" if "4 \<le> n" for n r
    using that by (cases n; simp add: scan_atom_def)+
  then show ?case by (simp add: reads_back_def)
qed simp

lemma json_loads_text:
  assumes "plain j" "separators isep ksep"
  shows "json_loads (json_text X isep ksep ascii j) = Some j"
proof -
  let ?t = "json_text X isep ksep ascii j"
  have "parse_val (Suc (length ?t)) (?t @ []) = Some (j, [])"
    using plain_reads_back [OF assms, of X ascii] unfolding reads_back_def by (metis stops_simps(1) le_SucI order_refl)
  moreover have "skip_ws ?t = ?t"
    using json_text_first_ok [OF assms(1)] by simp
  ultimately show ?thesis by (simp add: json_loads_def skip_ws_id)
qed

section \<open>Canonical texts\<close>

abbreviation member_text :: "ext \<Rightarrow> string \<times> json \<Rightarrow> string" where
  "member_text X m \<equiv> quote False (fst m) @ CHR '':'' # canon_text X (snd m)"

lemma canon_text_obj:
  "canon_text X (JObj d) = ''{'' @ join '','' (map (member_text X) (sort_key fst d)) @ ''}''"
proof -
  have "sort_key fst (map (\<lambda>(k, v). (k, canon_text X v)) d)
          = map (\<lambda>(k, v). (k, canon_text X v)) (sort_key fst d)"
    by (rule sort_key_map) auto
  then show ?thesis by (simp add: case_prod_unfold comp_def)
qed

lemma canon_obj: "canon (JObj d) = JObj (map (\<lambda>m. (fst m, canon (snd m))) (sort_key fst d))"
  by (simp add: sort_key_map [where key = fst] case_prod_unfold)

lemma dumps_sorts: "dumps X isep ksep ascii j = json_text X isep ksep ascii (canon j)"
proof (induction j)
  case (JList xs)
  then show ?case by (simp cong: map_cong)
next
  case (JObj d)
  have "dumps X isep ksep ascii (snd m) = json_text X isep ksep ascii (canon (snd m))" if "m \<in> set d" for m
    using JObj [of m] that by (cases m) (auto intro: snds.intros)
  then show ?case
    by (simp add: sort_key_map [where key = fst] case_prod_unfold comp_def cong: map_cong)
qed simp_all

lemma plain_canon: "plain j \<Longrightarrow> plain (canon j)"
proof (induction j)
  case (JObj d)
  then show ?case unfolding canon_obj by (auto simp: list_all_iff distinct_map comp_def)
qed (auto simp: list_all_iff)

theorem json_loads_canon_text: "plain j \<Longrightarrow> json_loads (canon_text X j) = Some (canon j)"
  unfolding dumps_sorts by (intro json_loads_text plain_canon) (simp_all add: separators_def)

interpretation cjson: codec "canonical_json X" "\<lambda>b. Option.bind (utf8_dec b) json_loads" plain canon for X
  by unfold_locales (simp add: canonical_json_def utf8.dec_enc json_loads_canon_text)

end
