(* ===== verification/Identity.thy ===== *)
theory Identity
  imports Json
begin

text \<open>
  The long-term Ed25519 identity of a Kindled (\<open>kindled_link/identity.py\<close>): fingerprint,
  phrase, signature check, and the key file with its check-and-create under a lock and its
  rotation. Two callers may create the identity together; the step relation below has one
  rule for each atomic action of \<open>load_or_create\<close> and \<open>rotate\<close>.
\<close>

section \<open>Keys and fingerprints\<close>

record identity =
  priv :: bytes

definition public_bytes :: "ext \<Rightarrow> identity \<Rightarrow> bytes" where
  "public_bytes X idn = ed_pub X (priv idn)"

definition fingerprint :: "ext \<Rightarrow> bytes \<Rightarrow> string" where
  "fingerprint X pub_raw = ''kid_'' @ take 16 (bytes_hex (sha256 X pub_raw))"

definition fingerprint_phrase :: "ext \<Rightarrow> bytes \<Rightarrow> string" where
  "fingerprint_phrase X pub_raw =
     (let h = bytes_hex (sha256 X pub_raw) in
      join '' '' (map (\<lambda>i. take 4 (drop i h)) [0, 4, 8, 12, 16, 20, 24, 28]))"

definition key_id :: "ext \<Rightarrow> identity \<Rightarrow> string" where
  "key_id X idn = fingerprint X (public_bytes X idn)"

definition verify :: "ext \<Rightarrow> bytes \<Rightarrow> bytes \<Rightarrow> bytes \<Rightarrow> bool" where
  "verify X pub_raw signature data = ed_verify X pub_raw signature data"

definition sign :: "ext \<Rightarrow> identity \<Rightarrow> bytes \<Rightarrow> bytes" where
  "sign X idn data = ed_sign X (priv idn) data"

text \<open>Documented behaviour of Ed25519: a signature made with a key verifies under its public key.\<close>

definition signatures_verify :: "ext \<Rightarrow> bool" where
  "signatures_verify X \<longleftrightarrow> (\<forall>k m. ed_verify X (ed_pub X k) (ed_sign X k m) m)"

lemma verify_sign: "signatures_verify X \<Longrightarrow> verify X (public_bytes X idn) (sign X idn m) m"
  by (simp add: signatures_verify_def verify_def public_bytes_def sign_def)

text \<open>SHA-256 digests have 32 bytes.\<close>

definition sha256_length :: "ext \<Rightarrow> bool" where
  "sha256_length X \<longleftrightarrow> (\<forall>b. length (sha256 X b) = 32)"

lemma length_bytes_hex [simp]: "length (bytes_hex bs) = 2 * length bs"
  by (induction bs) (auto simp: bytes_hex_def)

lemma length_fingerprint: "sha256_length X \<Longrightarrow> length (fingerprint X p) = 20"
  by (simp add: fingerprint_def sha256_length_def)

section \<open>The key file\<close>

text \<open>
  \<open>load_or_create\<close> and \<open>rotate\<close> run alone: the file holds the raw private key or does not
  exist, \<open>fresh\<close> is the key \<open>Ed25519PrivateKey.generate()\<close> returns.
\<close>

definition load_or_create :: "bytes \<Rightarrow> bytes option \<Rightarrow> identity \<times> bytes option" where
  "load_or_create fresh file =
     (case file of
        Some raw \<Rightarrow> (\<lparr>priv = raw\<rparr>, file)
      | None \<Rightarrow> (\<lparr>priv = fresh\<rparr>, Some fresh))"

definition rotate_key :: "bytes \<Rightarrow> bytes \<Rightarrow> bytes option \<Rightarrow> (identity \<times> identity) \<times> bytes option" where
  "rotate_key fresh0 fresh file =
     (let (old, file1) = load_or_create fresh0 file
      in ((\<lparr>priv = fresh\<rparr>, old), Some fresh))"

section \<open>Concurrent creation\<close>

text \<open>
  A caller of \<open>load_or_create\<close>: before the first look at the file, waiting for the lock after
  having seen no file, holding the lock, or returned with an identity.
\<close>

datatype caller = Looking | Waiting | Locked | Returned identity

record key_sys =
  key_file :: "bytes option"
  lock_of :: "nat option"
  callers :: "nat \<Rightarrow> caller"

definition key_init :: "key_sys" where
  "key_init = \<lparr>key_file = None, lock_of = None, callers = (\<lambda>_. Looking)\<rparr>"

inductive key_step :: "key_sys \<Rightarrow> key_sys \<Rightarrow> bool" where
  found: "callers s i = Looking \<Longrightarrow> key_file s = Some raw \<Longrightarrow>
     key_step s (s\<lparr>callers := (callers s)(i := Returned \<lparr>priv = raw\<rparr>)\<rparr>)"
| missing: "callers s i = Looking \<Longrightarrow> key_file s = None \<Longrightarrow>
     key_step s (s\<lparr>callers := (callers s)(i := Waiting)\<rparr>)"
| acquire: "callers s i = Waiting \<Longrightarrow> lock_of s = None \<Longrightarrow>
     key_step s (s\<lparr>lock_of := Some i, callers := (callers s)(i := Locked)\<rparr>)"
| lost: "callers s i = Locked \<Longrightarrow> key_file s = Some raw \<Longrightarrow>
     key_step s (s\<lparr>lock_of := None, callers := (callers s)(i := Returned \<lparr>priv = raw\<rparr>)\<rparr>)"
| created: "callers s i = Locked \<Longrightarrow> key_file s = None \<Longrightarrow>
     key_step s (s\<lparr>key_file := Some fresh, lock_of := None,
                   callers := (callers s)(i := Returned \<lparr>priv = fresh\<rparr>)\<rparr>)"

inductive key_reachable :: "key_sys \<Rightarrow> bool" where
  start: "key_reachable key_init"
| step: "key_reachable s \<Longrightarrow> key_step s t \<Longrightarrow> key_reachable t"

definition key_inv :: "key_sys \<Rightarrow> bool" where
  "key_inv s \<longleftrightarrow>
     (\<forall>i idn. callers s i = Returned idn \<longrightarrow> key_file s = Some (priv idn)) \<and>
     (\<forall>i. callers s i = Locked \<longleftrightarrow> lock_of s = Some i)"

lemma key_inv_init: "key_inv key_init"
  by (simp add: key_inv_def key_init_def)

lemma key_inv_step: "key_step s t \<Longrightarrow> key_inv s \<Longrightarrow> key_inv t"
  by (induction rule: key_step.induct) (force simp: key_inv_def)+

lemma key_reachable_inv: "key_reachable s \<Longrightarrow> key_inv s"
  by (induction rule: key_reachable.induct) (auto intro: key_inv_init key_inv_step)

text \<open>The sequential function is the run of one caller with nobody else moving.\<close>

lemma load_or_create_run:
  assumes "callers s i = Looking" "lock_of s = None"
    and "load_or_create fresh (key_file s) = (idn, f)"
  shows "\<exists>t. key_step\<^sup>*\<^sup>* s t \<and> callers t i = Returned idn \<and> key_file t = f"
proof (cases "key_file s")
  case (Some raw)
  with assms show ?thesis
    by (intro exI [of _ "s\<lparr>callers := (callers s)(i := Returned \<lparr>priv = raw\<rparr>)\<rparr>"])
      (auto simp: load_or_create_def intro!: r_into_rtranclp key_step.found)
next
  case None
  let ?w = "s\<lparr>callers := (callers s)(i := Waiting)\<rparr>"
  let ?l = "?w\<lparr>lock_of := Some i, callers := (callers ?w)(i := Locked)\<rparr>"
  let ?d = "?l\<lparr>key_file := Some fresh, lock_of := None, callers := (callers ?l)(i := Returned \<lparr>priv = fresh\<rparr>)\<rparr>"
  have "key_step s ?w" using assms None by (intro key_step.missing)
  moreover have "key_step ?w ?l" using assms by (intro key_step.acquire) auto
  moreover have "key_step ?l ?d" using None by (intro key_step.created) auto
  ultimately have "key_step\<^sup>*\<^sup>* s ?d" by (meson r_into_rtranclp rtranclp_trans)
  then show ?thesis using assms None by (intro exI [of _ ?d]) (auto simp: load_or_create_def)
qed

end
