(* ===== verification/Pytime.thy ===== *)
theory Pytime
  imports Prelude "HOL-Library.Monad_Syntax"
begin

text \<open>
  Time as the program uses it. An aware UTC \<open>datetime\<close> is the number of microseconds since
  0001-01-01T00:00:00Z; a \<open>timedelta\<close> is a number of microseconds. The calendar, the wire
  format \<open>%Y-%m-%dT%H:%M:%SZ\<close> with its reader, and the lenient reader of stored stamps
  (\<open>brain/utils/time.py\<close>) are below, with the fact the protocol rests on: a written wire
  stamp reads back as its instant, truncated to the second.
\<close>

type_synonym time = int

abbreviation second :: int where "second \<equiv> 1000000"
abbreviation minute :: int where "minute \<equiv> 60000000"
abbreviation hour :: int where "hour \<equiv> 3600000000"
abbreviation day :: int where "day \<equiv> 86400000000"

text \<open>The instants a \<open>datetime\<close> can hold: years 1 to 9999.\<close>

definition valid_time :: "time \<Rightarrow> bool" where
  "valid_time t \<longleftrightarrow> 0 \<le> t \<and> t < 3652059 * day"

section \<open>The proleptic Gregorian calendar\<close>

definition is_leap :: "int \<Rightarrow> bool" where
  "is_leap y \<longleftrightarrow> y mod 4 = 0 \<and> (y mod 100 \<noteq> 0 \<or> y mod 400 = 0)"

definition month_len :: "bool \<Rightarrow> int \<Rightarrow> int" where
  "month_len leap m =
     (if m = 2 then (if leap then 29 else 28) else if m \<in> {4, 6, 9, 11} then 30 else 31)"

definition days_before_year :: "int \<Rightarrow> int" where
  "days_before_year y = (let k = y - 1 in 365 * k + k div 4 - k div 100 + k div 400)"

fun days_before_month :: "bool \<Rightarrow> int list \<Rightarrow> int \<Rightarrow> int" where
  "days_before_month leap [] m = 0"
| "days_before_month leap (k # ks) m =
     (if k = m then 0 else month_len leap k + days_before_month leap ks m)"

abbreviation months :: "int list" where "months \<equiv> [1, 2, 3, 4, 5, 6, 7, 8, 9, 10, 11, 12]"

definition days_of_date :: "int \<Rightarrow> int \<Rightarrow> int \<Rightarrow> int" where
  "days_of_date y m d = days_before_year y + days_before_month (is_leap y) months m + (d - 1)"

fun scan_months :: "bool \<Rightarrow> int list \<Rightarrow> int \<Rightarrow> int \<times> int" where
  "scan_months leap [] n = (12, n + 1)"
| "scan_months leap (m # ms) n =
     (if n < month_len leap m then (m, n + 1) else scan_months leap ms (n - month_len leap m))"

text \<open>The year of a day and the day's index in that year, by 400-, 100-, 4- and 1-year blocks.\<close>

definition year_split :: "int \<Rightarrow> int \<times> int" where
  "year_split n =
     (let a = n div 146097; r = n mod 146097;
          b = min 3 (r div 36524); r2 = r - 36524 * b;
          c = r2 div 1461; r3 = r2 mod 1461;
          d = min 3 (r3 div 365)
      in (400 * a + 100 * b + 4 * c + d + 1, r3 - 365 * d))"

definition date_of_days :: "int \<Rightarrow> int \<times> int \<times> int" where
  "date_of_days n = (let (y, k) = year_split n; (m, d) = scan_months (is_leap y) months k in (y, m, d))"

lemma year_split_blocks:
  assumes "year_split n = (y, k)"
  obtains a b c d where
    "y = 400 * a + 100 * b + 4 * c + d + 1" "n = 146097 * a + 36524 * b + 1461 * c + 365 * d + k"
    "0 \<le> b" "b \<le> 3" "0 \<le> c" "c \<le> 24" "0 \<le> d" "d \<le> 3" "0 \<le> k" "k \<le> 365"
    "k = 365 \<Longrightarrow> d = 3 \<and> (c = 24 \<longrightarrow> b = 3)" "a = n div 146097"
proof -
  define a r where "a = n div 146097" and "r = n mod 146097"
  define b r2 where "b = min 3 (r div 36524)" and "r2 = r - 36524 * b"
  define c r3 where "c = r2 div 1461" and "r3 = r2 mod 1461"
  define d where "d = min 3 (r3 div 365)"
  note defs = a_def r_def b_def r2_def c_def r3_def d_def
  have r: "0 \<le> r" "r < 146097" "n = 146097 * a + r" by (auto simp: defs)
  have b: "0 \<le> b" "b \<le> 3" "0 \<le> r2" "r2 \<le> 36524" "b < 3 \<longrightarrow> r2 < 36524"
    using r unfolding b_def r2_def by linarith+
  have c: "0 \<le> c" "c \<le> 24" "0 \<le> r3" "r3 < 1461" "r2 = 1461 * c + r3"
    using b unfolding c_def r3_def by simp_all
  have d: "0 \<le> d" "d \<le> 3" "0 \<le> r3 - 365 * d" "r3 - 365 * d \<le> 365"
    "r3 - 365 * d = 365 \<longrightarrow> d = 3"
    using c unfolding d_def by linarith+
  have yk: "y = 400 * a + 100 * b + 4 * c + d + 1" "k = r3 - 365 * d"
    using assms unfolding year_split_def Let_def defs by auto
  have n: "n = 146097 * a + 36524 * b + 1461 * c + 365 * d + k"
    using r(3) c(5) yk(2) r2_def by linarith
  have last: "d = 3 \<and> (c = 24 \<longrightarrow> b = 3)" if "k = 365"
  proof -
    have "d = 3" using that d(5) yk(2) by simp
    moreover have "b = 3" if "c = 24"
    proof (rule ccontr)
      assume "b \<noteq> 3"
      then have "r2 < 36524" using b by linarith
      moreover have "r3 = 1460" using \<open>k = 365\<close> \<open>d = 3\<close> yk(2) by linarith
      ultimately show False using c(5) \<open>c = 24\<close> by linarith
    qed
    ultimately show ?thesis by blast
  qed
  show ?thesis
  proof (rule that [OF yk(1) n b(1,2) c(1,2) d(1,2) _ _ _ a_def])
    show "0 \<le> k" "k \<le> 365" using yk(2) d(3,4) by auto
    show "k = 365 \<Longrightarrow> d = 3 \<and> (c = 24 \<longrightarrow> b = 3)" by (rule last)
  qed
qed

lemma days_before_year_blocks:
  assumes "0 \<le> b" "b \<le> 3" "0 \<le> c" "c \<le> 24" "0 \<le> d" "d \<le> 3"
  shows "days_before_year (400 * a + 100 * b + 4 * c + d + 1)
           = 146097 * a + 36524 * b + 1461 * c + 365 * d"
proof -
  let ?k = "400 * a + 100 * b + 4 * c + d"
  have "?k div 4 = 100 * a + 25 * b + c" "?k div 100 = 4 * a + b" "?k div 400 = a"
    using assms by linarith+
  then show ?thesis by (simp add: days_before_year_def)
qed

lemma is_leap_blocks:
  assumes "0 \<le> b" "b \<le> 3" "0 \<le> c" "c \<le> 24" "d = 3" "c = 24 \<longrightarrow> b = (3::int)"
  shows "is_leap (400 * a + 100 * b + 4 * c + d + 1)"
proof -
  let ?y = "400 * a + 100 * b + 4 * c + d + 1"
  have "?y = 4 * (100 * a + 25 * b + c + 1)" using assms by simp
  then have four: "?y mod 4 = 0" by simp
  show ?thesis
  proof (cases "c = 24")
    case True
    with assms have "?y = 400 * (a + 1)" by simp
    then have "?y mod 400 = 0" by (metis mod_mult_self1_is_0)
    with four show ?thesis unfolding is_leap_def by blast
  next
    case False
    with assms have c: "0 \<le> 4 * c + 4" "4 * c + 4 < 100" "4 * c + 4 \<noteq> 0" by linarith+
    have "?y = 4 * c + 4 + 100 * (4 * a + b)" using assms by simp
    then have "?y mod 100 = (4 * c + 4) mod 100" by (metis mod_mult_self2)
    with c have "?y mod 100 \<noteq> 0" by simp
    with four show ?thesis unfolding is_leap_def by blast
  qed
qed

lemma scan_months_inverse:
  assumes "scan_months leap months k = (m, d)" "0 \<le> k" "k \<le> 364 + of_bool leap"
  shows "days_before_month leap months m + (d - 1) = k \<and> m \<in> set months \<and> 1 \<le> d \<and> d \<le> month_len leap m"
  using assms by (cases leap) (auto simp: month_len_def split: if_splits)

lemma date_of_days_inverse:
  assumes "date_of_days n = (y, m, d)"
  shows "days_of_date y m d = n \<and> 1 \<le> m \<and> m \<le> 12 \<and> 1 \<le> d \<and> d \<le> month_len (is_leap y) m"
proof -
  obtain y' k where ys: "year_split n = (y', k)" by fastforce
  obtain m' d' where sm: "scan_months (is_leap y') months k = (m', d')" by fastforce
  from assms ys sm have eq: "y = y'" "m = m'" "d = d'"
    by (auto simp: date_of_days_def)
  obtain a b c e where blocks:
    "y' = 400 * a + 100 * b + 4 * c + e + 1" "n = 146097 * a + 36524 * b + 1461 * c + 365 * e + k"
    "0 \<le> b" "b \<le> 3" "0 \<le> c" "c \<le> 24" "0 \<le> e" "e \<le> 3" "0 \<le> k" "k \<le> 365"
    "k = 365 \<Longrightarrow> e = 3 \<and> (c = 24 \<longrightarrow> b = 3)"
    using year_split_blocks [OF ys] by metis
  have "k = 365 \<Longrightarrow> is_leap y'"
    using is_leap_blocks [of b c e a] blocks by simp
  then have "k \<le> 364 + of_bool (is_leap y')"
    using blocks(10) by (cases "k = 365") auto
  from scan_months_inverse [OF sm blocks(9) this]
  show ?thesis
    using days_before_year_blocks [of b c e a] blocks eq by (auto simp: days_of_date_def)
qed

lemma date_of_days_year:
  assumes "date_of_days n = (y, m, d)" "0 \<le> n" "n < 3652059"
  shows "1 \<le> y \<and> y \<le> 9999"
proof -
  obtain y' k where ys: "year_split n = (y', k)" by fastforce
  with assms have eq: "y = y'" by (auto simp: date_of_days_def split: prod.splits)
  obtain a b c e where blocks:
    "y' = 400 * a + 100 * b + 4 * c + e + 1" "n = 146097 * a + 36524 * b + 1461 * c + 365 * e + k"
    "0 \<le> b" "b \<le> 3" "0 \<le> c" "c \<le> 24" "0 \<le> e" "e \<le> 3" "0 \<le> k" "a = n div 146097"
    using year_split_blocks [OF ys] by metis
  have "0 \<le> a" using blocks(10) assms(2) by simp
  moreover have "\<not> 10000 \<le> y'"
  proof
    assume "10000 \<le> y'"
    then have "24 \<le> a" using blocks by linarith
    moreover have "a < 25" using assms(3) blocks by linarith
    ultimately have "a = 24" by simp
    then have "b = 3" "c = 24" "e = 3" using \<open>10000 \<le> y'\<close> blocks by linarith+
    with \<open>a = 24\<close> blocks assms(3) show False by linarith
  qed
  ultimately show ?thesis using blocks eq by linarith
qed

section \<open>The wire format\<close>

definition pad2 :: "int \<Rightarrow> string" where
  "pad2 n = [dec_digit (nat (n div 10)), dec_digit (nat (n mod 10))]"

definition pad4 :: "int \<Rightarrow> string" where
  "pad4 n = pad2 (n div 100) @ pad2 (n mod 100)"

definition date_text :: "int \<Rightarrow> string" where
  "date_text n = (let (y, m, d) = date_of_days n in pad4 y @ ''-'' @ pad2 m @ ''-'' @ pad2 d)"

text \<open>\<open>dt.strftime("%Y-%m-%dT%H:%M:%SZ")\<close> of a UTC instant.\<close>

definition iso_z :: "time \<Rightarrow> string" where
  "iso_z t =
     (let s = t div second; r = s mod 86400 in
      date_text (s div 86400) @ ''T'' @ pad2 (r div 3600) @ '':'' @ pad2 (r mod 3600 div 60)
        @ '':'' @ pad2 (r mod 60) @ ''Z'')"

text \<open>\<open>now.strftime("%Y-%m-%d")\<close>: the calendar day of an instant.\<close>

definition day_text :: "time \<Rightarrow> string" where
  "day_text t = date_text (t div day)"

text \<open>
  The reader \<open>datetime.strptime(s, "%Y-%m-%dT%H:%M:%SZ")\<close>: four year digits, one or two
  digits in every other field (the day may be a blank and a digit), letters of the format
  in either case, and a date and time that exist; \<open>None\<close> is its \<open>ValueError\<close>.
\<close>

fun num2 :: "string \<Rightarrow> (int \<times> string) option" where
  "num2 [] = None"
| "num2 [c] = (if is_digit c then Some (int (digit_val c), []) else None)"
| "num2 (c # e # s) =
     (if is_digit c then
        if is_digit e then Some (int (10 * digit_val c + digit_val e), s)
        else Some (int (digit_val c), e # s)
      else None)"

fun num_day :: "string \<Rightarrow> (int \<times> string) option" where
  "num_day (c # e # s) =
     (if c = CHR '' '' then if is_digit e then Some (int (digit_val e), s) else None
      else num2 (c # e # s))"
| "num_day s = num2 s"

fun num4 :: "string \<Rightarrow> (int \<times> string) option" where
  "num4 (a # b # c # e # s) =
     (if is_digit a \<and> is_digit b \<and> is_digit c \<and> is_digit e
      then Some (int (1000 * digit_val a + 100 * digit_val b + 10 * digit_val c + digit_val e), s)
      else None)"
| "num4 _ = None"

definition chr_in :: "char list \<Rightarrow> string \<Rightarrow> string option" where
  "chr_in cs s = (case s of c # r \<Rightarrow> if c \<in> set cs then Some r else None | [] \<Rightarrow> None)"

definition parse_z :: "string \<Rightarrow> time option" where
  "parse_z s = do {
     (y, s) \<leftarrow> num4 s; s \<leftarrow> chr_in ''-'' s;
     (m, s) \<leftarrow> num2 s; s \<leftarrow> chr_in ''-'' s;
     (d, s) \<leftarrow> num_day s; s \<leftarrow> chr_in ''Tt'' s;
     (hh, s) \<leftarrow> num2 s; s \<leftarrow> chr_in '':'' s;
     (mm, s) \<leftarrow> num2 s; s \<leftarrow> chr_in '':'' s;
     (ss, s) \<leftarrow> num2 s; s \<leftarrow> chr_in ''Zz'' s;
     if s = [] \<and> 1 \<le> y \<and> 1 \<le> m \<and> m \<le> 12 \<and> 1 \<le> d \<and> d \<le> month_len (is_leap y) m
        \<and> hh \<le> 23 \<and> mm \<le> 59 \<and> ss \<le> 59
     then Some (day * days_of_date y m d + hour * hh + minute * mm + second * ss)
     else None }"

lemma num2_pad2: "0 \<le> n \<Longrightarrow> n < 100 \<Longrightarrow> num2 (pad2 n @ s) = Some (n, s)"
proof -
  assume n: "0 \<le> n" "n < 100"
  then have "nat (n div 10) < 10" "nat (n mod 10) < 10" by simp_all
  moreover have "int (10 * nat (n div 10) + nat (n mod 10)) = n"
    using n by (simp add: pos_imp_zdiv_nonneg_iff)
  ultimately show ?thesis by (simp add: pad2_def)
qed

lemma dec_digit_not_blank: "n < 10 \<Longrightarrow> dec_digit n \<noteq> CHR '' ''"
proof
  assume "n < 10" "dec_digit n = CHR '' ''"
  then have "is_digit CHR '' ''" by (metis dec_digit_simps(1))
  then show False by (simp add: is_digit_def)
qed

lemma num_day_pad2: "0 \<le> n \<Longrightarrow> n < 100 \<Longrightarrow> num_day (pad2 n @ s) = Some (n, s)"
  using num2_pad2 [of n s] dec_digit_not_blank [of "nat (n div 10)"]
  by (simp add: pad2_def)

lemma num4_digits:
  "a < 10 \<Longrightarrow> b < 10 \<Longrightarrow> c < 10 \<Longrightarrow> e < 10 \<Longrightarrow>
   num4 (dec_digit a # dec_digit b # dec_digit c # dec_digit e # s)
     = Some (int (1000 * a + 100 * b + 10 * c + e), s)"
  by simp

lemma num4_pad4: "0 \<le> n \<Longrightarrow> n < 10000 \<Longrightarrow> num4 (pad4 n @ s) = Some (n, s)"
proof -
  assume n: "0 \<le> n" "n < 10000"
  have "int (1000 * nat (n div 100 div 10) + 100 * nat (n div 100 mod 10)
             + 10 * nat (n mod 100 div 10) + nat (n mod 100 mod 10)) = n"
  proof -
    have "n = 100 * (n div 100) + n mod 100" "n div 100 = 10 * (n div 100 div 10) + n div 100 mod 10"
      by (rule mult_div_mod_eq [symmetric])+
    then have "n mod 100 + (1000 * (n div 100 div 10) + 100 * (n div 100 mod 10)) = n" by linarith
    with n show ?thesis by (simp add: pos_imp_zdiv_nonneg_iff)
  qed
  moreover have "nat (n div 100 div 10) < 10" "nat (n div 100 mod 10) < 10"
    "nat (n mod 100 div 10) < 10" "nat (n mod 100 mod 10) < 10"
    using n by simp_all
  ultimately show ?thesis by (simp only: pad4_def pad2_def append.simps num4_digits)
qed

lemma chr_in_Cons [simp]: "chr_in cs (c # s) = (if c \<in> set cs then Some s else None)"
  by (simp add: chr_in_def)

text \<open>\<open>now.isoformat()\<close> of an aware UTC instant: the microseconds only when there are any.\<close>

definition pad6 :: "int \<Rightarrow> string" where
  "pad6 n = pad2 (n div 10000) @ pad4 (n mod 10000)"

definition clock_text :: "time \<Rightarrow> string" where
  "clock_text t =
     (let s = t div second; r = s mod 86400 in
      date_text (s div 86400) @ ''T'' @ pad2 (r div 3600) @ '':'' @ pad2 (r mod 3600 div 60) @ '':'' @ pad2 (r mod 60))"

definition isoformat :: "time \<Rightarrow> string" where
  "isoformat t =
     clock_text t @ (if t mod second = 0 then [] else ''.'' @ pad6 (t mod second)) @ ''+00:00''"

lemma iso_z_clock: "iso_z t = clock_text t @ ''Z''"
  by (simp add: iso_z_def clock_text_def Let_def)

text \<open>The fields of an instant.\<close>

lemma clock_fields:
  assumes "valid_time t"
  obtains y m d h mi se where
    "clock_text t = pad4 y @ CHR ''-'' # pad2 m @ CHR ''-'' # pad2 d @ CHR ''T'' #
       pad2 h @ CHR '':'' # pad2 mi @ CHR '':'' # pad2 se"
    "1 \<le> y" "y \<le> 9999" "1 \<le> m" "m \<le> 12" "1 \<le> d" "d \<le> 31" "d \<le> month_len (is_leap y) m"
    "0 \<le> h" "h \<le> 23" "0 \<le> mi" "mi \<le> 59" "0 \<le> se" "se \<le> 59"
    "day * days_of_date y m d + hour * h + minute * mi + second * se = t - t mod second"
proof -
  define s where "s = t div second"
  define n r where "n = s div 86400" and "r = s mod 86400"
  obtain y m d where date: "date_of_days n = (y, m, d)" by (metis prod_cases3)
  from assms have t: "0 \<le> t" "t < 3652059 * day" by (auto simp: valid_time_def)
  have s0: "0 \<le> s" "s < 3652059 * 86400" using t by (auto simp: s_def)
  have n: "0 \<le> n" "n < 3652059" using s0 by (auto simp: n_def)
  have r: "0 \<le> r" "r < 86400" by (simp_all add: r_def)
  from date_of_days_inverse [OF date] have inv: "days_of_date y m d = n" "1 \<le> m" "m \<le> 12"
    "1 \<le> d" "d \<le> month_len (is_leap y) m" by auto
  from date_of_days_year [OF date n] have y: "1 \<le> y" "y \<le> 9999" by auto
  have d31: "d \<le> 31" using inv(5) by (auto simp: month_len_def split: if_splits)
  define h mi se where "h = r div 3600" and "mi = r mod 3600 div 60" and "se = r mod 60"
  have parts: "h \<le> 23" "mi \<le> 59" "se \<le> 59" "0 \<le> h" "0 \<le> mi" "0 \<le> se"
    unfolding h_def mi_def se_def using r by auto
  have total: "day * n + hour * h + minute * mi + second * se = t - t mod second"
  proof -
    have "r = 3600 * h + r mod 3600" "r mod 3600 = 60 * mi + r mod 3600 mod 60" "s = 86400 * n + r"
      "t = second * s + t mod second"
      unfolding n_def r_def h_def mi_def s_def by (rule mult_div_mod_eq [symmetric])+
    moreover have "r mod 3600 mod 60 = se" unfolding se_def by (rule mod_mod_cancel) simp
    ultimately show ?thesis by linarith
  qed
  have "clock_text t = pad4 y @ CHR ''-'' # pad2 m @ CHR ''-'' # pad2 d @ CHR ''T'' #
      pad2 h @ CHR '':'' # pad2 mi @ CHR '':'' # pad2 se"
    using date by (simp add: clock_text_def date_text_def Let_def s_def [symmetric] n_def [symmetric]
        r_def [symmetric] h_def [symmetric] mi_def [symmetric] se_def [symmetric])
  then show ?thesis using that y inv d31 parts total by simp
qed

theorem parse_z_iso_z:
  assumes "valid_time t"
  shows "parse_z (iso_z t) = Some (t - t mod second)"
proof -
  from clock_fields [OF assms] obtain y m d h mi se where f:
    "clock_text t = pad4 y @ CHR ''-'' # pad2 m @ CHR ''-'' # pad2 d @ CHR ''T'' #
       pad2 h @ CHR '':'' # pad2 mi @ CHR '':'' # pad2 se"
    "1 \<le> y" "y \<le> 9999" "1 \<le> m" "m \<le> 12" "1 \<le> d" "d \<le> 31" "d \<le> month_len (is_leap y) m"
    "0 \<le> h" "h \<le> 23" "0 \<le> mi" "mi \<le> 59" "0 \<le> se" "se \<le> 59"
    "day * days_of_date y m d + hour * h + minute * mi + second * se = t - t mod second" .
  show ?thesis unfolding iso_z_clock f(1)
    using f(2-) by (simp add: parse_z_def num4_pad4 num2_pad2 num_day_pad2)
qed

section \<open>Stored stamps\<close>

text \<open>
  A text column or JSON text that should hold an ISO timestamp, by what
  \<open>datetime.fromisoformat\<close> makes of it: an aware instant, a naive one, or no timestamp.
  The writers store \<open>now.isoformat()\<close> of an aware UTC \<open>now\<close>, which is \<open>At now\<close>.
\<close>

datatype stamp = At time | AtNaive time | NotIso

text \<open>
  \<open>datetime.fromisoformat(s)\<close> for the extended formats: a date, or a date, any one character and
  a time \<open>HH[:MM[:SS[.f...]]]\<close> with an optional \<open>Z\<close> or UTC offset \<open>+HH[:MM[:SS[.f...]]]\<close>; digits of
  a fraction beyond the sixth are dropped. (The basic formats without dashes and the ISO week
  dates, which the function reads too, are outside the model.)
\<close>

fun two :: "string \<Rightarrow> (int \<times> string) option" where
  "two (c # e # s) =
     (if is_digit c \<and> is_digit e then Some (int (10 * digit_val c + digit_val e), s) else None)"
| "two _ = None"

definition fraction :: "string \<Rightarrow> (int \<times> string) option" where
  "fraction s =
     (let ds = takeWhile is_digit s in
      if ds = [] then None
      else Some (int (digits_val (take 6 ds) * 10 ^ (6 - min 6 (length ds))), dropWhile is_digit s))"

text \<open>Microseconds of \<open>HH[:MM[:SS[.f...]]]\<close>, with the rest.\<close>

definition iso_clock :: "string \<Rightarrow> (int \<times> string) option" where
  "iso_clock s = do {
     (hh, s) \<leftarrow> two s;
     if hh > 23 then None
     else case chr_in '':'' s of
       None \<Rightarrow> Some (hour * hh, s)
     | Some s \<Rightarrow> do {
         (mm, s) \<leftarrow> two s;
         if mm > 59 then None
         else case chr_in '':'' s of
           None \<Rightarrow> Some (hour * hh + minute * mm, s)
         | Some s \<Rightarrow> do {
             (ss, s) \<leftarrow> two s;
             if ss > 59 then None
             else case chr_in ''.,'' s of
               None \<Rightarrow> Some (hour * hh + minute * mm + second * ss, s)
             | Some s \<Rightarrow> do {
                 (us, s) \<leftarrow> fraction s;
                 Some (hour * hh + minute * mm + second * ss + us, s) } } } }"

definition iso_zone :: "string \<Rightarrow> int option option" where
  "iso_zone s =
     (if s = [] then Some None
      else if s = ''Z'' then Some (Some 0)
      else case chr_in ''+-'' s of
        None \<Rightarrow> None
      | Some r \<Rightarrow>
          (case iso_clock r of
             Some (off, []) \<Rightarrow> Some (Some (if hd s = CHR ''-'' then - off else off))
           | _ \<Rightarrow> None))"

definition fromisoformat :: "string \<Rightarrow> stamp" where
  "fromisoformat s =
     (case do {
        (y, s) \<leftarrow> num4 s; s \<leftarrow> chr_in ''-'' s; (m, s) \<leftarrow> two s; s \<leftarrow> chr_in ''-'' s; (d, s) \<leftarrow> two s;
        if 1 \<le> y \<and> 1 \<le> m \<and> m \<le> 12 \<and> 1 \<le> d \<and> d \<le> month_len (is_leap y) m
        then Some (day * days_of_date y m d, s) else None } of
        None \<Rightarrow> NotIso
      | Some (date, []) \<Rightarrow> AtNaive date
      | Some (date, _ # s) \<Rightarrow>
          (case iso_clock s of
             None \<Rightarrow> NotIso
           | Some (clk, z) \<Rightarrow>
               (case iso_zone z of
                  None \<Rightarrow> NotIso
                | Some None \<Rightarrow> AtNaive (date + clk)
                | Some (Some off) \<Rightarrow> At (date + clk - off))))"

lemma two_pad2: "0 \<le> n \<Longrightarrow> n < 100 \<Longrightarrow> two (pad2 n @ s) = Some (n, s)"
  using num2_pad2 [of n s] by (auto simp: pad2_def split: if_splits)

lemma pad_digits: "0 \<le> n \<Longrightarrow> n < 100 \<Longrightarrow> list_all is_digit (pad2 n)"
  by (simp add: pad2_def)

lemma digits_val_pad2: "0 \<le> n \<Longrightarrow> n < 100 \<Longrightarrow> digits_val (pad2 n) = nat n"
  by (simp add: pad2_def digits_val_def nat_mult_distrib nat_div_distrib nat_mod_distrib)

lemma foldl_digits: "foldl (\<lambda>a c. 10 * a + digit_val c) k s = k * 10 ^ length s + digits_val s"
proof (induction s arbitrary: k)
  case (Cons c s)
  show ?case using Cons.IH [of "10 * k + digit_val c"] Cons.IH [of "digit_val c"]
    by (simp add: digits_val_def algebra_simps)
qed (simp add: digits_val_def)

lemma digits_val_append: "digits_val (s @ u) = digits_val s * 10 ^ length u + digits_val u"
  using foldl_digits [of "digits_val s" u] by (simp add: digits_val_def)

lemma pad2_length [simp]: "length (pad2 n) = 2"
  by (simp add: pad2_def)

lemma fraction_pad6:
  assumes "0 \<le> n" "n < 1000000" "s = [] \<or> \<not> is_digit (hd s)"
  shows "fraction (pad6 n @ s) = Some (n, s)"
proof -
  have parts: "0 \<le> n div 10000" "n div 10000 < 100" "0 \<le> n mod 10000 div 100" "n mod 10000 div 100 < 100"
    "0 \<le> n mod 10000 mod 100" "n mod 10000 mod 100 < 100" using assms by simp_all
  then have dig: "list_all is_digit (pad6 n)" by (simp add: pad6_def pad4_def pad_digits)
  then have "takeWhile is_digit (pad6 n @ s) = pad6 n @ takeWhile is_digit s"
    "dropWhile is_digit (pad6 n @ s) = dropWhile is_digit s"
    by (auto simp: takeWhile_append dropWhile_append list_all_iff)
  moreover have "takeWhile is_digit s = []" "dropWhile is_digit s = s" using assms(3) by (cases s; auto)+
  moreover have "digits_val (pad6 n) = nat n"
  proof -
    define a b c where "a = n div 10000" and "b = n mod 10000 div 100" and "c = n mod 10000 mod 100"
    have "n = 10000 * a + (100 * b + c)" by (simp add: a_def b_def c_def)
    moreover have "digits_val (pad6 n) = nat a * 10000 + (nat b * 100 + nat c)"
      using parts unfolding pad6_def pad4_def digits_val_append by (simp add: digits_val_pad2 a_def b_def c_def)
    moreover have "0 \<le> a" "0 \<le> b" "0 \<le> c" using parts by (simp_all add: a_def b_def c_def)
    ultimately show ?thesis by linarith
  qed
  moreover have "length (pad6 n) = 6" by (simp add: pad6_def pad4_def)
  moreover from this have "pad6 n \<noteq> []" by auto
  ultimately show ?thesis using assms(1) by (simp add: fraction_def Let_def)
qed

lemma fromisoformat_isoformat:
  assumes "valid_time t"
  shows "fromisoformat (isoformat t) = At t"
proof -
  from clock_fields [OF assms] obtain y m d h mi se where f:
    "clock_text t = pad4 y @ CHR ''-'' # pad2 m @ CHR ''-'' # pad2 d @ CHR ''T'' #
       pad2 h @ CHR '':'' # pad2 mi @ CHR '':'' # pad2 se"
    "1 \<le> y" "y \<le> 9999" "1 \<le> m" "m \<le> 12" "1 \<le> d" "d \<le> 31" "d \<le> month_len (is_leap y) m"
    "0 \<le> h" "h \<le> 23" "0 \<le> mi" "mi \<le> 59" "0 \<le> se" "se \<le> 59"
    "day * days_of_date y m d + hour * h + minute * mi + second * se = t - t mod second" .
  have zone: "iso_zone ''+00:00'' = Some (Some 0)" by code_simp
  have frac: "fraction (pad6 (t mod second) @ ''+00:00'') = Some (t mod second, ''+00:00'')"
    by (rule fraction_pad6) (simp_all add: is_digit_def)
  have clk: "iso_clock (pad2 h @ CHR '':'' # pad2 mi @ CHR '':'' # pad2 se
      @ (if t mod second = 0 then [] else ''.'' @ pad6 (t mod second)) @ ''+00:00'')
      = Some (hour * h + minute * mi + second * se + t mod second, ''+00:00'')"
    using f(2-) frac by (simp add: iso_clock_def two_pad2)
  show ?thesis unfolding isoformat_def f(1)
    using f(2-) clk zone by (simp add: fromisoformat_def num4_pad4 two_pad2 algebra_simps)
qed

definition lenient_utc :: "stamp option \<Rightarrow> time option" where
  "lenient_utc v = (case v of Some (At t) \<Rightarrow> Some t | Some (AtNaive t) \<Rightarrow> Some t
                      | Some NotIso \<Rightarrow> None | None \<Rightarrow> None)"

text \<open>\<open>now - datetime.fromisoformat(s)\<close>: a naive stamp is a \<open>TypeError\<close>, no stamp a \<open>ValueError\<close>.\<close>

definition since :: "time \<Rightarrow> stamp \<Rightarrow> int res" where
  "since now s = (case s of At t \<Rightarrow> Inr (now - t) | AtNaive _ \<Rightarrow> Inl TypeError | NotIso \<Rightarrow> Inl ValueError)"

lemma lenient_utc_simps [simp]:
  "lenient_utc None = None" "lenient_utc (Some (At t)) = Some t"
  "lenient_utc (Some (AtNaive t)) = Some t" "lenient_utc (Some NotIso) = None"
  by (simp_all add: lenient_utc_def)

definition hours_since :: "stamp option \<Rightarrow> stamp option \<Rightarrow> rat option" where
  "hours_since v now =
     (case (lenient_utc v, lenient_utc now) of
        (Some a, Some b) \<Rightarrow> Some (max 0 (of_int (b - a) / of_int hour))
      | _ \<Rightarrow> None)"

end
