(* ===== verification/Protocol.thy ===== *)
theory Protocol
  imports Identity Pytime
begin

text \<open>
  The kindled-link/1 wire protocol (\<open>kindled_link/protocol.py\<close>): signing input and
  additional data, session keys, the sequence-derived nonce, envelopes and the receiver's
  reject rules, session-open and key-rotation envelopes. An envelope is the JSON object that
  crosses the untrusted relay, so every reader copes with any field of any JSON type; the
  Python exceptions a reader does not catch are \<open>Inl\<close>.
\<close>

definition SUPPORTED_PROTOCOL :: string where
  "SUPPORTED_PROTOCOL = ''kindled-link/1''"

definition skew :: int where
  "skew = 5 * minute"

definition without :: "dict \<Rightarrow> string list \<Rightarrow> dict" where
  "without outer ks = filter (\<lambda>(k, v). k \<notin> set ks) outer"

definition aad_bytes :: "ext \<Rightarrow> dict \<Rightarrow> bytes" where
  "aad_bytes X outer = canonical_json X (JObj (without outer [''ciphertext'', ''signature'']))"

definition sig_input_bytes :: "ext \<Rightarrow> dict \<Rightarrow> bytes" where
  "sig_input_bytes X outer = canonical_json X (JObj (without outer [''signature'']))"

definition sign_envelope :: "ext \<Rightarrow> dict \<Rightarrow> identity \<Rightarrow> string" where
  "sign_envelope X outer idn = bytes_hex (sign X idn (sig_input_bytes X outer))"

definition verify_envelope_signature :: "ext \<Rightarrow> dict \<Rightarrow> bytes \<Rightarrow> bool" where
  "verify_envelope_signature X outer sender_pub =
     (case dget ''signature'' outer of
        Some (JStr sig_hex) \<Rightarrow>
          (case bytes_fromhex sig_hex of
             None \<Rightarrow> False
           | Some sig \<Rightarrow> verify X sender_pub sig (sig_input_bytes X outer))
      | _ \<Rightarrow> False)"

section \<open>Session keys and nonces\<close>

text \<open>\<open>Inl ValueError\<close>: the peer's bytes are no usable X25519 key.\<close>

definition derive_session_key ::
    "ext \<Rightarrow> bytes \<Rightarrow> bytes \<Rightarrow> string \<Rightarrow> string \<Rightarrow> string \<Rightarrow> bytes \<Rightarrow> bytes res" where
  "derive_session_key X my_eph_priv peer_eph_pub sender_fp recipient_fp session_id bootstrap_nonce =
     (case x_exchange X my_eph_priv peer_eph_pub of
        None \<Rightarrow> Inl ValueError
      | Some shared \<Rightarrow>
          let fps = sort [sender_fp, recipient_fp];
              info = utf8_enc ''kindled-link/1|'' @ utf8_enc (fps ! 0) @ utf8_enc ''|''
                       @ utf8_enc (fps ! 1) @ utf8_enc ''|'' @ utf8_enc session_id
          in Inr (hkdf X bootstrap_nonce info shared))"

text \<open>Documented behaviour of X25519: both sides of an exchange compute the same secret.\<close>

definition exchange_commutes :: "ext \<Rightarrow> bool" where
  "exchange_commutes X \<longleftrightarrow>
     (\<forall>a b. x_exchange X a (x_pub X b) \<noteq> None \<and> x_exchange X a (x_pub X b) = x_exchange X b (x_pub X a))"

definition ROLE_INITIATOR :: int where "ROLE_INITIATOR = 0"
definition ROLE_RESPONDER :: int where "ROLE_RESPONDER = 1"

fun to_bytes_be :: "nat \<Rightarrow> nat \<Rightarrow> bytes" where
  "to_bytes_be 0 x = []"
| "to_bytes_be (Suc n) x = to_bytes_be n (x div 256) @ [word_of_nat (x mod 256)]"

definition aead_nonce :: "int \<Rightarrow> int \<Rightarrow> bytes res" where
  "aead_nonce role sequence =
     (if role \<notin> {ROLE_INITIATOR, ROLE_RESPONDER} then Inl ValueError
      else if sequence < 0 \<or> sequence \<ge> 2 ^ 88 then Inl ValueError
      else Inr (word_of_int role # to_bytes_be 11 (nat sequence)))"

definition from_bytes_be :: "bytes \<Rightarrow> nat" where
  "from_bytes_be bs = foldl (\<lambda>a b. 256 * a + unat b) 0 bs"

lemma length_to_bytes_be [simp]: "length (to_bytes_be n x) = n"
  by (induction n arbitrary: x) auto

lemma from_to_bytes_be: "x < 256 ^ n \<Longrightarrow> from_bytes_be (to_bytes_be n x) = x"
proof (induction n arbitrary: x)
  case 0
  then show ?case by (simp add: from_bytes_be_def)
next
  case (Suc n)
  have "x div 256 < 256 ^ n" using Suc.prems by (simp add: less_mult_imp_div_less mult.commute)
  then have "from_bytes_be (to_bytes_be n (x div 256)) = x div 256" by (rule Suc.IH)
  then show ?case by (simp add: from_bytes_be_def unat_of_nat)
qed

section \<open>Encryption\<close>

definition encrypt_payload :: "ext \<Rightarrow> json \<Rightarrow> bytes \<Rightarrow> int \<Rightarrow> int \<Rightarrow> bytes \<Rightarrow> string res" where
  "encrypt_payload X payload session_key role sequence aad =
     bind_res (aead_nonce role sequence) (\<lambda>nonce.
       Inr (bytes_hex (aead_enc X session_key nonce (canonical_json X payload) aad)))"

text \<open>\<open>Inl\<close> for every failure: a bad nonce, hex, tag, UTF-8 or JSON.\<close>

definition decrypt_payload :: "ext \<Rightarrow> string \<Rightarrow> bytes \<Rightarrow> int \<Rightarrow> int \<Rightarrow> bytes \<Rightarrow> json res" where
  "decrypt_payload X ciphertext_hex session_key role sequence aad =
     bind_res (aead_nonce role sequence) (\<lambda>nonce.
       case bytes_fromhex ciphertext_hex of
         None \<Rightarrow> Inl ValueError
       | Some ct \<Rightarrow>
           (case aead_dec X session_key nonce ct aad of
              None \<Rightarrow> Inl (OtherError ''InvalidTag'')
            | Some pt \<Rightarrow>
                (case Option.bind (utf8_dec pt) json_loads of
                   None \<Rightarrow> Inl ValueError
                 | Some j \<Rightarrow> Inr j)))"

text \<open>Documented behaviour of ChaCha20-Poly1305: decryption under the same key, nonce and data inverts encryption.\<close>

definition aead_inverts :: "ext \<Rightarrow> bool" where
  "aead_inverts X \<longleftrightarrow> (\<forall>k n p a. aead_dec X k n (aead_enc X k n p a) a = Some p)"

section \<open>Envelopes\<close>

datatype RejectReason =
    PROTOCOL_MISMATCH | BAD_SIGNATURE | WRONG_RECIPIENT | AEAD_FAILURE | REPLAY | EXPIRED

text \<open>The pair \<open>(payload, None)\<close> or \<open>(None, reason)\<close> the readers return.\<close>

datatype 'a verdict = Accept 'a | Reject RejectReason

definition envelope_head ::
    "ext \<Rightarrow> identity \<Rightarrow> string \<Rightarrow> json \<Rightarrow> string \<Rightarrow> int \<Rightarrow> time \<Rightarrow> int \<Rightarrow> dict" where
  "envelope_head X sender recipient_key_id relay_mailbox session_id sequence now ttl =
     [(''protocol'', JStr SUPPORTED_PROTOCOL),
      (''relay_mailbox'', relay_mailbox),
      (''sender_key_id'', JStr (key_id X sender)),
      (''recipient_key_id'', JStr recipient_key_id),
      (''session_id'', JStr session_id),
      (''sequence'', JInt sequence),
      (''created_at'', JStr (iso_z now)),
      (''expires_at'', JStr (iso_z (now + ttl)))]"

definition build_envelope ::
    "ext \<Rightarrow> json \<Rightarrow> identity \<Rightarrow> string \<Rightarrow> json \<Rightarrow> string \<Rightarrow> int \<Rightarrow> int \<Rightarrow> bytes \<Rightarrow> time \<Rightarrow> int \<Rightarrow> dict res" where
  "build_envelope X payload sender recipient_key_id relay_mailbox session_id sequence role session_key now ttl =
     (let outer = envelope_head X sender recipient_key_id relay_mailbox session_id sequence now ttl;
          aad = aad_bytes X outer
      in bind_res (encrypt_payload X payload session_key role sequence aad) (\<lambda>ct.
           let outer = dset ''ciphertext'' (JStr ct) outer
           in Inr (dset ''signature'' (JStr (sign_envelope X outer sender)) outer)))"

definition expired :: "dict \<Rightarrow> time \<Rightarrow> bool" where
  "expired envelope now =
     (case dget ''expires_at'' envelope of
        Some (JStr s) \<Rightarrow> (case parse_z s of None \<Rightarrow> True | Some due \<Rightarrow> now > due + skew)
      | _ \<Rightarrow> True)"

text \<open>
  \<open>int(envelope["sequence"])\<close> with the handlers around it: a missing key, a \<open>TypeError\<close> and a
  \<open>ValueError\<close> are caught, an \<open>OverflowError\<close> is not.
\<close>

definition read_sequence :: "dict \<Rightarrow> int option res" where
  "read_sequence envelope =
     (case dget ''sequence'' envelope of
        None \<Rightarrow> Inr None
      | Some j \<Rightarrow>
          (case py_int j of
             Inr i \<Rightarrow> Inr (Some i)
           | Inl TypeError \<Rightarrow> Inr None
           | Inl ValueError \<Rightarrow> Inr None
           | Inl e \<Rightarrow> Inl e))"

definition verify_and_open ::
    "ext \<Rightarrow> dict \<Rightarrow> identity \<Rightarrow> bytes \<Rightarrow> bytes \<Rightarrow> int \<Rightarrow> int \<Rightarrow> time \<Rightarrow> json verdict res" where
  "verify_and_open X envelope recipient sender_pub session_key sender_role seq_high_water now =
     (if dget ''protocol'' envelope \<noteq> Some (JStr SUPPORTED_PROTOCOL) then Inr (Reject PROTOCOL_MISMATCH)
      else if \<not> verify_envelope_signature X envelope sender_pub then Inr (Reject BAD_SIGNATURE)
      else if dget ''recipient_key_id'' envelope \<noteq> Some (JStr (key_id X recipient))
      then Inr (Reject WRONG_RECIPIENT)
      else bind_res (read_sequence envelope) (\<lambda>sq.
        case sq of
          None \<Rightarrow> Inr (Reject AEAD_FAILURE)
        | Some sequence \<Rightarrow>
            if sequence \<le> seq_high_water then Inr (Reject REPLAY)
            else if expired envelope now then Inr (Reject EXPIRED)
            else
              (case dget ''ciphertext'' envelope of
                 Some (JStr ct) \<Rightarrow>
                   (case decrypt_payload X ct session_key sender_role sequence (aad_bytes X envelope) of
                      Inl _ \<Rightarrow> Inr (Reject AEAD_FAILURE)
                    | Inr payload \<Rightarrow> Inr (Accept payload))
               | _ \<Rightarrow> Inr (Reject AEAD_FAILURE))))"

section \<open>Session-open envelopes\<close>

definition build_session_open ::
    "ext \<Rightarrow> identity \<Rightarrow> string \<Rightarrow> json \<Rightarrow> string \<Rightarrow> bytes \<Rightarrow> bytes \<Rightarrow> string \<Rightarrow> time \<Rightarrow> int \<Rightarrow> dict" where
  "build_session_open X sender recipient_key_id relay_mailbox session_id ephemeral_pub bootstrap_nonce
     sender_mailbox now ttl =
     (let outer =
        [(''protocol'', JStr SUPPORTED_PROTOCOL),
         (''relay_mailbox'', relay_mailbox),
         (''sender_key_id'', JStr (key_id X sender)),
         (''sender_mailbox'', JStr sender_mailbox),
         (''recipient_key_id'', JStr recipient_key_id),
         (''session_id'', JStr session_id),
         (''sequence'', JInt 0),
         (''created_at'', JStr (iso_z now)),
         (''expires_at'', JStr (iso_z (now + ttl))),
         (''session_open'', JObj
            [(''ephemeral_pub'', JStr (bytes_hex ephemeral_pub)),
             (''bootstrap_nonce'', JStr (bytes_hex bootstrap_nonce))])]
      in dset ''signature'' (JStr (sign_envelope X outer sender)) outer)"

text \<open>The parsed body with the signed \<open>sender_mailbox\<close> put in (\<open>None\<close> when absent).\<close>

definition parse_session_open :: "ext \<Rightarrow> dict \<Rightarrow> bytes \<Rightarrow> time \<Rightarrow> dict verdict" where
  "parse_session_open X envelope sender_pub now =
     (if dget ''protocol'' envelope \<noteq> Some (JStr SUPPORTED_PROTOCOL) then Reject PROTOCOL_MISMATCH
      else if \<not> verify_envelope_signature X envelope sender_pub then Reject BAD_SIGNATURE
      else if expired envelope now then Reject EXPIRED
      else
        (case dget ''session_open'' envelope of
           Some (JObj body) \<Rightarrow> Accept (dset ''sender_mailbox'' (dget_or ''sender_mailbox'' JNull envelope) body)
         | _ \<Rightarrow> Reject AEAD_FAILURE))"

section \<open>Key-rotation notices\<close>

definition KEY_ROTATION_MSG_TYPE :: string where
  "KEY_ROTATION_MSG_TYPE = ''key_rotation_notice''"

definition build_key_rotation_notice ::
    "ext \<Rightarrow> identity \<Rightarrow> bytes \<Rightarrow> string \<Rightarrow> json \<Rightarrow> string \<Rightarrow> time \<Rightarrow> int \<Rightarrow> dict" where
  "build_key_rotation_notice X old_sender new_identity_pub new_key_id relay_mailbox recipient_key_id now ttl =
     (let outer =
        [(''protocol'', JStr SUPPORTED_PROTOCOL),
         (''message_type'', JStr KEY_ROTATION_MSG_TYPE),
         (''relay_mailbox'', relay_mailbox),
         (''sender_key_id'', JStr (key_id X old_sender)),
         (''recipient_key_id'', JStr recipient_key_id),
         (''created_at'', JStr (iso_z now)),
         (''expires_at'', JStr (iso_z (now + ttl))),
         (''key_rotation'', JObj
            [(''new_identity_pub'', JStr (bytes_hex new_identity_pub)),
             (''new_key_id'', JStr new_key_id)])]
      in dset ''signature'' (JStr (sign_envelope X outer old_sender)) outer)"

text \<open>Accepted: the new public key in hexadecimal and its key id.\<close>

definition parse_key_rotation_notice :: "ext \<Rightarrow> dict \<Rightarrow> bytes \<Rightarrow> time \<Rightarrow> (string \<times> string) verdict" where
  "parse_key_rotation_notice X envelope sender_old_pub now =
     (if dget ''protocol'' envelope \<noteq> Some (JStr SUPPORTED_PROTOCOL) then Reject PROTOCOL_MISMATCH
      else if dget ''message_type'' envelope \<noteq> Some (JStr KEY_ROTATION_MSG_TYPE) then Reject PROTOCOL_MISMATCH
      else if \<not> verify_envelope_signature X envelope sender_old_pub then Reject BAD_SIGNATURE
      else if expired envelope now then Reject EXPIRED
      else
        (case dget ''key_rotation'' envelope of
           Some (JObj body) \<Rightarrow>
             (case (dget ''new_identity_pub'' body, dget ''new_key_id'' body) of
                (Some (JStr new_pub_hex), Some (JStr new_key_id)) \<Rightarrow>
                  (case bytes_fromhex new_pub_hex of
                     None \<Rightarrow> Reject AEAD_FAILURE
                   | Some new_pub_bytes \<Rightarrow>
                       if fingerprint X new_pub_bytes \<noteq> new_key_id then Reject AEAD_FAILURE
                       else Accept (new_pub_hex, new_key_id))
              | _ \<Rightarrow> Reject AEAD_FAILURE)
         | _ \<Rightarrow> Reject AEAD_FAILURE))"

section \<open>Facts for the components above\<close>

declare dget_dset [simp]

lemma dget_None_keys: "dget k d = None \<longleftrightarrow> k \<notin> fst ` set d"
  by (simp add: dget_def map_of_eq_None_iff)

lemma without_dset:
  "k \<in> set ks \<Longrightarrow> dget k d = None \<Longrightarrow> without (dset k v d) ks = without d ks"
  by (simp add: without_def dset_fresh dget_None_keys)

lemma signed_envelope_verifies:
  assumes "signatures_verify X" "dget ''signature'' outer = None"
  shows "verify_envelope_signature X (dset ''signature'' (JStr (sign_envelope X outer idn)) outer)
           (public_bytes X idn)"
  using assms verify_sign [OF assms(1)]
  by (simp add: verify_envelope_signature_def sign_envelope_def hexc.dec_enc sig_input_bytes_def without_dset)

lemma sort_pair_commute: "sort [a, b] = sort [b, a :: 'a :: linorder]"
  by auto

lemma derive_session_key_agree:
  assumes "exchange_commutes X"
  shows "derive_session_key X a (x_pub X b) f g sid nonce = derive_session_key X b (x_pub X a) g f sid nonce"
    and "\<exists>k. derive_session_key X a (x_pub X b) f g sid nonce = Inr k"
proof -
  have eq: "x_exchange X a (x_pub X b) = x_exchange X b (x_pub X a)"
    and "x_exchange X a (x_pub X b) \<noteq> None"
    using assms by (auto simp: exchange_commutes_def)
  then obtain sh where sh: "x_exchange X a (x_pub X b) = Some sh" "x_exchange X b (x_pub X a) = Some sh"
    by auto
  then show "derive_session_key X a (x_pub X b) f g sid nonce = derive_session_key X b (x_pub X a) g f sid nonce"
    unfolding derive_session_key_def sort_pair_commute [of f g] by simp
  show "\<exists>k. derive_session_key X a (x_pub X b) f g sid nonce = Inr k"
    using sh by (simp add: derive_session_key_def Let_def)
qed

lemma aead_nonce_ok: "role \<in> {0, 1} \<Longrightarrow> 0 \<le> s \<Longrightarrow> s < 2 ^ 88 \<Longrightarrow> \<exists>n. aead_nonce role s = Inr n"
  by (auto simp: aead_nonce_def ROLE_INITIATOR_def ROLE_RESPONDER_def)

lemma decrypt_encrypt:
  assumes "aead_inverts X" "plain payload" "encrypt_payload X payload key role s aad = Inr ct"
  shows "decrypt_payload X ct key role s aad = Inr (canon payload)"
  using assms cjson.dec_enc [OF assms(2), of X]
  by (auto simp: encrypt_payload_def decrypt_payload_def bind_res_Inr_iff hexc.dec_enc aead_inverts_def)

lemma expired_iso:
  assumes "valid_time t" "dget ''expires_at'' env = Some (JStr (iso_z t))"
  shows "expired env now \<longleftrightarrow> now > t - t mod second + skew"
  using assms by (simp add: expired_def parse_z_iso_z)

lemma envelope_head_fresh:
  "dget ''signature'' (envelope_head X idn r m sid s now ttl) = None"
  "dget ''ciphertext'' (envelope_head X idn r m sid s now ttl) = None"
  by (simp_all add: envelope_head_def)

lemma session_open_accepted:
  assumes "signatures_verify X" "valid_time (sent + ttl)" "now \<le> sent + ttl - (sent + ttl) mod second + skew"
  shows "parse_session_open X (build_session_open X sender rcpt mailbox sid eph nonce own_mailbox sent ttl)
            (public_bytes X sender) now
         = Accept [(''ephemeral_pub'', JStr (bytes_hex eph)), (''bootstrap_nonce'', JStr (bytes_hex nonce)),
                   (''sender_mailbox'', JStr own_mailbox)]"
proof -
  let ?env = "build_session_open X sender rcpt mailbox sid eph nonce own_mailbox sent ttl"
  have "verify_envelope_signature X ?env (public_bytes X sender)"
    unfolding build_session_open_def Let_def
    by (rule signed_envelope_verifies [OF assms(1)]) simp
  moreover have "\<not> expired ?env now"
    using assms(3) expired_iso [OF assms(2), of ?env now] by (simp add: build_session_open_def)
  ultimately show ?thesis
    unfolding parse_session_open_def by (simp add: build_session_open_def dget_or_def)
qed

section \<open>Properties of the protocol\<close>

text \<open>
   the AEAD nonce is never shared. Two (role, sequence) pairs that have a nonce at all have
  the same one only if they are the same pair, and a nonce has 12 bytes; outside the role
  bytes and the 88-bit sequence range there is a \<open>ValueError\<close> instead.
\<close>

theorem aead_nonce_unique:
  "aead_nonce r s = Inr n \<Longrightarrow> aead_nonce r' s' = Inr n \<Longrightarrow> r = r' \<and> s = s' \<and> length n = 12"
proof -
  assume a: "aead_nonce r s = Inr n" "aead_nonce r' s' = Inr n"
  then have n: "n = word_of_int r # to_bytes_be 11 (nat s)" "n = word_of_int r' # to_bytes_be 11 (nat s')"
    and r: "r \<in> {0, 1}" "r' \<in> {0, 1}" and s: "0 \<le> s" "s < 2 ^ 88" "0 \<le> s'" "s' < 2 ^ 88"
    by (auto simp: aead_nonce_def ROLE_INITIATOR_def ROLE_RESPONDER_def split: if_splits)
  from n have "(word_of_int r :: 8 word) = word_of_int r'" by simp
  with r have "r = r'" by auto
  moreover have "to_bytes_be 11 (nat s) = to_bytes_be 11 (nat s')" using n by simp
  then have "from_bytes_be (to_bytes_be 11 (nat s)) = from_bytes_be (to_bytes_be 11 (nat s'))" by simp
  moreover have "nat s < 256 ^ 11" "nat s' < 256 ^ 11" using s by auto
  ultimately show ?thesis using s n(1) by (simp add: from_to_bytes_be)
qed

theorem aead_nonce_unique_witness:
  "aead_nonce 1 5 = Inr (1 # to_bytes_be 11 5) \<and> length (1 # to_bytes_be 11 5) = 12"
proof -
  have h: "aead_nonce 1 5 = Inr (1 # to_bytes_be 11 5)"
    by (simp add: aead_nonce_def ROLE_INITIATOR_def ROLE_RESPONDER_def)
  show ?thesis using h aead_nonce_unique [OF h h] by blast
qed

text \<open>
  Session-key agreement. Whoever initiated, the two sides derive the same key from their
  ephemeral keys, the two fingerprints in either order, the session id and the salt, and the
  derivation succeeds. The hypothesis is the documented commutativity of X25519.
\<close>

theorem session_key_agreement:
  assumes "exchange_commutes X"
  shows "\<exists>key. derive_session_key X a (x_pub X b) fa fb sid nonce = Inr key
             \<and> derive_session_key X b (x_pub X a) fb fa sid nonce = Inr key"
  using derive_session_key_agree [OF assms] by metis

text \<open>A concrete stand-in for the external functions, for the witnesses.\<close>

definition toy :: ext where
  "toy = \<lparr>sha256 = (\<lambda>b. replicate 32 (sum_list b)), ed_pub = (\<lambda>k. k), ed_sign = (\<lambda>k m. k @ [sum_list m]),
          ed_verify = (\<lambda>p s m. s = p @ [sum_list m]), x_pub = (\<lambda>k. k),
          x_exchange = (\<lambda>a b. Some [sum_list a + sum_list b]), hkdf = (\<lambda>s i k. s @ k),
          aead_enc = (\<lambda>k n p a. n @ p), aead_dec = (\<lambda>k n c a. if take (length n) c = n then Some (drop (length n) c) else None),
          float_repr = (\<lambda>_. ''0.5''), sqlite_real = (\<lambda>_. ''0.5''), py_repr = (\<lambda>_. ''[]''),
          nfc = (\<lambda>s. s), casefold = lower\<rparr>"

lemma toy_laws:
  "signatures_verify toy" "exchange_commutes toy" "aead_inverts toy" "sha256_length toy"
  by (simp_all add: toy_def signatures_verify_def exchange_commutes_def aead_inverts_def
      sha256_length_def add.commute)

theorem session_key_agreement_witness:
  "exchange_commutes toy \<and>
   (\<exists>key. derive_session_key toy [1] (x_pub toy [2]) ''kid_a'' ''kid_b'' ''ks_1'' [9] = Inr key
        \<and> derive_session_key toy [2] (x_pub toy [1]) ''kid_b'' ''kid_a'' ''ks_1'' [9] = Inr key)"
  using toy_laws(2) session_key_agreement [OF toy_laws(2), of "[1]" "[2]" "''kid_a''" "''kid_b''" "''ks_1''" "[9]"]
  by blast

text \<open>The envelope of an honest sender, as the addressed recipient sees it.\<close>

lemma honest_envelope:
  assumes "signatures_verify X" "aead_inverts X" "plain payload"
    and "role \<in> {0, 1}" "0 \<le> s" "s < 2 ^ 88" "high_water < s"
    and "valid_time (sent + ttl)" "now \<le> sent + ttl - (sent + ttl) mod second + skew"
  shows "\<exists>env. build_envelope X payload sender (key_id X recipient) mailbox sid s role key sent ttl = Inr env
      \<and> dget ''session_id'' env = Some (JStr sid) \<and> dget ''sequence'' env = Some (JInt s)
      \<and> verify_and_open X env recipient (public_bytes X sender) key role high_water now
          = Inr (Accept (canon payload))"
proof -
  let ?head = "envelope_head X sender (key_id X recipient) mailbox sid s sent ttl"
  obtain ct where ct: "encrypt_payload X payload key role s (aad_bytes X ?head) = Inr ct"
    using aead_nonce_ok [OF assms(4-6)] by (auto simp: encrypt_payload_def)
  let ?body = "dset ''ciphertext'' (JStr ct) ?head"
  let ?env = "dset ''signature'' (JStr (sign_envelope X ?body sender)) ?body"
  have built: "build_envelope X payload sender (key_id X recipient) mailbox sid s role key sent ttl = Inr ?env"
    using ct by (simp add: build_envelope_def Let_def)
  have "aad_bytes X ?env = aad_bytes X ?head"
    by (simp add: aad_bytes_def without_dset envelope_head_fresh)
  then have "decrypt_payload X ct key role s (aad_bytes X ?env) = Inr (canon payload)"
    using decrypt_encrypt [OF assms(2,3) ct] by simp
  moreover have "\<not> expired ?env now"
    using assms(9) expired_iso [OF assms(8), of ?env now] by (simp add: envelope_head_def)
  moreover have "verify_envelope_signature X ?env (public_bytes X sender)"
    by (rule signed_envelope_verifies [OF assms(1)]) (simp add: envelope_head_fresh)
  ultimately have "verify_and_open X ?env recipient (public_bytes X sender) key role high_water now
      = Inr (Accept (canon payload))"
    using assms(7) by (simp add: verify_and_open_def read_sequence_def) (simp add: envelope_head_def)
  moreover have "dget ''session_id'' ?env = Some (JStr sid)" "dget ''sequence'' ?env = Some (JInt s)"
    by (simp_all add: envelope_head_def)
  ultimately show ?thesis using built by blast
qed

text \<open>
  C37: an honest message arrives. For a payload without floats, a valid role and sequence, the
  sender's envelope is built, and the addressed recipient who holds the same session key,
  expects the sender's role and has not yet seen the sequence opens it to the payload (its
  keys sorted) at any time up to the expiry plus five minutes.
\<close>

theorem envelope_roundtrip:
  assumes "signatures_verify X" "aead_inverts X" "plain payload"
    and "role \<in> {0, 1}" "0 \<le> s" "s < 2 ^ 88" "high_water < s"
    and "valid_time (sent + ttl)" "now \<le> sent + ttl - (sent + ttl) mod second + skew"
  shows "\<exists>env. build_envelope X payload sender (key_id X recipient) mailbox sid s role key sent ttl = Inr env
      \<and> verify_and_open X env recipient (public_bytes X sender) key role high_water now
          = Inr (Accept (canon payload))"
  using honest_envelope [OF assms, of sender recipient mailbox sid key] by blast

theorem envelope_roundtrip_witness:
  "valid_time (63000000000000000 + 7 * day)
   \<and> (\<exists>env. build_envelope toy (JObj [(''text'', JStr ''hello'')]) \<lparr>priv = [1]\<rparr> (key_id toy \<lparr>priv = [2]\<rparr>)
        (JStr ''mbx'') ''ks_1'' 1 0 [7] 63000000000000000 (7 * day) = Inr env
      \<and> verify_and_open toy env \<lparr>priv = [2]\<rparr> (public_bytes toy \<lparr>priv = [1]\<rparr>) [7] 0 0 63000000000000000
          = Inr (Accept (JObj [(''text'', JStr ''hello'')])))"
proof -
  have v: "valid_time (63000000000000000 + 7 * day)" by (simp add: valid_time_def)
  have "canon (JObj [(''text'', JStr ''hello'')]) = JObj [(''text'', JStr ''hello'')]" by simp
  then show ?thesis
    using v envelope_roundtrip [OF toy_laws(1,3), of "JObj [(''text'', JStr ''hello'')]" 0 1 0
        63000000000000000 "7 * day" 63000000000000000 "\<lparr>priv = [1]\<rparr>" "\<lparr>priv = [2]\<rparr>" "JStr ''mbx''" "''ks_1''" "[7]"]
    by (simp add: skew_def)
qed


text \<open>
   a sequence that is an infinite float is not rejected: a correctly signed and addressed
  envelope with it makes \<open>verify_and_open\<close> raise \<open>OverflowError\<close>, which none of its handlers
  catches, whatever the rest of the envelope says.
\<close>

theorem infinite_sequence_raises:
  assumes "dget ''protocol'' env = Some (JStr SUPPORTED_PROTOCOL)" "verify_envelope_signature X env pub"
    and "dget ''recipient_key_id'' env = Some (JStr (key_id X recipient))"
    and "dget ''sequence'' env = Some (JFloat PInf)"
  shows "verify_and_open X env recipient pub key role high_water now = Inl OverflowError"
  using assms by (simp add: verify_and_open_def read_sequence_def)

definition inf_outer :: dict where
  "inf_outer = [(''protocol'', JStr SUPPORTED_PROTOCOL), (''recipient_key_id'', JStr (key_id toy \<lparr>priv = [2]\<rparr>)),
     (''sequence'', JFloat PInf)]"

theorem infinite_sequence_raises_witness:
  "verify_and_open toy (dset ''signature'' (JStr (sign_envelope toy inf_outer \<lparr>priv = [1]\<rparr>)) inf_outer)
     \<lparr>priv = [2]\<rparr> (public_bytes toy \<lparr>priv = [1]\<rparr>) [7] 0 0 0 = Inl OverflowError"
proof (rule infinite_sequence_raises)
  show "verify_envelope_signature toy
      (dset ''signature'' (JStr (sign_envelope toy inf_outer \<lparr>priv = [1]\<rparr>)) inf_outer) (public_bytes toy \<lparr>priv = [1]\<rparr>)"
    by (rule signed_envelope_verifies [OF toy_laws(1)]) (simp add: inf_outer_def)
qed (simp_all add: inf_outer_def)

text \<open>
   session-open envelopes. A built one is accepted under the sender's public key until its
  expiry plus five minutes, and yields the ephemeral key, the bootstrap nonce and the sender's
  mailbox that were put in.
\<close>

theorem session_open_roundtrip:
  assumes "signatures_verify X" "valid_time (sent + ttl)" "now \<le> sent + ttl - (sent + ttl) mod second + skew"
  shows "parse_session_open X (build_session_open X sender rcpt mailbox sid eph nonce own_mailbox sent ttl)
            (public_bytes X sender) now
         = Accept [(''ephemeral_pub'', JStr (bytes_hex eph)), (''bootstrap_nonce'', JStr (bytes_hex nonce)),
                   (''sender_mailbox'', JStr own_mailbox)]"
  by (rule session_open_accepted [OF assms])

theorem session_open_roundtrip_witness:
  "valid_time (63000000000000000 + 7 * day) \<and>
   parse_session_open toy (build_session_open toy \<lparr>priv = [1]\<rparr> ''kid_b'' (JStr ''mbx_b'') ''ks_1'' [5] [6] ''mbx_a''
      63000000000000000 (7 * day)) (public_bytes toy \<lparr>priv = [1]\<rparr>) 63000000000000000
    = Accept [(''ephemeral_pub'', JStr (bytes_hex [5])), (''bootstrap_nonce'', JStr (bytes_hex [6])),
              (''sender_mailbox'', JStr ''mbx_a'')]"
proof -
  have v: "valid_time (63000000000000000 + 7 * day)" by (simp add: valid_time_def)
  show ?thesis
    using v session_open_roundtrip [OF toy_laws(1) v, of 63000000000000000] by (simp add: skew_def)
qed

text \<open>
   key rotation binds the new key. A notice is accepted only if it is signed with the old
  key, and then the new key id is the fingerprint of the new public key; a notice built for the
  key's own fingerprint is accepted until its expiry plus five minutes.
\<close>

theorem rotation_notice_binding:
  shows "parse_key_rotation_notice X env old_pub now = Accept (pub_hex, kid) \<Longrightarrow>
           verify_envelope_signature X env old_pub
           \<and> (\<exists>pub. bytes_fromhex pub_hex = Some pub \<and> kid = fingerprint X pub)"
  by (auto simp: parse_key_rotation_notice_def split: if_splits option.splits json.splits)

theorem rotation_notice_roundtrip:
  assumes "signatures_verify X" "valid_time (sent + ttl)" "now \<le> sent + ttl - (sent + ttl) mod second + skew"
  shows "parse_key_rotation_notice X
           (build_key_rotation_notice X old pub (fingerprint X pub) mailbox rcpt sent ttl) (public_bytes X old) now
         = Accept (bytes_hex pub, fingerprint X pub)"
proof -
  let ?env = "build_key_rotation_notice X old pub (fingerprint X pub) mailbox rcpt sent ttl"
  have "verify_envelope_signature X ?env (public_bytes X old)"
    unfolding build_key_rotation_notice_def Let_def
    by (rule signed_envelope_verifies [OF assms(1)]) simp
  moreover have "\<not> expired ?env now"
    using assms(3) expired_iso [OF assms(2), of ?env now] by (simp add: build_key_rotation_notice_def)
  ultimately show ?thesis
    unfolding parse_key_rotation_notice_def by (simp add: build_key_rotation_notice_def hexc.dec_enc)
qed

theorem rotation_notice_binding_witness:
  "verify_envelope_signature toy
     (build_key_rotation_notice toy \<lparr>priv = [1]\<rparr> [4] (fingerprint toy [4]) (JStr ''m'') ''kid_b'' 63000000000000000 day)
     (public_bytes toy \<lparr>priv = [1]\<rparr>)
   \<and> (\<exists>pub. bytes_fromhex (bytes_hex [4]) = Some pub \<and> fingerprint toy [4] = fingerprint toy pub)"
proof -
  have v: "valid_time (63000000000000000 + day)" by (simp add: valid_time_def)
  have "parse_key_rotation_notice toy
     (build_key_rotation_notice toy \<lparr>priv = [1]\<rparr> [4] (fingerprint toy [4]) (JStr ''m'') ''kid_b'' 63000000000000000 day)
     (public_bytes toy \<lparr>priv = [1]\<rparr>) 63000000000000000 = Accept (bytes_hex [4], fingerprint toy [4])"
    by (rule rotation_notice_roundtrip [OF toy_laws(1) v]) (simp add: skew_def)
  from rotation_notice_binding [OF this] show ?thesis .
qed

end
