(* ===== verification/Store.thy ===== *)
theory Store
  imports Json Pytime
begin

text \<open>
  \<open>KindledLinkStore\<close> (\<open>kindled_link/store.py\<close>): the SQLite tables as row lists in row-id
  order and one definition for each method. A method that can raise returns \<open>res\<close>; a method
  that writes returns the new store. A timestamp column holds \<open>now.isoformat()\<close> of an aware
  UTC \<open>now\<close>; the columns the code only writes itself and orders by (\<open>started_at\<close>,
  \<open>cooldown_until\<close>) are instants, since that text sorts chronologically; the columns it reads
  back through a parser with a failure branch are stamps.
\<close>

section \<open>Rows and tables\<close>

record peer_row =
  p_id :: string
  identity_pub :: string
  p_fingerprint :: string
  consent_state :: string
  relay_url :: "string option"
  relay_mailbox :: "string option"
  p_created_at :: time
  p_updated_at :: time
  previous_identity_pub :: "string option"

record session_row =
  s_peer :: string
  s_id :: string
  s_state :: string
  msg_count :: int
  started_at :: time
  ended_at :: "time option"
  last_outbound_at :: "stamp option"
  cooldown_until :: "time option"

record counter_row =
  c_peer :: string
  reset_date :: string
  outbound_count :: int
  provider_call_count :: int

record draft_row =
  d_id :: nat
  d_peer :: string
  d_session :: string
  payload_json :: json
  d_status :: string
  d_created_at :: time

record transcript_row =
  t_peer :: string
  t_session :: string
  t_seq :: int
  t_direction :: string
  t_text :: json
  t_provenance :: string
  t_ts :: time

record meter_row =
  m_peer :: string
  m_value :: rat
  m_updated_at :: stamp

record rel_row =
  r_peer :: string
  r_stage :: string
  r_trust :: rat
  r_affinity :: "string list"
  r_boundaries :: "string list"
  r_repairs :: "string list"
  r_evidence :: "(string \<times> string \<times> string) list"
  r_reflected_at :: "time option"

record handshake_row =
  h_peer :: string
  h_session :: string
  my_eph_priv :: bytes
  h_nonce :: bytes
  h_role :: int
  h_created_at :: "time option"

record key_row =
  k_peer :: string
  k_session :: string
  session_key :: bytes
  my_role :: int
  peer_role :: int
  established_at :: time

record notice_row =
  n_peer :: string
  n_envelope :: dict
  n_queued_at :: time

record seq_row =
  q_peer :: string
  q_session :: string
  q_value :: int

record store =
  peers :: "peer_row list"
  consumed_invites :: "(string \<times> time) list"
  seq_high_water :: "seq_row list"
  sessions :: "session_row list"
  peer_counters :: "counter_row list"
  outbound_drafts :: "draft_row list"
  last_draft_id :: nat
  transcript :: "transcript_row list"
  disclosure_budget :: "meter_row list"
  relationship_state :: "rel_row list"
  peer_emotion_window :: "meter_row list"
  local_identity :: "(string \<times> string) list"
  outbound_seq :: "seq_row list"
  pending_handshakes :: "handshake_row list"
  session_keys :: "key_row list"
  pending_rotation_notices :: "notice_row list"

definition empty_store :: store where
  "empty_store = \<lparr>peers = [], consumed_invites = [], seq_high_water = [], sessions = [], peer_counters = [],
     outbound_drafts = [], last_draft_id = 0, transcript = [], disclosure_budget = [],
     relationship_state = [], peer_emotion_window = [], local_identity = [], outbound_seq = [],
     pending_handshakes = [], session_keys = [], pending_rotation_notices = []\<rparr>"

text \<open>The primary keys.\<close>

abbreviation session_key_of :: "session_row \<Rightarrow> string \<times> string" where
  "session_key_of r \<equiv> (s_peer r, s_id r)"
abbreviation seq_key_of :: "seq_row \<Rightarrow> string \<times> string" where
  "seq_key_of r \<equiv> (q_peer r, q_session r)"
abbreviation handshake_key_of :: "handshake_row \<Rightarrow> string \<times> string" where
  "handshake_key_of r \<equiv> (h_peer r, h_session r)"
abbreviation key_key_of :: "key_row \<Rightarrow> string \<times> string" where
  "key_key_of r \<equiv> (k_peer r, k_session r)"
abbreviation transcript_key_of :: "transcript_row \<Rightarrow> string \<times> string \<times> int" where
  "transcript_key_of r \<equiv> (t_peer r, t_session r, t_seq r)"

section \<open>Values bound to a statement\<close>

text \<open>
  A JSON value bound where the statement compares with a \<open>TEXT\<close> column: text is itself, \<open>None\<close>
  and NaN are \<open>NULL\<close> (equal to no row), a number is its text, a list or an object cannot be
  bound, and an integer beyond 64 bits is an \<open>OverflowError\<close>.
\<close>

definition int64 :: "int \<Rightarrow> bool" where
  "int64 i \<longleftrightarrow> - (2 ^ 63) \<le> i \<and> i < 2 ^ 63"

fun bind_text :: "ext \<Rightarrow> json \<Rightarrow> string option res" where
  "bind_text X JNull = Inr None"
| "bind_text X (JStr s) = Inr (Some s)"
| "bind_text X (JBool b) = Inr (Some (if b then ''1'' else ''0''))"
| "bind_text X (JInt i) = (if int64 i then Inr (Some (dec_int i)) else Inl OverflowError)"
| "bind_text X (JFloat (Fin q)) = Inr (Some (sqlite_real X q))"
| "bind_text X (JFloat PInf) = Inr (Some ''Inf'')"
| "bind_text X (JFloat NInf) = Inr (Some ''-Inf'')"
| "bind_text X (JFloat NaN) = Inr None"
| "bind_text X (JList _) = Inl InterfaceError"
| "bind_text X (JObj _) = Inl InterfaceError"

section \<open>Peers and consent\<close>

definition CONSENT_STATES :: "string list" where
  "CONSENT_STATES = [''pending_local'', ''pending_remote'', ''paired'', ''paused'', ''revoked'', ''blocked'']"

definition ALLOWED_TRANSITIONS :: "(string \<times> string list) list" where
  "ALLOWED_TRANSITIONS =
     [(''pending_local'', [''pending_remote'', ''paired'', ''revoked'', ''blocked'']),
      (''pending_remote'', [''paired'', ''revoked'', ''blocked'']),
      (''paired'', [''paused'', ''revoked'', ''blocked'']),
      (''paused'', [''paired'', ''revoked'', ''blocked'']),
      (''revoked'', [''blocked'']),
      (''blocked'', [])]"

definition get_peer :: "store \<Rightarrow> string \<Rightarrow> peer_row option" where
  "get_peer st peer_id = tget p_id peer_id (peers st)"

definition upsert_peer ::
    "string \<Rightarrow> string \<Rightarrow> string \<Rightarrow> string \<Rightarrow> string option \<Rightarrow> string option \<Rightarrow> time \<Rightarrow> store \<Rightarrow> store res" where
  "upsert_peer peer_id identity_pub_hex fp consent url mailbox now st =
     (if consent \<notin> set CONSENT_STATES then Inl (ConsentTransitionError ''unknown consent state'')
      else
        let row = (case get_peer st peer_id of
            None \<Rightarrow> \<lparr>p_id = peer_id, identity_pub = identity_pub_hex, p_fingerprint = fp, consent_state = consent,
                     relay_url = url, relay_mailbox = mailbox, p_created_at = now, p_updated_at = now,
                     previous_identity_pub = None\<rparr>
          | Some old \<Rightarrow> old\<lparr>identity_pub := identity_pub_hex, p_fingerprint := fp, consent_state := consent,
                     relay_url := url,
                     relay_mailbox := (case mailbox of None \<Rightarrow> relay_mailbox old | Some m \<Rightarrow> Some m),
                     p_updated_at := now\<rparr>)
        in Inr (st\<lparr>peers := tput p_id row (peers st)\<rparr>))"

definition set_consent :: "string \<Rightarrow> string \<Rightarrow> time \<Rightarrow> store \<Rightarrow> store res" where
  "set_consent peer_id new_state now st =
     (if new_state \<notin> set CONSENT_STATES then Inl (ConsentTransitionError ''unknown consent state'')
      else case get_peer st peer_id of
        None \<Rightarrow> Inl (ConsentTransitionError ''no such peer'')
      | Some peer \<Rightarrow>
          (case map_of ALLOWED_TRANSITIONS (consent_state peer) of
             None \<Rightarrow> Inl KeyError
           | Some allowed \<Rightarrow>
               if new_state \<notin> set allowed then Inl (ConsentTransitionError ''transition not allowed'')
               else Inr (st\<lparr>peers := tupd p_id peer_id
                          (\<lambda>r. r\<lparr>consent_state := new_state, p_updated_at := now\<rparr>) (peers st)\<rparr>)))"

definition list_paired_peers :: "store \<Rightarrow> peer_row list" where
  "list_paired_peers st = filter (\<lambda>r. consent_state r = ''paired'') (peers st)"

section \<open>Consumed invites\<close>

definition is_invite_consumed :: "store \<Rightarrow> string \<Rightarrow> bool" where
  "is_invite_consumed st invite_id = (invite_id \<in> fst ` set (consumed_invites st))"

definition mark_invite_consumed :: "string \<Rightarrow> time \<Rightarrow> store \<Rightarrow> store res" where
  "mark_invite_consumed invite_id now st =
     (if is_invite_consumed st invite_id then Inl (ConsentTransitionError ''invite already consumed'')
      else Inr (st\<lparr>consumed_invites := consumed_invites st @ [(invite_id, now)]\<rparr>))"

section \<open>Sequence high water\<close>

definition get_seq_high_water :: "store \<Rightarrow> string \<Rightarrow> string \<Rightarrow> int" where
  "get_seq_high_water st peer_id session_id =
     (case tget seq_key_of (peer_id, session_id) (seq_high_water st) of None \<Rightarrow> 0 | Some r \<Rightarrow> q_value r)"

definition set_seq_high_water :: "string \<Rightarrow> string \<Rightarrow> int \<Rightarrow> store \<Rightarrow> store res" where
  "set_seq_high_water peer_id session_id value st =
     (if int64 value then
        Inr (st\<lparr>seq_high_water :=
          tput seq_key_of \<lparr>q_peer = peer_id, q_session = session_id, q_value = value\<rparr> (seq_high_water st)\<rparr>)
      else Inl OverflowError)"

section \<open>Sessions\<close>

definition create_session :: "string \<Rightarrow> string \<Rightarrow> time \<Rightarrow> store \<Rightarrow> store" where
  "create_session peer_id session_id now st =
     st\<lparr>sessions := tins session_key_of
        \<lparr>s_peer = peer_id, s_id = session_id, s_state = ''open'', msg_count = 0, started_at = now,
         ended_at = None, last_outbound_at = None, cooldown_until = None\<rparr> (sessions st)\<rparr>"

definition get_session :: "store \<Rightarrow> string \<Rightarrow> string \<Rightarrow> session_row option" where
  "get_session st peer_id session_id = tget session_key_of (peer_id, session_id) (sessions st)"

text \<open>\<open>ORDER BY started_at DESC LIMIT 1\<close> over the peer's open sessions.\<close>

definition get_active_session :: "store \<Rightarrow> string \<Rightarrow> session_row option" where
  "get_active_session st peer_id =
     (case sort_key (\<lambda>r. - started_at r) (filter (\<lambda>r. s_peer r = peer_id \<and> s_state r = ''open'') (sessions st)) of
        [] \<Rightarrow> None | r # _ \<Rightarrow> Some r)"

definition bump_session_outbound :: "string \<Rightarrow> string \<Rightarrow> time \<Rightarrow> store \<Rightarrow> store" where
  "bump_session_outbound peer_id session_id now st =
     st\<lparr>sessions := tupd session_key_of (peer_id, session_id)
        (\<lambda>r. r\<lparr>msg_count := msg_count r + 1, last_outbound_at := Some (At now)\<rparr>) (sessions st)\<rparr>"

definition end_session :: "string \<Rightarrow> string \<Rightarrow> time \<Rightarrow> time \<Rightarrow> store \<Rightarrow> store" where
  "end_session peer_id session_id now cooldown st =
     st\<lparr>sessions := tupd session_key_of (peer_id, session_id)
        (\<lambda>r. r\<lparr>s_state := ''ended'', ended_at := Some now, cooldown_until := Some cooldown\<rparr>) (sessions st)\<rparr>"

definition latest_cooldown_until :: "store \<Rightarrow> string \<Rightarrow> time option" where
  "latest_cooldown_until st peer_id =
     (let cs = map (\<lambda>r. the (cooldown_until r))
                 (filter (\<lambda>r. s_peer r = peer_id \<and> s_state r = ''ended'' \<and> cooldown_until r \<noteq> None) (sessions st))
      in if cs = [] then None else Some (Max (set cs)))"

section \<open>Daily counters\<close>

definition get_counters :: "store \<Rightarrow> string \<Rightarrow> string \<Rightarrow> int \<times> int" where
  "get_counters st peer_id today =
     (case tget c_peer peer_id (peer_counters st) of
        None \<Rightarrow> (0, 0)
      | Some r \<Rightarrow> if reset_date r \<noteq> today then (0, 0) else (outbound_count r, provider_call_count r))"

definition ensure_counter_row :: "string \<Rightarrow> string \<Rightarrow> store \<Rightarrow> store" where
  "ensure_counter_row peer_id today st =
     (let fresh = \<lparr>c_peer = peer_id, reset_date = today, outbound_count = 0, provider_call_count = 0\<rparr>
      in case tget c_peer peer_id (peer_counters st) of
           None \<Rightarrow> st\<lparr>peer_counters := peer_counters st @ [fresh]\<rparr>
         | Some r \<Rightarrow>
             if reset_date r \<noteq> today
             then st\<lparr>peer_counters := tupd c_peer peer_id
                      (\<lambda>r. r\<lparr>reset_date := today, outbound_count := 0, provider_call_count := 0\<rparr>) (peer_counters st)\<rparr>
             else st)"

definition incr_outbound_count :: "string \<Rightarrow> string \<Rightarrow> store \<Rightarrow> store" where
  "incr_outbound_count peer_id today st =
     (let st = ensure_counter_row peer_id today st
      in st\<lparr>peer_counters := tupd c_peer peer_id (\<lambda>r. r\<lparr>outbound_count := outbound_count r + 1\<rparr>) (peer_counters st)\<rparr>)"

definition incr_provider_count :: "string \<Rightarrow> string \<Rightarrow> store \<Rightarrow> store" where
  "incr_provider_count peer_id today st =
     (let st = ensure_counter_row peer_id today st
      in st\<lparr>peer_counters := tupd c_peer peer_id (\<lambda>r. r\<lparr>provider_call_count := provider_call_count r + 1\<rparr>) (peer_counters st)\<rparr>)"

text \<open>
  \<open>UPDATE ... WHERE peer_id = ? AND outbound_count < ? RETURNING\<close>: the slot is reserved when
  a row was updated.
\<close>

definition try_reserve_outbound :: "string \<Rightarrow> string \<Rightarrow> int \<Rightarrow> store \<Rightarrow> bool \<times> store" where
  "try_reserve_outbound peer_id today cap st =
     (let st = ensure_counter_row peer_id today st;
          hit = (\<exists>r \<in> set (peer_counters st). c_peer r = peer_id \<and> outbound_count r < cap)
      in (hit, st\<lparr>peer_counters := tupd c_peer peer_id
            (\<lambda>r. if outbound_count r < cap then r\<lparr>outbound_count := outbound_count r + 1\<rparr> else r) (peer_counters st)\<rparr>))"

definition try_reserve_provider :: "string \<Rightarrow> string \<Rightarrow> int \<Rightarrow> store \<Rightarrow> bool \<times> store" where
  "try_reserve_provider peer_id today cap st =
     (let st = ensure_counter_row peer_id today st;
          hit = (\<exists>r \<in> set (peer_counters st). c_peer r = peer_id \<and> provider_call_count r < cap)
      in (hit, st\<lparr>peer_counters := tupd c_peer peer_id
            (\<lambda>r. if provider_call_count r < cap then r\<lparr>provider_call_count := provider_call_count r + 1\<rparr> else r)
            (peer_counters st)\<rparr>))"

definition release_provider_slot :: "string \<Rightarrow> string \<Rightarrow> store \<Rightarrow> store" where
  "release_provider_slot peer_id today st =
     (let st = ensure_counter_row peer_id today st
      in st\<lparr>peer_counters := tupd c_peer peer_id
            (\<lambda>r. r\<lparr>provider_call_count := max 0 (provider_call_count r - 1)\<rparr>) (peer_counters st)\<rparr>)"

section \<open>Outbound drafts\<close>

definition save_draft :: "string \<Rightarrow> string \<Rightarrow> json \<Rightarrow> time \<Rightarrow> string \<Rightarrow> store \<Rightarrow> nat \<times> store" where
  "save_draft peer_id session_id payload now status st =
     (let i = Suc (last_draft_id st)
      in (i, st\<lparr>outbound_drafts := outbound_drafts st @
               [\<lparr>d_id = i, d_peer = peer_id, d_session = session_id, payload_json = payload,
                 d_status = status, d_created_at = now\<rparr>],
               last_draft_id := i\<rparr>))"

definition get_pending_drafts :: "store \<Rightarrow> draft_row list" where
  "get_pending_drafts st = sort_key d_id (filter (\<lambda>r. d_status r = ''pending'') (outbound_drafts st))"

definition set_draft_status :: "nat \<Rightarrow> string \<Rightarrow> store \<Rightarrow> store" where
  "set_draft_status draft_id status st =
     st\<lparr>outbound_drafts := tupd d_id draft_id (\<lambda>r. r\<lparr>d_status := status\<rparr>) (outbound_drafts st)\<rparr>"

definition count_holds_for_peer :: "store \<Rightarrow> string \<Rightarrow> nat" where
  "count_holds_for_peer st peer_id =
     length (filter (\<lambda>r. d_peer r = peer_id \<and> d_status r = ''hold'') (outbound_drafts st))"

section \<open>Transcript\<close>

definition append_transcript ::
    "string \<Rightarrow> string \<Rightarrow> int \<Rightarrow> string \<Rightarrow> json \<Rightarrow> time \<Rightarrow> string \<Rightarrow> store \<Rightarrow> store res" where
  "append_transcript peer_id session_id seq direction txt now provenance st =
     (if \<not> int64 seq then Inl OverflowError
      else if \<not> (case txt of JStr _ \<Rightarrow> True | JInt i \<Rightarrow> int64 i | JBool _ \<Rightarrow> True | JFloat f \<Rightarrow> f \<noteq> NaN | _ \<Rightarrow> False)
      then Inl (case txt of JNull \<Rightarrow> IntegrityError | JFloat _ \<Rightarrow> IntegrityError | JInt _ \<Rightarrow> OverflowError
                 | _ \<Rightarrow> InterfaceError)
      else if tget transcript_key_of (peer_id, session_id, seq) (transcript st) \<noteq> None then Inl IntegrityError
      else Inr (st\<lparr>transcript := transcript st @
             [\<lparr>t_peer = peer_id, t_session = session_id, t_seq = seq, t_direction = direction, t_text = txt,
               t_provenance = provenance, t_ts = now\<rparr>]\<rparr>))"

definition recent_transcript :: "store \<Rightarrow> string \<Rightarrow> nat \<Rightarrow> transcript_row list" where
  "recent_transcript st peer_id limit =
     take limit (sort_key (\<lambda>r. - t_seq r) (filter (\<lambda>r. t_peer r = peer_id) (transcript st)))"

section \<open>Disclosure budget\<close>

definition BUDGET_MAX :: rat where "BUDGET_MAX = 1"
definition BUDGET_REFILL_PER_DAY :: rat where "BUDGET_REFILL_PER_DAY = 1 / 2"

definition refilled :: "rat \<Rightarrow> stamp \<Rightarrow> time \<Rightarrow> rat" where
  "refilled stored updated now =
     (let elapsed_days = (case since now updated of Inr d \<Rightarrow> of_int d / of_int day | Inl _ \<Rightarrow> 0);
          r = stored + max 0 elapsed_days * BUDGET_REFILL_PER_DAY
      in min BUDGET_MAX (max 0 r))"

definition get_disclosure_budget :: "store \<Rightarrow> string \<Rightarrow> time \<Rightarrow> rat" where
  "get_disclosure_budget st peer_id now =
     (case tget m_peer peer_id (disclosure_budget st) of
        None \<Rightarrow> BUDGET_MAX
      | Some r \<Rightarrow> refilled (m_value r) (m_updated_at r) now)"

definition debit_disclosure_budget :: "string \<Rightarrow> rat \<Rightarrow> time \<Rightarrow> store \<Rightarrow> store" where
  "debit_disclosure_budget peer_id amount now st =
     (let new_budget = max 0 (get_disclosure_budget st peer_id now - amount)
      in st\<lparr>disclosure_budget := tput m_peer
            \<lparr>m_peer = peer_id, m_value = new_budget, m_updated_at = At now\<rparr> (disclosure_budget st)\<rparr>)"

section \<open>Relationship rows\<close>

definition get_relationship_row :: "store \<Rightarrow> string \<Rightarrow> rel_row option" where
  "get_relationship_row st peer_id = tget r_peer peer_id (relationship_state st)"

definition upsert_relationship_row :: "rel_row \<Rightarrow> time \<Rightarrow> store \<Rightarrow> store" where
  "upsert_relationship_row row now st =
     st\<lparr>relationship_state := tput r_peer (row\<lparr>r_reflected_at := Some now\<rparr>) (relationship_state st)\<rparr>"

section \<open>Peer emotion window\<close>

definition PEER_EMOTION_WINDOW_HOURS :: rat where "PEER_EMOTION_WINDOW_HOURS = 24"

definition decayed_window :: "rat \<Rightarrow> stamp \<Rightarrow> time \<Rightarrow> rat" where
  "decayed_window stored updated now =
     (case since now updated of
        Inl _ \<Rightarrow> stored
      | Inr d \<Rightarrow>
          let elapsed_h = of_int d / of_int hour in
          if elapsed_h \<le> 0 then stored
          else stored * max 0 (1 - elapsed_h / PEER_EMOTION_WINDOW_HOURS))"

definition get_peer_emotion_accumulated :: "store \<Rightarrow> string \<Rightarrow> time \<Rightarrow> rat" where
  "get_peer_emotion_accumulated st peer_id now =
     (case tget m_peer peer_id (peer_emotion_window st) of
        None \<Rightarrow> 0
      | Some r \<Rightarrow> decayed_window (m_value r) (m_updated_at r) now)"

definition add_peer_emotion :: "string \<Rightarrow> pyfloat \<Rightarrow> time \<Rightarrow> store \<Rightarrow> rat \<times> store" where
  "add_peer_emotion peer_id magnitude now st =
     (let m = (case magnitude of Fin q \<Rightarrow> q | _ \<Rightarrow> 0);
          new_total = get_peer_emotion_accumulated st peer_id now + max 0 m
      in (new_total, st\<lparr>peer_emotion_window := tput m_peer
            \<lparr>m_peer = peer_id, m_value = new_total, m_updated_at = At now\<rparr> (peer_emotion_window st)\<rparr>))"

section \<open>Local mailbox\<close>

text \<open>\<open>token\<close> is what \<open>secrets.token_hex(8)\<close> returns if it is called.\<close>

definition get_or_create_local_mailbox :: "string \<Rightarrow> store \<Rightarrow> string \<times> store" where
  "get_or_create_local_mailbox token st =
     (case map_of (local_identity st) ''relay_mailbox'' of
        Some v \<Rightarrow> (v, st)
      | None \<Rightarrow>
          let mbx = ''mbx_'' @ token
          in (mbx, st\<lparr>local_identity := local_identity st @ [(''relay_mailbox'', mbx)]\<rparr>))"

section \<open>Handshakes and session keys\<close>

definition save_pending_handshake ::
    "string \<Rightarrow> string \<Rightarrow> bytes \<Rightarrow> bytes \<Rightarrow> int \<Rightarrow> time option \<Rightarrow> store \<Rightarrow> store" where
  "save_pending_handshake peer_id session_id my_eph_priv_raw bootstrap_nonce role now st =
     st\<lparr>pending_handshakes := tput handshake_key_of
        \<lparr>h_peer = peer_id, h_session = session_id, my_eph_priv = my_eph_priv_raw, h_nonce = bootstrap_nonce,
         h_role = role, h_created_at = now\<rparr> (pending_handshakes st)\<rparr>"

definition get_pending_handshake :: "store \<Rightarrow> string \<Rightarrow> string \<Rightarrow> handshake_row option" where
  "get_pending_handshake st peer_id session_id =
     tget handshake_key_of (peer_id, session_id) (pending_handshakes st)"

definition clear_pending_handshake :: "string \<Rightarrow> string \<Rightarrow> store \<Rightarrow> store" where
  "clear_pending_handshake peer_id session_id st =
     st\<lparr>pending_handshakes := tdel handshake_key_of (peer_id, session_id) (pending_handshakes st)\<rparr>"

definition save_session_key :: "string \<Rightarrow> string \<Rightarrow> bytes \<Rightarrow> int \<Rightarrow> int \<Rightarrow> time \<Rightarrow> store \<Rightarrow> store" where
  "save_session_key peer_id session_id key mine theirs now st =
     st\<lparr>session_keys := tins key_key_of
        \<lparr>k_peer = peer_id, k_session = session_id, session_key = key, my_role = mine, peer_role = theirs,
         established_at = now\<rparr> (session_keys st)\<rparr>"

definition get_session_key :: "store \<Rightarrow> string \<Rightarrow> string \<Rightarrow> key_row option" where
  "get_session_key st peer_id session_id = tget key_key_of (peer_id, session_id) (session_keys st)"

definition next_outbound_sequence :: "string \<Rightarrow> string \<Rightarrow> store \<Rightarrow> int \<times> store" where
  "next_outbound_sequence peer_id session_id st =
     (let seq = (case tget seq_key_of (peer_id, session_id) (outbound_seq st) of
                   None \<Rightarrow> 1 | Some r \<Rightarrow> q_value r + 1)
      in (seq, st\<lparr>outbound_seq := tput seq_key_of
            \<lparr>q_peer = peer_id, q_session = session_id, q_value = seq\<rparr> (outbound_seq st)\<rparr>))"

section \<open>Key rotation\<close>

definition queue_rotation_notice :: "string \<Rightarrow> dict \<Rightarrow> time \<Rightarrow> store \<Rightarrow> store" where
  "queue_rotation_notice peer_id envelope now st =
     st\<lparr>pending_rotation_notices := tput n_peer
        \<lparr>n_peer = peer_id, n_envelope = envelope, n_queued_at = now\<rparr> (pending_rotation_notices st)\<rparr>"

definition pop_pending_rotation_notices :: "store \<Rightarrow> notice_row list" where
  "pop_pending_rotation_notices st = pending_rotation_notices st"

definition clear_rotation_notice :: "string \<Rightarrow> store \<Rightarrow> store" where
  "clear_rotation_notice peer_id st =
     st\<lparr>pending_rotation_notices := tdel n_peer peer_id (pending_rotation_notices st)\<rparr>"

text \<open>
  \<open>UPDATE table SET peer_id = new WHERE peer_id = old\<close>: an \<open>IntegrityError\<close> and no change when
  two rows would share a primary key.
\<close>

definition rekey :: "('r \<Rightarrow> 'k) \<Rightarrow> ('r \<Rightarrow> string) \<Rightarrow> (string \<Rightarrow> 'r \<Rightarrow> 'r) \<Rightarrow> string \<Rightarrow> string \<Rightarrow> 'r list \<Rightarrow> 'r list option" where
  "rekey key pid set_pid old new t =
     (let t' = map (\<lambda>r. if pid r = old then set_pid new r else r) t
      in if distinct (map key t') then Some t' else None)"

text \<open>One step of the loop over the child tables: stop at the first conflict.\<close>

definition rekey_step :: "'r list option \<Rightarrow> ('r list \<Rightarrow> store) \<Rightarrow> (store \<Rightarrow> store res \<times> store) \<Rightarrow> store \<Rightarrow> store res \<times> store" where
  "rekey_step t put k st = (case t of None \<Rightarrow> (Inl IntegrityError, st) | Some t' \<Rightarrow> k (put t'))"

definition rekey_children :: "string \<Rightarrow> string \<Rightarrow> store \<Rightarrow> store res \<times> store" where
  "rekey_children old new st =
     rekey_step (rekey seq_key_of q_peer (\<lambda>p r. r\<lparr>q_peer := p\<rparr>) old new (seq_high_water st)) (\<lambda>t. st\<lparr>seq_high_water := t\<rparr>) (\<lambda>st.
     rekey_step (rekey session_key_of s_peer (\<lambda>p r. r\<lparr>s_peer := p\<rparr>) old new (sessions st)) (\<lambda>t. st\<lparr>sessions := t\<rparr>) (\<lambda>st.
     rekey_step (rekey c_peer c_peer (\<lambda>p r. r\<lparr>c_peer := p\<rparr>) old new (peer_counters st)) (\<lambda>t. st\<lparr>peer_counters := t\<rparr>) (\<lambda>st.
     rekey_step (rekey d_id d_peer (\<lambda>p r. r\<lparr>d_peer := p\<rparr>) old new (outbound_drafts st)) (\<lambda>t. st\<lparr>outbound_drafts := t\<rparr>) (\<lambda>st.
     rekey_step (rekey transcript_key_of t_peer (\<lambda>p r. r\<lparr>t_peer := p\<rparr>) old new (transcript st)) (\<lambda>t. st\<lparr>transcript := t\<rparr>) (\<lambda>st.
     rekey_step (rekey m_peer m_peer (\<lambda>p r. r\<lparr>m_peer := p\<rparr>) old new (disclosure_budget st)) (\<lambda>t. st\<lparr>disclosure_budget := t\<rparr>) (\<lambda>st.
     rekey_step (rekey r_peer r_peer (\<lambda>p r. r\<lparr>r_peer := p\<rparr>) old new (relationship_state st)) (\<lambda>t. st\<lparr>relationship_state := t\<rparr>) (\<lambda>st.
     rekey_step (rekey m_peer m_peer (\<lambda>p r. r\<lparr>m_peer := p\<rparr>) old new (peer_emotion_window st)) (\<lambda>t. st\<lparr>peer_emotion_window := t\<rparr>) (\<lambda>st.
     rekey_step (rekey seq_key_of q_peer (\<lambda>p r. r\<lparr>q_peer := p\<rparr>) old new (outbound_seq st)) (\<lambda>t. st\<lparr>outbound_seq := t\<rparr>) (\<lambda>st.
     rekey_step (rekey handshake_key_of h_peer (\<lambda>p r. r\<lparr>h_peer := p\<rparr>) old new (pending_handshakes st)) (\<lambda>t. st\<lparr>pending_handshakes := t\<rparr>) (\<lambda>st.
     rekey_step (rekey key_key_of k_peer (\<lambda>p r. r\<lparr>k_peer := p\<rparr>) old new (session_keys st)) (\<lambda>t. st\<lparr>session_keys := t\<rparr>) (\<lambda>st.
     rekey_step (rekey n_peer n_peer (\<lambda>p r. r\<lparr>n_peer := p\<rparr>) old new (pending_rotation_notices st)) (\<lambda>t. st\<lparr>pending_rotation_notices := t\<rparr>) (\<lambda>st.
       (Inr st, st)) st) st) st) st) st) st) st) st) st) st) st) st"

definition update_peer_identity :: "string \<Rightarrow> string \<Rightarrow> string \<Rightarrow> time \<Rightarrow> store \<Rightarrow> store res \<times> store" where
  "update_peer_identity peer_id new_pub_hex new_fp now st =
     (let t' = map (\<lambda>r. if p_id r = peer_id
                 then r\<lparr>previous_identity_pub := Some (identity_pub r), identity_pub := new_pub_hex,
                        p_fingerprint := new_fp, p_id := new_fp, p_updated_at := now\<rparr>
                 else r) (peers st)
      in if \<not> distinct (map p_id t') then (Inl IntegrityError, st)
         else
           let st = st\<lparr>peers := t'\<rparr>
           in if new_fp \<noteq> peer_id then rekey_children peer_id new_fp st else (Inr st, st))"

end
