(* ===== verification/Store_Laws.thy ===== *)
theory Store_Laws
  imports Store
begin

text \<open>
  What \<open>KindledLinkStore\<close> guarantees: the well-formedness of every table under any sequence of
  method calls, the consent machine as an abstract relation that \<open>set_consent\<close> refines, the
  daily caps and the sequence numbers as instances of two interfaces (\<open>capped_counter\<close> and
  \<open>seq_source\<close>), single use of an invite, the disclosure budget as a leaky bucket, and the
  move of all of a peer's rows when it rotates its key.
\<close>

section \<open>Well-formed tables\<close>

definition tok :: "('r \<Rightarrow> 'k) \<Rightarrow> ('r \<Rightarrow> bool) \<Rightarrow> 'r list \<Rightarrow> bool" where
  "tok key P t \<longleftrightarrow> distinct (map key t) \<and> (\<forall>r \<in> set t. P r)"

lemma set_tput_subset: "set (tput key r t) \<subseteq> insert r (set t)"
  by (induction t) auto

lemma tok_Nil [simp]: "tok key P []"
  by (simp add: tok_def)

lemma tok_tput [intro]: "tok key P t \<Longrightarrow> P r \<Longrightarrow> tok key P (tput key r t)"
  using set_tput_subset [of key r t] by (auto simp: tok_def distinct_table)

lemma tok_tins [intro]: "tok key P t \<Longrightarrow> P r \<Longrightarrow> tok key P (tins key r t)"
  by (auto simp: tok_def distinct_table) (auto simp: tins_def split: if_splits)

lemma tok_tdel [intro]: "tok key P t \<Longrightarrow> tok key P (tdel key k t)"
  by (auto simp: tok_def distinct_table) (auto simp: tdel_def)

lemma tok_tupd [intro]:
  "tok key P t \<Longrightarrow> (\<And>r. key r = k \<Longrightarrow> key (f r) = k) \<Longrightarrow> (\<And>r. P r \<Longrightarrow> P (f r)) \<Longrightarrow> tok key P (tupd key k f t)"
  by (auto simp: tok_def map_key_tupd) (auto simp: tupd_def)

lemma tok_snoc: "tok key P t \<Longrightarrow> P r \<Longrightarrow> tget key (key r) t = None \<Longrightarrow> tok key P (t @ [r])"
  by (auto simp: tok_def tget_None_iff)

lemma tok_rekey:
  "rekey key pid set_pid old new t = Some t' \<Longrightarrow> tok key P t \<Longrightarrow> (\<And>r. P r \<Longrightarrow> P (set_pid new r)) \<Longrightarrow> tok key P t'"
  by (auto simp: rekey_def tok_def Let_def split: if_splits)

lemma tok_tget: "tok key P t \<Longrightarrow> tget key k t = Some r \<Longrightarrow> P r"
  by (auto simp: tok_def dest: tget_mem)

abbreviation in_unit :: "rat \<Rightarrow> bool" where
  "in_unit q \<equiv> 0 \<le> q \<and> q \<le> 1"

definition store_ok :: "store \<Rightarrow> bool" where
  "store_ok st \<longleftrightarrow>
     tok p_id (\<lambda>r. consent_state r \<in> set CONSENT_STATES) (peers st)
   \<and> tok fst (\<lambda>_. True) (consumed_invites st)
   \<and> tok seq_key_of (\<lambda>r. int64 (q_value r)) (seq_high_water st)
   \<and> tok session_key_of (\<lambda>r. 0 \<le> msg_count r) (sessions st)
   \<and> tok c_peer (\<lambda>r. 0 \<le> outbound_count r \<and> 0 \<le> provider_call_count r) (peer_counters st)
   \<and> tok d_id (\<lambda>r. d_id r \<le> last_draft_id st) (outbound_drafts st)
   \<and> tok transcript_key_of (\<lambda>r. int64 (t_seq r)) (transcript st)
   \<and> tok m_peer (\<lambda>r. 0 \<le> m_value r) (disclosure_budget st)
   \<and> tok r_peer (\<lambda>_. True) (relationship_state st)
   \<and> tok m_peer (\<lambda>r. 0 \<le> m_value r) (peer_emotion_window st)
   \<and> tok fst (\<lambda>_. True) (local_identity st)
   \<and> tok seq_key_of (\<lambda>r. 1 \<le> q_value r) (outbound_seq st)
   \<and> tok handshake_key_of (\<lambda>_. True) (pending_handshakes st)
   \<and> tok key_key_of (\<lambda>_. True) (session_keys st)
   \<and> tok n_peer (\<lambda>_. True) (pending_rotation_notices st)"

lemma store_ok_empty: "store_ok empty_store"
  by (simp add: store_ok_def empty_store_def)

section \<open>The calls of the store\<close>

text \<open>Every method that writes, with its arguments; a refused call leaves the store as it is.\<close>

datatype store_op =
    UpsertPeer string string string string "string option" "string option" time
  | SetConsent string string time
  | MarkInvite string time
  | SetHighWater string string int
  | CreateSession string string time
  | BumpOutbound string string time
  | EndSession string string time time
  | IncrOutbound string string
  | IncrProvider string string
  | ReserveOutbound string string int
  | ReserveProvider string string int
  | ReleaseProvider string string
  | SaveDraft string string json time string
  | SetDraftStatus nat string
  | AppendTranscript string string int string json time string
  | DebitBudget string rat time
  | UpsertRelationship rel_row time
  | AddEmotion string pyfloat time
  | CreateMailbox string
  | SaveHandshake string string bytes bytes int "time option"
  | ClearHandshake string string
  | SaveSessionKey string string bytes int int time
  | NextSequence string string
  | QueueNotice string dict time
  | ClearNotice string
  | UpdateIdentity string string string time

definition or_keep :: "'s \<Rightarrow> 's res \<Rightarrow> 's" where
  "or_keep st r = (case r of Inl _ \<Rightarrow> st | Inr st' \<Rightarrow> st')"

fun exec_op :: "store_op \<Rightarrow> store \<Rightarrow> store" where
  "exec_op (UpsertPeer p pub fp c url mbx now) st = or_keep st (upsert_peer p pub fp c url mbx now st)"
| "exec_op (SetConsent p c now) st = or_keep st (set_consent p c now st)"
| "exec_op (MarkInvite i now) st = or_keep st (mark_invite_consumed i now st)"
| "exec_op (SetHighWater p s v) st = or_keep st (set_seq_high_water p s v st)"
| "exec_op (CreateSession p s now) st = create_session p s now st"
| "exec_op (BumpOutbound p s now) st = bump_session_outbound p s now st"
| "exec_op (EndSession p s now cd) st = end_session p s now cd st"
| "exec_op (IncrOutbound p d) st = incr_outbound_count p d st"
| "exec_op (IncrProvider p d) st = incr_provider_count p d st"
| "exec_op (ReserveOutbound p d cap) st = snd (try_reserve_outbound p d cap st)"
| "exec_op (ReserveProvider p d cap) st = snd (try_reserve_provider p d cap st)"
| "exec_op (ReleaseProvider p d) st = release_provider_slot p d st"
| "exec_op (SaveDraft p s j now status) st = snd (save_draft p s j now status st)"
| "exec_op (SetDraftStatus i status) st = set_draft_status i status st"
| "exec_op (AppendTranscript p s n dir t now prov) st = or_keep st (append_transcript p s n dir t now prov st)"
| "exec_op (DebitBudget p a now) st = debit_disclosure_budget p a now st"
| "exec_op (UpsertRelationship r now) st = upsert_relationship_row r now st"
| "exec_op (AddEmotion p m now) st = snd (add_peer_emotion p m now st)"
| "exec_op (CreateMailbox token) st = snd (get_or_create_local_mailbox token st)"
| "exec_op (SaveHandshake p s k n r now) st = save_pending_handshake p s k n r now st"
| "exec_op (ClearHandshake p s) st = clear_pending_handshake p s st"
| "exec_op (SaveSessionKey p s k a b now) st = save_session_key p s k a b now st"
| "exec_op (NextSequence p s) st = snd (next_outbound_sequence p s st)"
| "exec_op (QueueNotice p e now) st = queue_rotation_notice p e now st"
| "exec_op (ClearNotice p) st = clear_rotation_notice p st"
| "exec_op (UpdateIdentity p pub fp now) st = snd (update_peer_identity p pub fp now st)"

subsection \<open>Every call keeps the store well formed\<close>

lemma refilled_unit: "in_unit (refilled b u now)"
  by (auto simp: refilled_def BUDGET_MAX_def Let_def)

lemma get_disclosure_budget_unit: "in_unit (get_disclosure_budget st p now)"
  by (auto simp: get_disclosure_budget_def BUDGET_MAX_def refilled_unit split: option.split)

lemma decayed_window_range:
  assumes "0 \<le> stored"
  shows "0 \<le> decayed_window stored u now" and "decayed_window stored u now \<le> stored"
proof -
  have "stored * max 0 (1 - c) \<le> stored * 1" if "0 < c" for c
    using assms that by (intro mult_left_mono) auto
  with assms show "0 \<le> decayed_window stored u now" "decayed_window stored u now \<le> stored"
    by (auto simp: decayed_window_def PEER_EMOTION_WINDOW_HOURS_def Let_def split: sum.splits)
qed

lemma get_emotion_nonneg: "store_ok st \<Longrightarrow> 0 \<le> get_peer_emotion_accumulated st p now"
  by (auto simp: get_peer_emotion_accumulated_def store_ok_def decayed_window_range
      dest: tok_tget split: option.split)

lemma ensure_counter_row_ok: "store_ok st \<Longrightarrow> store_ok (ensure_counter_row p d st)"
  by (auto simp: ensure_counter_row_def store_ok_def Let_def intro: tok_snoc split: option.split)

lemmas counter_ops = incr_outbound_count_def incr_provider_count_def try_reserve_outbound_def
  try_reserve_provider_def release_provider_slot_def

lemma counter_ops_ok:
  assumes "store_ok st"
  shows "store_ok (incr_outbound_count p d st)" "store_ok (incr_provider_count p d st)"
    "store_ok (snd (try_reserve_outbound p d cap st))" "store_ok (snd (try_reserve_provider p d cap st))"
    "store_ok (release_provider_slot p d st)"
  using ensure_counter_row_ok [OF assms, of p d]
  by (auto simp: counter_ops store_ok_def Let_def)

lemma rekey_children_ok: "store_ok st \<Longrightarrow> store_ok (snd (rekey_children old new st))"
  unfolding rekey_children_def rekey_step_def
  by (auto simp: store_ok_def elim!: tok_rekey split: option.split)

lemma update_peer_identity_ok: "store_ok st \<Longrightarrow> store_ok (snd (update_peer_identity p pub fp now st))"
  unfolding update_peer_identity_def Let_def
  by (auto intro!: rekey_children_ok) (auto simp: store_ok_def tok_def)

lemma exec_op_ok: "store_ok st \<Longrightarrow> store_ok (exec_op op st)"
proof (induction op)
  case (UpsertPeer p pub fp c url mbx now)
  then show ?case
    by (auto simp: or_keep_def upsert_peer_def store_ok_def Let_def split: option.split)
next
  case (SetConsent p c now)
  then show ?case
    by (auto simp: or_keep_def set_consent_def store_ok_def split: option.split)
next
  case (MarkInvite i now)
  then show ?case
    by (auto simp: or_keep_def mark_invite_consumed_def is_invite_consumed_def store_ok_def tget_None_iff
        intro!: tok_snoc)
next
  case (AppendTranscript p s n dir t now prov)
  then show ?case
    by (auto simp: or_keep_def append_transcript_def store_ok_def intro!: tok_snoc)
next
  case (SaveDraft p s j now status)
  then show ?case
    by (auto simp: save_draft_def store_ok_def Let_def tok_def)
next
  case (DebitBudget p a now)
  then show ?case
    by (auto simp: debit_disclosure_budget_def store_ok_def Let_def)
next
  case (AddEmotion p m now)
  then show ?case using get_emotion_nonneg [of st p now]
    by (auto simp: add_peer_emotion_def store_ok_def Let_def split: pyfloat.split)
next
  case (CreateMailbox token)
  then show ?case
    by (auto simp: get_or_create_local_mailbox_def store_ok_def Let_def tok_def map_of_eq_None_iff split: option.split)
next
  case (NextSequence p s)
  have "1 \<le> q_value r" if "tget seq_key_of (p, s) (outbound_seq st) = Some r" for r
    using NextSequence tok_tget [where P = "\<lambda>r. 1 \<le> q_value r", OF _ that] by (simp add: store_ok_def)
  with NextSequence show ?case
    by (fastforce simp: next_outbound_sequence_def store_ok_def Let_def split: option.split)
qed ((simp add: counter_ops_ok update_peer_identity_ok; fail)
    | (auto simp: or_keep_def set_seq_high_water_def create_session_def
      bump_session_outbound_def end_session_def set_draft_status_def upsert_relationship_row_def
      save_pending_handshake_def clear_pending_handshake_def save_session_key_def queue_rotation_notice_def
      clear_rotation_notice_def store_ok_def; fail))+

lemma exec_ops_ok: "store_ok st \<Longrightarrow> store_ok (fold exec_op ops st)"
  by (induction ops arbitrary: st) (auto simp: exec_op_ok)

text \<open>
  C27: Whatever methods are called on a new store, in whatever order and with whatever arguments,
  the tables stay well formed: no two rows share a primary key, every consent state is one of the
  six, the daily counters and message counts are not negative, every stored disclosure budget and
  emotion window is not negative, and what a budget reads as is in [0, 1], every outbound sequence is at least 1 and no
  draft id is above the autoincrement mark.
\<close>

theorem store_reachable_ok:
  "store_ok (fold exec_op ops empty_store) \<and> in_unit (get_disclosure_budget (fold exec_op ops empty_store) p now)"
  by (intro conjI exec_ops_ok store_ok_empty) (simp_all add: get_disclosure_budget_unit)

section \<open>The consent machine\<close>

datatype consent = PendingLocal | PendingRemote | Paired | Paused | Revoked | Blocked

fun consent_text :: "consent \<Rightarrow> string" where
  "consent_text PendingLocal = ''pending_local''"
| "consent_text PendingRemote = ''pending_remote''"
| "consent_text Paired = ''paired''"
| "consent_text Paused = ''paused''"
| "consent_text Revoked = ''revoked''"
| "consent_text Blocked = ''blocked''"

text \<open>The machine as the design states it: consent only ever moves by one of these steps.\<close>

inductive consent_step :: "consent \<Rightarrow> consent \<Rightarrow> bool" where
  await_remote: "consent_step PendingLocal PendingRemote"
| pair: "a \<in> {PendingLocal, PendingRemote, Paused} \<Longrightarrow> consent_step a Paired"
| pause: "consent_step Paired Paused"
| revoke: "a \<notin> {Revoked, Blocked} \<Longrightarrow> consent_step a Revoked"
| block: "a \<noteq> Blocked \<Longrightarrow> consent_step a Blocked"

inductive_cases consent_step_fromE [elim!]: "consent_step Revoked b" "consent_step Blocked b"

inductive_simps consent_step_simps: "consent_step a b"

lemma revoked_stuck: "consent_step\<^sup>*\<^sup>* a b \<Longrightarrow> a \<in> {Revoked, Blocked} \<Longrightarrow> b \<in> {Revoked, Blocked}"
  by (induction rule: rtranclp_induct) auto

lemma consent_text_inj [simp]: "consent_text a = consent_text b \<longleftrightarrow> a = b"
  by (cases a; cases b) simp_all

lemma consent_states_text: "s \<in> set CONSENT_STATES \<longleftrightarrow> (\<exists>a. s = consent_text a)"
proof
  assume "s \<in> set CONSENT_STATES"
  then show "\<exists>a. s = consent_text a"
    unfolding CONSENT_STATES_def by (auto intro: exI [of _ PendingLocal] exI [of _ PendingRemote]
        exI [of _ Paired] exI [of _ Paused] exI [of _ Revoked] exI [of _ Blocked])
next
  assume "\<exists>a. s = consent_text a"
  then obtain a where "s = consent_text a" ..
  then show "s \<in> set CONSENT_STATES" by (cases a) (simp_all add: CONSENT_STATES_def)
qed

lemma allowed_transitions_text:
  "\<exists>l. map_of ALLOWED_TRANSITIONS (consent_text a) = Some l \<and> (\<forall>b. consent_text b \<in> set l \<longleftrightarrow> consent_step a b)"
proof -
  have "consent_text b \<in> set l \<longleftrightarrow> consent_step a b"
    if "map_of ALLOWED_TRANSITIONS (consent_text a) = Some l" for l b
    using that by (cases a; cases b) (auto simp: ALLOWED_TRANSITIONS_def consent_step_simps)
  moreover have "map_of ALLOWED_TRANSITIONS (consent_text a) \<noteq> None"
    by (cases a) (simp_all add: ALLOWED_TRANSITIONS_def)
  ultimately show ?thesis by auto
qed

lemma set_consent_step:
  assumes "get_peer st p = Some r" "consent_state r = consent_text a"
  shows "set_consent p (consent_text b) now st =
     (if consent_step a b
      then Inr (st\<lparr>peers := tupd p_id p (\<lambda>r. r\<lparr>consent_state := consent_text b, p_updated_at := now\<rparr>) (peers st)\<rparr>)
      else Inl (ConsentTransitionError ''transition not allowed''))"
  using allowed_transitions_text [of a] assms consent_states_text [of "consent_text b"]
  by (auto simp: set_consent_def)

text \<open>
  C35: \<open>set_consent\<close> implements the consent machine exactly. On a well-formed store a call
  succeeds if and only if the peer exists, the requested name is that of a state and the machine
  has a step from the peer's state to it; it then changes nothing but that peer's state and its
  update time.
\<close>

theorem set_consent_refines:
  assumes "store_ok st"
  shows "set_consent p new now st = Inr st' \<longleftrightarrow>
    (\<exists>r a b. get_peer st p = Some r \<and> consent_state r = consent_text a \<and> new = consent_text b \<and> consent_step a b \<and>
       st' = st\<lparr>peers := tupd p_id p (\<lambda>r. r\<lparr>consent_state := new, p_updated_at := now\<rparr>) (peers st)\<rparr>)"
proof (cases "get_peer st p")
  case None
  then show ?thesis by (simp add: set_consent_def)
next
  case (Some r)
  then have "consent_state r \<in> set CONSENT_STATES"
    using assms tok_tget [where P = "\<lambda>r. consent_state r \<in> set CONSENT_STATES"]
    by (fastforce simp: store_ok_def get_peer_def)
  then obtain a where a: "consent_state r = consent_text a" by (auto simp: consent_states_text)
  show ?thesis
  proof (cases "new \<in> set CONSENT_STATES")
    case True
    then obtain b where "new = consent_text b" by (auto simp: consent_states_text)
    with Some a show ?thesis by (auto simp: set_consent_step)
  next
    case False
    then have "new \<noteq> consent_text b" for b by (auto simp: consent_states_text)
    with False show ?thesis by (auto simp: set_consent_def)
  qed
qed

definition one_peer :: "string \<Rightarrow> store" where
  "one_peer c = empty_store\<lparr>peers := [\<lparr>p_id = ''p'', identity_pub = ''00'', p_fingerprint = ''p'', consent_state = c,
     relay_url = None, relay_mailbox = None, p_created_at = 0, p_updated_at = 0, previous_identity_pub = None\<rparr>]\<rparr>"

lemma one_peer_ok: "c \<in> set CONSENT_STATES \<Longrightarrow> store_ok (one_peer c)"
  by (simp add: store_ok_def one_peer_def empty_store_def tok_def)

theorem set_consent_refines_witness:
  "store_ok (one_peer ''paired'') \<and> (\<exists>st'. set_consent ''p'' ''blocked'' 5 (one_peer ''paired'') = Inr st')"
proof -
  have ok: "store_ok (one_peer ''paired'')" by (rule one_peer_ok) (simp add: CONSENT_STATES_def)
  have "consent_step Paired Blocked" by (rule block) simp
  then have "\<exists>st'. set_consent ''p'' ''blocked'' 5 (one_peer ''paired'') = Inr st'"
    unfolding set_consent_refines [OF ok]
    by (simp add: get_peer_def one_peer_def) (metis consent_text.simps(3) consent_text.simps(6))
  with ok show ?thesis by simp
qed

text \<open>The states of one peer along a run of \<open>set_consent\<close> calls.\<close>

definition has_consent :: "store \<Rightarrow> string \<Rightarrow> consent \<Rightarrow> bool" where
  "has_consent st p a \<longleftrightarrow> (\<exists>r. get_peer st p = Some r \<and> consent_state r = consent_text a)"

lemma exec_set_consent:
  assumes "has_consent st p a"
  shows "\<exists>b. has_consent (exec_op (SetConsent q c now) st) p b \<and> consent_step\<^sup>*\<^sup>* a b"
proof (cases "set_consent q c now st")
  case (Inl e)
  with assms show ?thesis by (auto simp: or_keep_def)
next
  case (Inr st')
  have kept: "tget p_id k (tupd p_id q (\<lambda>r. r\<lparr>consent_state := c, p_updated_at := now\<rparr>) t) =
      (if k = q then map_option (\<lambda>r. r\<lparr>consent_state := c, p_updated_at := now\<rparr>) (tget p_id q t) else tget p_id k t)" for k t
    by (simp add: tget_tupd)
  obtain r where r: "get_peer st p = Some r" "consent_state r = consent_text a"
    using assms by (auto simp: has_consent_def)
  have c: "c \<in> set CONSENT_STATES" and st': "st' = st\<lparr>peers := tupd p_id q (\<lambda>r. r\<lparr>consent_state := c, p_updated_at := now\<rparr>) (peers st)\<rparr>"
    using Inr by (auto simp: set_consent_def split: if_splits option.splits)
  obtain b where b: "c = consent_text b" using c by (auto simp: consent_states_text)
  show ?thesis
  proof (cases "p = q")
    case True
    then have "consent_step a b" using Inr r b by (auto simp: set_consent_step split: if_splits)
    moreover have "has_consent st' p b" using True r by (simp add: has_consent_def get_peer_def st' kept b [symmetric])
    ultimately show ?thesis using Inr by (auto simp: or_keep_def)
  next
    case False
    then have "has_consent st' p a" using r st' by (auto simp: has_consent_def get_peer_def kept)
    then show ?thesis using Inr by (auto simp: or_keep_def)
  qed
qed

lemma set_consent_runs:
  "has_consent st p a \<Longrightarrow>
   \<exists>b. has_consent (fold (\<lambda>(q, c, now). exec_op (SetConsent q c now)) calls st) p b \<and> consent_step\<^sup>*\<^sup>* a b"
proof (induction calls arbitrary: st a)
  case (Cons x calls)
  obtain q c now where x: "x = (q, c, now)" by (cases x)
  obtain b where "has_consent (exec_op (SetConsent q c now) st) p b" "consent_step\<^sup>*\<^sup>* a b"
    using exec_set_consent [OF Cons.prems] by blast
  with Cons.IH [of "exec_op (SetConsent q c now) st" b] x show ?case
    by (auto simp del: exec_op.simps intro: rtranclp_trans)
qed auto

text \<open>
  A revoked or blocked peer is never paired again by \<open>set_consent\<close>: after any sequence of
  calls, for this peer and for others and whether they succeed or are refused, its state is still
  revoked or blocked.
\<close>

theorem revoked_is_final:
  assumes "has_consent st p a" "a \<in> {Revoked, Blocked}"
  shows "\<exists>b \<in> {Revoked, Blocked}. has_consent (fold (\<lambda>(q, c, now). exec_op (SetConsent q c now)) calls st) p b"
  using set_consent_runs [OF assms(1), of calls] revoked_stuck assms(2) by blast

theorem revoked_is_final_witness:
  "has_consent (one_peer ''revoked'') ''p'' Revoked \<and>
   (\<exists>b \<in> {Revoked, Blocked}. has_consent (fold (\<lambda>(q, c, now). exec_op (SetConsent q c now))
      [(''p'', ''paired'', 1), (''p'', ''blocked'', 2)] (one_peer ''revoked'')) ''p'' b)"
proof -
  have "has_consent (one_peer ''revoked'') ''p'' Revoked"
    by (simp add: has_consent_def get_peer_def one_peer_def)
  with revoked_is_final [OF this] show ?thesis by blast
qed

section \<open>Daily caps and sequence numbers\<close>

text \<open>The results of a list of calls, one for each key, made one after the other.\<close>

fun calls :: "('k \<Rightarrow> 's \<Rightarrow> 'r \<times> 's) \<Rightarrow> 'k list \<Rightarrow> 's \<Rightarrow> ('k \<times> 'r) list" where
  "calls f [] s = []"
| "calls f (k # ks) s = (case f k s of (r, s') \<Rightarrow> (k, r) # calls f ks s')"

text \<open>A counter for each key that grants a slot while it is below its cap.\<close>

locale capped_counter =
  fixes wf :: "'s \<Rightarrow> bool" and reserve :: "'k \<Rightarrow> 's \<Rightarrow> bool \<times> 's" and used :: "'s \<Rightarrow> 'k \<Rightarrow> int" and cap :: int
  assumes reserve_wf: "wf s \<Longrightarrow> wf (snd (reserve k s))"
    and granted_iff: "wf s \<Longrightarrow> fst (reserve k s) \<longleftrightarrow> used s k < cap"
    and used_after: "wf s \<Longrightarrow>
      used (snd (reserve k s)) k' = (if k' = k \<and> used s k < cap then used s k + 1 else used s k')"
begin

lemma grants_exact:
  "wf s \<Longrightarrow> count_list (calls reserve ks s) (k, True) = min (count_list ks k) (nat (cap - used s k))"
proof (induction ks arbitrary: s)
  case (Cons k' ks)
  obtain g s' where r: "reserve k' s = (g, s')" by (cases "reserve k' s")
  have "wf s'" using reserve_wf [OF Cons.prems, of k'] r by simp
  from Cons.IH [OF this] show ?case
    using granted_iff [OF Cons.prems, of k'] used_after [OF Cons.prems, of k' k] r by auto
qed simp

lemma never_above: "wf s \<Longrightarrow> used s k \<le> cap \<Longrightarrow> used (snd (reserve k' s)) k \<le> cap"
  by (simp add: used_after)

end

text \<open>A source that hands out the next number of each key.\<close>

locale seq_source =
  fixes nxt :: "'k \<Rightarrow> 's \<Rightarrow> int \<times> 's" and cur :: "'s \<Rightarrow> 'k \<Rightarrow> int"
  assumes nxt_val: "fst (nxt k s) = cur s k + 1"
    and cur_after: "cur (snd (nxt k s)) k' = (if k' = k then cur s k + 1 else cur s k')"
begin

lemma handed_out:
  "map snd (filter (\<lambda>(k', _). k' = k) (calls nxt ks s)) = map (\<lambda>i. cur s k + 1 + int i) [0..<count_list ks k]"
proof (induction ks arbitrary: s)
  case (Cons k' ks)
  obtain n s' where r: "nxt k' s = (n, s')" by (cases "nxt k' s")
  have "cur s' k = (if k = k' then cur s k + 1 else cur s k)" "n = cur s k' + 1"
    using nxt_val [of k' s] cur_after [of k' s k] r by simp_all
  with Cons.IH [of s'] r show ?case by (auto simp: upt_conv_Cons map_Suc_upt [symmetric] simp del: upt_Suc)
qed simp

lemma handed_out_above: "(k, n) \<in> set (calls nxt ks s) \<Longrightarrow> cur s k < n"
proof -
  assume "(k, n) \<in> set (calls nxt ks s)"
  then have "n \<in> set (map snd (filter (\<lambda>(k', _). k' = k) (calls nxt ks s)))" by force
  then show "cur s k < n" unfolding handed_out by auto
qed

lemma handed_out_distinct: "distinct (calls nxt ks s)"
proof (induction ks arbitrary: s)
  case (Cons k ks)
  obtain n s' where r: "nxt k s = (n, s')" by (cases "nxt k s")
  then have "n = cur s' k" using nxt_val [of k s] cur_after [of k s k] by simp
  with Cons r handed_out_above [of k n ks s'] show ?case by auto
qed simp

end

abbreviation outbound_used :: "string \<Rightarrow> store \<Rightarrow> string \<Rightarrow> int" where
  "outbound_used today st p \<equiv> fst (get_counters st p today)"
abbreviation provider_used :: "string \<Rightarrow> store \<Rightarrow> string \<Rightarrow> int" where
  "provider_used today st p \<equiv> snd (get_counters st p today)"

lemma counter_row_ensured:
  "tget c_peer p (peer_counters (ensure_counter_row p d st)) =
     Some \<lparr>c_peer = p, reset_date = d, outbound_count = outbound_used d st p, provider_call_count = provider_used d st p\<rparr>"
proof (cases "tget c_peer p (peer_counters st)")
  case (Some r)
  then have "c_peer r = p" by (rule tget_key)
  with Some show ?thesis
    by (cases r) (auto simp: ensure_counter_row_def get_counters_def Let_def tget_tupd)
qed (simp add: ensure_counter_row_def get_counters_def Let_def)

lemma counter_row_other:
  "q \<noteq> p \<Longrightarrow> tget c_peer q (peer_counters (ensure_counter_row p d st)) = tget c_peer q (peer_counters st)"
  by (auto simp: ensure_counter_row_def Let_def tget_tupd split: option.split)

lemma ex_row_iff:
  "distinct (map key t) \<Longrightarrow> tget key k t = Some r \<Longrightarrow> (\<exists>x \<in> set t. key x = k \<and> P x) \<longleftrightarrow> P r"
  by (metis option.inject tget_distinct tget_key tget_mem)

lemma counter_keys: "store_ok st \<Longrightarrow> distinct (map c_peer (peer_counters (ensure_counter_row p d st)))"
  using ensure_counter_row_ok [of st p d] by (simp add: store_ok_def tok_def)

lemmas counter_simps = counter_ops Let_def get_counters_def tget_tupd counter_row_ensured counter_row_other
  ex_row_iff [OF counter_keys counter_row_ensured]

interpretation outbound: capped_counter store_ok "\<lambda>p. try_reserve_outbound p today cap" "outbound_used today" cap
  for today cap
proof
  fix st p q assume ok: "store_ok st"
  show "store_ok (snd (try_reserve_outbound p today cap st))" by (rule counter_ops_ok [OF ok])
  show "fst (try_reserve_outbound p today cap st) \<longleftrightarrow> outbound_used today st p < cap"
    by (simp add: ok counter_simps)
  show "outbound_used today (snd (try_reserve_outbound p today cap st)) q =
      (if q = p \<and> outbound_used today st p < cap then outbound_used today st p + 1 else outbound_used today st q)"
    by (cases "q = p") (simp_all add: counter_simps)
qed

interpretation provider: capped_counter store_ok "\<lambda>p. try_reserve_provider p today cap" "provider_used today" cap
  for today cap
proof
  fix st p q assume ok: "store_ok st"
  show "store_ok (snd (try_reserve_provider p today cap st))" by (rule counter_ops_ok [OF ok])
  show "fst (try_reserve_provider p today cap st) \<longleftrightarrow> provider_used today st p < cap"
    by (simp add: ok counter_simps)
  show "provider_used today (snd (try_reserve_provider p today cap st)) q =
      (if q = p \<and> provider_used today st p < cap then provider_used today st p + 1 else provider_used today st q)"
    by (cases "q = p") (simp_all add: counter_simps)
qed

lemma provider_used_release:
  "provider_used d (release_provider_slot p d st) q =
     (if q = p then max 0 (provider_used d st p - 1) else provider_used d st q)"
  by (cases "q = p") (simp_all add: counter_simps)

definition outbound_current :: "store \<Rightarrow> string \<times> string \<Rightarrow> int" where
  "outbound_current st k = (case tget seq_key_of k (outbound_seq st) of None \<Rightarrow> 0 | Some r \<Rightarrow> q_value r)"

interpretation outseq: seq_source "\<lambda>(p, s). next_outbound_sequence p s" outbound_current
  by unfold_locales
    (auto simp: next_outbound_sequence_def outbound_current_def Let_def tget_tput split: option.splits if_splits)

interpretation draftid: seq_source
  "\<lambda>_ :: unit. map_prod int id \<circ> save_draft p s j now status" "\<lambda>st _. int (last_draft_id st)"
  for p s j now status
  by unfold_locales (auto simp: save_draft_def Let_def)

text \<open>
  The daily caps are exact. Whatever peers ask for an outbound slot (or a provider slot) of one
  day, in whatever order, the number of slots a peer is granted is the smaller of the number it
  asked for and what was left of its cap: never one more, and never one refused too early; a
  peer's use does not affect another's.
\<close>

theorem daily_caps_exact:
  assumes "store_ok st"
  shows "count_list (calls (\<lambda>p. try_reserve_outbound p today cap) ps st) (p, True)
           = min (count_list ps p) (nat (cap - fst (get_counters st p today)))
       \<and> count_list (calls (\<lambda>p. try_reserve_provider p today cap) ps st) (p, True)
           = min (count_list ps p) (nat (cap - snd (get_counters st p today)))"
  using outbound.grants_exact [OF assms] provider.grants_exact [OF assms] by simp

theorem daily_caps_exact_witness:
  "store_ok empty_store \<and>
   count_list (calls (\<lambda>p. try_reserve_outbound p ''2026-01-01'' 2) [''a'', ''b'', ''a'', ''a''] empty_store) (''a'', True) = 2"
  using daily_caps_exact [OF store_ok_empty, of "''2026-01-01''" 2 "[''a'', ''b'', ''a'', ''a'']" "''a''"] store_ok_empty
  by (simp add: get_counters_def empty_store_def)

text \<open>
   The outbound sequence numbers of a (peer, session) pair are handed out in order, without gap
  and without repetition, however the calls for different pairs are interleaved: the results for
  one pair are its stored number plus 1, plus 2, and so on (1, 2, ... for a new session), so no two
  envelopes of a session carry the same number.
\<close>

theorem outbound_sequences_consecutive:
  "map snd (filter (\<lambda>(k', _). k' = k) (calls (\<lambda>(p, s). next_outbound_sequence p s) ks st))
     = map (\<lambda>i. outbound_current st k + 1 + int i) [0..<count_list ks k]
   \<and> distinct (calls (\<lambda>(p, s). next_outbound_sequence p s) ks st)"
  using outseq.handed_out outseq.handed_out_distinct by simp

section \<open>What no call undoes\<close>

lemmas store_op_defs = or_keep_def upsert_peer_def set_consent_def mark_invite_consumed_def set_seq_high_water_def
  create_session_def bump_session_outbound_def end_session_def counter_ops ensure_counter_row_def save_draft_def
  set_draft_status_def append_transcript_def debit_disclosure_budget_def upsert_relationship_row_def
  add_peer_emotion_def get_or_create_local_mailbox_def save_pending_handshake_def clear_pending_handshake_def
  save_session_key_def next_outbound_sequence_def queue_rotation_notice_def clear_rotation_notice_def

lemma rekey_children_invites: "consumed_invites (snd (rekey_children old new st)) = consumed_invites st"
  by (simp add: rekey_children_def rekey_step_def split: option.split)

lemma exec_op_invites: "is_invite_consumed st i \<Longrightarrow> is_invite_consumed (exec_op op st) i"
  by (induction op)
    (auto simp: store_op_defs is_invite_consumed_def Let_def update_peer_identity_def rekey_children_invites
      split: option.split)

lemma exec_ops_invites: "is_invite_consumed st i \<Longrightarrow> is_invite_consumed (fold exec_op ops st) i"
  by (induction ops arbitrary: st) (auto simp: exec_op_invites)

text \<open>
   An invite is used once. After a successful \<open>mark_invite_consumed\<close>, whatever store methods run
  in between, the invite still counts as consumed and every further attempt to consume it raises
  \<open>ConsentTransitionError\<close>.
\<close>

theorem invite_single_use:
  assumes "mark_invite_consumed i now st = Inr st'"
  shows "is_invite_consumed (fold exec_op ops st') i \<and>
    mark_invite_consumed i later (fold exec_op ops st') = Inl (ConsentTransitionError ''invite already consumed'')"
proof -
  have "is_invite_consumed st' i"
    using assms by (auto simp: mark_invite_consumed_def is_invite_consumed_def split: if_splits)
  then show ?thesis using exec_ops_invites [of st' i ops] by (simp add: mark_invite_consumed_def)
qed

theorem invite_single_use_witness:
  "\<exists>st'. mark_invite_consumed ''i'' 1 empty_store = Inr st' \<and>
     mark_invite_consumed ''i'' 9 (fold exec_op [MarkInvite ''j'' 2] st') = Inl (ConsentTransitionError ''invite already consumed'')"
proof -
  have "mark_invite_consumed ''i'' 1 empty_store = Inr (empty_store\<lparr>consumed_invites := [(''i'', 1)]\<rparr>)"
    by (simp add: mark_invite_consumed_def is_invite_consumed_def empty_store_def)
  from this invite_single_use [OF this, of "[MarkInvite ''j'' 2]" 9] show ?thesis by blast
qed

fun is_rotation :: "store_op \<Rightarrow> bool" where
  "is_rotation (UpdateIdentity _ _ _ _) = True"
| "is_rotation _ = False"

lemma exec_op_session_key:
  "get_session_key st p s = Some k \<Longrightarrow> \<not> is_rotation op \<Longrightarrow> get_session_key (exec_op op st) p s = Some k"
  by (induction op)
    (auto simp: store_op_defs get_session_key_def Let_def tget_tins split: option.split)

text \<open>
   A session key, once stored, is never replaced: as long as the peer does not rotate its
  identity, after any sequence of store calls - a second \<open>save_session_key\<close> for the same session
  with other key material included - the stored row for that session is the first one.
\<close>

theorem session_key_write_once:
  assumes "get_session_key st p s = Some k" "list_all (\<lambda>op. \<not> is_rotation op) ops"
  shows "get_session_key (fold exec_op ops st) p s = Some k"
  using assms by (induction ops arbitrary: st) (auto simp: exec_op_session_key)

theorem session_key_write_once_witness:
  "get_session_key (fold exec_op [SaveSessionKey ''p'' ''s'' [2] 1 0 6, ClearHandshake ''p'' ''s'']
      (save_session_key ''p'' ''s'' [1] 0 1 5 empty_store)) ''p'' ''s''
    = Some \<lparr>k_peer = ''p'', k_session = ''s'', session_key = [1], my_role = 0, peer_role = 1, established_at = 5\<rparr>"
  by (rule session_key_write_once)
    (simp_all add: save_session_key_def get_session_key_def empty_store_def tins_def)

section \<open>The disclosure budget\<close>

lemma clamp_advance:
  fixes v e0 e1 d :: rat
  assumes "max 0 e1 \<le> max 0 e0 + d" "0 \<le> d"
  shows "min 1 (max 0 (v + max 0 e1 * (1/2))) \<le> min 1 (max 0 (v + max 0 e0 * (1/2))) + d * (1/2)"
  using assms unfolding min_def max_def by (auto split: if_splits)

lemma refilled_advance:
  assumes "t0 \<le> t1"
  shows "refilled v u t1 \<le> refilled v u t0 + of_int (t1 - t0) / of_int day * BUDGET_REFILL_PER_DAY"
proof -
  let ?e = "\<lambda>t. case since t u of Inr d \<Rightarrow> of_int d / of_int day | Inl _ \<Rightarrow> (0 :: rat)"
  let ?d = "of_int (t1 - t0) / of_int day :: rat"
  have d: "0 \<le> ?d" using assms by simp
  have "of_int (t1 - x) / of_int day = of_int (t0 - x) / of_int day + ?d" for x
    by (simp flip: add_divide_distrib)
  then have "?e t1 = ?e t0 \<or> ?e t1 = ?e t0 + ?d"
    by (cases u) (simp_all add: since_def)
  with d have "max 0 (?e t1) \<le> max 0 (?e t0) + ?d" by linarith
  from clamp_advance [OF this d] show ?thesis
    by (simp add: refilled_def Let_def BUDGET_REFILL_PER_DAY_def BUDGET_MAX_def)
qed

lemma budget_advance:
  "t0 \<le> t1 \<Longrightarrow>
   get_disclosure_budget st p t1 \<le> get_disclosure_budget st p t0 + of_int (t1 - t0) / of_int day * BUDGET_REFILL_PER_DAY"
  using refilled_advance by (auto simp: get_disclosure_budget_def BUDGET_REFILL_PER_DAY_def split: option.split)

text \<open>What a list of debits, with their instants, really takes from the peer's budget.\<close>

fun spent :: "string \<Rightarrow> (rat \<times> time) list \<Rightarrow> store \<Rightarrow> rat" where
  "spent p [] st = 0"
| "spent p ((a, t) # ds) st =
     (let st' = debit_disclosure_budget p a t st
      in get_disclosure_budget st p t - get_disclosure_budget st' p t + spent p ds st')"

text \<open>
  The disclosure budget is a leaky bucket. Whatever is debited, at instants that do not go
  backwards, the total really taken from a peer's budget is at most what the budget held at the
  start plus half a unit for each day that passed; since a budget never reads above 1, a peer
  cannot be told more than 1 plus half a unit a day.
\<close>

theorem budget_leaky_bucket:
  assumes "sorted (t0 # map snd ds)"
  shows "spent p ds st \<le> get_disclosure_budget st p t0
           + of_int (last (t0 # map snd ds) - t0) / of_int day * BUDGET_REFILL_PER_DAY
       \<and> get_disclosure_budget st p t0 \<le> 1"
proof -
  have "spent p ds st \<le> get_disclosure_budget st p t0
          + of_int (last (t0 # map snd ds) - t0) / of_int day * BUDGET_REFILL_PER_DAY"
    using assms
  proof (induction ds arbitrary: st t0)
    case Nil
    then show ?case using get_disclosure_budget_unit [of st p t0] by simp
  next
    case (Cons d ds)
    obtain a t where d: "d = (a, t)" by (cases d)
    define st' where "st' = debit_disclosure_budget p a t st"
    have "spent p ds st' \<le> get_disclosure_budget st' p t
          + of_int (last (t # map snd ds) - t) / of_int day * BUDGET_REFILL_PER_DAY"
      using Cons.IH [of t st'] Cons.prems d by simp
    moreover have "get_disclosure_budget st p t \<le> get_disclosure_budget st p t0
          + of_int (t - t0) / of_int day * BUDGET_REFILL_PER_DAY"
      using Cons.prems d by (intro budget_advance) simp
    ultimately show ?case using d
      by (simp add: Let_def st'_def BUDGET_REFILL_PER_DAY_def diff_divide_distrib)
  qed
  then show ?thesis using get_disclosure_budget_unit by simp
qed

theorem budget_leaky_bucket_witness:
  "spent ''p'' [(1/2, 0), (3, 43200000000)] empty_store \<le> 1 + 1/4"
  using budget_leaky_bucket [of 0 "[(1/2, 0), (3, 43200000000)]" "''p''" empty_store]
  by (simp add: BUDGET_REFILL_PER_DAY_def)

end
