(* ===== verification/Session.thy ===== *)
theory Session
  imports Protocol Store_Laws
begin

text \<open>
  The three-leg session handshake (\<open>kindled_link/session.py\<close>). Each leg is a program over the
  store; what \<open>secrets\<close> and \<open>X25519PrivateKey.generate()\<close> return are arguments. An identifier
  read from an envelope is any JSON value: it is bound to a \<open>TEXT\<close> column by \<open>bind_text\<close>, and
  the key derivation raises when it is not a text.
\<close>

definition SESSION_OPEN_TTL :: int where
  "SESSION_OPEN_TTL = 7 * day"

definition lookup_peer :: "ext \<Rightarrow> json \<Rightarrow> (store, peer_row option) prog" where
  "lookup_peer X pid =
     (if \<not> truthy pid then ret None
      else seqp (lift (bind_text X pid)) (\<lambda>p.
        case p of None \<Rightarrow> ret None | Some p \<Rightarrow> reads (\<lambda>st. get_peer st p)))"

definition lookup_session_key :: "ext \<Rightarrow> string \<Rightarrow> json \<Rightarrow> (store, key_row option) prog" where
  "lookup_session_key X p sid =
     seqp (lift (bind_text X sid)) (\<lambda>s.
       case s of None \<Rightarrow> ret None | Some s \<Rightarrow> reads (\<lambda>st. get_session_key st p s))"

definition lookup_handshake :: "ext \<Rightarrow> string \<Rightarrow> json \<Rightarrow> (store, handshake_row option) prog" where
  "lookup_handshake X p sid =
     seqp (lift (bind_text X sid)) (\<lambda>s.
       case s of None \<Rightarrow> ret None | Some s \<Rightarrow> reads (\<lambda>st. get_pending_handshake st p s))"

definition hex_or_error :: "string \<Rightarrow> bytes res" where
  "hex_or_error s = (case bytes_fromhex s of None \<Rightarrow> Inl ValueError | Some b \<Rightarrow> Inr b)"

definition hex_field :: "string \<Rightarrow> dict \<Rightarrow> bytes res" where
  "hex_field k d =
     (case dget k d of None \<Rightarrow> Inl KeyError | Some (JStr s) \<Rightarrow> hex_or_error s | Some _ \<Rightarrow> Inl TypeError)"

text \<open>
  \<open>derive_session_key\<close> on the envelope's own values: the exchange first, then sorting the two
  fingerprints (a \<open>TypeError\<close> for another type than text), then encoding the session id (an
  \<open>AttributeError\<close>).
\<close>

definition derive_from_envelope ::
    "ext \<Rightarrow> bytes \<Rightarrow> bytes \<Rightarrow> string \<Rightarrow> json \<Rightarrow> json \<Rightarrow> bytes \<Rightarrow> (string \<times> string \<times> bytes) res" where
  "derive_from_envelope X my_eph peer_eph my_fp peer_id session_id nonce =
     (if x_exchange X my_eph peer_eph = None then Inl ValueError
      else case peer_id of
        JStr p \<Rightarrow>
          (case session_id of
             JStr s \<Rightarrow> bind_res (derive_session_key X my_eph peer_eph my_fp p s nonce) (\<lambda>k. Inr (p, s, k))
           | _ \<Rightarrow> Inl AttributeError)
      | _ \<Rightarrow> Inl TypeError)"

definition mailbox_json :: "string option \<Rightarrow> json" where
  "mailbox_json m = (case m of None \<Rightarrow> JNull | Some s \<Rightarrow> JStr s)"

section \<open>The three legs\<close>

definition open_session ::
    "ext \<Rightarrow> identity \<Rightarrow> string \<Rightarrow> time \<Rightarrow> int \<Rightarrow> string \<Rightarrow> bytes \<Rightarrow> bytes \<Rightarrow> string \<Rightarrow> (store, dict) prog" where
  "open_session X idn peer_id now ttl id_token eph bootstrap_nonce mbx_token =
     (let session_id = ''ks_'' @ id_token in
      seqp (reads (\<lambda>st. get_session_key st peer_id session_id)) (\<lambda>existing.
      if existing \<noteq> None then raise ValueError else
      seqp (writes (save_pending_handshake peer_id session_id eph bootstrap_nonce ROLE_INITIATOR (Some now))) (\<lambda>_.
      seqp (reads (\<lambda>st. get_peer st peer_id)) (\<lambda>peer.
      let relay_mailbox = (case peer of None \<Rightarrow> JStr '''' | Some r \<Rightarrow> mailbox_json (relay_mailbox r)) in
      seqp (calls_to (get_or_create_local_mailbox mbx_token)) (\<lambda>sender_mailbox.
      ret (build_session_open X idn peer_id relay_mailbox session_id (x_pub X eph) bootstrap_nonce sender_mailbox now ttl))))))"

text \<open>\<open>relay_mailbox=initiator_mailbox\<close> in the upsert is bound like any other text.\<close>

definition learn_mailbox :: "ext \<Rightarrow> peer_row \<Rightarrow> json \<Rightarrow> time \<Rightarrow> (store, unit) prog" where
  "learn_mailbox X peer mailbox now =
     (if truthy mailbox then
        seqp (lift (bind_text X mailbox)) (\<lambda>m.
        attempts (upsert_peer (p_id peer) (identity_pub peer) (p_fingerprint peer) (consent_state peer)
          (relay_url peer) m now))
      else ret ())"

text \<open>The rest of leg 2, once the envelope of the known \<open>peer\<close> is parsed.\<close>

definition answer_open ::
    "ext \<Rightarrow> identity \<Rightarrow> dict \<Rightarrow> peer_row \<Rightarrow> dict \<Rightarrow> time \<Rightarrow> int \<Rightarrow> bytes \<Rightarrow> string \<Rightarrow> (store, dict option) prog" where
  "answer_open X idn envelope peer parsed now ttl my_eph mbx_token =
     (let initiator_peer_id = dget_or ''sender_key_id'' JNull envelope;
          session_id = dget_or ''session_id'' JNull envelope;
          initiator_mailbox = dget_or ''sender_mailbox'' JNull parsed in
      seqp (lookup_session_key X (p_id peer) session_id) (\<lambda>existing.
      if existing \<noteq> None then ret None else
      seqp (learn_mailbox X peer initiator_mailbox now) (\<lambda>_.
      seqp (lift (hex_field ''ephemeral_pub'' parsed)) (\<lambda>initiator_eph_pub.
      seqp (lift (hex_field ''bootstrap_nonce'' parsed)) (\<lambda>bootstrap_nonce.
      seqp (lift (derive_from_envelope X my_eph initiator_eph_pub (key_id X idn) initiator_peer_id session_id bootstrap_nonce))
        (\<lambda>(p, s, session_key).
      seqp (writes (save_session_key p s session_key ROLE_RESPONDER ROLE_INITIATOR now)) (\<lambda>_.
      seqp (writes (create_session p s now)) (\<lambda>_.
      seqp (calls_to (get_or_create_local_mailbox mbx_token)) (\<lambda>sender_mailbox.
      seqp (reads (\<lambda>st. get_peer st p)) (\<lambda>again.
      let reply_mailbox = (if truthy initiator_mailbox then initiator_mailbox
                           else case again of None \<Rightarrow> JStr '''' | Some r \<Rightarrow> mailbox_json (relay_mailbox r)) in
      ret (Some (build_session_open X idn p reply_mailbox s (x_pub X my_eph) bootstrap_nonce sender_mailbox now ttl))))))))))))"

definition on_session_open ::
    "ext \<Rightarrow> identity \<Rightarrow> dict \<Rightarrow> time \<Rightarrow> int \<Rightarrow> bytes \<Rightarrow> string \<Rightarrow> (store, dict option) prog" where
  "on_session_open X idn envelope now ttl my_eph mbx_token =
     seqp (lookup_peer X (dget_or ''sender_key_id'' JNull envelope)) (\<lambda>found.
     case found of None \<Rightarrow> ret None | Some peer \<Rightarrow>
     seqp (lift (hex_or_error (identity_pub peer))) (\<lambda>sender_pub.
     case parse_session_open X envelope sender_pub now of
       Reject _ \<Rightarrow> ret None
     | Accept parsed \<Rightarrow> answer_open X idn envelope peer parsed now ttl my_eph mbx_token))"

definition complete_session :: "ext \<Rightarrow> identity \<Rightarrow> dict \<Rightarrow> time \<Rightarrow> (store, unit) prog" where
  "complete_session X idn reply_envelope now =
     (let responder_peer_id = dget_or ''sender_key_id'' JNull reply_envelope;
          session_id = dget_or ''session_id'' JNull reply_envelope in
      seqp (lookup_peer X responder_peer_id) (\<lambda>found.
      case found of None \<Rightarrow> ret () | Some peer \<Rightarrow>
      seqp (lift (hex_or_error (identity_pub peer))) (\<lambda>sender_pub.
      case parse_session_open X reply_envelope sender_pub now of Reject _ \<Rightarrow> ret () | Accept parsed \<Rightarrow>
      seqp (lookup_handshake X (p_id peer) session_id) (\<lambda>pend.
      case pend of None \<Rightarrow> ret () | Some pending \<Rightarrow>
      seqp (lookup_session_key X (p_id peer) session_id) (\<lambda>existing.
      if existing \<noteq> None then ret () else
      seqp (lift (hex_field ''ephemeral_pub'' parsed)) (\<lambda>responder_eph_pub.
      seqp (lift (derive_from_envelope X (my_eph_priv pending) responder_eph_pub (key_id X idn) responder_peer_id session_id
              (h_nonce pending))) (\<lambda>(p, s, session_key).
      seqp (writes (save_session_key p s session_key ROLE_INITIATOR ROLE_RESPONDER now)) (\<lambda>_.
      seqp (writes (create_session p s now)) (\<lambda>_.
      writes (clear_pending_handshake p s))))))))))"

section \<open>Agreement of the two sides\<close>

lemmas leg_simps = lookup_peer_def lookup_session_key_def lookup_handshake_def hex_or_error_def hex_field_def
  derive_from_envelope_def learn_mailbox_def Let_def

lemma get_peer_writes [simp]:
  "get_peer (save_pending_handshake p s k n r t st) q = get_peer st q"
  "get_peer (save_session_key p s k' a b t' st) q = get_peer st q"
  "get_peer (create_session p s t' st) q = get_peer st q"
  "get_peer (snd (get_or_create_local_mailbox tok' st)) q = get_peer st q"
  by (simp_all add: get_peer_def save_pending_handshake_def save_session_key_def create_session_def
      get_or_create_local_mailbox_def Let_def split: option.split)

lemma key_id_nonempty [simp]: "key_id X idn \<noteq> []"
  by (simp add: key_id_def fingerprint_def)

text \<open>\<open>knows st idn\<close>: the store holds the identity's public key under its fingerprint.\<close>

definition knows :: "ext \<Rightarrow> store \<Rightarrow> identity \<Rightarrow> bool" where
  "knows X st idn \<longleftrightarrow> (\<exists>r. get_peer st (key_id X idn) = Some r \<and> identity_pub r = bytes_hex (public_bytes X idn)
     \<and> consent_state r \<in> set CONSENT_STATES)"

lemma session_open_fields:
  "dget ''sender_key_id'' (build_session_open X idn r m sid e n mb t ttl) = Some (JStr (key_id X idn))"
  "dget ''session_id'' (build_session_open X idn r m sid e n mb t ttl) = Some (JStr sid)"
  by (simp_all add: build_session_open_def)

lemma get_session_key_saved [simp]:
  "get_session_key (save_session_key p s k a b t st) q u =
     (if (q, u) = (p, s) \<and> get_session_key st p s = None
      then Some \<lparr>k_peer = p, k_session = s, session_key = k, my_role = a, peer_role = b, established_at = t\<rparr>
      else get_session_key st q u)"
  by (auto simp: get_session_key_def save_session_key_def tget_tins)

lemma get_session_created [simp]:
  "\<exists>r. get_session (create_session p s t st) p s = Some r"
  by (auto simp: get_session_def create_session_def tget_tins)

lemma other_table_writes [simp]:
  "get_session_key (create_session p s t st) q u = get_session_key st q u"
  "get_session_key (save_pending_handshake p s k n r t' st) q u = get_session_key st q u"
  "get_session_key (clear_pending_handshake p s st) q u = get_session_key st q u"
  "get_session_key (snd (get_or_create_local_mailbox tok' st)) q u = get_session_key st q u"
  "get_session (clear_pending_handshake p s st) q u = get_session st q u"
  "get_session (snd (get_or_create_local_mailbox tok' st)) q u = get_session st q u"
  "get_pending_handshake (snd (get_or_create_local_mailbox tok' st)) q u = get_pending_handshake st q u"
  "get_pending_handshake (save_session_key p s k' a b t'' st) q u = get_pending_handshake st q u"
  "get_pending_handshake (create_session p s t st) q u = get_pending_handshake st q u"
  by (simp_all add: get_session_key_def create_session_def save_pending_handshake_def clear_pending_handshake_def
      get_or_create_local_mailbox_def get_session_def get_pending_handshake_def save_session_key_def Let_def
      split: option.split)

lemma get_pending_handshake_saved [simp]:
  "get_pending_handshake (save_pending_handshake p s k n r t st) p s =
     Some \<lparr>h_peer = p, h_session = s, my_eph_priv = k, h_nonce = n, h_role = r, h_created_at = t\<rparr>"
  "get_pending_handshake (clear_pending_handshake p s st) p s = None"
  by (simp_all add: get_pending_handshake_def save_pending_handshake_def clear_pending_handshake_def tget_tput tget_tdel)

lemma derive_session_key_exchange:
  "derive_session_key X a b f g s n = Inr k \<Longrightarrow> x_exchange X a b \<noteq> None"
  by (cases "x_exchange X a b") (simp_all add: derive_session_key_def)

lemma learn_mailbox_ok:
  assumes "consent_state r \<in> set CONSENT_STATES"
  obtains st' where "learn_mailbox X r (JStr m) now st = (Inr (), st')" "get_session_key st' = get_session_key st"
proof (cases "m = []")
  case True
  then show ?thesis using that by (simp add: learn_mailbox_def)
next
  case False
  with assms obtain st' where "upsert_peer (p_id r) (identity_pub r) (p_fingerprint r) (consent_state r)
      (relay_url r) (Some m) now st = Inr st'" "session_keys st' = session_keys st"
    by (auto simp: upsert_peer_def Let_def)
  with False show ?thesis using that by (simp add: learn_mailbox_def attempts_def get_session_key_def fun_eq_iff)
qed

lemma open_session_leg:
  assumes "get_session_key st p (''ks_'' @ idtok) = None"
  obtains m mb st' where
    "open_session X idn p now ttl idtok eph nonce mtok st =
       (Inr (build_session_open X idn p m (''ks_'' @ idtok) (x_pub X eph) nonce mb now ttl), st')"
    "get_peer st' = get_peer st" "get_session_key st' = get_session_key st"
    "get_pending_handshake st' p (''ks_'' @ idtok) = Some \<lparr>h_peer = p, h_session = ''ks_'' @ idtok, my_eph_priv = eph,
       h_nonce = nonce, h_role = ROLE_INITIATOR, h_created_at = Some now\<rparr>"
proof -
  let ?st = "save_pending_handshake p (''ks_'' @ idtok) eph nonce ROLE_INITIATOR (Some now) st"
  obtain mb st' where mb: "get_or_create_local_mailbox mtok ?st = (mb, st')" by (cases "get_or_create_local_mailbox mtok ?st")
  then have st': "st' = snd (get_or_create_local_mailbox mtok ?st)" by simp
  have "open_session X idn p now ttl idtok eph nonce mtok st = (Inr (build_session_open X idn p
      (case get_peer st p of None \<Rightarrow> JStr '''' | Some r \<Rightarrow> mailbox_json (relay_mailbox r))
      (''ks_'' @ idtok) (x_pub X eph) nonce mb now ttl), st')"
    using assms mb by (simp add: open_session_def Let_def seqp_def calls_to_def del: append.simps)
  moreover have "get_peer st' = get_peer st" "get_session_key st' = get_session_key st"
    "get_pending_handshake st' p (''ks_'' @ idtok) = Some \<lparr>h_peer = p, h_session = ''ks_'' @ idtok, my_eph_priv = eph,
       h_nonce = nonce, h_role = ROLE_INITIATOR, h_created_at = Some now\<rparr>"
    unfolding st' fun_eq_iff by (simp_all del: append.simps)
  ultimately show ?thesis by (rule that)
qed

lemma on_session_open_leg:
  assumes "signatures_verify X" "knows X st A" "get_session_key st (key_id X A) sid = None"
    and "valid_time (sent + ttl)" "now \<le> sent + ttl - (sent + ttl) mod second + skew"
    and key: "derive_session_key X eb ea (key_id X B) (key_id X A) sid nonce = Inr key"
  obtains m mb st' where
    "on_session_open X B (build_session_open X A (key_id X B) rm sid ea nonce am sent ttl) now ttl' eb mtok st =
       (Inr (Some (build_session_open X B (key_id X A) m sid (x_pub X eb) nonce mb now ttl')), st')"
    "get_session_key st' (key_id X A) sid = Some \<lparr>k_peer = key_id X A, k_session = sid, session_key = key,
       my_role = ROLE_RESPONDER, peer_role = ROLE_INITIATOR, established_at = now\<rparr>"
    "get_session st' (key_id X A) sid \<noteq> None"
proof -
  let ?env = "build_session_open X A (key_id X B) rm sid ea nonce am sent ttl"
  obtain r where r: "get_peer st (key_id X A) = Some r" "identity_pub r = bytes_hex (public_bytes X A)"
    "consent_state r \<in> set CONSENT_STATES" using assms(2) by (auto simp: knows_def)
  then have id: "p_id r = key_id X A" by (auto simp: get_peer_def dest: tget_key)
  obtain st1 where st1: "learn_mailbox X r (JStr am) now st = (Inr (), st1)" "get_session_key st1 = get_session_key st"
    using learn_mailbox_ok [OF r(3)] by metis
  let ?st = "create_session (key_id X A) sid now (save_session_key (key_id X A) sid key ROLE_RESPONDER ROLE_INITIATOR now st1)"
  obtain mb st2 where mb: "get_or_create_local_mailbox mtok ?st = (mb, st2)" by (cases "get_or_create_local_mailbox mtok ?st")
  then have st2: "st2 = snd (get_or_create_local_mailbox mtok ?st)" by simp
  have ex: "x_exchange X eb ea \<noteq> None" by (rule derive_session_key_exchange [OF key])
  have "on_session_open X B ?env now ttl' eb mtok st =
     (Inr (Some (build_session_open X B (key_id X A) (if am \<noteq> [] then JStr am
        else case get_peer st2 (key_id X A) of None \<Rightarrow> JStr '''' | Some r \<Rightarrow> mailbox_json (relay_mailbox r))
        sid (x_pub X eb) nonce mb now ttl')), st2)"
    using r id st1 mb ex key assms(3) session_open_accepted [OF assms(1,4,5)]
    by (simp add: on_session_open_def answer_open_def lookup_peer_def lookup_session_key_def hex_or_error_def hex_field_def
        derive_from_envelope_def Let_def dget_or_def session_open_fields seqp_def calls_to_def hexc.dec_enc)
  then show ?thesis using st1(2) assms(3) by (intro that) (auto simp: st2)
qed

lemma complete_session_leg:
  assumes "signatures_verify X" "knows X st B" "get_session_key st (key_id X B) sid = None"
    and "valid_time (sent + ttl)" "now \<le> sent + ttl - (sent + ttl) mod second + skew"
    and "get_pending_handshake st (key_id X B) sid = Some h"
    and key: "derive_session_key X (my_eph_priv h) eb (key_id X A) (key_id X B) sid (h_nonce h) = Inr key"
  obtains st' where
    "complete_session X A (build_session_open X B (key_id X A) rm sid eb nonce bm sent ttl) now st = (Inr (), st')"
    "get_session_key st' (key_id X B) sid = Some \<lparr>k_peer = key_id X B, k_session = sid, session_key = key,
       my_role = ROLE_INITIATOR, peer_role = ROLE_RESPONDER, established_at = now\<rparr>"
    "get_session st' (key_id X B) sid \<noteq> None" "get_pending_handshake st' (key_id X B) sid = None"
proof -
  obtain r where r: "get_peer st (key_id X B) = Some r" "identity_pub r = bytes_hex (public_bytes X B)"
    using assms(2) by (auto simp: knows_def)
  then have id: "p_id r = key_id X B" by (auto simp: get_peer_def dest: tget_key)
  have ex: "x_exchange X (my_eph_priv h) eb \<noteq> None" by (rule derive_session_key_exchange [OF key])
  let ?st = "clear_pending_handshake (key_id X B) sid (create_session (key_id X B) sid now
    (save_session_key (key_id X B) sid key ROLE_INITIATOR ROLE_RESPONDER now st))"
  have "complete_session X A (build_session_open X B (key_id X A) rm sid eb nonce bm sent ttl) now st = (Inr (), ?st)"
    using r id ex key assms(3,6) session_open_accepted [OF assms(1,4,5)]
    by (simp add: complete_session_def lookup_peer_def lookup_session_key_def lookup_handshake_def hex_or_error_def
        hex_field_def derive_from_envelope_def Let_def dget_or_def session_open_fields seqp_def hexc.dec_enc)
  then show ?thesis using assms(3) by (intro that) auto
qed

text \<open>
  C29: The three legs establish one shared key. If each side has stored the other's public key, no
  key exists yet for the new session id and the two envelopes arrive before they expire, then leg 1
  yields an envelope, leg 2 accepts it and replies, leg 3 accepts the reply, and both stores then
  hold the same session key under the same session id with complementary roles (the initiator 0,
  the responder 1), an open session on both sides and no pending handshake left.
\<close>

theorem handshake_establishes_shared_key:
  assumes laws: "signatures_verify X" "exchange_commutes X"
    and known: "knows X stA B" "knows X stB A"
    and fresh: "get_session_key stA (key_id X B) (''ks_'' @ idtok) = None"
      "get_session_key stB (key_id X A) (''ks_'' @ idtok) = None"
    and time: "valid_time (t1 + ttl)" "t2 \<le> t1 + ttl - (t1 + ttl) mod second + skew"
      "valid_time (t2 + ttl)" "t3 \<le> t2 + ttl - (t2 + ttl) mod second + skew"
  shows "\<exists>env1 stA1 env2 stB1 stA2 key.
     open_session X A (key_id X B) t1 ttl idtok ea nonce mtokA stA = (Inr env1, stA1) \<and>
     on_session_open X B env1 t2 ttl eb mtokB stB = (Inr (Some env2), stB1) \<and>
     complete_session X A env2 t3 stA1 = (Inr (), stA2) \<and>
     get_session_key stA2 (key_id X B) (''ks_'' @ idtok) = Some \<lparr>k_peer = key_id X B, k_session = ''ks_'' @ idtok,
       session_key = key, my_role = ROLE_INITIATOR, peer_role = ROLE_RESPONDER, established_at = t3\<rparr> \<and>
     get_session_key stB1 (key_id X A) (''ks_'' @ idtok) = Some \<lparr>k_peer = key_id X A, k_session = ''ks_'' @ idtok,
       session_key = key, my_role = ROLE_RESPONDER, peer_role = ROLE_INITIATOR, established_at = t2\<rparr> \<and>
     get_session stA2 (key_id X B) (''ks_'' @ idtok) \<noteq> None \<and> get_session stB1 (key_id X A) (''ks_'' @ idtok) \<noteq> None \<and>
     get_pending_handshake stA2 (key_id X B) (''ks_'' @ idtok) = None"
proof -
  define sid where "sid = ''ks_'' @ idtok"
  obtain key where key: "derive_session_key X eb (x_pub X ea) (key_id X B) (key_id X A) sid nonce = Inr key"
      "derive_session_key X ea (x_pub X eb) (key_id X A) (key_id X B) sid nonce = Inr key"
    using derive_session_key_agree [OF laws(2)] by metis
  obtain m mb stA1 where A1: "open_session X A (key_id X B) t1 ttl idtok ea nonce mtokA stA =
      (Inr (build_session_open X A (key_id X B) m sid (x_pub X ea) nonce mb t1 ttl), stA1)"
    "get_peer stA1 = get_peer stA" "get_session_key stA1 = get_session_key stA"
    "get_pending_handshake stA1 (key_id X B) sid = Some \<lparr>h_peer = key_id X B, h_session = sid, my_eph_priv = ea,
       h_nonce = nonce, h_role = ROLE_INITIATOR, h_created_at = Some t1\<rparr>"
    using open_session_leg [OF fresh(1)] unfolding sid_def by metis
  obtain m' mb' stB1 where B1: "on_session_open X B (build_session_open X A (key_id X B) m sid (x_pub X ea) nonce mb t1 ttl)
       t2 ttl eb mtokB stB = (Inr (Some (build_session_open X B (key_id X A) m' sid (x_pub X eb) nonce mb' t2 ttl)), stB1)"
    "get_session_key stB1 (key_id X A) sid = Some \<lparr>k_peer = key_id X A, k_session = sid, session_key = key,
       my_role = ROLE_RESPONDER, peer_role = ROLE_INITIATOR, established_at = t2\<rparr>"
    "get_session stB1 (key_id X A) sid \<noteq> None"
    using on_session_open_leg [OF laws(1) known(2) fresh(2) [folded sid_def] time(1,2) key(1)] by metis
  have kn: "knows X stA1 B" using known(1) A1(2) by (simp add: knows_def)
  have fr: "get_session_key stA1 (key_id X B) sid = None" using fresh(1) A1(3) by (simp add: sid_def)
  obtain stA2 where A2: "complete_session X A
       (build_session_open X B (key_id X A) m' sid (x_pub X eb) nonce mb' t2 ttl) t3 stA1 = (Inr (), stA2)"
    "get_session_key stA2 (key_id X B) sid = Some \<lparr>k_peer = key_id X B, k_session = sid, session_key = key,
       my_role = ROLE_INITIATOR, peer_role = ROLE_RESPONDER, established_at = t3\<rparr>"
    "get_session stA2 (key_id X B) sid \<noteq> None" "get_pending_handshake stA2 (key_id X B) sid = None"
    by (rule complete_session_leg [OF laws(1) kn fr time(3,4) A1(4), of "x_pub X eb" A key m' nonce mb']) (simp_all add: key(2))
  show ?thesis unfolding sid_def [symmetric] using A1(1) B1 A2 by blast
qed

definition pair_store :: "identity \<Rightarrow> store" where
  "pair_store idn = empty_store\<lparr>peers := [\<lparr>p_id = key_id toy idn, identity_pub = bytes_hex (public_bytes toy idn),
     p_fingerprint = key_id toy idn, consent_state = ''paired'', relay_url = None, relay_mailbox = None,
     p_created_at = 0, p_updated_at = 0, previous_identity_pub = None\<rparr>]\<rparr>"

lemma pair_store_knows: "knows toy (pair_store idn) idn"
  by (simp add: knows_def pair_store_def get_peer_def CONSENT_STATES_def)

lemma pair_store_no_key: "get_session_key (pair_store idn) p s = None"
  by (simp add: pair_store_def get_session_key_def empty_store_def)

theorem handshake_establishes_shared_key_witness:
  "\<exists>env1 stA1 env2 stB1 stA2.
     open_session toy \<lparr>priv = [1]\<rparr> (key_id toy \<lparr>priv = [2]\<rparr>) 63000000000000000 SESSION_OPEN_TTL ''ab'' [5] [6] ''c'' (pair_store \<lparr>priv = [2]\<rparr>)
       = (Inr env1, stA1) \<and>
     on_session_open toy \<lparr>priv = [2]\<rparr> env1 63000000000000000 SESSION_OPEN_TTL [8] ''d'' (pair_store \<lparr>priv = [1]\<rparr>) = (Inr (Some env2), stB1) \<and>
     complete_session toy \<lparr>priv = [1]\<rparr> env2 63000000000000000 stA1 = (Inr (), stA2)"
proof -
  have v: "valid_time (63000000000000000 + SESSION_OPEN_TTL)" by (simp add: valid_time_def SESSION_OPEN_TTL_def)
  have w: "63000000000000000 \<le> 63000000000000000 + SESSION_OPEN_TTL - (63000000000000000 + SESSION_OPEN_TTL) mod second + skew"
    by (simp add: SESSION_OPEN_TTL_def skew_def)
  show ?thesis
    using handshake_establishes_shared_key [where A = "\<lparr>priv = [1]\<rparr>" and B = "\<lparr>priv = [2]\<rparr>" and idtok = "''ab''"
        and ea = "[5]" and nonce = "[6]" and mtokA = "''c''" and eb = "[8]" and mtokB = "''d''",
        OF toy_laws(1,2) pair_store_knows pair_store_knows pair_store_no_key pair_store_no_key v w v w]
    by blast
qed

section \<open>No key without a signature, no key replaced\<close>

lemma learn_mailbox_keys: "get_session_key (snd (learn_mailbox X r m now st)) = get_session_key st"
proof -
  have "session_keys st' = session_keys st" if "upsert_peer a b c d e f g st = Inr st'" for a b c d e f g st'
    using that by (auto simp: upsert_peer_def Let_def split: if_splits)
  then show ?thesis
    by (auto simp: learn_mailbox_def seqp_def attempts_def get_session_key_def fun_eq_iff split: sum.split)
qed

text \<open>The envelope is signed with the stored key of the peer it names, for the session it names.\<close>

definition authentic :: "ext \<Rightarrow> store \<Rightarrow> dict \<Rightarrow> time \<Rightarrow> string \<Rightarrow> string \<Rightarrow> bool" where
  "authentic X st envelope now p s \<longleftrightarrow>
     dget ''sender_key_id'' envelope = Some (JStr p) \<and> dget ''session_id'' envelope = Some (JStr s) \<and>
     (\<exists>r pub. get_peer st p = Some r \<and> bytes_fromhex (identity_pub r) = Some pub \<and>
        verify_envelope_signature X envelope pub \<and> \<not> expired envelope now)"

lemma parse_session_open_accept:
  "parse_session_open X envelope pub now = Accept parsed \<Longrightarrow> verify_envelope_signature X envelope pub \<and> \<not> expired envelope now"
  by (auto simp: parse_session_open_def split: if_splits)

lemma derive_from_envelope_ids:
  "derive_from_envelope X e f me pid sid n = Inr (p, s, k) \<Longrightarrow> pid = JStr p \<and> sid = JStr s"
  by (auto simp: derive_from_envelope_def bind_res_Inr_iff split: if_splits json.splits)

lemma dget_or_str: "dget_or k JNull d = JStr s \<Longrightarrow> dget k d = Some (JStr s)"
  by (auto simp: dget_or_def split: option.splits)

lemma on_session_open_keys:
  "get_session_key (snd (on_session_open X idn env now ttl eph mtok st)) p s = get_session_key st p s
   \<or> get_session_key st p s = None \<and> authentic X st env now p s"
proof -
  let ?pid = "dget_or ''sender_key_id'' JNull env" and ?sid = "dget_or ''session_id'' JNull env"
  show ?thesis
  proof (cases "fst (lookup_peer X ?pid st)")
    case (Inl e)
    then have "lookup_peer X ?pid st = (Inl e, st)" by (auto simp: lookup_peer_def seqp_def split: sum.splits option.splits if_splits)
    then show ?thesis by (simp add: on_session_open_def Let_def)
  next
    case (Inr found)
    then have look: "lookup_peer X ?pid st = (Inr found, st)"
      by (auto simp: lookup_peer_def seqp_def split: sum.splits option.splits if_splits)
    show ?thesis
    proof (cases found)
      case None
      with look show ?thesis by (simp add: on_session_open_def Let_def)
    next
      case (Some r)
      show ?thesis
      proof (cases "\<exists>pub parsed. bytes_fromhex (identity_pub r) = Some pub \<and> parse_session_open X env pub now = Accept parsed")
        case False
        then show ?thesis using look Some
          by (auto simp: on_session_open_def Let_def hex_or_error_def seqp_def split: option.splits verdict.splits)
      next
        case True
        then obtain pub parsed where pp: "bytes_fromhex (identity_pub r) = Some pub" "parse_session_open X env pub now = Accept parsed"
          by blast
        have row: "get_peer st q = Some r" if "?pid = JStr q" for q
          using look Some that by (auto simp: lookup_peer_def seqp_def split: if_splits option.splits)
        have auth: "authentic X st env now q u" if "?pid = JStr q" "?sid = JStr u" for q u
          using row [OF that(1)] that pp parse_session_open_accept [OF pp(2)] by (auto simp: authentic_def dget_or_str)
        have lk: "get_session_key st' = get_session_key st"
          if "learn_mailbox X r m now st = (res, st')" for m res st'
          using learn_mailbox_keys [of X r m now st] that by simp
        have mbx: "get_session_key st2 = get_session_key st1"
          if "get_or_create_local_mailbox mtok st1 = (mb, st2)" for st1 mb st2
          using other_table_writes(4) [of mtok st1] that by (simp add: fun_eq_iff)
        show ?thesis using look Some pp
          by (auto simp: on_session_open_def answer_open_def Let_def hex_or_error_def seqp_def lookup_session_key_def calls_to_def
              dest!: derive_from_envelope_ids lk mbx dest: auth
              split: sum.split option.split prod.split if_splits)
      qed
    qed
  qed
qed

lemma complete_session_keys:
  "get_session_key (snd (complete_session X idn env now st)) p s = get_session_key st p s
   \<or> get_session_key st p s = None \<and> authentic X st env now p s \<and> get_pending_handshake st p s \<noteq> None"
proof -
  let ?pid = "dget_or ''sender_key_id'' JNull env" and ?sid = "dget_or ''session_id'' JNull env"
  show ?thesis
  proof (cases "\<exists>r pub parsed. lookup_peer X ?pid st = (Inr (Some r), st) \<and> bytes_fromhex (identity_pub r) = Some pub
      \<and> parse_session_open X env pub now = Accept parsed")
    case False
    then show ?thesis
      by (auto simp: complete_session_def Let_def hex_or_error_def seqp_def lookup_peer_def
          split: option.splits verdict.splits sum.splits prod.splits if_splits)
  next
    case True
    then obtain r pub parsed where pp: "lookup_peer X ?pid st = (Inr (Some r), st)"
      "bytes_fromhex (identity_pub r) = Some pub" "parse_session_open X env pub now = Accept parsed" by blast
    have row: "get_peer st q = Some r" "p_id r = q" if "?pid = JStr q" for q
      using pp(1) that by (auto simp: lookup_peer_def seqp_def get_peer_def dest: tget_key split: if_splits)
    have auth: "authentic X st env now q u" if "?pid = JStr q" "?sid = JStr u" for q u
      using row [OF that(1)] that pp(2) parse_session_open_accept [OF pp(3)] by (auto simp: authentic_def dget_or_str)
    show ?thesis using pp
      by (auto simp: complete_session_def Let_def hex_or_error_def seqp_def lookup_session_key_def lookup_handshake_def row
          dest!: derive_from_envelope_ids dest: auth split: sum.split option.split prod.split if_splits)
  qed
qed

text \<open>
  Whatever envelope arrives and however the leg ends, an exception included, neither
  \<open>on_session_open\<close> nor \<open>complete_session\<close> ever changes or removes a stored session key; and a
  key appears for a peer and session only if the envelope names that peer and session, verifies
  under that peer's stored public key and has not expired (on the initiator's side, only if that
  handshake is pending too).
\<close>

theorem session_key_only_from_peer:
  "(get_session_key (snd (on_session_open X idn env now ttl eph mtok st)) p s = get_session_key st p s
     \<or> get_session_key st p s = None \<and> authentic X st env now p s)
   \<and> (get_session_key (snd (complete_session X idn env now st)) p s = get_session_key st p s
     \<or> get_session_key st p s = None \<and> authentic X st env now p s \<and> get_pending_handshake st p s \<noteq> None)"
  using on_session_open_keys complete_session_keys by blast

end
