(* ===== verification/Store_Rotation.thy ===== *)
theory Store_Rotation
  imports Store_Laws
begin

text \<open>
  \<open>update_peer_identity\<close>: when a peer rotates its key every row keyed on the old identifier moves
  to the new one, so what the store answers for the new identifier is what it answered for the old.
\<close>

definition no_rows :: "string \<Rightarrow> store \<Rightarrow> bool" where
  "no_rows p st \<longleftrightarrow>
     p \<notin> p_id ` set (peers st) \<and> p \<notin> q_peer ` set (seq_high_water st) \<and> p \<notin> s_peer ` set (sessions st)
   \<and> p \<notin> c_peer ` set (peer_counters st) \<and> p \<notin> d_peer ` set (outbound_drafts st)
   \<and> p \<notin> t_peer ` set (transcript st) \<and> p \<notin> m_peer ` set (disclosure_budget st)
   \<and> p \<notin> r_peer ` set (relationship_state st) \<and> p \<notin> m_peer ` set (peer_emotion_window st)
   \<and> p \<notin> q_peer ` set (outbound_seq st) \<and> p \<notin> h_peer ` set (pending_handshakes st)
   \<and> p \<notin> k_peer ` set (session_keys st) \<and> p \<notin> n_peer ` set (pending_rotation_notices st)"

abbreviation moved :: "('r \<Rightarrow> string) \<Rightarrow> (string \<Rightarrow> 'r \<Rightarrow> 'r) \<Rightarrow> string \<Rightarrow> string \<Rightarrow> 'r list \<Rightarrow> 'r list" where
  "moved pid set_pid old new t \<equiv> map (\<lambda>r. if pid r = old then set_pid new r else r) t"

text \<open>Moving the rows of one identifier to a fresh one keeps the primary keys distinct.\<close>

lemma moved_distinct:
  assumes "distinct (map key t)" "new \<notin> pid ` set t"
    and "\<And>r r'. key r = key r' \<Longrightarrow> pid r = pid r' \<and> sub r = sub r'"
    and "\<And>r r'. pid r = pid r' \<Longrightarrow> sub r = sub r' \<Longrightarrow> key r = key r'"
    and "\<And>r. pid (set_pid new r) = new" "\<And>r. sub (set_pid new r) = sub r"
  shows "distinct (map key (moved pid set_pid old new t))"
proof -
  define f where "f r = (if pid r = old then set_pid new r else r)" for r
  have inj: "key r = key x" if "key (f r) = key (f x)" "pid r \<noteq> new" "pid x \<noteq> new" for r x
    using assms(3) [OF that(1)] that(2,3) assms(4) [of r x] assms(5,6) by (auto simp: f_def split: if_splits)
  have "distinct (map key (map f t))" using assms(1,2)
  proof (induction t)
    case (Cons r t)
    then have "key (f r) \<noteq> key (f x)" if "x \<in> set t" for x using inj [of r x] that by auto
    with Cons show ?case by auto
  qed simp
  then show ?thesis unfolding f_def .
qed

lemma rekey_pid_keyed:
  assumes "distinct (map pid t)" "new \<notin> pid ` set t" "\<And>r. pid (set_pid new r) = new"
  shows "rekey pid pid set_pid old new t = Some (moved pid set_pid old new t)"
proof -
  have "distinct (map pid (moved pid set_pid old new t))"
    by (rule moved_distinct [where pid = pid and sub = "\<lambda>_. ()", OF assms(1,2)]) (simp_all add: assms(3))
  then show ?thesis by (simp only: rekey_def Let_def if_True)
qed

lemma rekey_pair_keyed:
  assumes "distinct (map (\<lambda>r. (pid r, sub r)) t)" "new \<notin> pid ` set t"
    "\<And>r. pid (set_pid new r) = new" "\<And>r. sub (set_pid new r) = sub r"
  shows "rekey (\<lambda>r. (pid r, sub r)) pid set_pid old new t = Some (moved pid set_pid old new t)"
proof -
  have "distinct (map (\<lambda>r. (pid r, sub r)) (moved pid set_pid old new t))"
    by (rule moved_distinct [where pid = pid and sub = sub, OF assms(1,2)]) (simp_all add: assms(3,4))
  then show ?thesis by (simp only: rekey_def Let_def if_True)
qed

lemma rekey_other_key:
  assumes "distinct (map key t)" "\<And>r. key (set_pid new r) = key r"
  shows "rekey key pid set_pid old new t = Some (moved pid set_pid old new t)"
proof -
  have "map key (moved pid set_pid old new t) = map key t" using assms(2) by simp
  with assms(1) show ?thesis by (simp only: rekey_def Let_def if_True)
qed

lemma tget_moved_pid:
  "new \<notin> pid ` set t \<Longrightarrow> (\<And>r. pid (set_pid new r) = new) \<Longrightarrow>
   tget pid new (moved pid set_pid old new t) = map_option (set_pid new) (tget pid old t)"
  by (induction t) auto

lemma tget_moved_pair:
  "new \<notin> pid ` set t \<Longrightarrow> (\<And>r. pid (set_pid new r) = new) \<Longrightarrow> (\<And>r. sub (set_pid new r) = sub r) \<Longrightarrow>
   tget (\<lambda>r. (pid r, sub r)) (new, s) (moved pid set_pid old new t) =
     map_option (set_pid new) (tget (\<lambda>r. (pid r, sub r)) (old, s) t)"
  by (induction t) auto

lemma moved_gone:
  "old \<noteq> new \<Longrightarrow> (\<And>r. pid (set_pid new r) = new) \<Longrightarrow> old \<notin> pid ` set (moved pid set_pid old new t)"
  by auto

definition rotated_row :: "string \<Rightarrow> time \<Rightarrow> string \<Rightarrow> peer_row \<Rightarrow> peer_row" where
  "rotated_row pub now p r = r\<lparr>previous_identity_pub := Some (identity_pub r), identity_pub := pub,
     p_fingerprint := p, p_id := p, p_updated_at := now\<rparr>"

lemma rotated_row_id [simp]: "p_id (rotated_row pub now p r) = p"
  by (simp add: rotated_row_def)

definition rotated :: "string \<Rightarrow> string \<Rightarrow> string \<Rightarrow> time \<Rightarrow> store \<Rightarrow> store" where
  "rotated old new_pub new now st = st\<lparr>
     peers := moved p_id (rotated_row new_pub now) old new (peers st),
     seq_high_water := moved q_peer (\<lambda>p r. r\<lparr>q_peer := p\<rparr>) old new (seq_high_water st),
     sessions := moved s_peer (\<lambda>p r. r\<lparr>s_peer := p\<rparr>) old new (sessions st),
     peer_counters := moved c_peer (\<lambda>p r. r\<lparr>c_peer := p\<rparr>) old new (peer_counters st),
     outbound_drafts := moved d_peer (\<lambda>p r. r\<lparr>d_peer := p\<rparr>) old new (outbound_drafts st),
     transcript := moved t_peer (\<lambda>p r. r\<lparr>t_peer := p\<rparr>) old new (transcript st),
     disclosure_budget := moved m_peer (\<lambda>p r. r\<lparr>m_peer := p\<rparr>) old new (disclosure_budget st),
     relationship_state := moved r_peer (\<lambda>p r. r\<lparr>r_peer := p\<rparr>) old new (relationship_state st),
     peer_emotion_window := moved m_peer (\<lambda>p r. r\<lparr>m_peer := p\<rparr>) old new (peer_emotion_window st),
     outbound_seq := moved q_peer (\<lambda>p r. r\<lparr>q_peer := p\<rparr>) old new (outbound_seq st),
     pending_handshakes := moved h_peer (\<lambda>p r. r\<lparr>h_peer := p\<rparr>) old new (pending_handshakes st),
     session_keys := moved k_peer (\<lambda>p r. r\<lparr>k_peer := p\<rparr>) old new (session_keys st),
     pending_rotation_notices := moved n_peer (\<lambda>p r. r\<lparr>n_peer := p\<rparr>) old new (pending_rotation_notices st)\<rparr>"

lemma rekey_tables:
  assumes "store_ok st" "no_rows new st"
  shows
    "rekey seq_key_of q_peer (\<lambda>p r. r\<lparr>q_peer := p\<rparr>) old new (seq_high_water st) = Some (moved q_peer (\<lambda>p r. r\<lparr>q_peer := p\<rparr>) old new (seq_high_water st))"
    "rekey session_key_of s_peer (\<lambda>p r. r\<lparr>s_peer := p\<rparr>) old new (sessions st) = Some (moved s_peer (\<lambda>p r. r\<lparr>s_peer := p\<rparr>) old new (sessions st))"
    "rekey c_peer c_peer (\<lambda>p r. r\<lparr>c_peer := p\<rparr>) old new (peer_counters st) = Some (moved c_peer (\<lambda>p r. r\<lparr>c_peer := p\<rparr>) old new (peer_counters st))"
    "rekey d_id d_peer (\<lambda>p r. r\<lparr>d_peer := p\<rparr>) old new (outbound_drafts st) = Some (moved d_peer (\<lambda>p r. r\<lparr>d_peer := p\<rparr>) old new (outbound_drafts st))"
    "rekey transcript_key_of t_peer (\<lambda>p r. r\<lparr>t_peer := p\<rparr>) old new (transcript st) = Some (moved t_peer (\<lambda>p r. r\<lparr>t_peer := p\<rparr>) old new (transcript st))"
    "rekey m_peer m_peer (\<lambda>p r. r\<lparr>m_peer := p\<rparr>) old new (disclosure_budget st) = Some (moved m_peer (\<lambda>p r. r\<lparr>m_peer := p\<rparr>) old new (disclosure_budget st))"
    "rekey r_peer r_peer (\<lambda>p r. r\<lparr>r_peer := p\<rparr>) old new (relationship_state st) = Some (moved r_peer (\<lambda>p r. r\<lparr>r_peer := p\<rparr>) old new (relationship_state st))"
    "rekey m_peer m_peer (\<lambda>p r. r\<lparr>m_peer := p\<rparr>) old new (peer_emotion_window st) = Some (moved m_peer (\<lambda>p r. r\<lparr>m_peer := p\<rparr>) old new (peer_emotion_window st))"
    "rekey seq_key_of q_peer (\<lambda>p r. r\<lparr>q_peer := p\<rparr>) old new (outbound_seq st) = Some (moved q_peer (\<lambda>p r. r\<lparr>q_peer := p\<rparr>) old new (outbound_seq st))"
    "rekey handshake_key_of h_peer (\<lambda>p r. r\<lparr>h_peer := p\<rparr>) old new (pending_handshakes st) = Some (moved h_peer (\<lambda>p r. r\<lparr>h_peer := p\<rparr>) old new (pending_handshakes st))"
    "rekey key_key_of k_peer (\<lambda>p r. r\<lparr>k_peer := p\<rparr>) old new (session_keys st) = Some (moved k_peer (\<lambda>p r. r\<lparr>k_peer := p\<rparr>) old new (session_keys st))"
    "rekey n_peer n_peer (\<lambda>p r. r\<lparr>n_peer := p\<rparr>) old new (pending_rotation_notices st) = Some (moved n_peer (\<lambda>p r. r\<lparr>n_peer := p\<rparr>) old new (pending_rotation_notices st))"
  using assms unfolding store_ok_def no_rows_def tok_def
  by (simp_all add: rekey_pid_keyed rekey_pair_keyed rekey_other_key)

lemma update_peer_identity_fresh:
  assumes "store_ok st" "no_rows new st" "new \<noteq> old"
  shows "update_peer_identity old pub new now st = (Inr (rotated old pub new now st), rotated old pub new now st)"
proof -
  let ?peers = "moved p_id (rotated_row pub now) old new (peers st)"
  have "distinct (map p_id ?peers)"
    by (rule moved_distinct [where pid = p_id and sub = "\<lambda>_. ()"])
      (use assms in \<open>auto simp: store_ok_def tok_def no_rows_def\<close>)
  then have "update_peer_identity old pub new now st = rekey_children old new (st\<lparr>peers := ?peers\<rparr>)"
    using assms(3) unfolding update_peer_identity_def Let_def rotated_row_def by simp
  also have "\<dots> = (Inr (rotated old pub new now st), rotated old pub new now st)"
    using rekey_tables [OF assms(1,2)] by (simp add: rekey_children_def rekey_step_def rotated_def)
  finally show ?thesis .
qed

text \<open>
  When a peer rotates to a key whose fingerprint the store does not know yet, its identity
  and its whole history move with it: the peer row is found under the new fingerprint with the new
  key, the old key as previous key and the same consent, and the session keys, replay high-water
  marks, outbound sequence numbers, pending handshakes, daily counters, disclosure budget, emotion
  window and relationship read the same under the new identifier as before under the old; no table
  has a row of the old identifier left.
\<close>

theorem rotation_moves_history:
  assumes "store_ok st" "no_rows new st" "new \<noteq> old"
  shows "\<exists>st'. update_peer_identity old pub new now st = (Inr st', st') \<and>
     get_peer st' new = map_option (rotated_row pub now new) (get_peer st old) \<and>
     (\<forall>s. get_session_key st' new s = map_option (\<lambda>r. r\<lparr>k_peer := new\<rparr>) (get_session_key st old s)) \<and>
     (\<forall>s. get_seq_high_water st' new s = get_seq_high_water st old s) \<and>
     (\<forall>s. fst (next_outbound_sequence new s st') = fst (next_outbound_sequence old s st)) \<and>
     (\<forall>s. get_pending_handshake st' new s = map_option (\<lambda>r. r\<lparr>h_peer := new\<rparr>) (get_pending_handshake st old s)) \<and>
     (\<forall>d. get_counters st' new d = get_counters st old d) \<and>
     (\<forall>t. get_disclosure_budget st' new t = get_disclosure_budget st old t) \<and>
     (\<forall>t. get_peer_emotion_accumulated st' new t = get_peer_emotion_accumulated st old t) \<and>
     get_relationship_row st' new = map_option (\<lambda>r. r\<lparr>r_peer := new\<rparr>) (get_relationship_row st old) \<and>
     no_rows old st'"
proof (intro exI conjI allI)
  show "update_peer_identity old pub new now st = (Inr (rotated old pub new now st), rotated old pub new now st)"
    by (rule update_peer_identity_fresh [OF assms])
  have fresh: "new \<notin> p_id ` set (peers st)" "new \<notin> q_peer ` set (seq_high_water st)" "new \<notin> c_peer ` set (peer_counters st)"
    "new \<notin> m_peer ` set (disclosure_budget st)" "new \<notin> r_peer ` set (relationship_state st)"
    "new \<notin> m_peer ` set (peer_emotion_window st)" "new \<notin> q_peer ` set (outbound_seq st)"
    "new \<notin> h_peer ` set (pending_handshakes st)" "new \<notin> k_peer ` set (session_keys st)"
    using assms(2) by (simp_all add: no_rows_def)
  note pair = tget_moved_pair [where pid = k_peer and sub = k_session and set_pid = "\<lambda>p r. r\<lparr>k_peer := p\<rparr>"]
    tget_moved_pair [where pid = q_peer and sub = q_session and set_pid = "\<lambda>p r. r\<lparr>q_peer := p\<rparr>"]
    tget_moved_pair [where pid = h_peer and sub = h_session and set_pid = "\<lambda>p r. r\<lparr>h_peer := p\<rparr>"]
  note single = tget_moved_pid [where pid = p_id and set_pid = "rotated_row pub now"]
    tget_moved_pid [where pid = c_peer and set_pid = "\<lambda>p r. r\<lparr>c_peer := p\<rparr>"]
    tget_moved_pid [where pid = m_peer and set_pid = "\<lambda>p r. r\<lparr>m_peer := p\<rparr>"]
    tget_moved_pid [where pid = r_peer and set_pid = "\<lambda>p r. r\<lparr>r_peer := p\<rparr>"]
  note rot = rotated_def single pair fresh
  show "get_peer (rotated old pub new now st) new = map_option (rotated_row pub now new) (get_peer st old)"
    by (simp add: get_peer_def rot)
  show "get_session_key (rotated old pub new now st) new s = map_option (\<lambda>r. r\<lparr>k_peer := new\<rparr>) (get_session_key st old s)" for s
    by (simp add: get_session_key_def rot)
  show "get_seq_high_water (rotated old pub new now st) new s = get_seq_high_water st old s" for s
    by (simp add: get_seq_high_water_def rot option.case_distrib split: option.split)
  show "fst (next_outbound_sequence new s (rotated old pub new now st)) = fst (next_outbound_sequence old s st)" for s
    by (simp add: next_outbound_sequence_def rot Let_def split: option.split)
  show "get_pending_handshake (rotated old pub new now st) new s = map_option (\<lambda>r. r\<lparr>h_peer := new\<rparr>) (get_pending_handshake st old s)" for s
    by (simp add: get_pending_handshake_def rot)
  show "get_counters (rotated old pub new now st) new d = get_counters st old d" for d
    by (simp add: get_counters_def rot split: option.split)
  show "get_disclosure_budget (rotated old pub new now st) new t = get_disclosure_budget st old t" for t
    by (simp add: get_disclosure_budget_def rot split: option.split)
  show "get_peer_emotion_accumulated (rotated old pub new now st) new t = get_peer_emotion_accumulated st old t" for t
    by (simp add: get_peer_emotion_accumulated_def rot split: option.split)
  show "get_relationship_row (rotated old pub new now st) new = map_option (\<lambda>r. r\<lparr>r_peer := new\<rparr>) (get_relationship_row st old)"
    by (simp add: get_relationship_row_def rot)
  show "no_rows old (rotated old pub new now st)"
    unfolding no_rows_def rotated_def using assms(3) by (auto simp: image_iff)
qed

theorem rotation_moves_history_witness:
  "\<exists>st'. update_peer_identity ''p'' ''ff'' ''q'' 7 (one_peer ''paired'') = (Inr st', st') \<and>
     map_option p_id (get_peer st' ''q'') = Some ''q''"
proof -
  have "store_ok (one_peer ''paired'')" by (rule one_peer_ok) (simp add: CONSENT_STATES_def)
  moreover have "no_rows ''q'' (one_peer ''paired'')" by (simp add: no_rows_def one_peer_def empty_store_def)
  moreover have "get_peer (one_peer ''paired'') ''p'' \<noteq> None" by (simp add: get_peer_def one_peer_def)
  ultimately show ?thesis
    using rotation_moves_history [of "one_peer ''paired''" "''q''" "''p''" "''ff''" 7] by fastforce
qed

end
