(* ===== verification/Transport.thy ===== *)
theory Transport
  imports Session Store_Rotation
begin

text \<open>
  The relay client (\<open>kindled_link/relay_client.py\<close>), the transport audit (\<open>audit.py\<close>) and the
  transport (\<open>transport.py\<close>). The state is a world: the store, the requests sent so far, the
  pauses between retries, the audit rows and the number of random draws. What the relay answers
  to the n-th request, and the n-th random draws, are functions of an environment, so every
  behaviour of an untrusted relay is one environment.
\<close>

section \<open>The world\<close>

text \<open>
  An exception of \<open>httpx\<close> with its type name and message, or a reply with its status and what
  \<open>resp.json()\<close> returns (\<open>None\<close> where it raises \<open>ValueError\<close>).
\<close>

datatype http_reply = TransportError string string | RequestError string string | Reply nat "json option"

record world =
  kdb :: store
  requests :: "(string \<times> json) list"
  sleeps :: "rat list"
  audit :: "dict list"
  draws :: nat

record env =
  ext_of :: ext
  answer :: "nat \<Rightarrow> string \<Rightarrow> json \<Rightarrow> http_reply"
  draw_key :: "nat \<Rightarrow> bytes"
  draw_token :: "nat \<Rightarrow> string"

definition on_kdb :: "(store, 'a) prog \<Rightarrow> (world, 'a) prog" where
  "on_kdb m w = (case m (kdb w) of (r, st) \<Rightarrow> (r, w\<lparr>kdb := st\<rparr>))"

definition drawn :: "(nat \<Rightarrow> 'a) \<Rightarrow> (world, 'a) prog" where
  "drawn f w = (Inr (f (draws w)), w\<lparr>draws := Suc (draws w)\<rparr>)"

section \<open>The relay client\<close>

record client =
  c_identity :: identity
  c_mailbox :: string

definition MAX_RETRIES :: nat where "MAX_RETRIES = 3"
definition BACKOFF_BASE_S :: rat where "BACKOFF_BASE_S = 1 / 2"

definition request :: "env \<Rightarrow> string \<Rightarrow> json \<Rightarrow> (world, http_reply) prog" where
  "request E path payload w =
     (Inr (answer E (length (requests w)) path payload), w\<lparr>requests := requests w @ [(path, payload)]\<rparr>)"

text \<open>The loop of \<open>_post\<close>: \<open>left\<close> attempts remain, \<open>last\<close> is what the last error says.\<close>

fun post_loop :: "env \<Rightarrow> string \<Rightarrow> json \<Rightarrow> nat \<Rightarrow> string \<Rightarrow> (world, json option) prog" where
  "post_loop E path payload 0 msg = raise (RelayUnavailableError msg)"
| "post_loop E path payload (Suc left) msg =
     seqp (request E path payload) (\<lambda>reply.
     case reply of
       TransportError name text_of \<Rightarrow>
         seqp (if left > 0 then writes (\<lambda>w. w\<lparr>sleeps := sleeps w @ [BACKOFF_BASE_S * 2 ^ (MAX_RETRIES - Suc left)]\<rparr>) else ret ())
           (\<lambda>_. post_loop E path payload left (if text_of = [] then name else text_of))
     | RequestError name text_of \<Rightarrow> raise (RelayUnavailableError (''relay '' @ path @ '': '' @ name @ '': '' @ text_of))
     | Reply status body \<Rightarrow>
         if status \<ge> 400 then raise (RelayUnavailableError (''relay '' @ path @ '' -> '' @ dec_nat status)) else ret body)"

definition post :: "env \<Rightarrow> string \<Rightarrow> json \<Rightarrow> (world, json option) prog" where
  "post E path payload = post_loop E path payload MAX_RETRIES ''''"

text \<open>\<open>_field\<close>: the reply's \<open>key\<close> if the predicate \<open>kind\<close> accepts it.\<close>

definition field :: "env \<Rightarrow> string \<Rightarrow> json \<Rightarrow> string \<Rightarrow> (json \<Rightarrow> bool) \<Rightarrow> (world, json) prog" where
  "field E path payload key kind =
     seqp (post E path payload) (\<lambda>body.
     case body of
       None \<Rightarrow> raise (RelayUnavailableError (''relay '' @ path @ '': malformed reply (not JSON)''))
     | Some (JObj d) \<Rightarrow>
         (case dget key d of
            None \<Rightarrow> raise (RelayUnavailableError (''relay '' @ path @ '': malformed reply (no '' @ key @ '')''))
          | Some v \<Rightarrow> if kind v then ret v
                      else raise (RelayUnavailableError (''relay '' @ path @ '': malformed reply ('' @ key @ '')'')))
     | Some _ \<Rightarrow> raise (RelayUnavailableError (''relay '' @ path @ '': malformed reply (no '' @ key @ '')'')))"

fun is_str :: "json \<Rightarrow> bool" where
  "is_str (JStr _) = True" | "is_str _ = False"
fun is_list :: "json \<Rightarrow> bool" where
  "is_list (JList _) = True" | "is_list _ = False"

definition register :: "env \<Rightarrow> client \<Rightarrow> (world, unit) prog" where
  "register E c = seqp (post E ''/mailbox/register'' (JObj [(''mailbox_id'', JStr (c_mailbox c)),
     (''identity_pub'', JStr (bytes_hex (public_bytes (ext_of E) (c_identity c))))])) (\<lambda>_. ret ())"

definition push :: "env \<Rightarrow> client \<Rightarrow> dict \<Rightarrow> (world, unit) prog" where
  "push E c envelope = seqp (post E ''/envelope'' (JObj envelope)) (\<lambda>_. ret ())"

definition auth :: "env \<Rightarrow> client \<Rightarrow> (world, dict) prog" where
  "auth E c =
     seqp (field E ''/mailbox/challenge'' (JObj [(''mailbox_id'', JStr (c_mailbox c))]) ''nonce'' is_str) (\<lambda>nonce.
     let body = canonical_json (ext_of E) (JObj [(''purpose'', JStr ''kindled-relay-auth/1''),
                  (''mailbox'', JStr (c_mailbox c)), (''nonce'', nonce)]) in
     ret [(''mailbox_id'', JStr (c_mailbox c)), (''nonce'', nonce),
          (''signature'', JStr (bytes_hex (sign (ext_of E) (c_identity c) body))),
          (''identity_pub'', JStr (bytes_hex (public_bytes (ext_of E) (c_identity c))))])"

definition fetch :: "env \<Rightarrow> client \<Rightarrow> (world, json list) prog" where
  "fetch E c =
     seqp (auth E c) (\<lambda>a.
     seqp (field E ''/mailbox/fetch'' (JObj a) ''envelopes'' is_list) (\<lambda>v.
     case v of JList xs \<Rightarrow> ret xs | _ \<Rightarrow> ret []))"

definition ack :: "env \<Rightarrow> client \<Rightarrow> string list \<Rightarrow> (world, unit) prog" where
  "ack E c ids =
     seqp (auth E c) (\<lambda>a.
     seqp (post E ''/mailbox/ack'' (JObj (a @ [(''envelope_ids'', JList (map JStr ids))]))) (\<lambda>_. ret ()))"

section \<open>The audit\<close>

record event_fields =
  e_peer_id :: "json option"
  e_session_id :: "json option"
  e_seq :: "int option"
  e_reject_reason :: "RejectReason option"
  e_count :: "nat option"
  e_relay_ok :: "bool option"
  e_error :: "string option"

definition no_fields :: event_fields where
  "no_fields = \<lparr>e_peer_id = None, e_session_id = None, e_seq = None, e_reject_reason = None, e_count = None,
     e_relay_ok = None, e_error = None\<rparr>"

fun reason_name :: "RejectReason \<Rightarrow> string" where
  "reason_name PROTOCOL_MISMATCH = ''PROTOCOL_MISMATCH''"
| "reason_name BAD_SIGNATURE = ''BAD_SIGNATURE''"
| "reason_name WRONG_RECIPIENT = ''WRONG_RECIPIENT''"
| "reason_name AEAD_FAILURE = ''AEAD_FAILURE''"
| "reason_name REPLAY = ''REPLAY''"
| "reason_name EXPIRED = ''EXPIRED''"

text \<open>A \<open>None\<close> argument (Python's \<open>None\<close>, here also a \<open>JNull\<close> identifier) leaves the field out.\<close>

definition opt_field :: "string \<Rightarrow> json option \<Rightarrow> dict" where
  "opt_field k v = (case v of None \<Rightarrow> [] | Some JNull \<Rightarrow> [] | Some j \<Rightarrow> [(k, j)])"

definition audit_row :: "string \<Rightarrow> event_fields \<Rightarrow> time \<Rightarrow> dict" where
  "audit_row event f now =
     [(''ts'', JStr (isoformat now)), (''event'', JStr event)]
     @ opt_field ''peer_id'' (e_peer_id f) @ opt_field ''session_id'' (e_session_id f)
     @ opt_field ''seq'' (map_option JInt (e_seq f))
     @ opt_field ''reject_reason'' (map_option (JStr \<circ> reason_name) (e_reject_reason f))
     @ opt_field ''count'' (map_option (JInt \<circ> int) (e_count f))
     @ opt_field ''relay_ok'' (map_option JBool (e_relay_ok f))
     @ opt_field ''error'' (map_option (JStr \<circ> take 200) (e_error f))"

definition log_transport :: "string \<Rightarrow> event_fields \<Rightarrow> time \<Rightarrow> (world, unit) prog" where
  "log_transport event f now = writes (\<lambda>w. w\<lparr>audit := audit w @ [audit_row event f now]\<rparr>)"

text \<open>\<open>except RelayUnavailableError as exc\<close>.\<close>

definition on_relay_error :: "(world, 'a) prog \<Rightarrow> (string \<Rightarrow> (world, 'a) prog) \<Rightarrow> (world, 'a) prog" where
  "on_relay_error m h = catch m (\<lambda>e. case e of RelayUnavailableError s \<Rightarrow> h s | _ \<Rightarrow> raise e)"

section \<open>Sending\<close>

definition MESSAGE_TTL :: int where "MESSAGE_TTL = 7 * day"

definition send_message ::
    "env \<Rightarrow> identity \<Rightarrow> client \<Rightarrow> string \<Rightarrow> string \<Rightarrow> json \<Rightarrow> time \<Rightarrow> int \<Rightarrow> (world, bool) prog" where
  "send_message E idn c peer_id session_id payload now ttl =
     (let ids = no_fields\<lparr>e_peer_id := Some (JStr peer_id), e_session_id := Some (JStr session_id)\<rparr> in
      seqp (reads (\<lambda>w. get_session_key (kdb w) peer_id session_id)) (\<lambda>sk.
      case sk of
        None \<Rightarrow> seqp (log_transport ''push'' (ids\<lparr>e_relay_ok := Some False\<rparr>) now) (\<lambda>_. ret False)
      | Some sk \<Rightarrow>
          seqp (on_kdb (calls_to (next_outbound_sequence peer_id session_id))) (\<lambda>seq.
          seqp (reads (\<lambda>w. get_peer (kdb w) peer_id)) (\<lambda>peer.
          let mailbox = (case peer of None \<Rightarrow> JStr '''' | Some r \<Rightarrow> mailbox_json (relay_mailbox r)) in
          seqp (lift (build_envelope (ext_of E) payload idn peer_id mailbox session_id seq (my_role sk) (session_key sk) now ttl)) (\<lambda>envelope.
          on_relay_error
            (seqp (push E c envelope) (\<lambda>_.
             seqp (log_transport ''push'' (ids\<lparr>e_seq := Some seq, e_relay_ok := Some True\<rparr>) now) (\<lambda>_. ret True)))
            (\<lambda>msg. seqp (log_transport ''relay_unavailable'' (ids\<lparr>e_relay_ok := Some False, e_error := Some msg\<rparr>) now)
               (\<lambda>_. ret False)))))))"

section \<open>Receiving\<close>

definition bind2 :: "ext \<Rightarrow> json \<Rightarrow> json \<Rightarrow> (string \<times> string) option res" where
  "bind2 X a b =
     bind_res (bind_text X a) (\<lambda>p. bind_res (bind_text X b) (\<lambda>s.
       Inr (case (p, s) of (Some p, Some s) \<Rightarrow> Some (p, s) | _ \<Rightarrow> None)))"

definition peer_of :: "ext \<Rightarrow> json \<Rightarrow> (store, peer_row option) prog" where
  "peer_of X pid =
     seqp (lift (bind_text X pid)) (\<lambda>p. case p of None \<Rightarrow> ret None | Some p \<Rightarrow> reads (\<lambda>st. get_peer st p))"

definition apply_rotation :: "string \<Rightarrow> string \<Rightarrow> string \<Rightarrow> time \<Rightarrow> (store, unit) prog" where
  "apply_rotation p new_pub new_id now st =
     (case update_peer_identity p new_pub new_id now st of (r, st') \<Rightarrow> (map_sum id (\<lambda>_. ()) r, st'))"

definition handle_key_rotation_notice :: "env \<Rightarrow> dict \<Rightarrow> json \<Rightarrow> time \<Rightarrow> (world, unit) prog" where
  "handle_key_rotation_notice E envelope sender_id now =
     (let who = no_fields\<lparr>e_peer_id := Some sender_id\<rparr> in
      seqp (on_kdb (peer_of (ext_of E) sender_id)) (\<lambda>peer.
      case peer of
        None \<Rightarrow> log_transport ''rotation_unknown_peer'' who now
      | Some peer \<Rightarrow>
          seqp (lift (hex_or_error (identity_pub peer))) (\<lambda>sender_old_pub.
          case parse_key_rotation_notice (ext_of E) envelope sender_old_pub now of
            Reject reason \<Rightarrow> log_transport ''rotation_rejected'' (who\<lparr>e_reject_reason := Some reason\<rparr>) now
          | Accept (new_pub_hex, new_key_id) \<Rightarrow>
              if new_pub_hex = identity_pub peer then ret ()
              else if new_pub_hex = (case previous_identity_pub peer of None \<Rightarrow> '''' | Some s \<Rightarrow> s)
              then log_transport ''rotation_rollback_rejected'' who now
              else seqp (on_kdb (apply_rotation (p_id peer) new_pub_hex new_key_id now)) (\<lambda>_.
                   log_transport ''peer_key_rotated'' who now))))"

definition INBOUND_BLOCKED_CONSENT :: "string list" where
  "INBOUND_BLOCKED_CONSENT = [''blocked'', ''revoked'', ''paused'']"

definition INBOUND_FLOOD_CAP :: nat where "INBOUND_FLOOD_CAP = 20"

text \<open>\<open>payload.get("text", "")\<close>.\<close>

definition payload_text :: "json \<Rightarrow> json res" where
  "payload_text payload = (case payload of JObj d \<Rightarrow> Inr (dget_or ''text'' (JStr '''') d) | _ \<Rightarrow> Inl AttributeError)"

text \<open>A session-open envelope: the responder's leg when nothing is pending, else the initiator's.\<close>

definition ingest_session_open :: "env \<Rightarrow> identity \<Rightarrow> client \<Rightarrow> json \<Rightarrow> dict \<Rightarrow> time \<Rightarrow> (world, unit) prog" where
  "ingest_session_open E idn c sender_id envelope now =
     (let session_id = dget_or ''session_id'' (JStr '''') envelope in
      seqp (lift (bind2 (ext_of E) sender_id session_id)) (\<lambda>ks.
      seqp (reads (\<lambda>w. case ks of None \<Rightarrow> None | Some (p, s) \<Rightarrow> get_pending_handshake (kdb w) p s)) (\<lambda>pending.
      if pending = None then
        seqp (drawn (draw_key E)) (\<lambda>eph.
        seqp (drawn (draw_token E)) (\<lambda>token.
        seqp (on_kdb (on_session_open (ext_of E) idn envelope now SESSION_OPEN_TTL eph token)) (\<lambda>reply.
        case reply of
          None \<Rightarrow> ret ()
        | Some reply \<Rightarrow>
            on_relay_error (push E c reply) (\<lambda>msg.
              log_transport ''relay_unavailable'' (no_fields\<lparr>e_peer_id := Some sender_id, e_session_id := Some session_id,
                e_error := Some msg\<rparr>) now))))
      else on_kdb (complete_session (ext_of E) idn envelope now))))"

text \<open>A message envelope; the result says whether it was accepted.\<close>

definition ingest_message :: "env \<Rightarrow> identity \<Rightarrow> json \<Rightarrow> dict \<Rightarrow> time \<Rightarrow> (world, bool) prog" where
  "ingest_message E idn sender_id envelope now =
     (let session_id = dget_or ''session_id'' (JStr '''') envelope;
          ids = no_fields\<lparr>e_peer_id := Some sender_id, e_session_id := Some session_id\<rparr> in
      seqp (lift (bind2 (ext_of E) sender_id session_id)) (\<lambda>ks.
      seqp (reads (\<lambda>w. case ks of None \<Rightarrow> None | Some (p, s) \<Rightarrow> map_option (\<lambda>sk. (p, s, sk)) (get_session_key (kdb w) p s))) (\<lambda>found.
      case found of
        None \<Rightarrow> seqp (log_transport ''inbound_no_session'' ids now) (\<lambda>_. ret False)
      | Some (p, s, sk) \<Rightarrow>
          seqp (reads (\<lambda>w. get_peer (kdb w) p)) (\<lambda>peer.
          seqp (lift (case peer of None \<Rightarrow> Inr [] | Some r \<Rightarrow> hex_or_error (identity_pub r))) (\<lambda>sender_pub.
          seqp (reads (\<lambda>w. get_seq_high_water (kdb w) p s)) (\<lambda>hw.
          seqp (lift (verify_and_open (ext_of E) envelope idn sender_pub (session_key sk) (peer_role sk) hw now)) (\<lambda>verdict.
          case verdict of
            Reject reason \<Rightarrow>
              seqp (log_transport ''inbound_rejected'' (ids\<lparr>e_reject_reason := Some reason\<rparr>) now) (\<lambda>_. ret False)
          | Accept payload \<Rightarrow>
              seqp (lift (case dget ''sequence'' envelope of None \<Rightarrow> Inl KeyError | Some j \<Rightarrow> py_int j)) (\<lambda>seq.
              seqp (lift (payload_text payload)) (\<lambda>txt.
              seqp (on_kdb (attempts (append_transcript p s seq ''inbound'' txt now ''peer''))) (\<lambda>_.
              seqp (on_kdb (attempts (set_seq_high_water p s seq))) (\<lambda>_.
              seqp (log_transport ''inbound_accepted'' (ids\<lparr>e_seq := Some seq\<rparr>) now) (\<lambda>_. ret True))))))))))))"

definition ingest_item :: "env \<Rightarrow> identity \<Rightarrow> client \<Rightarrow> json \<Rightarrow> dict \<Rightarrow> time \<Rightarrow> (world, bool) prog" where
  "ingest_item E idn c sender_id envelope now =
     (if dget ''session_open'' envelope \<noteq> None
      then seqp (ingest_session_open E idn c sender_id envelope now) (\<lambda>_. ret False)
      else if dget ''message_type'' envelope = Some (JStr KEY_ROTATION_MSG_TYPE)
      then seqp (handle_key_rotation_notice E envelope sender_id now) (\<lambda>_. ret False)
      else ingest_message E idn sender_id envelope now)"

subsection \<open>Grouping by sender\<close>

text \<open>Equality of two dictionary keys in Python: numbers by value, a NaN equal to nothing.\<close>

fun key_num :: "json \<Rightarrow> rat option" where
  "key_num (JBool b) = Some (if b then 1 else 0)"
| "key_num (JInt i) = Some (of_int i)"
| "key_num (JFloat (Fin q)) = Some q"
| "key_num _ = None"

definition same_key :: "json \<Rightarrow> json \<Rightarrow> bool" where
  "same_key a b =
     (case (key_num a, key_num b) of
        (Some x, Some y) \<Rightarrow> x = y
      | (None, None) \<Rightarrow> a = b \<and> a \<noteq> JFloat NaN
      | _ \<Rightarrow> False)"

fun hashable :: "json \<Rightarrow> bool" where
  "hashable (JList _) = False"
| "hashable (JObj _) = False"
| "hashable _ = True"

fun add_to_group :: "json \<Rightarrow> 'a \<Rightarrow> (json \<times> 'a list) list \<Rightarrow> (json \<times> 'a list) list" where
  "add_to_group k x [] = [(k, [x])]"
| "add_to_group k x ((k', xs) # gs) = (if same_key k' k then (k', xs @ [x]) # gs else (k', xs) # add_to_group k x gs)"

text \<open>A well-shaped item: its id and its envelope.\<close>

definition item_parts :: "json \<Rightarrow> (string \<times> dict) option" where
  "item_parts item =
     (case item of
        JObj d \<Rightarrow> (case (dget ''envelope'' d, dget ''id'' d) of (Some (JObj e), Some (JStr i)) \<Rightarrow> Some (i, e) | _ \<Rightarrow> None)
      | _ \<Rightarrow> None)"

type_synonym groups = "(json \<times> (string \<times> dict) list) list"

fun group_items :: "json list \<Rightarrow> groups \<Rightarrow> time \<Rightarrow> (world, groups) prog" where
  "group_items [] gs now = ret gs"
| "group_items (item # items) gs now =
     (case item_parts item of
        None \<Rightarrow> seqp (log_transport ''malformed_item'' no_fields now) (\<lambda>_. group_items items gs now)
      | Some (i, e) \<Rightarrow>
          let sender = dget_or ''sender_key_id'' (JStr '''') e in
          if hashable sender then group_items items (add_to_group sender (i, e) gs) now else raise TypeError)"

subsection \<open>The poll\<close>

text \<open>What the loop has gathered: ids to acknowledge, flooding senders, accepted counts.\<close>

record tally =
  to_ack :: "string list"
  degraded :: "json list"
  accepted :: "(json \<times> nat) list"

definition bump_accepted :: "json \<Rightarrow> (json \<times> nat) list \<Rightarrow> (json \<times> nat) list" where
  "bump_accepted k cs = (case map_of cs k of None \<Rightarrow> cs @ [(k, 1)] | Some n \<Rightarrow> map (\<lambda>(k', m). (k', if k' = k then Suc m else m)) cs)"

fun ingest_items :: "env \<Rightarrow> identity \<Rightarrow> client \<Rightarrow> json \<Rightarrow> (string \<times> dict) list \<Rightarrow> time \<Rightarrow> tally \<Rightarrow> (world, tally) prog" where
  "ingest_items E idn c sender_id [] now t = ret t"
| "ingest_items E idn c sender_id ((i, e) # items) now t =
     seqp (ingest_item E idn c sender_id e now) (\<lambda>ok.
       ingest_items E idn c sender_id items now
         (t\<lparr>to_ack := to_ack t @ [i], accepted := (if ok then bump_accepted sender_id (accepted t) else accepted t)\<rparr>))"

definition ingest_group :: "env \<Rightarrow> identity \<Rightarrow> client \<Rightarrow> json \<Rightarrow> (string \<times> dict) list \<Rightarrow> time \<Rightarrow> tally \<Rightarrow> (world, tally) prog" where
  "ingest_group E idn c sender_id items now t =
     seqp (on_kdb (peer_of (ext_of E) sender_id)) (\<lambda>peer.
     if (case peer of None \<Rightarrow> False | Some r \<Rightarrow> consent_state r \<in> set INBOUND_BLOCKED_CONSENT)
     then seqp (log_transport ''inbound_consent_blocked'' (no_fields\<lparr>e_peer_id := Some sender_id, e_count := Some (length items)\<rparr>) now)
            (\<lambda>_. ret (t\<lparr>to_ack := to_ack t @ map fst items\<rparr>))
     else
       let flooding = length items > INBOUND_FLOOD_CAP;
           kept = sort_key (\<lambda>(i, e). if dget ''session_open'' e \<noteq> None then 0 else 1 :: nat) (take INBOUND_FLOOD_CAP items) in
       seqp (if flooding
             then log_transport ''flood_clamped'' (no_fields\<lparr>e_peer_id := Some sender_id,
                    e_count := Some (length items - INBOUND_FLOOD_CAP)\<rparr>) now
             else ret ()) (\<lambda>_.
       ingest_items E idn c sender_id kept now (if flooding then t\<lparr>degraded := degraded t @ [sender_id]\<rparr> else t)))"

fun ingest_groups :: "env \<Rightarrow> identity \<Rightarrow> client \<Rightarrow> groups \<Rightarrow> time \<Rightarrow> tally \<Rightarrow> (world, tally) prog" where
  "ingest_groups E idn c [] now t = ret t"
| "ingest_groups E idn c ((k, items) # gs) now t =
     seqp (ingest_group E idn c k items now t) (\<lambda>t. ingest_groups E idn c gs now t)"

record poll_result =
  pr_accepted :: "(json \<times> nat) list"
  pr_degraded :: "json list"
  pr_relay_error :: bool

definition poll_and_ingest :: "env \<Rightarrow> identity \<Rightarrow> client \<Rightarrow> time \<Rightarrow> (world, poll_result) prog" where
  "poll_and_ingest E idn c now =
     seqp (on_relay_error (seqp (fetch E c) (\<lambda>xs. ret (Some xs)))
            (\<lambda>msg. seqp (log_transport ''poll_relay_unavailable'' (no_fields\<lparr>e_count := Some 0, e_error := Some msg\<rparr>) now)
               (\<lambda>_. ret None))) (\<lambda>fetched.
     case fetched of
       None \<Rightarrow> ret \<lparr>pr_accepted = [], pr_degraded = [], pr_relay_error = True\<rparr>
     | Some items \<Rightarrow>
         seqp (log_transport ''poll'' (no_fields\<lparr>e_count := Some (length items)\<rparr>) now) (\<lambda>_.
         seqp (group_items items [] now) (\<lambda>groups.
         seqp (ingest_groups E idn c groups now \<lparr>to_ack = [], degraded = [], accepted = []\<rparr>) (\<lambda>t.
         seqp (if to_ack t \<noteq> [] then ack E c (to_ack t) else ret ()) (\<lambda>_.
         ret \<lparr>pr_accepted = accepted t, pr_degraded = degraded t, pr_relay_error = False\<rparr>)))))"

end
