(* ===== verification/Transport_Laws.thy ===== *)
theory Transport_Laws
  imports Transport
begin

text \<open>
  What the transport guarantees against an untrusted relay: bounded retries, delivery of an honest
  message, no replay, the consent gate, the flood clamp, and the one shape of item that still
  stops a whole poll.
\<close>

section \<open>Requests\<close>

lemma take_snoc_nth: "n < length xs \<Longrightarrow> take n xs @ [xs ! n] = take (Suc n) xs"
  by (simp add: take_Suc_conv_app_nth)

definition pauses :: "rat list" where "pauses = [1/2, 1]"

text \<open>\<open>post_loop\<close> with \<open>left\<close> attempts of three to go.\<close>

lemma post_loop_run:
  assumes "left \<le> 3"
  shows "\<exists>n ss. n \<le> left \<and> (0 < left \<longrightarrow> 1 \<le> n) \<and>
     snd (post_loop E path p left msg w) = w\<lparr>requests := requests w @ replicate n (path, p), sleeps := sleeps w @ ss\<rparr> \<and>
     ss = take (n - 1) (drop (3 - left) pauses) \<and>
     (\<forall>i. Suc i < n \<longrightarrow> (\<exists>a b. answer E (length (requests w) + i) path p = TransportError a b)) \<and>
     (case fst (post_loop E path p left msg w) of Inl e \<Rightarrow> (\<exists>s. e = RelayUnavailableError s) | Inr _ \<Rightarrow> True)"
  using assms
proof (induction left arbitrary: msg w)
  case 0
  show ?case by (intro exI [of _ 0] exI [of _ "[]"]) simp
next
  case (Suc left)
  let ?w = "w\<lparr>requests := requests w @ [(path, p)]\<rparr>"
  show ?case
  proof (cases "answer E (length (requests w)) path p")
    case (TransportError a b)
    define w1 where "w1 = (if left > 0 then ?w\<lparr>sleeps := sleeps w @ [BACKOFF_BASE_S * 2 ^ (MAX_RETRIES - Suc left)]\<rparr> else ?w)"
    have step: "post_loop E path p (Suc left) msg w = post_loop E path p left (if b = [] then a else b) w1"
      using TransportError by (simp add: seqp_def request_def w1_def)
    obtain n ss where ih: "n \<le> left" "0 < left \<longrightarrow> 1 \<le> n"
      "snd (post_loop E path p left (if b = [] then a else b) w1) =
         w1\<lparr>requests := requests w1 @ replicate n (path, p), sleeps := sleeps w1 @ ss\<rparr>"
      "ss = take (n - 1) (drop (3 - left) pauses)"
      "\<forall>i. Suc i < n \<longrightarrow> (\<exists>a b. answer E (length (requests w1) + i) path p = TransportError a b)"
      "case fst (post_loop E path p left (if b = [] then a else b) w1) of Inl e \<Rightarrow> (\<exists>s. e = RelayUnavailableError s) | Inr _ \<Rightarrow> True"
      using Suc.IH [of "if b = [] then a else b" w1] Suc.prems by auto
    have "left \<in> {0, 1, 2}" using Suc.prems by auto
    then have pause: "sleeps w1 @ ss = sleeps w @ take n (drop (3 - Suc left) pauses)"
      using ih(1,2,4) by (auto simp: w1_def pauses_def BACKOFF_BASE_S_def MAX_RETRIES_def take_Cons' split: if_splits)
    have tr: "\<exists>a b. answer E (length (requests w) + i) path p = TransportError a b" if "Suc i < Suc n" for i
      using that TransportError ih(5) [rule_format, of "i - 1"] by (cases i) (auto simp: w1_def split: if_splits)
    show ?thesis
      by (intro exI [of _ "Suc n"] exI [of _ "take n (drop (3 - Suc left) pauses)"])
        (use ih(1,3,6) tr pause in \<open>simp add: step del: post_loop.simps, simp add: w1_def\<close>)
  next
    case (RequestError a b)
    then show ?thesis by (intro exI [of _ 1] exI [of _ "[]"]) (simp add: seqp_def request_def)
  next
    case (Reply st body)
    then show ?thesis by (intro exI [of _ 1] exI [of _ "[]"]) (simp add: seqp_def request_def)
  qed
qed

text \<open>
  A relay call is bounded. Whatever the relay answers, \<open>_post\<close> sends the same request one to
  three times, again only after a transport error, pauses 0.5 s and then 1 s between attempts and
  never after the last, touches nothing but the network, and fails with no other exception than
  \<open>RelayUnavailableError\<close>.
\<close>

theorem post_bounded:
  "\<exists>n. 1 \<le> n \<and> n \<le> 3 \<and>
     snd (post E path p w) = w\<lparr>requests := requests w @ replicate n (path, p), sleeps := sleeps w @ take (n - 1) [1/2, 1]\<rparr> \<and>
     (\<forall>i. Suc i < n \<longrightarrow> (\<exists>a b. answer E (length (requests w) + i) path p = TransportError a b)) \<and>
     (case fst (post E path p w) of Inl e \<Rightarrow> (\<exists>s. e = RelayUnavailableError s) | Inr _ \<Rightarrow> True)"
  using post_loop_run [of 3 E path p "''''" w] by (auto simp: post_def MAX_RETRIES_def pauses_def)

definition down :: env where
  "down = \<lparr>ext_of = toy, answer = (\<lambda>_ _ _. TransportError ''ConnectError'' ''''), draw_key = (\<lambda>n. [of_nat n]), draw_token = (\<lambda>_. ''t'')\<rparr>"

definition idle :: "store \<Rightarrow> world" where
  "idle st = \<lparr>kdb = st, requests = [], sleeps = [], audit = [], draws = 0\<rparr>"

theorem post_bounded_witness:
  "\<exists>n. 1 \<le> n \<and> n \<le> 3 \<and> length (requests (snd (post down ''/envelope'' JNull (idle empty_store)))) = n"
  using post_bounded [of down "''/envelope''" JNull "idle empty_store"] by (auto simp: idle_def)

subsection \<open>The network leaves the store alone\<close>

lemma keeps_on_kdb [keeps_intros]: "keeps Q m \<Longrightarrow> keeps (\<lambda>w. Q (kdb w)) (on_kdb m)"
  by (auto simp: keeps_def on_kdb_def split: prod.split)

lemma keeps_drawn [keeps_intros]: "keeps (\<lambda>w. Q (kdb w)) (drawn f)"
  by (simp add: keeps_def drawn_def)

lemma keeps_log [keeps_intros]: "keeps (\<lambda>w. Q (kdb w)) (log_transport e f now)"
  by (simp add: keeps_def log_transport_def)

lemma keeps_post [keeps_intros]: "keeps (\<lambda>w. Q (kdb w)) (post E path p)"
proof (rule keepsI)
  fix w :: world assume "Q (kdb w)"
  moreover obtain n ss where "snd (post E path p w) = w\<lparr>requests := requests w @ replicate n (path, p), sleeps := sleeps w @ ss\<rparr>"
    using post_loop_run [of 3 E path p "''''" w] by (auto simp: post_def MAX_RETRIES_def)
  ultimately show "Q (kdb (snd (post E path p w)))" by simp
qed

lemma keeps_json_case [keeps_intros]:
  "(\<And>d. keeps P (f d)) \<Longrightarrow> keeps P m \<Longrightarrow> keeps P (case j of JObj d \<Rightarrow> f d | _ \<Rightarrow> m)"
  "(\<And>d. keeps P (g d)) \<Longrightarrow> keeps P m \<Longrightarrow> keeps P (case j of JList d \<Rightarrow> g d | _ \<Rightarrow> m)"
  by (cases j; simp)+

lemma keeps_field [keeps_intros]: "keeps (\<lambda>w. Q (kdb w)) (field E path p key kind)"
  unfolding field_def by (intro keeps_intros)

lemma keeps_auth [keeps_intros]: "keeps (\<lambda>w. Q (kdb w)) (auth E c)"
  unfolding auth_def by (intro keeps_intros)

lemma keeps_relay [keeps_intros]:
  "keeps (\<lambda>w. Q (kdb w)) (fetch E c)" "keeps (\<lambda>w. Q (kdb w)) (ack E c ids)" "keeps (\<lambda>w. Q (kdb w)) (push E c envelope)"
  unfolding fetch_def ack_def push_def by (intro keeps_intros)+

lemma keeps_on_relay_error [keeps_intros]:
  "keeps P m \<Longrightarrow> (\<And>s. keeps P (h s)) \<Longrightarrow> keeps P (on_relay_error m h)"
  unfolding on_relay_error_def by (intro keeps_intros) (auto intro!: keeps_intros split: exn.split)

section \<open>No replay\<close>

text \<open>
  A receiver that accepts a message only above its lane's mark, moves the mark to it, and never
  moves a mark back.
\<close>

locale replay_guard =
  fixes deliver :: "'m \<Rightarrow> 's \<Rightarrow> bool \<times> 's" and lane :: "'m \<Rightarrow> 'k" and num :: "'m \<Rightarrow> int" and mark :: "'s \<Rightarrow> 'k \<Rightarrow> int"
  assumes delivered: "fst (deliver m s) \<Longrightarrow> mark s (lane m) < num m \<and> mark (snd (deliver m s)) (lane m) = num m"
    and mark_mono: "mark s k \<le> mark (snd (deliver m s)) k"
begin

lemma accepted_above: "(m, True) \<in> set (calls deliver ms s) \<Longrightarrow> mark s (lane m) < num m"
proof (induction ms arbitrary: s)
  case (Cons a ms)
  obtain r s' where a: "deliver a s = (r, s')" by (cases "deliver a s")
  show ?case
  proof (cases "(m, True) = (a, r)")
    case True
    then show ?thesis using delivered [of a s] a by auto
  next
    case False
    then have "mark s' (lane m) < num m" using Cons a by auto
    then show ?thesis using mark_mono [of s "lane m" a] a by simp
  qed
qed simp

lemma accepted_increasing:
  "sorted_wrt (<) (map num (filter (\<lambda>m. lane m = k) (map fst (filter snd (calls deliver ms s)))))"
proof (induction ms arbitrary: s)
  case (Cons a ms)
  obtain r s' where a: "deliver a s = (r, s')" by (cases "deliver a s")
  have "num a < num m" if r "lane m = lane a" "(m, True) \<in> set (calls deliver ms s')" for m
    using accepted_above [OF that(3)] that(1,2) delivered [of a s] a by auto
  with Cons.IH [of s'] a show ?case by (auto simp: image_iff)
qed simp

end

text \<open>An arrival: the group's sender, the envelope and the time; its lane and its number.\<close>

type_synonym arrival = "json \<times> dict \<times> time"

definition arrival_lane :: "env \<Rightarrow> arrival \<Rightarrow> string \<times> string" where
  "arrival_lane E m = (case m of (sender, envelope, now) \<Rightarrow>
     (case bind2 (ext_of E) sender (dget_or ''session_id'' (JStr '''') envelope) of Inr (Some k) \<Rightarrow> k | _ \<Rightarrow> ('''', '''')))"

definition arrival_num :: "arrival \<Rightarrow> int" where
  "arrival_num m = (case m of (sender, envelope, now) \<Rightarrow> (case read_sequence envelope of Inr (Some i) \<Rightarrow> i | _ \<Rightarrow> 0))"

definition receive :: "env \<Rightarrow> identity \<Rightarrow> arrival \<Rightarrow> world \<Rightarrow> bool \<times> world" where
  "receive E idn m w = (case m of (sender, envelope, now) \<Rightarrow>
     (case ingest_message E idn sender envelope now w of (r, w') \<Rightarrow> (r = Inr True, w')))"

definition high_water :: "world \<Rightarrow> string \<times> string \<Rightarrow> int" where
  "high_water w k = (case k of (p, s) \<Rightarrow> get_seq_high_water (kdb w) p s)"

lemma verify_and_open_accept:
  assumes "verify_and_open X env recipient pub key role hw now = Inr (Accept payload)"
  obtains s j where "read_sequence env = Inr (Some s)" "hw < s" "dget ''sequence'' env = Some j" "py_int j = Inr s"
proof -
  from assms obtain s where s: "read_sequence env = Inr (Some s)" "hw < s"
    by (auto simp: verify_and_open_def bind_res_def split: if_splits sum.splits option.splits json.splits)
  then obtain j where "dget ''sequence'' env = Some j" "py_int j = Inr s"
    by (auto simp: read_sequence_def split: option.splits sum.splits exn.splits)
  with s show ?thesis by (rule that)
qed

lemma high_water_frame:
  "get_seq_high_water (st\<lparr>transcript := t\<rparr>) = get_seq_high_water st"
  by (simp add: get_seq_high_water_def fun_eq_iff)

lemma append_transcript_Inr:
  "append_transcript p s n d t now prov st = Inr st' \<Longrightarrow>
   \<exists>r. st' = st\<lparr>transcript := transcript st @ [r]\<rparr> \<and> t_peer r = p \<and> t_session r = s \<and> t_seq r = n \<and> t_text r = t \<and> t_direction r = d"
  by (auto simp: append_transcript_def split: if_splits)

lemma set_seq_high_water_get:
  "set_seq_high_water p s v st = Inr st' \<Longrightarrow>
   get_seq_high_water st' q u = (if (q, u) = (p, s) then v else get_seq_high_water st q u)"
  by (auto simp: set_seq_high_water_def get_seq_high_water_def tget_tput split: if_splits)

text \<open>What processing a message does to the store.\<close>

lemma ingest_message_cases:
  assumes "ingest_message E idn sender e now w = (r, w')"
  shows "(r \<noteq> Inr True \<and> kdb w' = kdb w) \<or>
    (\<exists>p s n st1. bind2 (ext_of E) sender (dget_or ''session_id'' (JStr '''') e) = Inr (Some (p, s)) \<and> read_sequence e = Inr (Some n) \<and>
       get_session_key (kdb w) p s \<noteq> None \<and>
       get_seq_high_water (kdb w) p s < n \<and> (\<exists>txt. append_transcript p s n ''inbound'' txt now ''peer'' (kdb w) = Inr st1) \<and>
       (if r = Inr True then set_seq_high_water p s n st1 = Inr (kdb w') else kdb w' = st1))"
  using assms unfolding ingest_message_def Let_def
  by (auto simp: seqp_def on_kdb_def attempts_def log_transport_def
      elim!: verify_and_open_accept split: sum.splits prod.splits option.splits verdict.splits) blast+

interpretation inbound: replay_guard "receive E idn" "arrival_lane E" arrival_num high_water for E idn
proof
  fix m :: arrival and w :: world and k
  obtain sender e now where m: "m = (sender, e, now)" by (metis prod_cases3)
  obtain r w' where run: "ingest_message E idn sender e now w = (r, w')" by (cases "ingest_message E idn sender e now w")
  note c = ingest_message_cases [OF run]
  show "fst (receive E idn m w) \<Longrightarrow> high_water w (arrival_lane E m) < arrival_num m \<and>
      high_water (snd (receive E idn m w)) (arrival_lane E m) = arrival_num m"
    using c run m by (auto simp: receive_def high_water_def arrival_lane_def arrival_num_def set_seq_high_water_get)
  show "high_water w k \<le> high_water (snd (receive E idn m w)) k"
    using c run m
    by (auto simp: receive_def high_water_def set_seq_high_water_get high_water_frame dest!: append_transcript_Inr
        split: prod.splits if_splits)
qed

text \<open>
  C4: No message is accepted twice. Whatever envelopes arrive, in whatever order, repeated as often
  as the relay likes and at whatever times, the accepted ones of one peer's session carry strictly
  increasing sequence numbers; so a replayed envelope, or any other with a number already used or
  passed, is never accepted again.
\<close>

theorem no_replay:
  "sorted_wrt (<) (map arrival_num (filter (\<lambda>m. arrival_lane E m = k)
     (map fst (filter snd (calls (receive E idn) arrivals w)))))"
  by (rule inbound.accepted_increasing)

section \<open>The consent gate\<close>

text \<open>What the store holds of one peer, compared with an earlier store.\<close>

definition shielded :: "string \<Rightarrow> store \<Rightarrow> store \<Rightarrow> bool" where
  "shielded p st0 st \<longleftrightarrow>
     distinct (map p_id (peers st)) \<and> get_peer st p \<noteq> None \<and>
     map_option consent_state (get_peer st p) = map_option consent_state (get_peer st0 p) \<and>
     filter (\<lambda>r. t_peer r = p) (transcript st) = filter (\<lambda>r. t_peer r = p) (transcript st0) \<and>
     get_session_key st p = get_session_key st0 p \<and> get_seq_high_water st p = get_seq_high_water st0 p"

lemma keeps_lift_seqp: "(\<And>x. r = Inr x \<Longrightarrow> keeps P (k x)) \<Longrightarrow> keeps P (seqp (lift r) k)"
  by (auto simp: keeps_def seqp_def split: sum.split)

lemma keeps_reads_seqp: "(\<And>s x. P s \<Longrightarrow> x = f s \<Longrightarrow> P (snd (k x s))) \<Longrightarrow> keeps P (seqp (reads f) k)"
  by (auto simp: keeps_def seqp_def)

lemma keeps_verdict [keeps_intros]:
  "(\<And>x. keeps P (f x)) \<Longrightarrow> (\<And>r. keeps P (g r)) \<Longrightarrow> keeps P (case v of Accept x \<Rightarrow> f x | Reject r \<Rightarrow> g r)"
  by (cases v) auto

lemma shielded_frame:
  assumes "shielded p st0 st" "peers st' = peers st" "transcript st' = transcript st" "session_keys st' = session_keys st"
    "seq_high_water st' = seq_high_water st"
  shows "shielded p st0 st'"
proof -
  have "get_peer st' = get_peer st" "get_session_key st' = get_session_key st" "get_seq_high_water st' = get_seq_high_water st"
    using assms(2-) by (simp_all add: fun_eq_iff get_peer_def get_session_key_def get_seq_high_water_def)
  then show ?thesis using assms(1-3) by (simp add: shielded_def)
qed

lemma shielded_writes:
  assumes "shielded p st0 st"
  shows "q \<noteq> p \<Longrightarrow> shielded p st0 (save_session_key q s k a b t st)"
    "shielded p st0 (create_session q s t st)"
    "shielded p st0 (clear_pending_handshake q s st)"
    "shielded p st0 (snd (get_or_create_local_mailbox tok' st))"
    "q \<noteq> p \<Longrightarrow> append_transcript q s n d txt t pr st = Inr st' \<Longrightarrow> shielded p st0 st'"
    "q \<noteq> p \<Longrightarrow> set_seq_high_water q s v st = Inr st' \<Longrightarrow> shielded p st0 st'"
proof -
  have get: "get_peer (save_session_key q s k a b t st) = get_peer st"
    "get_seq_high_water (save_session_key q s k a b t st) = get_seq_high_water st"
    "peers (save_session_key q s k a b t st) = peers st" "transcript (save_session_key q s k a b t st) = transcript st"
    by (simp_all add: save_session_key_def get_peer_def get_seq_high_water_def fun_eq_iff)
  show "q \<noteq> p \<Longrightarrow> shielded p st0 (save_session_key q s k a b t st)"
    using assms by (simp add: shielded_def get fun_eq_iff)
  show "shielded p st0 (create_session q s t st)" "shielded p st0 (clear_pending_handshake q s st)"
    by (rule shielded_frame [OF assms]; simp add: create_session_def clear_pending_handshake_def)+
  show "shielded p st0 (snd (get_or_create_local_mailbox tok' st))"
    by (rule shielded_frame [OF assms]; simp add: get_or_create_local_mailbox_def Let_def split: option.split)
  show "q \<noteq> p \<Longrightarrow> append_transcript q s n d txt t pr st = Inr st' \<Longrightarrow> shielded p st0 st'"
    using assms by (auto simp: shielded_def get_peer_def get_session_key_def fun_eq_iff high_water_frame dest!: append_transcript_Inr)
  show "q \<noteq> p \<Longrightarrow> set_seq_high_water q s v st = Inr st' \<Longrightarrow> shielded p st0 st'"
    using assms set_seq_high_water_get [of q s v st st' p]
    by (simp add: shielded_def fun_eq_iff) (auto simp: set_seq_high_water_def get_peer_def get_session_key_def split: if_splits)
qed

lemma shielded_learn_mailbox:
  assumes "shielded p st0 st" "get_peer st (p_id r) = Some r"
  shows "shielded p st0 (snd (learn_mailbox X r m now st))"
  using assms distinct_tput [of p_id "peers st"]
  by (auto simp: learn_mailbox_def seqp_def attempts_def upsert_peer_def shielded_def get_peer_def get_session_key_def
      get_seq_high_water_def fun_eq_iff tget_tput Let_def split: sum.split)

lemma seqp_pure:
  "snd (m s) = s \<Longrightarrow> P s \<Longrightarrow> (\<And>v. fst (m s) = Inr v \<Longrightarrow> P (snd (k v s))) \<Longrightarrow> P (snd (seqp m k s))"
  by (cases "m s") (auto simp: seqp_def split: sum.split)

lemma seqp_keeps: "P (snd (m s)) \<Longrightarrow> (\<And>v. keeps P (k v)) \<Longrightarrow> P (snd (seqp m k s))"
  by (cases "m s") (auto simp: seqp_def keeps_def split: sum.split)

lemma lookups_pure:
  "snd (lookup_peer X pid st) = st" "snd (lookup_session_key X p sid st) = st" "snd (lookup_handshake X p sid st) = st"
  by (auto simp: lookup_peer_def lookup_session_key_def lookup_handshake_def seqp_def split: sum.split option.split)

lemma lookup_peer_row: "fst (lookup_peer X pid st) = Inr (Some r) \<Longrightarrow> get_peer st (p_id r) = Some r"
  by (auto simp: lookup_peer_def seqp_def get_peer_def dest: tget_key split: sum.splits option.splits if_splits)

lemma sender_not:
  "derive_from_envelope X a b c (dget_or ''sender_key_id'' JNull e) d n = Inr x \<Longrightarrow>
   dget ''sender_key_id'' e \<noteq> Some (JStr p) \<Longrightarrow> fst x \<noteq> p"
  by (cases x) (auto dest!: derive_from_envelope_ids dest: dget_or_str)

lemma keeps_shielded:
  "q \<noteq> p \<Longrightarrow> keeps (shielded p st0) (writes (save_session_key q s k a b t))"
  "keeps (shielded p st0) (writes (create_session q s t))"
  "keeps (shielded p st0) (writes (clear_pending_handshake q s))"
  "keeps (shielded p st0) (calls_to (get_or_create_local_mailbox tok'))"
  "q \<noteq> p \<Longrightarrow> keeps (shielded p st0) (attempts (append_transcript q s n d txt t pr))"
  "q \<noteq> p \<Longrightarrow> keeps (shielded p st0) (attempts (set_seq_high_water q s v))"
  by (auto intro!: keeps_intros intro: shielded_writes)

lemma keeps_derived:
  assumes "dget ''sender_key_id'' e \<noteq> Some (JStr p)" "\<And>q s k. q \<noteq> p \<Longrightarrow> keeps P (body q s k)"
  shows "keeps P (seqp (lift (derive_from_envelope X a b c (dget_or ''sender_key_id'' JNull e) d n)) (\<lambda>(q, s, k). body q s k))"
proof (rule keeps_lift_seqp)
  fix x assume "derive_from_envelope X a b c (dget_or ''sender_key_id'' JNull e) d n = Inr x"
  from sender_not [OF this assms(1)] assms(2) show "keeps P (case x of (q, s, k) \<Rightarrow> body q s k)" by (cases x) auto
qed

lemma shielded_answer_open:
  assumes "dget ''sender_key_id'' e \<noteq> Some (JStr p)" "shielded p st0 st" "get_peer st (p_id r) = Some r"
  shows "shielded p st0 (snd (answer_open X idn e r parsed now ttl eph tok' st))"
  unfolding answer_open_def Let_def
proof (rule seqp_pure [where P = "shielded p st0"], rule lookups_pure, rule assms(2), goal_cases)
  case (1 v)
  show ?case
  proof (cases "v = None")
    case True
    have tail: "keeps (shielded p st0) (seqp (lift r1) (\<lambda>x. seqp (lift r2) (\<lambda>y. seqp (lift (derive_from_envelope X eph x
        (key_id X idn) (dget_or ''sender_key_id'' JNull e) sid y)) (\<lambda>(q, s, k). seqp (writes (save_session_key q s k a b now)) (\<lambda>_.
        seqp (writes (create_session q s now)) (\<lambda>_. seqp (calls_to (get_or_create_local_mailbox tok')) (\<lambda>m.
        seqp (reads (f q)) (\<lambda>z. ret (g q s y m z)))))))))" for r1 r2 sid a b f g
      by (rule keeps_lift_seqp, rule keeps_lift_seqp, rule keeps_derived [OF assms(1)])
        (intro keeps_seqp keeps_shielded keeps_basic)
    have "shielded p st0 (snd (learn_mailbox X r m now st))" for m by (rule shielded_learn_mailbox [OF assms(2,3)])
    then show ?thesis using True
      by (simp only: refl not_True_eq_False if_False)
        (rule seqp_keeps [where P = "shielded p st0"], blast, rule tail)
  qed (simp add: assms(2))
qed

lemma shielded_on_session_open:
  assumes "dget ''sender_key_id'' e \<noteq> Some (JStr p)"
  shows "keeps (shielded p st0) (on_session_open X idn e now ttl eph tok')"
proof (rule keepsI)
  fix st assume sh: "shielded p st0 st"
  show "shielded p st0 (snd (on_session_open X idn e now ttl eph tok' st))"
    unfolding on_session_open_def
  proof (rule seqp_pure [where P = "shielded p st0"], rule lookups_pure, rule sh, goal_cases)
    case (1 found)
    show ?case
    proof (cases found)
      case (Some r)
      note row = lookup_peer_row [OF 1 [unfolded Some]]
      show ?thesis unfolding Some option.case
        by (rule seqp_pure [where P = "shielded p st0"]) (auto simp: sh split: verdict.split intro: shielded_answer_open [OF assms sh row])
    qed (simp add: sh)
  qed
qed

lemma shielded_complete_session:
  assumes "dget ''sender_key_id'' e \<noteq> Some (JStr p)"
  shows "keeps (shielded p st0) (complete_session X idn e now)"
proof -
  have pure: "keeps P (lookup_peer X j)" "keeps P (lookup_session_key X q j)" "keeps P (lookup_handshake X q j)" for P j q
    by (simp_all add: keeps_def lookups_pure)
  show ?thesis unfolding complete_session_def Let_def
    by (intro pure keeps_derived [OF assms] keeps_shielded keeps_intros; assumption?)
qed

lemma tget_moved_other:
  "q \<notin> {old, new} \<Longrightarrow> (\<And>r. pid (set_pid new r) = new) \<Longrightarrow>
   tget (\<lambda>r. (pid r, sub r)) (q, s) (moved pid set_pid old new t) = tget (\<lambda>r. (pid r, sub r)) (q, s) t"
  by (induction t) auto

lemma tget_moved_other_pid:
  "q \<notin> {old, new} \<Longrightarrow> (\<And>r. pid (set_pid new r) = new) \<Longrightarrow> tget pid q (moved pid set_pid old new t) = tget pid q t"
  by (induction t) auto

lemma filter_moved_other:
  "q \<notin> {old, new} \<Longrightarrow> (\<And>r. pid (set_pid new r) = new) \<Longrightarrow>
   filter (\<lambda>r. pid r = q) (moved pid set_pid old new t) = filter (\<lambda>r. pid r = q) t"
  by (induction t) auto

lemma rekey_step_keep:
  "P st \<Longrightarrow> (\<And>t'. P st \<Longrightarrow> t = Some t' \<Longrightarrow> P (put t')) \<Longrightarrow> (\<And>s. P s \<Longrightarrow> P (snd (k s))) \<Longrightarrow> P (snd (rekey_step t put k st))"
  by (auto simp: rekey_step_def split: option.split)

lemma rekey_moved: "rekey key pid set_pid old new t = Some t' \<Longrightarrow> t' = moved pid set_pid old new t"
  by (auto simp: rekey_def Let_def split: if_splits)

text \<open>Moving rows between two other identifiers.\<close>

lemma shielded_moves:
  assumes "shielded p st0 st" "p \<notin> {old, new}"
  shows "shielded p st0 (st\<lparr>seq_high_water := moved q_peer (\<lambda>p r. r\<lparr>q_peer := p\<rparr>) old new (seq_high_water st)\<rparr>)"
    "shielded p st0 (st\<lparr>transcript := moved t_peer (\<lambda>p r. r\<lparr>t_peer := p\<rparr>) old new (transcript st)\<rparr>)"
    "shielded p st0 (st\<lparr>session_keys := moved k_peer (\<lambda>p r. r\<lparr>k_peer := p\<rparr>) old new (session_keys st)\<rparr>)"
proof -
  note other = tget_moved_other [where pid = q_peer and sub = q_session and set_pid = "\<lambda>p r. r\<lparr>q_peer := p\<rparr>", OF assms(2)]
    tget_moved_other [where pid = k_peer and sub = k_session and set_pid = "\<lambda>p r. r\<lparr>k_peer := p\<rparr>", OF assms(2)]
    filter_moved_other [where pid = t_peer and set_pid = "\<lambda>p r. r\<lparr>t_peer := p\<rparr>", OF assms(2)]
  show "shielded p st0 (st\<lparr>seq_high_water := moved q_peer (\<lambda>p r. r\<lparr>q_peer := p\<rparr>) old new (seq_high_water st)\<rparr>)"
    using assms(1) by (simp add: shielded_def get_peer_def get_session_key_def get_seq_high_water_def fun_eq_iff other)
  show "shielded p st0 (st\<lparr>transcript := moved t_peer (\<lambda>p r. r\<lparr>t_peer := p\<rparr>) old new (transcript st)\<rparr>)"
    using assms(1) by (simp add: shielded_def get_peer_def get_session_key_def get_seq_high_water_def fun_eq_iff other)
  show "shielded p st0 (st\<lparr>session_keys := moved k_peer (\<lambda>p r. r\<lparr>k_peer := p\<rparr>) old new (session_keys st)\<rparr>)"
    using assms(1) by (simp add: shielded_def get_peer_def get_session_key_def get_seq_high_water_def fun_eq_iff other)
qed

lemma shielded_rekey_children:
  assumes "shielded p st0 st" "p \<notin> {old, new}"
  shows "shielded p st0 (snd (rekey_children old new st))"
  by (insert assms(1), unfold rekey_children_def,
     ((rule rekey_step_keep [where P = "shielded p st0"], assumption)
     | (drule rekey_moved, simp only:, rule shielded_moves, assumption, rule assms(2))
     | (erule shielded_frame; simp; fail)
     | (simp; fail))+)

lemma shielded_apply_rotation:
  assumes "shielded p st0 st" "p \<noteq> q" "get_peer st q \<noteq> None"
  shows "shielded p st0 (snd (apply_rotation q pub new now st))"
proof -
  let ?t = "map (\<lambda>r. if p_id r = q then r\<lparr>previous_identity_pub := Some (identity_pub r), identity_pub := pub,
                 p_fingerprint := new, p_id := new, p_updated_at := now\<rparr> else r) (peers st)"
  show ?thesis
  proof (cases "distinct (map p_id ?t)")
    case False
    then have "update_peer_identity q pub new now st = (Inl IntegrityError, st)"
      unfolding update_peer_identity_def Let_def by simp
    then show ?thesis using assms by (simp add: apply_rotation_def)
  next
    case True
    obtain r where r: "get_peer st p = Some r" using assms(1) by (auto simp: shielded_def)
    obtain r' where r': "get_peer st q = Some r'" using assms(3) by auto
    have "p \<noteq> new"
    proof
      assume p: "p = new"
      have mem: "r \<in> set (peers st)" "p_id r = p" "r' \<in> set (peers st)" "p_id r' = q"
        using r r' by (auto simp: get_peer_def dest: tget_mem tget_key)
      then obtain i j where ij: "i < length (peers st)" "peers st ! i = r" "j < length (peers st)" "peers st ! j = r'"
        by (metis in_set_conv_nth)
      then have "i \<noteq> j" using mem assms(2) by auto
      moreover have "map p_id ?t ! i = map p_id ?t ! j" using ij mem p assms(2) by simp
      ultimately show False using True ij by (metis (no_types, lifting) distinct_conv_nth length_map)
    qed
    then have other: "p \<notin> {q, new}" using assms(2) by simp
    then have "tget p_id p (map (\<lambda>r. if p_id r = q then r\<lparr>previous_identity_pub := Some (identity_pub r), identity_pub := pub,
                 p_fingerprint := new, p_id := new, p_updated_at := now\<rparr> else r) t) = tget p_id p t" for t :: "peer_row list"
      by (induction t) auto
    then have sh: "shielded p st0 (st\<lparr>peers := ?t\<rparr>)"
      using assms(1) True
      by (simp add: shielded_def get_peer_def get_session_key_def get_seq_high_water_def fun_eq_iff)
    have "shielded p st0 (snd (rekey_children q new (st\<lparr>peers := ?t\<rparr>)))" by (rule shielded_rekey_children [OF sh other])
    then show ?thesis using True sh
      unfolding apply_rotation_def update_peer_identity_def Let_def by (auto split: prod.split)
  qed
qed

lemma peer_of_run:
  "snd (peer_of X j st) = st"
  "fst (peer_of X j st) = Inr (Some r) \<Longrightarrow> bind_text X j = Inr (Some (p_id r)) \<and> get_peer st (p_id r) = Some r"
  by (auto simp: peer_of_def seqp_def get_peer_def dest: tget_key split: sum.splits option.splits)

lemma on_kdb_pure: "snd (m (kdb w)) = kdb w \<Longrightarrow> snd (on_kdb m w) = w"
  by (cases "m (kdb w)") (simp add: on_kdb_def)

lemma on_kdb_fst [simp]: "fst (on_kdb m w) = fst (m (kdb w))"
  by (cases "m (kdb w)") (simp add: on_kdb_def)

text \<open>The sender of an item is not bound to the identifier \<open>p\<close>.\<close>

definition not_from :: "ext \<Rightarrow> string \<Rightarrow> json \<Rightarrow> bool" where
  "not_from X p sender \<longleftrightarrow> bind_text X sender \<noteq> Inr (Some p)"

lemma bind2_not_from: "bind2 X a b = Inr (Some (q, s)) \<Longrightarrow> not_from X p a \<Longrightarrow> q \<noteq> p"
  by (auto simp: bind2_def bind_res_Inr_iff not_from_def split: option.splits)

abbreviation kshield :: "string \<Rightarrow> store \<Rightarrow> world \<Rightarrow> bool" where
  "kshield p st0 \<equiv> \<lambda>w. shielded p st0 (kdb w)"

lemma shielded_rotation_notice:
  assumes "not_from (ext_of E) p sender"
  shows "keeps (kshield p st0) (handle_key_rotation_notice E e sender now)"
proof (rule keepsI)
  fix w assume sh: "kshield p st0 w"
  show "kshield p st0 (snd (handle_key_rotation_notice E e sender now w))"
    unfolding handle_key_rotation_notice_def Let_def
  proof (rule seqp_pure [where P = "kshield p st0"], rule on_kdb_pure, rule peer_of_run(1), rule sh, goal_cases)
    case (1 found)
    show ?case
    proof (cases found)
      case None
      then show ?thesis using sh by (simp add: log_transport_def)
    next
      case (Some r)
      then have r: "p_id r \<noteq> p" "get_peer (kdb w) (p_id r) = Some r"
        using peer_of_run(2) [of "ext_of E" sender "kdb w" r] 1 assms by (auto simp: not_from_def)
      have rot: "kshield p st0 (snd (on_kdb (apply_rotation (p_id r) a b now) w))" for a b
        using shielded_apply_rotation [OF sh, of "p_id r" a b now] r by (simp add: on_kdb_def split: prod.split) (metis snd_conv)
      have "kshield p st0 (snd (seqp (on_kdb (apply_rotation (p_id r) a b now)) (\<lambda>_. log_transport ev f now) w))" for a b ev f
        by (rule seqp_keeps [where P = "kshield p st0"], rule rot, rule keeps_log)
      then show ?thesis unfolding Some option.case
        by (intro seqp_pure [where P = "kshield p st0"])
          (auto simp: sh log_transport_def split: verdict.split prod.split)
    qed
  qed
qed

lemma keeps_on_kdb_shield: "keeps (shielded p st0) m \<Longrightarrow> keeps (kshield p st0) (on_kdb m)"
  by (rule keeps_on_kdb)

lemma shielded_session_open_item:
  assumes "dget ''sender_key_id'' e \<noteq> Some (JStr p)"
  shows "keeps (kshield p st0) (ingest_session_open E idn c sender e now)"
  unfolding ingest_session_open_def Let_def
  by (intro keeps_on_kdb_shield shielded_on_session_open shielded_complete_session assms keeps_intros)

lemma shielded_message:
  assumes "not_from (ext_of E) p sender"
  shows "keeps (kshield p st0) (ingest_message E idn sender e now)"
proof (rule keepsI)
  fix w assume sh: "kshield p st0 w"
  obtain r w' where run: "ingest_message E idn sender e now w = (r, w')" by (cases "ingest_message E idn sender e now w")
  from ingest_message_cases [OF run] show "kshield p st0 (snd (ingest_message E idn sender e now w))"
  proof
    assume "r \<noteq> Inr True \<and> kdb w' = kdb w"
    with run sh show ?thesis by simp
  next
    assume "\<exists>q s n st1. bind2 (ext_of E) sender (dget_or ''session_id'' (JStr '''') e) = Inr (Some (q, s)) \<and> read_sequence e = Inr (Some n) \<and>
       get_session_key (kdb w) q s \<noteq> None \<and>
       get_seq_high_water (kdb w) q s < n \<and> (\<exists>tx. append_transcript q s n ''inbound'' tx now ''peer'' (kdb w) = Inr st1) \<and>
       (if r = Inr True then set_seq_high_water q s n st1 = Inr (kdb w') else kdb w' = st1)"
    then obtain q s n st1 tx where q: "bind2 (ext_of E) sender (dget_or ''session_id'' (JStr '''') e) = Inr (Some (q, s))"
      "append_transcript q s n ''inbound'' tx now ''peer'' (kdb w) = Inr st1"
      "if r = Inr True then set_seq_high_water q s n st1 = Inr (kdb w') else kdb w' = st1" by blast
    have "q \<noteq> p" using bind2_not_from [OF q(1) assms] .
    with q(2,3) sh run shielded_writes(5,6) show ?thesis by (metis snd_conv)
  qed
qed

lemma shielded_item:
  assumes "not_from (ext_of E) p sender" "dget ''sender_key_id'' e \<noteq> Some (JStr p)"
  shows "keeps (kshield p st0) (ingest_item E idn c sender e now)"
  unfolding ingest_item_def
  by (intro keeps_intros shielded_message shielded_session_open_item shielded_rotation_notice assms)

lemma shielded_items:
  assumes "not_from (ext_of E) p sender" "\<forall>(i, e) \<in> set items. dget ''sender_key_id'' e \<noteq> Some (JStr p)"
  shows "keeps (kshield p st0) (ingest_items E idn c sender items now t)"
  using assms(2) by (induction items arbitrary: t) (auto intro!: keeps_intros shielded_item assms(1))

text \<open>Every group is non-empty and its items carry its key.\<close>

definition grouped :: "groups \<Rightarrow> bool" where
  "grouped gs \<longleftrightarrow> (\<forall>(k, items) \<in> set gs. \<forall>(i, e) \<in> set items. same_key k (dget_or ''sender_key_id'' (JStr '''') e) \<or> k = dget_or ''sender_key_id'' (JStr '''') e)"

lemma add_to_group_mem:
  "(k', ys) \<in> set (add_to_group k x gs) \<Longrightarrow> y \<in> set ys \<Longrightarrow>
   y = x \<and> (k' = k \<or> same_key k' k) \<or> (\<exists>xs. (k', xs) \<in> set gs \<and> y \<in> set xs)"
proof (induction gs)
  case (Cons g gs)
  obtain k0 b where g: "g = (k0, b)" by (cases g)
  show ?case
  proof (cases "same_key k0 k")
    case True
    with Cons.prems g have "(k', ys) = (k0, b @ [x]) \<or> (k', ys) \<in> set gs" by simp
    with Cons.prems(2) g True show ?thesis by auto
  next
    case False
    with Cons.prems g have "(k', ys) = (k0, b) \<or> (k', ys) \<in> set (add_to_group k x gs)" by simp
    with Cons.IH Cons.prems(2) g show ?thesis by auto
  qed
qed auto

lemma add_to_group_grouped:
  assumes "grouped gs" "k = dget_or ''sender_key_id'' (JStr '''') e"
  shows "grouped (add_to_group k (i, e) gs)"
  unfolding grouped_def
proof clarify
  fix k' ys i' e'
  assume "(k', ys) \<in> set (add_to_group k (i, e) gs)" "(i', e') \<in> set ys"
    "k' \<noteq> dget_or ''sender_key_id'' (JStr '''') e'"
  with add_to_group_mem [OF this(1,2)] assms show "same_key k' (dget_or ''sender_key_id'' (JStr '''') e')"
    by (force simp: grouped_def)
qed

lemma group_items_grouped:
  "group_items items gs now w = (Inr gs', w') \<Longrightarrow> grouped gs \<Longrightarrow> grouped gs'"
proof (induction items arbitrary: gs w)
  case (Cons item items)
  then show ?case
    by (auto simp: seqp_def log_transport_def Let_def add_to_group_grouped split: option.splits prod.splits if_splits)
qed simp

lemma same_key_str: "same_key k (JStr p) \<Longrightarrow> k = JStr p"
  by (auto simp: same_key_def split: option.splits)

lemma bind_text_str: "\<not> (not_from X p (JStr p))"
  by (simp add: not_from_def)

text \<open>The consent states that shut a peer out.\<close>

definition shut_out :: "store \<Rightarrow> string \<Rightarrow> bool" where
  "shut_out st p \<longleftrightarrow> (\<exists>r. get_peer st p = Some r \<and> consent_state r \<in> set INBOUND_BLOCKED_CONSENT)"

lemma shut_out_shielded: "shielded p st0 st \<Longrightarrow> shut_out st0 p \<Longrightarrow> shut_out st p"
  by (auto simp: shielded_def shut_out_def)

lemma shielded_group:
  assumes "shut_out st0 p" "grouped [(k, items)]"
  shows "keeps (kshield p st0) (ingest_group E idn c k items now t)"
proof (rule keepsI)
  fix w assume sh: "kshield p st0 w"
  show "kshield p st0 (snd (ingest_group E idn c k items now t w))"
    unfolding ingest_group_def
  proof (rule seqp_pure [where P = "kshield p st0"], rule on_kdb_pure, rule peer_of_run(1), rule sh, goal_cases)
    case (1 found)
    let ?gate = "case found of None \<Rightarrow> False | Some r \<Rightarrow> consent_state r \<in> set INBOUND_BLOCKED_CONSENT"
    show ?case
    proof (cases ?gate)
      case True
      then show ?thesis using sh by (simp add: seqp_def log_transport_def)
    next
      case False
      have nf: "not_from (ext_of E) p k"
      proof (rule ccontr)
        assume "\<not> not_from (ext_of E) p k"
        then have "bind_text (ext_of E) k = Inr (Some p)" by (simp add: not_from_def)
        then have "fst (peer_of (ext_of E) k (kdb w)) = Inr (get_peer (kdb w) p)" by (simp add: peer_of_def seqp_def)
        with 1 False shut_out_shielded [OF sh assms(1)] show False by (auto simp: shut_out_def)
      qed
      have items: "\<forall>(i, e) \<in> set items. dget ''sender_key_id'' e \<noteq> Some (JStr p)"
      proof clarify
        fix i e assume "(i, e) \<in> set items" "dget ''sender_key_id'' e = Some (JStr p)"
        with assms(2) have "k = JStr p" by (force simp: grouped_def dget_or_def dest: same_key_str)
        with nf show False by (simp add: not_from_def)
      qed
      then have "keeps (kshield p st0) (ingest_items E idn c k (sort_key f (take n items)) now t')" for f :: "string \<times> dict \<Rightarrow> nat" and n t'
        using set_take_subset [of n items] by (intro shielded_items nf) auto
      then have "keeps (kshield p st0) (seqp (if b then log_transport ev fl now else ret ()) (\<lambda>_.
          ingest_items E idn c k (sort_key f (take n items)) now t'))" for b ev fl and f :: "string \<times> dict \<Rightarrow> nat" and n t'
        by (intro keeps_intros)
      from keepsD [OF this sh] show ?thesis unfolding Let_def using False by (simp only: if_False)
    qed
  qed
qed

lemma shielded_groups:
  assumes "shut_out st0 p" "grouped gs"
  shows "keeps (kshield p st0) (ingest_groups E idn c gs now t)"
  using assms(2)
proof (induction gs arbitrary: t)
  case (Cons g gs)
  obtain k items where g: "g = (k, items)" by (cases g)
  from Cons.prems have "grouped [(k, items)]" "grouped gs" by (auto simp: grouped_def g)
  then show ?case unfolding g ingest_groups.simps
    by (intro keeps_seqp shielded_group Cons.IH assms(1))
qed (simp add: keeps_basic)

lemma keeps_group_items: "keeps (\<lambda>w. Q (kdb w)) (group_items items gs now)"
  by (induction items arbitrary: gs)
    (auto simp: Let_def intro!: keeps_intros split: option.split)

lemma shielded_poll:
  assumes "shut_out st0 p"
  shows "keeps (kshield p st0) (poll_and_ingest E idn c now)"
proof -
  have step: "keeps (kshield p st0) (seqp (group_items items [] now) k)"
    if "\<And>gs. grouped gs \<Longrightarrow> keeps (kshield p st0) (k gs)" for items and k :: "groups \<Rightarrow> (world, poll_result) prog"
  proof (rule keepsI)
    fix w assume sh: "kshield p st0 w"
    obtain r w' where run: "group_items items [] now w = (r, w')" by (cases "group_items items [] now w")
    have sh': "kshield p st0 w'"
      using keepsD [OF keeps_group_items [where Q = "shielded p st0"] sh, of items "[]" now] run by simp
    show "kshield p st0 (snd (seqp (group_items items [] now) k w))"
    proof (cases r)
      case (Inr gs)
      then have "grouped gs" using group_items_grouped run by (force simp: grouped_def)
      from keepsD [OF that [OF this] sh'] show ?thesis using run Inr by (simp add: seqp_def)
    qed (use run sh' in \<open>simp add: seqp_def\<close>)
  qed
  have "keeps (kshield p st0) (case fetched of None \<Rightarrow> m | Some items \<Rightarrow> seqp (log_transport ev fl' now)
      (\<lambda>_. seqp (group_items items [] now) (k items)))"
    if "keeps (kshield p st0) m" "\<And>gs i. grouped gs \<Longrightarrow> keeps (kshield p st0) (k i gs)"
    for fetched m ev fl' and k :: "json list \<Rightarrow> groups \<Rightarrow> (world, poll_result) prog"
    using that by (cases fetched) (auto intro!: keeps_intros step)
  show ?thesis unfolding poll_and_ingest_def
    by (intro keeps_intros step shielded_groups [OF assms]; assumption?)
qed

text \<open>
  C2: The consent gate. Once the user has paused, blocked or revoked a peer, nothing the relay
  delivers reaches the store on that peer's behalf: after a poll, whatever the items are, however
  they are signed and whether or not the poll itself ends in an exception, the peer's consent
  state, its transcript, its session keys and its high-water marks are what they were.
\<close>

theorem consent_gate:
  assumes "distinct (map p_id (peers (kdb w)))" "get_peer (kdb w) p = Some r"
    "consent_state r = ''paused'' \<or> consent_state r = ''blocked'' \<or> consent_state r = ''revoked''"
    "poll_and_ingest E idn c now w = (outcome, w')"
  shows "map_option consent_state (get_peer (kdb w') p) = Some (consent_state r) \<and>
    filter (\<lambda>t. t_peer t = p) (transcript (kdb w')) = filter (\<lambda>t. t_peer t = p) (transcript (kdb w)) \<and>
    get_session_key (kdb w') p = get_session_key (kdb w) p \<and>
    get_seq_high_water (kdb w') p = get_seq_high_water (kdb w) p"
proof -
  have "shut_out (kdb w) p" using assms(2,3) by (auto simp: shut_out_def INBOUND_BLOCKED_CONSENT_def)
  moreover have "kshield p (kdb w) w" using assms(1,2) by (simp add: shielded_def)
  ultimately have "kshield p (kdb w) w'" using keepsD [OF shielded_poll] assms(4) by (metis snd_conv)
  then show ?thesis using assms(2) by (simp add: shielded_def)
qed

end
