(* ===== verification/Relationship.thy ===== *)
theory Relationship
  imports Gate
begin

text \<open>
  The relationship with a peer (\<open>kindled_link/relationship.py\<close>): the stages, grounding of the
  model's evidence in the correspondence, the reflection pass with its two kinds of regression, the
  cap on what a peer can make the Kindled feel, and the memory it leaves. A state is the store's
  row. The log of rejected quotes is not modelled.
\<close>

section \<open>State\<close>

definition STAGES :: "string list" where
  "STAGES = [''stranger'', ''acquaintance'', ''familiar'', ''friend'', ''close'']"

text \<open>\<open>STAGES.index\<close>.\<close>

definition stage_index :: "string \<Rightarrow> nat option" where
  "stage_index s = (let i = length (takeWhile (\<lambda>t. t \<noteq> s) STAGES) in if i < length STAGES then Some i else None)"

definition fresh_state :: "string \<Rightarrow> rel_row" where
  "fresh_state peer_id = \<lparr>r_peer = peer_id, r_stage = ''stranger'', r_trust = 0, r_affinity = [], r_boundaries = [],
     r_repairs = [], r_evidence = [], r_reflected_at = None\<rparr>"

definition get_relationship_state :: "store \<Rightarrow> string \<Rightarrow> rel_row" where
  "get_relationship_state st peer_id = (case get_relationship_row st peer_id of None \<Rightarrow> fresh_state peer_id | Some r \<Rightarrow> r)"

definition get_stage :: "store \<Rightarrow> string \<Rightarrow> string" where
  "get_stage st peer_id = (case get_relationship_row st peer_id of None \<Rightarrow> ''stranger'' | Some r \<Rightarrow> r_stage r)"

section \<open>Grounding\<close>

definition normalise :: "ext \<Rightarrow> string \<Rightarrow> string" where
  "normalise X s = casefold X (py_strip (collapse False (nfc X s)))"

definition MIN_GROUNDED_QUOTE_CHARS :: nat where "MIN_GROUNDED_QUOTE_CHARS = 12"

fun starts_with :: "string \<Rightarrow> string \<Rightarrow> bool" where
  "starts_with [] s = True"
| "starts_with (c # p) [] = False"
| "starts_with (c # p) (d # s) = (c = d \<and> starts_with p s)"

fun contains :: "string \<Rightarrow> string \<Rightarrow> bool" where
  "contains p [] = (p = [])"
| "contains p (c # s) = (starts_with p (c # s) \<or> contains p s)"

definition is_grounded :: "ext \<Rightarrow> string \<Rightarrow> string \<Rightarrow> bool" where
  "is_grounded X qt corr =
     (let q = normalise X qt in MIN_GROUNDED_QUOTE_CHARS \<le> length q \<and> contains q (normalise X corr))"

section \<open>Emotion\<close>

definition PEER_EMOTION_WINDOW_CAP :: rat where "PEER_EMOTION_WINDOW_CAP = 6 / 10"

fun flt_abs :: "pyfloat \<Rightarrow> pyfloat" where
  "flt_abs (Fin q) = Fin \<bar>q\<bar>"
| "flt_abs NaN = NaN"
| "flt_abs _ = PInf"

fun flt_add :: "pyfloat \<Rightarrow> pyfloat \<Rightarrow> pyfloat" where
  "flt_add (Fin a) (Fin b) = float_of_rat (a + b)"
| "flt_add NaN _ = NaN"
| "flt_add _ NaN = NaN"
| "flt_add PInf NInf = NaN"
| "flt_add NInf PInf = NaN"
| "flt_add PInf _ = PInf"
| "flt_add _ PInf = PInf"
| "flt_add _ _ = NInf"

definition scaled :: "rat \<Rightarrow> string \<times> pyfloat \<Rightarrow> string \<times> rat" where
  "scaled s kv = (fst kv, (case snd kv of Fin q \<Rightarrow> q | _ \<Rightarrow> 0) * s)"

text \<open>The applied delta; a finite magnitude has only finite parts.\<close>

definition apply_peer_emotion :: "string \<Rightarrow> (string \<times> pyfloat) list \<Rightarrow> time \<Rightarrow> store \<Rightarrow> (string \<times> rat) list \<times> store" where
  "apply_peer_emotion peer_id delta now st =
     (case foldl (\<lambda>a kv. flt_add a (flt_abs (snd kv))) (Fin 0) delta of
        Fin magnitude \<Rightarrow>
          if magnitude \<le> 0 then ([], st)
          else
            let headroom = max 0 (PEER_EMOTION_WINDOW_CAP - get_peer_emotion_accumulated st peer_id now) in
            if headroom \<le> 0 then ([], st)
            else
              let scale = min 1 (headroom / magnitude) in
              (map (scaled scale) delta, snd (add_peer_emotion peer_id (Fin (magnitude * scale)) now st))
      | _ \<Rightarrow> ([], st))"

section \<open>The reflection pass\<close>

definition bounded_stage :: "string \<Rightarrow> string \<Rightarrow> string res" where
  "bounded_stage current proposed =
     (case stage_index proposed of
        None \<Rightarrow> Inr current
      | Some p \<Rightarrow>
          (case stage_index current of
             None \<Rightarrow> Inl ValueError
           | Some c \<Rightarrow>
               Inr (if c < p then STAGES ! min (c + 1) (length STAGES - 1)
                    else if p < c then STAGES ! (c - 1) else current)))"

definition HOLD_REGRESS_THRESHOLD :: int where "HOLD_REGRESS_THRESHOLD = 3"

definition reflection_prompt :: "mind \<Rightarrow> string \<Rightarrow> string \<Rightarrow> string" where
  "reflection_prompt M stage corr =
     (case reflection_segments M of (a, b, c) \<Rightarrow> a @ stage @ b @ corr @ c)"

text \<open>\<open>(data.get("boundaries_seen") or ["hard breach"])[0]\<close>.\<close>

definition breach_note :: "ext \<Rightarrow> dict \<Rightarrow> string res" where
  "breach_note X data =
     (let b = dget_or ''boundaries_seen'' JNull data in
      if \<not> truthy b then Inr ''hard breach''
      else case b of JList (x # _) \<Rightarrow> Inr (py_str X x) | JStr (c # _) \<Rightarrow> Inr [c] | JObj _ \<Rightarrow> Inl KeyError | _ \<Rightarrow> Inl TypeError)"

definition last_n :: "nat \<Rightarrow> 'a list \<Rightarrow> 'a list" where
  "last_n n xs = drop (length xs - n) xs"

text \<open>The items of \<open>data.get("evidence") or []\<close>, each read with \<open>.get\<close>: quote, turn and support.\<close>

definition evidence_items :: "json \<Rightarrow> json list res" where
  "evidence_items j =
     (if \<not> truthy j then Inr []
      else case j of
        JList xs \<Rightarrow> Inr xs
      | JStr s \<Rightarrow> Inr (map (\<lambda>c. JStr [c]) s)
      | JObj d \<Rightarrow> Inr (map (\<lambda>p. JStr (fst p)) d)
      | _ \<Rightarrow> Inl TypeError)"

fun grounded_evidence :: "ext \<Rightarrow> string \<Rightarrow> json list \<Rightarrow> (string \<times> string \<times> string) list res" where
  "grounded_evidence X corr [] = Inr []"
| "grounded_evidence X corr (e # es) =
     (case e of
        JObj d \<Rightarrow>
          let qt = py_str X (dget_or ''quote'' (JStr '''') d);
              ev = (qt, py_str X (dget_or ''turn_id'' (JStr ''unknown'') d), py_str X (dget_or ''supports'' (JStr '''') d)) in
          bind_res (grounded_evidence X corr es) (\<lambda>evs. Inr (if is_grounded X qt corr then ev # evs else evs))
      | _ \<Rightarrow> Inl AttributeError)"

definition str_list :: "ext \<Rightarrow> nat \<Rightarrow> json \<Rightarrow> string list option" where
  "str_list X n j = (case j of JList xs \<Rightarrow> Some (take n (map (py_str X) xs)) | _ \<Rightarrow> None)"

text \<open>The verdict applied to the state: the stage is bounded, promotion needs grounded evidence.\<close>

definition apply_verdict :: "ext \<Rightarrow> dict \<Rightarrow> string \<Rightarrow> int option \<Rightarrow> rel_row \<Rightarrow> rel_row res" where
  "apply_verdict X data corr hold_count state =
     bind_res (bind_res (evidence_items (dget_or ''evidence'' JNull data)) (grounded_evidence X corr)) (\<lambda>grounded.
     let proposed = py_str X (dget_or ''proposed_stage'' (JStr (r_stage state)) data) in
     case stage_index (r_stage state) of
       None \<Rightarrow> Inl ValueError
     | Some ci \<Rightarrow>
         let up = (case stage_index proposed of None \<Rightarrow> False | Some p \<Rightarrow> ci < p);
             proposed = (if up \<and> grounded = [] then r_stage state else proposed) in
         bind_res (bounded_stage (r_stage state) proposed) (\<lambda>stage.
         bind_res (case dget ''trust_score'' data of
                     None \<Rightarrow> Inr (r_trust state)
                   | Some j \<Rightarrow> (case py_float j of Inr f \<Rightarrow> Inr (clamp01 f) | Inl OverflowError \<Rightarrow> Inl OverflowError
                                | Inl _ \<Rightarrow> Inr (r_trust state))) (\<lambda>trust.
         let stage = (case hold_count of
                        Some h \<Rightarrow> if HOLD_REGRESS_THRESHOLD \<le> h
                                  then (case stage_index stage of Some (Suc i) \<Rightarrow> STAGES ! i | _ \<Rightarrow> stage) else stage
                      | None \<Rightarrow> stage) in
         Inr (state\<lparr>r_stage := stage, r_trust := trust,
           r_affinity := (case str_list X 12 (dget_or ''affinity_tags'' JNull data) of None \<Rightarrow> r_affinity state | Some xs \<Rightarrow> xs),
           r_boundaries := (case str_list X 20 (dget_or ''boundaries_seen'' JNull data) of None \<Rightarrow> r_boundaries state | Some xs \<Rightarrow> xs),
           r_evidence := (if grounded = [] then r_evidence state else take 10 grounded)\<rparr>))))"

text \<open>
  The write-back: \<open>str(data.get("memory_summary", "")).strip()\<close>, the registered emotions, the capped
  delta and the memory. A failure inside is swallowed; \<open>create\<close> says whether the memory store's
  \<open>create\<close> succeeds.
\<close>

fun float_items :: "dict \<Rightarrow> (string \<times> pyfloat) list option" where
  "float_items [] = Some []"
| "float_items ((k, v) # d) =
     (case py_float v of Inl _ \<Rightarrow> None | Inr f \<Rightarrow> map_option ((#) (k, f)) (float_items d))"

definition write_back ::
    "ext \<Rightarrow> (string \<Rightarrow> bool) \<Rightarrow> bool \<Rightarrow> dict \<Rightarrow> string \<Rightarrow> string \<Rightarrow> string \<Rightarrow> string \<Rightarrow> time \<Rightarrow> agent \<Rightarrow> agent" where
  "write_back X registered create data peer_id session_id persona stage now a =
     (let summary = py_strip (py_str X (dget_or ''memory_summary'' (JStr '''') data)) in
      if summary = [] then a
      else
        case (case dget_or ''emotion'' JNull data of JObj d \<Rightarrow> float_items d | _ \<Rightarrow> Some []) of
          None \<Rightarrow> a
        | Some items \<Rightarrow>
            (case apply_peer_emotion peer_id (filter (\<lambda>kv. registered (fst kv)) items) now (store_of a) of
               (applied, st) \<Rightarrow>
                 let seeded = filter (\<lambda>kv. registered (fst kv)) applied;
                     m = \<lparr>pm_content = summary, pm_peer = peer_id, pm_session = session_id, pm_speaker = persona, pm_stage = stage,
                          pm_emotions = (if seeded = [] then None else Some seeded)\<rparr> in
                 a\<lparr>net := (net a)\<lparr>kdb := st\<rparr>, memories := memories a @ (if create then [m] else [])\<rparr>))"

text \<open>The call: a slot, then the provider; a call that does not complete gives its reservation back.\<close>

definition consult :: "mind \<Rightarrow> string \<Rightarrow> string \<Rightarrow> string \<Rightarrow> (agent, string option) prog" where
  "consult M peer_id today prompt =
     (let refund = on_store (writes (release_provider_slot peer_id today)) in
      catch
        (seqp (take_slot M) (\<lambda>granted.
         if granted then seqp (ask M prompt) (\<lambda>raw. ret (Some raw)) else seqp refund (\<lambda>_. ret None)))
        (\<lambda>_. seqp refund (\<lambda>_. ret None)))"

text \<open>What follows the reply: a hard breach resets, any other verdict is applied and written back.\<close>

definition hard_breach :: "ext \<Rightarrow> dict \<Rightarrow> time \<Rightarrow> rel_row \<Rightarrow> (agent, rel_row) prog" where
  "hard_breach X data now state =
     seqp (lift (breach_note X data)) (\<lambda>note.
     let state = state\<lparr>r_stage := ''stranger'', r_trust := 0,
           r_boundaries := last_n 20 (r_boundaries state @ [note]), r_reflected_at := Some now\<rparr> in
     seqp (on_store (writes (upsert_relationship_row state now))) (\<lambda>_. ret state))"

definition conclude ::
    "ext \<Rightarrow> (string \<Rightarrow> bool) \<Rightarrow> bool option \<Rightarrow> string \<Rightarrow> string \<Rightarrow> time \<Rightarrow> int option \<Rightarrow> string \<Rightarrow> string \<Rightarrow> rel_row \<Rightarrow> dict
      \<Rightarrow> (agent, rel_row) prog" where
  "conclude X registered mem peer_id corr now hold_count persona session_id state data =
     seqp (lift (apply_verdict X data corr hold_count state)) (\<lambda>state.
     let state = state\<lparr>r_reflected_at := Some now\<rparr> in
     seqp (on_store (writes (upsert_relationship_row state now))) (\<lambda>_.
     seqp (writes (\<lambda>a. case mem of None \<Rightarrow> a
        | Some create \<Rightarrow> write_back X registered create data peer_id session_id persona (r_stage state) now a)) (\<lambda>_.
     ret state)))"

text \<open>
  \<open>run_relationship_reflection\<close>. \<open>mem\<close> is \<open>None\<close> without a memory store. A verdict that cannot be
  read leaves the state; an exception while it is applied escapes.
\<close>

definition run_reflection ::
    "ext \<Rightarrow> mind \<Rightarrow> (string \<Rightarrow> bool) \<Rightarrow> bool option \<Rightarrow> string \<Rightarrow> string \<Rightarrow> time \<Rightarrow> string \<Rightarrow> int option \<Rightarrow> string \<Rightarrow> string
      \<Rightarrow> (agent, rel_row) prog" where
  "run_reflection X M registered mem peer_id corr now today hold_count persona session_id =
     seqp (reads (\<lambda>a. get_relationship_state (store_of a) peer_id)) (\<lambda>state.
     if today \<noteq> day_text now then ret state
     else
       seqp (on_store (calls_to (try_reserve_provider peer_id today DAILY_PROVIDER_CAP))) (\<lambda>reserved.
       if \<not> reserved then ret state
       else
         seqp (consult M peer_id today (reflection_prompt M (r_stage state) corr)) (\<lambda>reply.
         case Option.bind (Option.bind reply braced) json_loads of
           Some (JObj data) \<Rightarrow>
             if truthy (dget_or ''hard_breach'' JNull data) then hard_breach X data now state
             else conclude X registered mem peer_id corr now hold_count persona session_id state data
         | _ \<Rightarrow> ret state)))"

section \<open>Cadence\<close>

text \<open>
  The persisted \<open>last_run\<close> of a cadence file: due when there is none, when it is not a timestamp
  that can be subtracted from \<open>now\<close>, or after the interval. An unreadable file reads as never run.
\<close>

definition is_due :: "int \<Rightarrow> json \<Rightarrow> time \<Rightarrow> bool" where
  "is_due interval prev now =
     (if \<not> truthy prev then True
      else case prev of JStr s \<Rightarrow> (case since now (fromisoformat s) of Inl _ \<Rightarrow> True | Inr d \<Rightarrow> interval \<le> d) | _ \<Rightarrow> True)"

definition reflection_is_due :: "json \<Rightarrow> time \<Rightarrow> bool" where
  "reflection_is_due = is_due (24 * hour)"

definition tick_is_due :: "json \<Rightarrow> time \<Rightarrow> bool" where
  "tick_is_due = is_due (5 * minute)"

definition saved_cadence :: "time \<Rightarrow> json" where
  "saved_cadence now = JStr (isoformat now)"

end
