(* ===== verification/Tick.thy ===== *)
theory Tick
  imports Engine
begin

text \<open>
  The supervisor's tick (\<open>kindled_link/tick.py\<close>, \<open>cadence.py\<close>, \<open>_run_kindled_link_tick\<close> of
  \<open>bridge/supervisor.py\<close>): inbound, rotation notices, recovery, every paired peer in turn, and the
  cadence that spaces it. The files beside the database are part of the state; writing them succeeds.
\<close>

section \<open>State\<close>

text \<open>The agent with the \<open>last_run\<close> of the two cadence files and the text of \<open>recovered.flag\<close>.\<close>

record keeper =
  who :: agent
  tick_last :: json
  reflect_last :: json
  recovered_flag :: "string option"

text \<open>
  What the tick is given: the relay's environment, the model with its throttle, a gate of the caller,
  the registered emotions, the memory store (and whether its \<open>create\<close> succeeds), the directory's
  name and \<open>kindled_link_enabled\<close>. Every call uses the one default throttle, as in the supervisor.
\<close>

record host =
  relay :: env
  brain :: mind
  own_gate :: "reviewer option"
  registered :: "string \<Rightarrow> bool"
  memory :: "bool option"
  persona :: string
  enabled :: bool

definition on_agent :: "(agent, 'a) prog \<Rightarrow> (keeper, 'a) prog" where
  "on_agent m k = (case m (who k) of (r, a) \<Rightarrow> (r, k\<lparr>who := a\<rparr>))"

abbreviation db_of :: "keeper \<Rightarrow> store" where "db_of k \<equiv> store_of (who k)"

text \<open>\<open>SessionEngine.__init__\<close>: the privacy gate unless the caller brings one.\<close>

definition gate_of :: "host \<Rightarrow> reviewer" where
  "gate_of H = (case own_gate H of None \<Rightarrow> review (ext_of (relay H)) (brain H) | Some g \<Rightarrow> g)"

section \<open>Rotation notices\<close>

text \<open>An expiry that is not a text or not a timestamp drops the notice, as an elapsed one does.\<close>

definition drain_notice :: "env \<Rightarrow> client \<Rightarrow> notice_row \<Rightarrow> time \<Rightarrow> (world, unit) prog" where
  "drain_notice E c n now =
     (let tag = no_fields\<lparr>e_peer_id := Some (JStr (n_peer n))\<rparr>;
          clear = on_kdb (writes (clear_rotation_notice (n_peer n))) in
      case (case dget_or ''expires_at'' (JStr '''') (n_envelope n) of JStr s \<Rightarrow> parse_z s | _ \<Rightarrow> None) of
        None \<Rightarrow> clear
      | Some exp_time \<Rightarrow>
          if exp_time < now then seqp clear (\<lambda>_. log_transport ''rotation_notice_expired'' tag now)
          else
            catch (on_relay_error
                    (seqp (push E c (n_envelope n)) (\<lambda>_. seqp clear (\<lambda>_. log_transport ''rotation_notice_sent'' tag now)))
                    (\<lambda>msg. log_transport ''rotation_notice_queued'' (tag\<lparr>e_error := Some msg\<rparr>) now))
                  (\<lambda>_. ret ()))"

definition drain_pending_rotation_notices :: "env \<Rightarrow> client \<Rightarrow> time \<Rightarrow> (world, unit) prog" where
  "drain_pending_rotation_notices E c now =
     seqp (reads (\<lambda>w. pop_pending_rotation_notices (kdb w))) (\<lambda>ns. forp (\<lambda>n. drain_notice E c n now) ns)"

section \<open>One peer\<close>

text \<open>The transcript's text as the column gives it back.\<close>

definition shown :: "ext \<Rightarrow> transcript_row \<Rightarrow> string" where
  "shown X r = (case bind_text X (t_text r) of Inr (Some s) \<Rightarrow> s | _ \<Rightarrow> '''')"

definition transcript_summary :: "ext \<Rightarrow> transcript_row list \<Rightarrow> string" where
  "transcript_summary X rows = join '' | '' (map (shown X) (rev rows))"

text \<open>Draft, save as pending, send through the gate, record what became of it.\<close>

definition draft_and_send :: "host \<Rightarrow> identity \<Rightarrow> client \<Rightarrow> string \<Rightarrow> string \<Rightarrow> string \<Rightarrow> string \<Rightarrow> time \<Rightarrow> string \<Rightarrow> (agent, unit) prog" where
  "draft_and_send H idn c peer_id session_id reason summary now today =
     seqp (reads (\<lambda>a. get_stage (store_of a) peer_id)) (\<lambda>stage.
     seqp (generate_draft (brain H) peer_id '''' '''' stage summary today) (\<lambda>draft.
     case draft of
       None \<Rightarrow> ret ()
     | Some draft \<Rightarrow>
         seqp (on_store (calls_to (save_draft peer_id session_id (JObj [(''body'', JStr draft)]) now ''pending''))) (\<lambda>draft_id.
         seqp (process_outbound (brain H) (gate_of H) (make_send_fn (relay H) idn c now peer_id session_id) peer_id session_id
                 \<lparr>body = draft, relationship_hint = None\<rparr> reason now today summary) (\<lambda>act.
         on_store (writes (set_draft_status draft_id (action_text act)))))))"

definition should_open_first_content :: "store \<Rightarrow> string \<Rightarrow> string \<Rightarrow> bool" where
  "should_open_first_content st peer_id session_id =
     (case get_session_key st peer_id session_id of
        None \<Rightarrow> False
      | Some sk \<Rightarrow> my_role sk = ROLE_INITIATOR \<and>
          \<not> list_ex (\<lambda>d. d_peer d = peer_id \<and> d_session d = session_id \<and> d_status d = ''send'') (outbound_drafts st))"

text \<open>The autonomous start: leg 1 with fresh draws, pushed; any failure is swallowed.\<close>

definition start_session :: "env \<Rightarrow> identity \<Rightarrow> client \<Rightarrow> string \<Rightarrow> time \<Rightarrow> (world, unit) prog" where
  "start_session E idn c peer_id now =
     catch
       (seqp (drawn (draw_token E)) (\<lambda>id_token.
        seqp (drawn (draw_key E)) (\<lambda>eph.
        seqp (drawn (draw_key E)) (\<lambda>nonce.
        seqp (drawn (draw_token E)) (\<lambda>mbx_token.
        seqp (on_kdb (open_session (ext_of E) idn peer_id now SESSION_OPEN_TTL id_token eph nonce mbx_token)) (\<lambda>leg1.
        push E c leg1))))))
       (\<lambda>_. ret ())"

definition reflect_if_due :: "host \<Rightarrow> string \<Rightarrow> time \<Rightarrow> string \<Rightarrow> (keeper, unit) prog" where
  "reflect_if_due H peer_id now today =
     seqp (reads (\<lambda>k. reflection_is_due (reflect_last k) now)) (\<lambda>due.
     if \<not> due then ret ()
     else
       catch
         (seqp (reads (\<lambda>k. recent_transcript (db_of k) peer_id 10)) (\<lambda>rows.
          seqp (reads (\<lambda>k. count_holds_for_peer (db_of k) peer_id)) (\<lambda>holds.
          seqp (on_agent (run_reflection (ext_of (relay H)) (brain H) (registered H) (memory H) peer_id
                  (transcript_summary (ext_of (relay H)) rows) now today (Some (int holds)) (persona H)
                  (case rows of [] \<Rightarrow> '''' | r # _ \<Rightarrow> t_session r))) (\<lambda>_.
          writes (\<lambda>k. k\<lparr>reflect_last := saved_cadence now\<rparr>)))))
         (\<lambda>_. ret ()))"

definition tick_peer :: "host \<Rightarrow> identity \<Rightarrow> client \<Rightarrow> string \<Rightarrow> time \<Rightarrow> string \<Rightarrow> (keeper, unit) prog" where
  "tick_peer H idn c peer_id now today =
     seqp (reads (\<lambda>k. get_active_session (db_of k) peer_id)) (\<lambda>active.
     case active of
       Some sess \<Rightarrow>
         seqp (reads (\<lambda>k. recent_transcript (db_of k) peer_id 10)) (\<lambda>rows.
         if list_ex (\<lambda>r. t_direction r = ''inbound'') rows
         then on_agent (draft_and_send H idn c peer_id (s_id sess) ''peer-response'' (transcript_summary (ext_of (relay H)) rows) now today)
         else
           seqp (reads (\<lambda>k. should_open_first_content (db_of k) peer_id (s_id sess))) (\<lambda>first.
           if first then on_agent (draft_and_send H idn c peer_id (s_id sess) ''autonomous-open'' '''' now today) else ret ()))
     | None \<Rightarrow>
         seqp (reads (\<lambda>k. can_start_session (brain H) (who k) peer_id now)) (\<lambda>can.
         seqp (if can then on_agent (on_net (start_session (relay H) idn c peer_id now)) else ret ()) (\<lambda>_.
         reflect_if_due H peer_id now today)))"

text \<open>The loop over the paired peers; a peer that raises is counted as degraded.\<close>

fun tick_peers :: "host \<Rightarrow> identity \<Rightarrow> client \<Rightarrow> peer_row list \<Rightarrow> time \<Rightarrow> string \<Rightarrow> nat \<Rightarrow> string list \<Rightarrow> (keeper, nat \<times> string list) prog" where
  "tick_peers H idn c [] now today n failing = ret (n, failing)"
| "tick_peers H idn c (p # ps) now today n failing =
     (if consent_state p \<in> {''paused'', ''revoked'', ''blocked''} then tick_peers H idn c ps now today n failing
      else
        seqp (catch (seqp (tick_peer H idn c (p_id p) now today) (\<lambda>_. ret True)) (\<lambda>_. ret False)) (\<lambda>ok.
        if ok then tick_peers H idn c ps now today (Suc n) failing
        else tick_peers H idn c ps now today n (failing @ [p_id p])))"

section \<open>The tick\<close>

record tick_summary =
  peers_processed :: nat
  inbound :: poll_result
  recovered :: bool
  degraded_peers :: "string list"

text \<open>Recovery and the peers: only when enabled.\<close>

definition outbound_half :: "host \<Rightarrow> identity \<Rightarrow> client \<Rightarrow> time \<Rightarrow> string \<Rightarrow> (keeper, bool \<times> nat \<times> string list) prog" where
  "outbound_half H idn c now today =
     seqp (on_agent (recover (brain H) (gate_of H) (\<lambda>p s. make_send_fn (relay H) idn c now p s) now today)) (\<lambda>acts.
     seqp (reads (\<lambda>k. list_paired_peers (db_of k))) (\<lambda>peers.
     seqp (tick_peers H idn c peers now today 0 []) (\<lambda>(n, failing).
     ret (list_ex (\<lambda>a. a \<noteq> None) acts, n, failing))))"

text \<open>\<open>None\<close> is \<open>{"skipped": True}\<close>.\<close>

definition run_kindled_link_tick :: "host \<Rightarrow> identity \<Rightarrow> client \<Rightarrow> time \<Rightarrow> (keeper, tick_summary option) prog" where
  "run_kindled_link_tick H idn c now =
     seqp (reads (\<lambda>k. tick_is_due (tick_last k) now)) (\<lambda>due.
     if \<not> due then ret None
     else
       let today = day_text now in
       seqp (on_agent (on_net (poll_and_ingest (relay H) idn c now))) (\<lambda>polled.
       seqp (catch (on_agent (on_net (drain_pending_rotation_notices (relay H) c now))) (\<lambda>_. ret ())) (\<lambda>_.
       seqp (if enabled H then outbound_half H idn c now today else ret (False, 0, [])) (\<lambda>(any_recovered, n, failing).
       seqp (if any_recovered then writes (\<lambda>k. k\<lparr>recovered_flag := Some (isoformat now)\<rparr>) else ret ()) (\<lambda>_.
       seqp (writes (\<lambda>k. k\<lparr>tick_last := saved_cadence now\<rparr>)) (\<lambda>_.
       ret (Some \<lparr>peers_processed = n, inbound = polled, recovered = any_recovered, degraded_peers = failing\<rparr>)))))))"

section \<open>The supervisor's call\<close>

text \<open>
  Nothing without a relay url; \<open>idn\<close> is what \<open>load_or_create\<close> returned. A failing registration skips
  the round, and any exception of the tick is logged by the caller.
\<close>

definition run_tick_live :: "host \<Rightarrow> string option \<Rightarrow> identity res \<Rightarrow> time \<Rightarrow> (keeper, tick_summary option) prog" where
  "run_tick_live H url idn now =
     (if url = None then ret None
      else
        seqp (lift idn) (\<lambda>idn.
        seqp (on_agent (on_net (drawn (draw_token (relay H))))) (\<lambda>token.
        seqp (on_agent (on_store (calls_to (get_or_create_local_mailbox token)))) (\<lambda>mailbox.
        let c = \<lparr>c_identity = idn, c_mailbox = mailbox\<rparr> in
        seqp (catch (seqp (on_agent (on_net (register (relay H) c))) (\<lambda>_. ret True)) (\<lambda>_. ret False)) (\<lambda>registered_ok.
        if registered_ok then run_kindled_link_tick H idn c now else ret None)))))"

definition maybe_run_tick :: "host \<Rightarrow> string option \<Rightarrow> identity res \<Rightarrow> time \<Rightarrow> (keeper, tick_summary option) prog" where
  "maybe_run_tick H url idn now = catch (run_tick_live H url idn now) (\<lambda>_. ret None)"

end
