(* ===== verification/Connect_Code.thy ===== *)
theory Connect_Code
  imports Json
begin

text \<open>
  Connect codes (\<open>kindled_link/connect_code.py\<close>): the canonical JSON of an invite in url-safe
  base64 behind a prefix. The decoder is what \<open>base64.urlsafe_b64decode\<close> and \<open>json.loads\<close> of a
  byte string do: characters outside the alphabet are skipped, a complete padding ends the input,
  and the text encoding is detected from the first bytes.
\<close>

section \<open>Url-safe base64\<close>

definition b64_char :: "nat \<Rightarrow> char" where
  "b64_char n =
     (if n < 26 then char_of (65 + n) else if n < 52 then char_of (71 + n)
      else if n < 62 then char_of (n - 4) else if n = 62 then CHR ''-'' else CHR ''_'')"

text \<open>After the translation of \<open>-_\<close> to \<open>+/\<close>, so both alphabets are read.\<close>

definition b64_val :: "char \<Rightarrow> nat option" where
  "b64_val c =
     (let n = of_char c :: nat in
      if 65 \<le> n \<and> n \<le> 90 then Some (n - 65)
      else if 97 \<le> n \<and> n \<le> 122 then Some (n - 71)
      else if 48 \<le> n \<and> n \<le> 57 then Some (n + 4)
      else if n = 45 \<or> n = 43 then Some 62
      else if n = 95 \<or> n = 47 then Some 63
      else None)"

fun b64_encode :: "bytes \<Rightarrow> string" where
  "b64_encode [] = []"
| "b64_encode [a] = [b64_char (unat a div 4), b64_char (unat a mod 4 * 16), CHR ''='', CHR ''='']"
| "b64_encode [a, b] =
     [b64_char (unat a div 4), b64_char (unat a mod 4 * 16 + unat b div 16), b64_char (unat b mod 16 * 4), CHR ''='']"
| "b64_encode (a # b # c # bs) =
     b64_char (unat a div 4) # b64_char (unat a mod 4 * 16 + unat b div 16)
       # b64_char (unat b mod 16 * 4 + unat c div 64) # b64_char (unat c mod 64) # b64_encode bs"

text \<open>\<open>binascii.a2b_base64\<close>: position in the quad, bits left over, paddings seen in a row.\<close>

fun a2b :: "nat \<Rightarrow> nat \<Rightarrow> nat \<Rightarrow> string \<Rightarrow> bytes option" where
  "a2b q l p [] = (if q = 0 then Some [] else None)"
| "a2b q l p (c # s) =
     (if c = CHR ''='' then
        if 2 \<le> q then if q + Suc p \<ge> 4 then Some [] else a2b q l (Suc p) s
        else a2b q l p s
      else case b64_val c of
        None \<Rightarrow> a2b q l p s
      | Some v \<Rightarrow>
          if q = 0 then a2b 1 v 0 s
          else if q = 1 then map_option ((#) (word_of_nat (4 * l + v div 16))) (a2b 2 (v mod 16) 0 s)
          else if q = 2 then map_option ((#) (word_of_nat (16 * l + v div 4))) (a2b 3 (v mod 4) 0 s)
          else map_option ((#) (word_of_nat (64 * l + v))) (a2b 0 0 0 s))"

definition b64_decode :: "string \<Rightarrow> bytes option" where
  "b64_decode s = a2b 0 0 0 s"

lemma b64_val_char: "n < 64 \<Longrightarrow> b64_val (b64_char n) = Some n"
  by (auto simp: b64_val_def b64_char_def Let_def)

lemma b64_char_not_pad: "n < 64 \<Longrightarrow> b64_char n \<noteq> CHR ''=''"
  using b64_val_char [of n] by (auto simp: b64_val_def)

lemma b64_char_ascii: "n < 64 \<Longrightarrow> (of_char (b64_char n) :: nat) < 128"
  by (auto simp: b64_char_def)

lemma a2b_char [simp]:
  assumes "n < 64"
  shows "a2b 0 l p (b64_char n # s) = a2b 1 n 0 s"
    "a2b (Suc 0) l p (b64_char n # s) = map_option ((#) (word_of_nat (4 * l + n div 16))) (a2b 2 (n mod 16) 0 s)"
    "a2b 2 l p (b64_char n # s) = map_option ((#) (word_of_nat (16 * l + n div 4))) (a2b 3 (n mod 4) 0 s)"
    "a2b 3 l p (b64_char n # s) = map_option ((#) (word_of_nat (64 * l + n))) (a2b 0 0 0 s)"
  using assms by (simp_all add: b64_val_char b64_char_not_pad)

lemma byte_quarters:
  fixes a b c :: nat
  assumes "a < 256" "b < 256" "c < 256"
  shows "a div 4 < 64" "a mod 4 * 16 < 64" "a mod 4 * 16 + b div 16 < 64" "b mod 16 * 4 < 64"
    "b mod 16 * 4 + c div 64 < 64" "c mod 64 < 64"
    "4 * (a div 4) + (a mod 4 * 16) div 16 = a" "4 * (a div 4) + (a mod 4 * 16 + b div 16) div 16 = a"
    "16 * ((a mod 4 * 16 + b div 16) mod 16) + (b mod 16 * 4) div 4 = b"
    "16 * ((a mod 4 * 16 + b div 16) mod 16) + (b mod 16 * 4 + c div 64) div 4 = b"
    "64 * ((b mod 16 * 4 + c div 64) mod 4) + c mod 64 = c"
proof -
  have lt: "b div 16 < 16" "c div 64 < 4" using assms by linarith+
  have "(x * 16 + b div 16) div 16 = x" "(x * 16 + b div 16) mod 16 = b div 16"
    "(x * 4 + c div 64) div 4 = x" "(x * 4 + c div 64) mod 4 = c div 64" for x :: nat
    using lt by simp_all
  then show "4 * (a div 4) + (a mod 4 * 16) div 16 = a" "4 * (a div 4) + (a mod 4 * 16 + b div 16) div 16 = a"
    "16 * ((a mod 4 * 16 + b div 16) mod 16) + (b mod 16 * 4) div 4 = b"
    "16 * ((a mod 4 * 16 + b div 16) mod 16) + (b mod 16 * 4 + c div 64) div 4 = b"
    "64 * ((b mod 16 * 4 + c div 64) mod 4) + c mod 64 = c"
    by simp_all
qed (use assms in linarith)+

interpretation b64: codec b64_encode b64_decode "\<lambda>_. True" "\<lambda>bs. bs"
proof
  show "b64_decode (b64_encode bs) = Some bs" for bs
    unfolding b64_decode_def
  proof (induction bs rule: b64_encode.induct)
    case 1
    show ?case by simp
  next
    case (2 a)
    note u = byte_quarters [OF unat_byte_bound [of a] unat_byte_bound [of a] unat_byte_bound [of a]]
    have "a2b 2 l 0 ''=='' = Some []" for l by simp
    then show ?case using u(1,2,7) by (simp del: a2b.simps of_nat_add of_nat_mult)
  next
    case (3 a b)
    note u = byte_quarters [OF unat_byte_bound [of a] unat_byte_bound [of b] unat_byte_bound [of b]]
    have "a2b 3 l 0 ''='' = Some []" for l by simp
    then show ?case using u(1,3,4,8,9) by (simp del: a2b.simps of_nat_add of_nat_mult)
  next
    case (4 a b c bs)
    note u = byte_quarters [OF unat_byte_bound [of a] unat_byte_bound [of b] unat_byte_bound [of c]]
    show ?case using u(1,3,5,6,8,10,11) 4 by (simp del: a2b.simps of_nat_add of_nat_mult)
  qed
qed

section \<open>JSON from bytes\<close>

text \<open>
  \<open>json.detect_encoding\<close>, with the byte width and the byte order of the wide encodings; a code
  point above U+00FF has no \<open>char\<close>, so a wide text with one is no text here, as in \<open>utf8_dec\<close>.
\<close>

fun units :: "nat \<Rightarrow> bytes \<Rightarrow> bytes list option" where
  "units k bs = (if bs = [] then Some [] else if k = 0 \<or> length bs < k then None
     else map_option ((#) (take k bs)) (units k (drop k bs)))"

declare units.simps [simp del]

definition wide_dec :: "nat \<Rightarrow> bool \<Rightarrow> bytes \<Rightarrow> string option" where
  "wide_dec k big bs = Option.bind (units k bs) (\<lambda>us.
     let vs = map (\<lambda>u. foldl (\<lambda>a b. 256 * a + unat b) 0 (if big then u else rev u)) us
     in if list_all (\<lambda>v. v < 256) vs then Some (map char_of vs) else None)"

definition json_decode :: "bytes \<Rightarrow> string option" where
  "json_decode b =
     (if take 4 b = [0, 0, 254, 255] then wide_dec 4 True (drop 4 b)
      else if take 4 b = [255, 254, 0, 0] then wide_dec 4 False (drop 4 b)
      else if take 2 b = [254, 255] then wide_dec 2 True (drop 2 b)
      else if take 2 b = [255, 254] then wide_dec 2 False (drop 2 b)
      else if take 3 b = [239, 187, 191] then utf8_dec (drop 3 b)
      else if length b \<ge> 4 \<and> b ! 0 = 0 then if b ! 1 \<noteq> 0 then wide_dec 2 True b else wide_dec 4 True b
      else if length b \<ge> 4 \<and> b ! 1 = 0
      then if b ! 2 \<noteq> 0 \<or> b ! 3 \<noteq> 0 then wide_dec 2 False b else wide_dec 4 False b
      else if length b = 2 \<and> b ! 0 = 0 then wide_dec 2 True b
      else if length b = 2 \<and> b ! 1 = 0 then wide_dec 2 False b
      else utf8_dec b)"

definition json_loads_bytes :: "bytes \<Rightarrow> json option" where
  "json_loads_bytes b = Option.bind (json_decode b) json_loads"

section \<open>Codes\<close>

definition PREFIX :: string where "PREFIX = ''kindled1:''"
definition MAX_CODE_LEN :: nat where "MAX_CODE_LEN = 8192"

definition encode_code :: "ext \<Rightarrow> dict \<Rightarrow> string" where
  "encode_code X invite = PREFIX @ b64_encode (canonical_json X (JObj invite))"

definition decode_code :: "json \<Rightarrow> dict res" where
  "decode_code code =
     (case code of
        JStr s \<Rightarrow>
          if \<not> prefix PREFIX s then Inl (ConnectCodeError ''missing kindled1: prefix'')
          else if length s > MAX_CODE_LEN then Inl (ConnectCodeError ''connect-code too large'')
          else
            let b64 = py_strip (drop (length PREFIX) s) in
            if \<not> list_all (\<lambda>c. (of_char c :: nat) < 128) b64 then Inl (ConnectCodeError ''malformed connect-code'')
            else (case Option.bind (b64_decode b64) json_loads_bytes of
                    None \<Rightarrow> Inl (ConnectCodeError ''malformed connect-code'')
                  | Some (JObj payload) \<Rightarrow> Inr payload
                  | Some _ \<Rightarrow> Inl (ConnectCodeError ''connect-code payload is not an object''))
      | _ \<Rightarrow> Inl (ConnectCodeError ''missing kindled1: prefix''))"

section \<open>The round trip\<close>

definition code_char :: "char \<Rightarrow> bool" where
  "code_char c \<longleftrightarrow> (of_char c :: nat) < 128 \<and> \<not> is_space c"

lemma code_char_b64: "n < 64 \<Longrightarrow> code_char (b64_char n)"
  by (auto simp: code_char_def b64_char_def is_space_def Let_def)

lemma b64_encode_chars: "list_all code_char (b64_encode bs)"
proof (induction bs rule: b64_encode.induct)
  case (2 a)
  show ?case using byte_quarters(1,2) [OF unat_byte_bound [of a] unat_byte_bound [of a] unat_byte_bound [of a]]
    by (simp add: code_char_b64) (simp add: code_char_def is_space_def)
next
  case (3 a b)
  show ?case using byte_quarters(1,3,4) [OF unat_byte_bound [of a] unat_byte_bound [of b] unat_byte_bound [of b]]
    by (simp add: code_char_b64) (simp add: code_char_def is_space_def)
next
  case (4 a b c bs)
  then show ?case using byte_quarters(1,3,5,6) [OF unat_byte_bound [of a] unat_byte_bound [of b] unat_byte_bound [of c]]
    by (simp add: code_char_b64)
qed simp

lemma dropWhile_none: "list_all (\<lambda>x. \<not> P x) xs \<Longrightarrow> dropWhile P xs = xs"
  by (cases xs) auto

lemma py_strip_code: "list_all code_char s \<Longrightarrow> py_strip s = s"
proof -
  assume "list_all code_char s"
  then have "list_all (\<lambda>c. \<not> is_space c) s" "list_all (\<lambda>c. \<not> is_space c) (rev s)"
    by (auto simp: code_char_def list_all_iff)
  then show ?thesis by (simp add: py_strip_def dropWhile_none)
qed

lemma canonical_json_obj_head:
  obtains b bs where "canonical_json X (JObj d) = 123 # b # bs" "b \<in> {34, 125}"
proof (cases d)
  case Nil
  then have "canonical_json X (JObj d) = [123, 125]" by (simp add: canonical_json_def utf8_enc_def)
  then show ?thesis using that by simp
next
  case (Cons m ms)
  then obtain m' ms' where "sort_key fst d = m' # ms'" by (metis length_0_conv length_sort list.exhaust list.distinct(1))
  then obtain r where r: "canon_text X (JObj d) = CHR ''{'' # CHR 0x22 # r"
    unfolding canon_text_obj by (cases ms') (auto simp: quote_def split: prod.split)
  have "canonical_json X (JObj d) = 123 # 34 # utf8_enc r"
    unfolding canonical_json_def r by (simp add: utf8_enc_def)
  then show ?thesis using that by simp
qed

lemma json_decode_canonical: "json_decode (canonical_json X (JObj d)) = utf8_dec (canonical_json X (JObj d))"
proof -
  obtain b bs where "canonical_json X (JObj d) = 123 # b # bs" "b \<in> {34, 125}" by (rule canonical_json_obj_head)
  then show ?thesis by (cases bs; cases "tl bs") (auto simp: json_decode_def)
qed

lemma decode_encode_code:
  assumes "plain (JObj invite)" "list_all is_space blanks"
    and "length (encode_code X invite @ blanks) \<le> MAX_CODE_LEN"
  shows "decode_code (JStr (encode_code X invite @ blanks)) = Inr (map (\<lambda>m. (fst m, canon (snd m))) (sort_key fst invite))"
proof -
  let ?b = "b64_encode (canonical_json X (JObj invite))"
  have "py_strip (?b @ blanks) = py_strip ?b"
  proof -
    have "rev (dropWhile is_space (?b @ blanks)) = rev blanks @ rev (dropWhile is_space ?b) \<or> ?b = []"
      using b64_encode_chars [of "canonical_json X (JObj invite)"] by (cases ?b) (auto simp: code_char_def)
    moreover have "dropWhile is_space (rev blanks @ ys) = dropWhile is_space ys" for ys
      using assms(2) by (auto simp: dropWhile_append list_all_iff)
    moreover have "?b \<noteq> []"
      using canonical_json_obj_head [of X invite] b64.dec_enc [of "canonical_json X (JObj invite)"]
      by (metis b64_decode_def a2b.simps(1) option.inject list.distinct(1))
    ultimately show ?thesis by (auto simp: py_strip_def)
  qed
  then have strip: "py_strip (?b @ blanks) = ?b" using b64_encode_chars by (simp add: py_strip_code)
  have "json_loads_bytes (canonical_json X (JObj invite)) = Some (canon (JObj invite))"
    using cjson.dec_enc [OF assms(1), of X] by (simp add: json_loads_bytes_def json_decode_canonical)
  then have "Option.bind (b64_decode ?b) json_loads_bytes = Some (canon (JObj invite))"
    by (simp add: b64.dec_enc)
  moreover have "list_all (\<lambda>c. (of_char c :: nat) < 128) ?b"
    using b64_encode_chars [of "canonical_json X (JObj invite)"] by (auto simp: code_char_def list_all_iff)
  ultimately show ?thesis using assms(3) strip
    by (simp add: decode_code_def encode_code_def Let_def canon_obj del: canon.simps)
qed

text \<open>
  A connect code is read back to the invite it was made from. Every invite without floats
  whose code has at most 8192 characters is decoded to the same object (its keys sorted), also
  when the code was pasted with surrounding blanks.
\<close>

theorem connect_code_roundtrip:
  assumes "plain (JObj invite)" "list_all is_space blanks"
    and "length (encode_code X invite @ blanks) \<le> MAX_CODE_LEN"
  shows "map_sum id JObj (decode_code (JStr (encode_code X invite @ blanks))) = Inr (canon (JObj invite))"
  using decode_encode_code [OF assms] by (simp add: canon_obj del: canon.simps)

text \<open>A bound on the length of a code, by the lengths of the texts in the invite.\<close>

fun text_bound :: "json \<Rightarrow> nat" where
  "text_bound (JStr s) = 6 * length s + 2"
| "text_bound (JObj d) = 2 + (\<Sum>(k, v)\<leftarrow>d. 6 * length k + 4 + text_bound v)"
| "text_bound _ = 0"

fun text_only :: "json \<Rightarrow> bool" where
  "text_only (JStr s) = True"
| "text_only (JObj d) = list_all (\<lambda>(k, v). text_only v) d"
| "text_only _ = False"

lemma b64_encode_length: "3 * length (b64_encode bs) \<le> 4 * length bs + 8"
  by (induction bs rule: b64_encode.induct) auto

lemma utf8_enc_length: "length (utf8_enc s) \<le> 2 * length s"
  by (induction s) (auto simp: utf8_enc_def Let_def)

lemma quote_length: "length (quote False s) \<le> 6 * length s + 2"
proof -
  have "length (escape_char False c) \<le> 6" for c by (simp add: escape_char_def Let_def)
  then have "length (concat (map (escape_char False) s)) \<le> 6 * length s"
    by (induction s) (auto intro: add_mono)
  then show ?thesis by (simp add: quote_def)
qed

lemma sum_list_sort_key: "(\<Sum>x\<leftarrow>sort_key f xs. g x) = (\<Sum>x\<leftarrow>xs. (g x :: nat))"
proof -
  have "(\<Sum>x\<leftarrow>insort_key f a ys. g x) = g a + (\<Sum>x\<leftarrow>ys. g x)" for a ys by (induction ys) auto
  then show ?thesis by (induction xs) auto
qed

lemma join_length: "length (join '','' xs) \<le> (\<Sum>x\<leftarrow>xs. length x + 1)"
  by (induction xs rule: induct_list012) auto

lemma canon_text_bound: "text_only j \<Longrightarrow> length (canon_text X j) \<le> text_bound j"
proof (induction j)
  case (JStr s)
  then show ?case using quote_length by simp
next
  case (JObj d)
  have m: "length (member_text X m) + 1 \<le> (case m of (k, v) \<Rightarrow> 6 * length k + 4 + text_bound v)" if "m \<in> set d" for m
  proof -
    obtain k v where kv: "m = (k, v)" by (cases m)
    have "length (canon_text X v) \<le> text_bound v"
      using JObj.IH [of m v] JObj.prems that kv by (auto simp: list_all_iff)
    with quote_length [of k] show ?thesis by (simp add: kv)
  qed
  have "length (join '','' (map (member_text X) (sort_key fst d))) \<le> (\<Sum>m\<leftarrow>sort_key fst d. length (member_text X m) + 1)"
    using join_length [of "map (member_text X) (sort_key fst d)"] by (simp add: comp_def)
  also have "\<dots> = (\<Sum>m\<leftarrow>d. length (member_text X m) + 1)" by (rule sum_list_sort_key)
  also have "\<dots> \<le> (\<Sum>(k, v)\<leftarrow>d. 6 * length k + 4 + text_bound v)"
    using m by (intro sum_list_mono) auto
  finally show ?case unfolding canon_text_obj by simp
qed auto

lemma encode_code_length:
  assumes "text_only (JObj invite)" "text_bound (JObj invite) \<le> 3000"
  shows "length (encode_code X invite @ s) \<le> 8020 + length s"
proof -
  have "length (canonical_json X (JObj invite)) \<le> 6000"
    using canon_text_bound [OF assms(1), of X] assms(2) utf8_enc_length [of "canon_text X (JObj invite)"]
    by (simp add: canonical_json_def del: dumps.simps)
  then show ?thesis using b64_encode_length [of "canonical_json X (JObj invite)"] by (simp add: encode_code_def PREFIX_def)
qed

theorem connect_code_roundtrip_witness:
  "\<forall>X. map_sum id JObj (decode_code (JStr (encode_code X [(''body'', JStr ''x'')] @ '' ''))) = Inr (JObj [(''body'', JStr ''x'')])"
proof
  fix X
  have "length (encode_code X [(''body'', JStr ''x'')] @ '' '') \<le> MAX_CODE_LEN"
    using encode_code_length [of "[(''body'', JStr ''x'')]" X "'' ''"] by (simp add: MAX_CODE_LEN_def)
  from connect_code_roundtrip [OF _ _ this]
  show "map_sum id JObj (decode_code (JStr (encode_code X [(''body'', JStr ''x'')] @ '' ''))) = Inr (JObj [(''body'', JStr ''x'')])"
    by (simp add: is_space_def)
qed

end
