(* ===== verification/Pairing.thy ===== *)
theory Pairing
  imports Connect_Code Protocol Store_Rotation
begin

text \<open>
  Invite-only pairing (\<open>kindled_link/pairing.py\<close>) and the bridge's pairing endpoints
  (\<open>bridge/server.py\<close>): signed invites, their import with every check in the code's order, the
  consent steps, one-step connection by code, the consent actions and the rotation of the local
  identity. A request is a JSON value of any shape.
\<close>

definition INVITE_TTL :: int where "INVITE_TTL = 7 * day"

definition create_invite :: "ext \<Rightarrow> identity \<Rightarrow> json \<Rightarrow> string option \<Rightarrow> time \<Rightarrow> string \<Rightarrow> dict" where
  "create_invite X idn url mailbox_id now token =
     (let body =
        [(''protocol'', JStr SUPPORTED_PROTOCOL),
         (''invite_id'', JStr (''inv_'' @ token)),
         (''relay_url'', url),
         (''identity_pub'', JStr (bytes_hex (public_bytes X idn))),
         (''fingerprint'', JStr (key_id X idn)),
         (''expires_at'', JStr (isoformat (now + INVITE_TTL)))];
          body = (case mailbox_id of None \<Rightarrow> body | Some m \<Rightarrow> dset ''mailbox_id'' (JStr m) body)
      in [(''body'', JObj body), (''signature'', JStr (bytes_hex (sign X idn (canonical_json X (JObj body)))))])"

text \<open>\<open>d[key]\<close> of a JSON value: only an object has text keys.\<close>

definition subscript :: "string \<Rightarrow> json \<Rightarrow> json res" where
  "subscript k j = (case j of JObj d \<Rightarrow> (case dget k d of None \<Rightarrow> Inl KeyError | Some v \<Rightarrow> Inr v) | _ \<Rightarrow> Inl TypeError)"

definition fromhex_json :: "json \<Rightarrow> bytes res" where
  "fromhex_json j = (case j of JStr s \<Rightarrow> (case bytes_fromhex s of None \<Rightarrow> Inl ValueError | Some b \<Rightarrow> Inr b) | _ \<Rightarrow> Inl TypeError)"

text \<open>\<open>datetime.fromisoformat(j) < now\<close>.\<close>

definition before_now :: "json \<Rightarrow> time \<Rightarrow> bool res" where
  "before_now j now =
     (case j of
        JStr s \<Rightarrow> (case fromisoformat s of At t \<Rightarrow> Inr (t < now) | AtNaive _ \<Rightarrow> Inl TypeError | NotIso \<Rightarrow> Inl ValueError)
      | _ \<Rightarrow> Inl TypeError)"

text \<open>The ledger with a bound id: \<open>NULL\<close> equals no row, and a row with it is never found again.\<close>

definition invite_consumed :: "ext \<Rightarrow> json \<Rightarrow> store \<Rightarrow> bool res" where
  "invite_consumed X iid st =
     bind_res (bind_text X iid) (\<lambda>i. Inr (case i of None \<Rightarrow> False | Some i \<Rightarrow> is_invite_consumed st i))"

definition consume_invite :: "ext \<Rightarrow> json \<Rightarrow> time \<Rightarrow> store \<Rightarrow> store res" where
  "consume_invite X iid now st =
     bind_res (bind_text X iid) (\<lambda>i. case i of None \<Rightarrow> Inr st | Some i \<Rightarrow> mark_invite_consumed i now st)"

text \<open>
  The part of \<open>import_invite\<close> under the guard: the public key, the body and the fingerprint of a
  valid invite. The guard turns \<open>KeyError\<close>, \<open>ValueError\<close>, \<open>TypeError\<close> and \<open>AttributeError\<close> into
  \<open>malformed_invite\<close>; the errors of binding a value are not among them.
\<close>

definition check_body :: "ext \<Rightarrow> bytes \<Rightarrow> bytes \<Rightarrow> dict \<Rightarrow> time \<Rightarrow> store \<Rightarrow> (bytes \<times> dict) res" where
  "check_body X sig pub b now st =
     (if dget ''protocol'' b \<noteq> Some (JStr SUPPORTED_PROTOCOL) then Inl (InviteError ''protocol_mismatch'')
      else if \<not> verify X pub sig (canonical_json X (JObj b)) then Inl (InviteError ''bad_signature'')
      else bind_res (subscript ''fingerprint'' (JObj b)) (\<lambda>fp.
        if fp \<noteq> JStr (fingerprint X pub) then Inl (InviteError ''fingerprint_mismatch'')
        else bind_res (bind_res (subscript ''expires_at'' (JObj b)) (\<lambda>e. before_now e now)) (\<lambda>old.
          if old then Inl (InviteError ''expired'')
          else bind_res (bind_res (subscript ''invite_id'' (JObj b)) (\<lambda>i. invite_consumed X i st)) (\<lambda>used.
            if used then Inl (InviteError ''invite_consumed'') else Inr (pub, b)))))"

definition check_invite :: "ext \<Rightarrow> json \<Rightarrow> time \<Rightarrow> store \<Rightarrow> (bytes \<times> dict) res" where
  "check_invite X invite now st =
     bind_res (subscript ''body'' invite) (\<lambda>body.
     bind_res (bind_res (subscript ''signature'' invite) fromhex_json) (\<lambda>sig.
     bind_res (bind_res (subscript ''identity_pub'' body) fromhex_json) (\<lambda>pub.
     case body of JObj b \<Rightarrow> check_body X sig pub b now st | _ \<Rightarrow> Inl AttributeError)))"

definition guard_invite :: "'a res \<Rightarrow> 'a res" where
  "guard_invite r =
     (case r of
        Inl KeyError \<Rightarrow> Inl (InviteError ''malformed_invite'')
      | Inl ValueError \<Rightarrow> Inl (InviteError ''malformed_invite'')
      | Inl TypeError \<Rightarrow> Inl (InviteError ''malformed_invite'')
      | Inl AttributeError \<Rightarrow> Inl (InviteError ''malformed_invite'')
      | _ \<Rightarrow> r)"

definition import_invite :: "ext \<Rightarrow> json \<Rightarrow> time \<Rightarrow> (store, string \<times> string) prog" where
  "import_invite X invite now =
     seqp (\<lambda>st. (guard_invite (check_invite X invite now st), st)) (\<lambda>(pub, body).
     seqp (attempts (consume_invite X (dget_or ''invite_id'' JNull body) now)) (\<lambda>_.
     seqp (lift (subscript ''relay_url'' (JObj body))) (\<lambda>url.
     seqp (lift (bind_text X url)) (\<lambda>url.
     seqp (lift (bind_text X (dget_or ''mailbox_id'' JNull body))) (\<lambda>mailbox.
     seqp (attempts (upsert_peer (fingerprint X pub) (bytes_hex pub) (fingerprint X pub) ''pending_local'' url mailbox now)) (\<lambda>_.
     ret (fingerprint X pub, fingerprint_phrase X pub)))))))"

definition confirm_local_fingerprint :: "string \<Rightarrow> time \<Rightarrow> (store, unit) prog" where
  "confirm_local_fingerprint peer_id now = attempts (set_consent peer_id ''pending_remote'' now)"

definition mark_remote_paired :: "string \<Rightarrow> time \<Rightarrow> (store, unit) prog" where
  "mark_remote_paired peer_id now = attempts (set_consent peer_id ''paired'' now)"

section \<open>Endpoints\<close>

text \<open>The two settings of \<open>persona_config.json\<close> that the endpoints use, beside the store.\<close>

record bridge =
  db :: store
  kindled_link_enabled :: bool
  kindled_relay_url :: "string option"

definition DEFAULT_KINDLED_RELAY_URL :: string where
  "DEFAULT_KINDLED_RELAY_URL = ''https://kindled-relay.kindledrelay.workers.dev''"

definition on_db :: "(store, 'a) prog \<Rightarrow> (bridge, 'a) prog" where
  "on_db m w = (case m (db w) of (r, st) \<Rightarrow> (r, w\<lparr>db := st\<rparr>))"

text \<open>A response: the value, or an HTTP error of the given status.\<close>

datatype 'a response = Response 'a | HttpError nat

text \<open>\<open>except (InviteError, ConsentTransitionError) as exc: raise HTTPException(400)\<close>.\<close>

definition as_400 :: "(bridge, 'a) prog \<Rightarrow> (bridge, 'a response) prog" where
  "as_400 m w =
     (case m w of
        (Inl (InviteError _), w') \<Rightarrow> (Inr (HttpError 400), w')
      | (Inl (ConsentTransitionError _), w') \<Rightarrow> (Inr (HttpError 400), w')
      | (Inl e, w') \<Rightarrow> (Inl e, w')
      | (Inr x, w') \<Rightarrow> (Inr (Response x), w'))"

definition own_relay :: "bridge \<Rightarrow> string" where
  "own_relay w = (case kindled_relay_url w of None \<Rightarrow> DEFAULT_KINDLED_RELAY_URL | Some u \<Rightarrow> if u = [] then DEFAULT_KINDLED_RELAY_URL else u)"

definition kindled_create_invite ::
    "ext \<Rightarrow> identity \<Rightarrow> dict \<Rightarrow> time \<Rightarrow> string \<Rightarrow> string \<Rightarrow> (bridge, dict \<times> string \<times> string) prog" where
  "kindled_create_invite X idn payload now token mbx_token =
     (let u = dget_or ''relay_url'' JNull payload;
          url = (if truthy u then u else JStr '''') in
      seqp (on_db (calls_to (get_or_create_local_mailbox mbx_token))) (\<lambda>mailbox.
      ret (create_invite X idn url (Some mailbox) now token, key_id X idn, fingerprint_phrase X (public_bytes X idn))))"

definition kindled_my_code ::
    "ext \<Rightarrow> identity \<Rightarrow> time \<Rightarrow> string \<Rightarrow> string \<Rightarrow> (bridge, string \<times> string) prog" where
  "kindled_my_code X idn now token mbx_token =
     seqp (reads own_relay) (\<lambda>url.
     seqp (on_db (calls_to (get_or_create_local_mailbox mbx_token))) (\<lambda>mailbox.
     ret (encode_code X (create_invite X idn (JStr url) (Some mailbox) now token),
          fingerprint_phrase X (public_bytes X idn))))"

text \<open>\<open>binascii.unhexlify\<close>: like \<open>bytes.fromhex\<close> but with no blanks allowed.\<close>

definition unhexlify :: "json \<Rightarrow> bytes res" where
  "unhexlify j =
     (case j of
        JStr s \<Rightarrow> if list_ex is_ascii_space s then Inl ValueError
                  else (case bytes_fromhex s of None \<Rightarrow> Inl ValueError | Some b \<Rightarrow> Inr b)
      | _ \<Rightarrow> Inl TypeError)"

text \<open>\<open>invite.get("body", {}).get("fingerprint")\<close>.\<close>

definition code_peer_id :: "dict \<Rightarrow> json res" where
  "code_peer_id invite =
     (case dget ''body'' invite of
        None \<Rightarrow> Inr JNull
      | Some (JObj b) \<Rightarrow> Inr (dget_or ''fingerprint'' JNull b)
      | Some _ \<Rightarrow> Inl AttributeError)"

definition bind_peer :: "ext \<Rightarrow> json \<Rightarrow> (store, peer_row option) prog" where
  "bind_peer X pid =
     (if \<not> truthy pid then ret None
      else seqp (lift (bind_text X pid)) (\<lambda>p.
        case p of None \<Rightarrow> ret None | Some p \<Rightarrow> reads (\<lambda>st. get_peer st p)))"

definition pair_by_invite :: "ext \<Rightarrow> dict \<Rightarrow> time \<Rightarrow> (store, json \<times> peer_row option) prog" where
  "pair_by_invite X invite now =
     seqp (lift (code_peer_id invite)) (\<lambda>existing_peer_id.
     seqp (bind_peer X existing_peer_id) (\<lambda>existing.
     if (case existing of None \<Rightarrow> False | Some r \<Rightarrow> consent_state r = ''paired'')
     then ret (existing_peer_id, existing)
     else
       seqp (import_invite X (JObj invite) now) (\<lambda>(peer_id, phrase).
       seqp (confirm_local_fingerprint peer_id now) (\<lambda>_.
       seqp (mark_remote_paired peer_id now) (\<lambda>_.
       seqp (reads (\<lambda>st. get_peer st peer_id)) (\<lambda>peer.
       ret (JStr peer_id, peer)))))))"

record connected =
  cn_peer_id :: json
  cn_consent :: string
  cn_relay_url :: string
  cn_phrase :: string

definition kindled_connect :: "ext \<Rightarrow> dict \<Rightarrow> time \<Rightarrow> (bridge, connected response) prog" where
  "kindled_connect X payload now =
     seqp (reads (\<lambda>w. kindled_relay_url w = None \<and> \<not> kindled_link_enabled w)) (\<lambda>never_enabled.
     if never_enabled then ret (HttpError 400) else
     let code = dget_or ''code'' JNull payload in
     if \<not> truthy code then ret (HttpError 400) else
     case decode_code code of Inl _ \<Rightarrow> ret (HttpError 400) | Inr invite \<Rightarrow>
     seqp (as_400 (on_db (pair_by_invite X invite now))) (\<lambda>paired.
     case paired of HttpError n \<Rightarrow> ret (HttpError n) | Response (peer_id, peer) \<Rightarrow>
     seqp (reads own_relay) (\<lambda>url.
     seqp (writes (\<lambda>w. if kindled_relay_url w = Some url then w else w\<lparr>kindled_relay_url := Some url\<rparr>)) (\<lambda>_.
     seqp (lift (bind_res (bind_res (subscript ''body'' (JObj invite)) (subscript ''identity_pub'')) unhexlify)) (\<lambda>pub.
     ret (Response \<lparr>cn_peer_id = peer_id,
            cn_consent = (case peer of None \<Rightarrow> ''paired'' | Some r \<Rightarrow> consent_state r),
            cn_relay_url = url, cn_phrase = fingerprint_phrase X pub\<rparr>))))))"

definition kindled_accept_invite :: "ext \<Rightarrow> dict \<Rightarrow> time \<Rightarrow> time \<Rightarrow> (bridge, (string \<times> string) response) prog" where
  "kindled_accept_invite X payload now now2 =
     (let invite = dget_or ''invite'' JNull payload in
      if \<not> truthy invite then ret (HttpError 400)
      else as_400 (on_db (
        seqp (import_invite X invite now) (\<lambda>(peer_id, phrase).
        seqp (confirm_local_fingerprint peer_id now2) (\<lambda>_. ret (peer_id, phrase))))))"

definition consent_action :: "json \<Rightarrow> string option" where
  "consent_action a =
     (case a of JStr s \<Rightarrow> map_of [(''pause'', ''paused''), (''resume'', ''paired''), (''revoke'', ''revoked''), (''block'', ''blocked'')] s
      | _ \<Rightarrow> None)"

definition kindled_set_consent :: "string \<Rightarrow> dict \<Rightarrow> time \<Rightarrow> (bridge, (string \<times> string) response) prog" where
  "kindled_set_consent peer_id payload now =
     (case dget_or ''action'' (JStr '''') payload of
        JList _ \<Rightarrow> raise TypeError
      | JObj _ \<Rightarrow> raise TypeError
      | action \<Rightarrow>
          (case consent_action action of
             None \<Rightarrow> ret (HttpError 400)
           | Some new_state \<Rightarrow>
               as_400 (seqp (on_db (attempts (set_consent peer_id new_state now))) (\<lambda>_. ret (peer_id, new_state)))))"

definition kindled_rotate_identity ::
    "ext \<Rightarrow> bytes \<Rightarrow> bytes \<Rightarrow> time \<Rightarrow> bytes option \<Rightarrow> (bridge, string \<times> string) prog" where
  "kindled_rotate_identity X fresh0 fresh now file =
     (let ((new_idn, old_idn), _) = rotate_key fresh0 fresh file in
      seqp (on_db (seqp (reads list_paired_peers) (forp (\<lambda>peer.
        writes (queue_rotation_notice (p_id peer)
          (build_key_rotation_notice X old_idn (public_bytes X new_idn) (key_id X new_idn)
            (JStr (case relay_mailbox peer of None \<Rightarrow> '''' | Some m \<Rightarrow> m)) (p_id peer) now (7 * day)) now)))))
      (\<lambda>_. ret (key_id X new_idn, fingerprint_phrase X (public_bytes X new_idn))))"

section \<open>Canonical form and the wire\<close>

lemma sort_key_idem: "sort_key f (sort_key f xs) = sort_key f xs"
  by (simp add: sort_key_id_if_sorted)

lemma canonical_json_canon: "canonical_json X (canon j) = canonical_json X j"
proof -
  have "canon_text X (canon j) = canon_text X j"
  proof (induction j)
    case (JList xs)
    then show ?case by (simp add: comp_def cong: map_cong)
  next
    case (JObj d)
    have val: "canon_text X (canon (snd m)) = canon_text X (snd m)" if "m \<in> set d" for m
      using JObj [of m "snd m"] that by (cases m) auto
    have "canon_text X (canon (JObj d)) =
        ''{'' @ join '','' (map (member_text X) (sort_key fst (map (\<lambda>m. (fst m, canon (snd m))) (sort_key fst d)))) @ ''}''"
      unfolding canon_obj canon_text_obj ..
    also have "sort_key fst (map (\<lambda>m. (fst m, canon (snd m))) (sort_key fst d)) = map (\<lambda>m. (fst m, canon (snd m))) (sort_key fst d)"
      by (simp add: sort_key_map [where key = fst] sort_key_idem)
    also have "map (member_text X) (map (\<lambda>m. (fst m, canon (snd m))) (sort_key fst d)) = map (member_text X) (sort_key fst d)"
      using val by (auto simp: case_prod_unfold)
    finally show ?case unfolding canon_text_obj .
  qed auto
  then show ?thesis by (simp add: canonical_json_def)
qed

lemma map_of_perm: "distinct (map fst d) \<Longrightarrow> distinct (map fst e) \<Longrightarrow> set d = set e \<Longrightarrow> map_of d = map_of e"
  by (rule map_of_inject_set [THEN iffD2])

lemma dget_canon:
  assumes "distinct (map fst d)"
  shows "dget k (map (\<lambda>m. (fst m, canon (snd m))) (sort_key fst d)) = map_option canon (dget k d)"
proof -
  have "distinct (map fst (sort_key fst d))" using assms by (simp add: distinct_map)
  then have "map_of (sort_key fst d) = map_of d" by (rule map_of_perm [OF _ assms]) simp
  moreover have "map_of (map (\<lambda>m. (fst m, canon (snd m))) e) k = map_option canon (map_of e k)" for e
    by (induction e) auto
  ultimately show ?thesis by (simp add: dget_def)
qed

section \<open>What an imported invite is\<close>

lemma guard_invite_Inr [simp]: "guard_invite r = Inr x \<longleftrightarrow> r = Inr x"
  by (auto simp: guard_invite_def split: sum.splits exn.splits)

lemma subscript_Inr [simp]: "subscript k j = Inr v \<longleftrightarrow> (\<exists>d. j = JObj d \<and> dget k d = Some v)"
  by (auto simp: subscript_def split: json.splits option.splits)

lemma fromhex_json_Inr [simp]: "fromhex_json j = Inr b \<longleftrightarrow> (\<exists>s. j = JStr s \<and> bytes_fromhex s = Some b)"
  by (auto simp: fromhex_json_def split: json.splits option.splits)

lemma before_now_False [simp]:
  "before_now j now = Inr False \<longleftrightarrow> (\<exists>s t. j = JStr s \<and> fromisoformat s = At t \<and> now \<le> t)"
  by (auto simp: before_now_def split: json.splits stamp.splits)

text \<open>The invite is well formed, unexpired, signed by the key it carries, and carries that key's fingerprint.\<close>

definition genuine :: "ext \<Rightarrow> json \<Rightarrow> time \<Rightarrow> bytes \<Rightarrow> dict \<Rightarrow> bool" where
  "genuine X invite now pub b \<longleftrightarrow>
     (\<exists>d sh sig ph es t i. invite = JObj d \<and> dget ''body'' d = Some (JObj b) \<and> dget ''signature'' d = Some (JStr sh) \<and>
        bytes_fromhex sh = Some sig \<and> dget ''identity_pub'' b = Some (JStr ph) \<and> bytes_fromhex ph = Some pub \<and>
        dget ''protocol'' b = Some (JStr SUPPORTED_PROTOCOL) \<and> verify X pub sig (canonical_json X (JObj b)) \<and>
        dget ''fingerprint'' b = Some (JStr (fingerprint X pub)) \<and>
        dget ''expires_at'' b = Some (JStr es) \<and> fromisoformat es = At t \<and> now \<le> t \<and> dget ''invite_id'' b = Some i)"

lemma check_invite_Inr:
  "check_invite X invite now st = Inr (pub, b) \<longleftrightarrow>
     genuine X invite now pub b \<and> invite_consumed X (dget_or ''invite_id'' JNull b) st = Inr False"
proof -
  have body: "check_body X sig pub' c now st = Inr (pub, b) \<longleftrightarrow> pub' = pub \<and> c = b \<and>
      dget ''protocol'' b = Some (JStr SUPPORTED_PROTOCOL) \<and> verify X pub sig (canonical_json X (JObj b)) \<and>
      dget ''fingerprint'' b = Some (JStr (fingerprint X pub)) \<and>
      (\<exists>es t. dget ''expires_at'' b = Some (JStr es) \<and> fromisoformat es = At t \<and> now \<le> t) \<and>
      (\<exists>i. dget ''invite_id'' b = Some i \<and> invite_consumed X i st = Inr False)" for sig pub' c
    by (auto simp: check_body_def bind_res_Inr_iff)
  show ?thesis
    by (auto simp: check_invite_def genuine_def bind_res_Inr_iff dget_or_def body)
qed

lemma import_invite_InrD:
  assumes "import_invite X invite now st = (Inr (p, phrase), st')"
  shows "\<exists>pub b st1 u url m. genuine X invite now pub b \<and> invite_consumed X (dget_or ''invite_id'' JNull b) st = Inr False \<and>
        consume_invite X (dget_or ''invite_id'' JNull b) now st = Inr st1 \<and>
        dget ''relay_url'' b = Some u \<and> bind_text X u = Inr url \<and> bind_text X (dget_or ''mailbox_id'' JNull b) = Inr m \<and>
        upsert_peer (fingerprint X pub) (bytes_hex pub) (fingerprint X pub) ''pending_local'' url m now st1 = Inr st' \<and>
        p = fingerprint X pub \<and> phrase = fingerprint_phrase X pub"
  using assms by (auto simp: import_invite_def seqp_def attempts_def check_invite_Inr split: sum.splits prod.splits)
    blast

lemma import_invite_InrI:
  assumes "genuine X invite now pub b" "dget ''invite_id'' b = Some (JStr i)" "\<not> is_invite_consumed st i"
    "dget ''relay_url'' b = Some u" "bind_text X u = Inr url" "bind_text X (dget_or ''mailbox_id'' JNull b) = Inr m"
  obtains st1 st' where "mark_invite_consumed i now st = Inr st1"
    "upsert_peer (fingerprint X pub) (bytes_hex pub) (fingerprint X pub) ''pending_local'' url m now st1 = Inr st'"
    "import_invite X invite now st = (Inr (fingerprint X pub, fingerprint_phrase X pub), st')"
proof -
  have id: "dget_or ''invite_id'' JNull b = JStr i" using assms(2) by (simp add: dget_or_def)
  have chk: "check_invite X invite now st = Inr (pub, b)"
    using assms(1,3) id by (simp add: check_invite_Inr invite_consumed_def)
  obtain st1 where st1: "mark_invite_consumed i now st = Inr st1" using assms(3) by (simp add: mark_invite_consumed_def)
  obtain st' where st': "upsert_peer (fingerprint X pub) (bytes_hex pub) (fingerprint X pub) ''pending_local'' url m now st1 = Inr st'"
    by (auto simp: upsert_peer_def CONSENT_STATES_def Let_def)
  have "import_invite X invite now st = (Inr (fingerprint X pub, fingerprint_phrase X pub), st')"
    using chk id st1 st' assms(4-6)
    by (simp add: import_invite_def seqp_def attempts_def consume_invite_def guard_invite_def subscript_def)
  with st1 st' show ?thesis by (rule that)
qed

lemma upsert_pending_get:
  "upsert_peer p pub fp ''pending_local'' url m now st = Inr st' \<Longrightarrow>
   \<exists>r. get_peer st' p = Some r \<and> identity_pub r = pub \<and> consent_state r = ''pending_local'' \<and> relay_url r = url"
  by (auto simp: upsert_peer_def get_peer_def Let_def tget_tput dest: tget_key split: if_splits option.splits)

lemma upsert_pending_ok:
  "\<exists>st'. upsert_peer p pub fp ''pending_local'' url m now st = Inr st' \<and> consumed_invites st' = consumed_invites st"
  by (auto simp: upsert_peer_def CONSENT_STATES_def Let_def)

text \<open>
  C34: An invite is imported only if it is genuine: an object with a body and a signature, signed
  over the whole body by the very key the body carries, whose fingerprint is the one the body
  claims, of this protocol, not expired and not yet consumed. The peer then stored is known by
  that fingerprint, with that key, in state \<open>pending_local\<close>, and an invite id that is a text is
  consumed from then on.
\<close>

theorem import_invite_sound:
  assumes "import_invite X invite now st = (Inr (p, phrase), st')"
  shows "\<exists>pub b r. genuine X invite now pub b \<and> p = fingerprint X pub \<and> phrase = fingerprint_phrase X pub \<and>
     get_peer st' p = Some r \<and> identity_pub r = bytes_hex pub \<and> consent_state r = ''pending_local'' \<and>
     (\<forall>i. dget ''invite_id'' b = Some (JStr i) \<longrightarrow> \<not> is_invite_consumed st i \<and> is_invite_consumed st' i)"
proof -
  from assms obtain pub b st1 url m where i: "genuine X invite now pub b"
    "invite_consumed X (dget_or ''invite_id'' JNull b) st = Inr False"
    "consume_invite X (dget_or ''invite_id'' JNull b) now st = Inr st1"
    "upsert_peer (fingerprint X pub) (bytes_hex pub) (fingerprint X pub) ''pending_local'' url m now st1 = Inr st'"
    "p = fingerprint X pub" "phrase = fingerprint_phrase X pub"
    using import_invite_InrD by blast
  have "consumed_invites st' = consumed_invites st1"
    using i(4) upsert_pending_ok [of p "bytes_hex pub" p url m now st1] i(5) by auto
  then have "\<not> is_invite_consumed st j \<and> is_invite_consumed st' j" if "dget ''invite_id'' b = Some (JStr j)" for j
    using i(2,3) that by (auto simp: invite_consumed_def consume_invite_def dget_or_def mark_invite_consumed_def
        is_invite_consumed_def split: if_splits)
  with i upsert_pending_get [OF i(4)] show ?thesis by blast
qed

lemma create_invite_parts:
  obtains b where "create_invite X idn url m now tok' = [(''body'', JObj b), (''signature'', JStr (bytes_hex (sign X idn (canonical_json X (JObj b)))))]"
    "dget ''protocol'' b = Some (JStr SUPPORTED_PROTOCOL)" "dget ''invite_id'' b = Some (JStr (''inv_'' @ tok'))"
    "dget ''relay_url'' b = Some url" "dget ''identity_pub'' b = Some (JStr (bytes_hex (public_bytes X idn)))"
    "dget ''fingerprint'' b = Some (JStr (key_id X idn))" "dget ''expires_at'' b = Some (JStr (isoformat (now + INVITE_TTL)))"
    "dget_or ''mailbox_id'' JNull b = (case m of None \<Rightarrow> JNull | Some s \<Rightarrow> JStr s)"
    "distinct (map fst b)" "plain url \<Longrightarrow> plain (JObj b)"
  by (cases m) (auto simp: create_invite_def Let_def dget_or_def intro: that)

lemma created_genuine:
  assumes "signatures_verify X" "valid_time (t + INVITE_TTL)" "now \<le> t + INVITE_TTL"
    and "create_invite X idn url m t tok' = [(''body'', JObj b), (''signature'', JStr sh)]"
    and "canonical_json X (JObj b') = canonical_json X (JObj b)" "\<And>k s. dget k b = Some (JStr s) \<Longrightarrow> dget k b' = Some (JStr s)"
    and "dget ''body'' d = Some (JObj b')" "dget ''signature'' d = Some (JStr sh)"
  shows "genuine X (JObj d) now (public_bytes X idn) b'"
proof -
  obtain c where c: "create_invite X idn url m t tok' = [(''body'', JObj c), (''signature'', JStr (bytes_hex (sign X idn (canonical_json X (JObj c)))))]"
    "dget ''protocol'' c = Some (JStr SUPPORTED_PROTOCOL)" "dget ''invite_id'' c = Some (JStr (''inv_'' @ tok'))"
    "dget ''identity_pub'' c = Some (JStr (bytes_hex (public_bytes X idn)))"
    "dget ''fingerprint'' c = Some (JStr (key_id X idn))" "dget ''expires_at'' c = Some (JStr (isoformat (t + INVITE_TTL)))"
    by (rule create_invite_parts [of X idn url m t tok'])
  have b: "b = c" and sh: "sh = bytes_hex (sign X idn (canonical_json X (JObj b)))" using c(1) assms(4) by auto
  show ?thesis unfolding genuine_def
    using assms(3,5,7,8) c(2-) [folded b] assms(6) verify_sign [OF assms(1)] fromisoformat_isoformat [OF assms(2)]
    by (simp add: sh hexc.dec_enc key_id_def del: append.simps)
qed

lemma bytes_hex_no_space: "\<not> list_ex is_ascii_space (bytes_hex bs)"
  by (induction bs) (auto simp: bytes_hex_def hex_digit_not_space unat_byte_bound less_mult_imp_div_less)

lemma unhexlify_hex: "unhexlify (JStr (bytes_hex bs)) = Inr bs"
  by (simp add: unhexlify_def bytes_hex_no_space hexc.dec_enc)

lemma attempts_ok: "f s = Inr s' \<Longrightarrow> attempts f s = (Inr (), s')"
  by (simp add: attempts_def)

text \<open>The two consent steps after an import: \<open>pending_local\<close>, \<open>pending_remote\<close>, \<open>paired\<close>.\<close>

lemma pair_after_import:
  assumes "get_peer st p = Some r" "consent_state r = ''pending_local''"
  obtains st1 st2 where "set_consent p ''pending_remote'' now st = Inr st1" "set_consent p ''paired'' now st1 = Inr st2"
    "get_peer st2 p = Some (r\<lparr>consent_state := ''paired'', p_updated_at := now\<rparr>)"
proof -
  have s1: "set_consent p ''pending_remote'' now st = Inr (st\<lparr>peers := tupd p_id p
      (\<lambda>r. r\<lparr>consent_state := ''pending_remote'', p_updated_at := now\<rparr>) (peers st)\<rparr>)" (is "_ = Inr ?st1")
    using assms by (simp add: set_consent_def CONSENT_STATES_def ALLOWED_TRANSITIONS_def)
  have g: "get_peer ?st1 p = Some (r\<lparr>consent_state := ''pending_remote'', p_updated_at := now\<rparr>)"
    using assms(1) by (simp add: get_peer_def tget_tupd)
  have s2: "set_consent p ''paired'' now ?st1 = Inr (?st1\<lparr>peers := tupd p_id p
      (\<lambda>r. r\<lparr>consent_state := ''paired'', p_updated_at := now\<rparr>) (peers ?st1)\<rparr>)" (is "_ = Inr ?st2")
    using g by (simp add: set_consent_def CONSENT_STATES_def ALLOWED_TRANSITIONS_def)
  have "get_peer ?st2 p = Some (r\<lparr>consent_state := ''paired'', p_updated_at := now\<rparr>)"
    using assms(1) by (simp add: get_peer_def tget_tupd)
  with s1 s2 show ?thesis by (rule that)
qed

lemma pair_by_genuine:
  assumes g: "genuine X (JObj d) now pub b" "dget ''invite_id'' b = Some (JStr i)" "\<not> is_invite_consumed st i"
    "dget ''relay_url'' b = Some (JStr u)" "dget_or ''mailbox_id'' JNull b = JStr m"
    and fresh: "\<And>r. get_peer st (fingerprint X pub) = Some r \<Longrightarrow> consent_state r \<noteq> ''paired''"
  obtains r st' where "pair_by_invite X d now st = (Inr (JStr (fingerprint X pub), Some r), st')"
    "get_peer st' (fingerprint X pub) = Some r" "identity_pub r = bytes_hex pub" "consent_state r = ''paired''"
proof -
  obtain st1 st2 where up: "upsert_peer (fingerprint X pub) (bytes_hex pub) (fingerprint X pub) ''pending_local'' (Some u) (Some m) now st1 = Inr st2"
    and imp: "import_invite X (JObj d) now st = (Inr (fingerprint X pub, fingerprint_phrase X pub), st2)"
    by (rule import_invite_InrI [OF g(1-4), of "Some u" "Some m"]) (simp_all add: g(5))
  from upsert_pending_get [OF up] obtain r where r: "get_peer st2 (fingerprint X pub) = Some r"
    "identity_pub r = bytes_hex pub" "consent_state r = ''pending_local''" by blast
  obtain st3 st4 where c: "set_consent (fingerprint X pub) ''pending_remote'' now st2 = Inr st3"
    "set_consent (fingerprint X pub) ''paired'' now st3 = Inr st4"
    "get_peer st4 (fingerprint X pub) = Some (r\<lparr>consent_state := ''paired'', p_updated_at := now\<rparr>)"
    by (rule pair_after_import [OF r(1,3)])
  have id: "code_peer_id d = Inr (JStr (fingerprint X pub))" using g(1) by (auto simp: genuine_def code_peer_id_def dget_or_def)
  have look: "bind_peer X (JStr (fingerprint X pub)) st = (Inr (get_peer st (fingerprint X pub)), st)"
    by (simp add: bind_peer_def seqp_def fingerprint_def)
  have "pair_by_invite X d now st = (Inr (JStr (fingerprint X pub), Some (r\<lparr>consent_state := ''paired'', p_updated_at := now\<rparr>)), st4)"
    using id look imp c fresh
    by (auto simp: pair_by_invite_def seqp_def confirm_local_fingerprint_def mark_remote_paired_def attempts_def
        split: option.split)
  then show ?thesis by (rule that [OF _ c(3)]) (simp_all add: r(2))
qed

text \<open>
  Pairing by code works end to end. The code that one Kindled shows (\<open>kindled_my_code\<close>), sent
  to another whose links are enabled, that does not have it paired and has not consumed the invite,
  connects until the invite expires: the reply names the first one's fingerprint and the same
  fingerprint phrase it showed, and the store then has it as a paired peer with its public key; the
  relay in use stays the connecting side's own.
\<close>

theorem connect_by_code:
  assumes "signatures_verify X" "valid_time (t + INVITE_TTL)" "now \<le> t + INVITE_TTL"
    and code: "kindled_my_code X A t token mtok wA = (Inr (code, phrase), wA')" and "length code \<le> MAX_CODE_LEN"
    and "kindled_link_enabled wB" "\<not> is_invite_consumed (db wB) (''inv_'' @ token)"
    and "\<And>r. get_peer (db wB) (key_id X A) = Some r \<Longrightarrow> consent_state r \<noteq> ''paired''"
  shows "\<exists>wB' r. kindled_connect X [(''code'', JStr code)] now wB =
       (Inr (Response \<lparr>cn_peer_id = JStr (key_id X A), cn_consent = ''paired'', cn_relay_url = own_relay wB, cn_phrase = phrase\<rparr>), wB')
     \<and> get_peer (db wB') (key_id X A) = Some r \<and> identity_pub r = bytes_hex (public_bytes X A) \<and> consent_state r = ''paired''
     \<and> kindled_relay_url wB' = Some (own_relay wB)"
proof -
  obtain mb stA where mb: "get_or_create_local_mailbox mtok (db wA) = (mb, stA)" by (cases "get_or_create_local_mailbox mtok (db wA)")
  define inv where "inv = create_invite X A (JStr (own_relay wA)) (Some mb) t token"
  have c: "code = encode_code X inv" "phrase = fingerprint_phrase X (public_bytes X A)"
    using code mb by (auto simp: kindled_my_code_def seqp_def on_db_def calls_to_def inv_def)
  obtain b where b: "inv = [(''body'', JObj b), (''signature'', JStr (bytes_hex (sign X A (canonical_json X (JObj b)))))]"
    "dget ''invite_id'' b = Some (JStr (''inv_'' @ token))" "dget ''relay_url'' b = Some (JStr (own_relay wA))"
    "dget ''identity_pub'' b = Some (JStr (bytes_hex (public_bytes X A)))"
    "dget_or ''mailbox_id'' JNull b = JStr mb" "distinct (map fst b)" "plain (JObj b)"
    using create_invite_parts [of X A "JStr (own_relay wA)" "Some mb" t token] unfolding inv_def
    by (metis option.simps(5) plain.simps(7))
  define b' where "b' = map (\<lambda>m. (fst m, canon (snd m))) (sort_key fst b)"
  define d' where "d' = map (\<lambda>m. (fst m, canon (snd m))) (sort_key fst inv)"
  have pl: "plain (JObj inv)" using b(1,7) by simp
  have dec: "decode_code (JStr code) = Inr d'"
    using decode_encode_code [OF pl, of "[]" X] assms(5) c(1) by (simp add: d'_def)
  have gb: "dget k b' = map_option canon (dget k b)" for k unfolding b'_def by (rule dget_canon [OF b(6)])
  have "distinct (map fst inv)" using b(1) by simp
  then have gd: "dget k d' = map_option canon (dget k inv)" for k unfolding d'_def by (rule dget_canon)
  have body: "dget ''body'' d' = Some (JObj b')" "dget ''signature'' d' = Some (JStr (bytes_hex (sign X A (canonical_json X (JObj b)))))"
    using b(1) by (simp_all add: gd b'_def canon_obj del: canon.simps(2))
  have can: "canonical_json X (JObj b') = canonical_json X (JObj b)"
    using canonical_json_canon [of X "JObj b"] by (simp only: canon_obj b'_def)
  have gen: "genuine X (JObj d') now (public_bytes X A) b'"
    by (rule created_genuine [OF assms(1-3) b(1) [unfolded inv_def] can _ body]) (simp add: gb)
  obtain r stB where p: "pair_by_invite X d' now (db wB) = (Inr (JStr (key_id X A), Some r), stB)"
    "get_peer stB (key_id X A) = Some r" "identity_pub r = bytes_hex (public_bytes X A)" "consent_state r = ''paired''"
    unfolding key_id_def
    by (rule pair_by_genuine [OF gen, of "''inv_'' @ token" "db wB" "own_relay wA" mb])
      (use assms(7,8) b(2,3,5) in \<open>auto simp: gb key_id_def dget_or_def split: option.splits\<close>)
  have hex: "bind_res (bind_res (subscript ''body'' (JObj d')) (subscript ''identity_pub'')) unhexlify = Inr (public_bytes X A)"
    using body(1) b(4) by (simp add: subscript_def gb unhexlify_hex)
  have ne: "code \<noteq> []" using c(1) by (simp add: encode_code_def PREFIX_def)
  define wB' where "wB' = wB\<lparr>db := stB, kindled_relay_url := Some (own_relay wB)\<rparr>"
  have "own_relay (wB\<lparr>db := stB\<rparr>) = own_relay wB" by (simp add: own_relay_def)
  then have "kindled_connect X [(''code'', JStr code)] now wB =
       (Inr (Response \<lparr>cn_peer_id = JStr (key_id X A), cn_consent = ''paired'', cn_relay_url = own_relay wB, cn_phrase = phrase\<rparr>), wB')"
    using assms(6) dec p(1,4) hex ne c(2)
    by (simp add: kindled_connect_def seqp_def as_400_def on_db_def dget_or_def Let_def wB'_def)
  then show ?thesis using p by (auto simp: wB'_def)
qed

abbreviation alice :: identity where "alice \<equiv> \<lparr>priv = [1]\<rparr>"

definition demo_bridge :: "store \<Rightarrow> bridge" where
  "demo_bridge st = \<lparr>db = st, kindled_link_enabled = True, kindled_relay_url = None\<rparr>"

definition demo_invite :: dict where
  "demo_invite = create_invite toy alice (JStr DEFAULT_KINDLED_RELAY_URL) (Some ''mbx_c'') 63000000000000000 ''ab''"

lemma demo_time: "valid_time (63000000000000000 + INVITE_TTL)" "63000000000000000 \<le> 63000000000000000 + INVITE_TTL"
  by (simp_all add: valid_time_def INVITE_TTL_def)

lemma isoformat_length: "length (isoformat t) \<le> 32"
  by (simp add: isoformat_def clock_text_def date_text_def pad6_def pad4_def Let_def split: prod.split)

lemma demo_code_length: "length (encode_code toy demo_invite) \<le> MAX_CODE_LEN"
proof -
  have "length (key_id toy alice) = 20" "length (public_bytes toy alice) = 1" "length (sign toy alice m) = 2" for m
    using length_fingerprint [OF toy_laws(4)] by (simp_all add: key_id_def public_bytes_def sign_def toy_def)
  then have "text_only (JObj demo_invite)" "text_bound (JObj demo_invite) \<le> 3000"
    using isoformat_length [of "63000000000000000 + INVITE_TTL"]
    by (simp_all add: demo_invite_def create_invite_def Let_def SUPPORTED_PROTOCOL_def DEFAULT_KINDLED_RELAY_URL_def)
  then show ?thesis using encode_code_length [of demo_invite toy "[]"] by (simp add: MAX_CODE_LEN_def)
qed

theorem connect_by_code_witness:
  "\<exists>code phrase wA' wB'. kindled_my_code toy alice 63000000000000000 ''ab'' ''c'' (demo_bridge empty_store) = (Inr (code, phrase), wA') \<and>
     kindled_connect toy [(''code'', JStr code)] 63000000000000000 (demo_bridge (one_peer ''paired'')) =
       (Inr (Response \<lparr>cn_peer_id = JStr (key_id toy alice), cn_consent = ''paired'',
          cn_relay_url = own_relay (demo_bridge (one_peer ''paired'')), cn_phrase = phrase\<rparr>), wB')"
proof -
  have "own_relay (demo_bridge empty_store) = DEFAULT_KINDLED_RELAY_URL" by (simp add: own_relay_def demo_bridge_def)
  then have code: "kindled_my_code toy alice 63000000000000000 ''ab'' ''c'' (demo_bridge empty_store) =
      (Inr (encode_code toy demo_invite, fingerprint_phrase toy (public_bytes toy alice)),
       demo_bridge (empty_store\<lparr>local_identity := [(''relay_mailbox'', ''mbx_c'')]\<rparr>))" (is "_ = (Inr (?code, ?ph), ?w)")
    by (simp add: kindled_my_code_def seqp_def on_db_def calls_to_def get_or_create_local_mailbox_def Let_def demo_bridge_def
        empty_store_def demo_invite_def)
  moreover have "\<not> is_invite_consumed (db (demo_bridge (one_peer ''paired''))) (''inv_'' @ ''ab'')"
    by (simp add: is_invite_consumed_def demo_bridge_def one_peer_def empty_store_def)
  moreover have "get_peer (db (demo_bridge (one_peer ''paired''))) (key_id toy alice) = None"
    by (simp add: get_peer_def demo_bridge_def one_peer_def key_id_def fingerprint_def)
  moreover have "kindled_link_enabled (demo_bridge (one_peer ''paired''))" by (simp add: demo_bridge_def)
  ultimately show ?thesis
    using connect_by_code [OF toy_laws(1) demo_time code demo_code_length, of "demo_bridge (one_peer ''paired'')"]
    by (metis option.distinct(1))
qed

lemma check_invite_pure: "import_invite X invite now st = (Inl e, st') \<Longrightarrow> check_invite X invite now st = Inl e' \<Longrightarrow> st' = st"
  by (auto simp: import_invite_def seqp_def guard_invite_def split: sum.splits exn.splits)

lemma import_invite_error_unchanged:
  assumes "import_invite X invite now st = (Inl (InviteError m), st')"
  shows "st' = st"
proof (cases "check_invite X invite now st")
  case (Inl e)
  with assms show ?thesis using check_invite_pure by blast
next
  case (Inr pb)
  obtain pub b where pb: "pb = (pub, b)" by (cases pb)
  have bind: "bind_text X j \<noteq> Inl (InviteError m)" for j by (cases "(X, j)" rule: bind_text.cases) auto
  have "invite_consumed X (dget_or ''invite_id'' JNull b) st = Inr False" using Inr pb by (simp add: check_invite_Inr)
  then have "\<exists>st1. consume_invite X (dget_or ''invite_id'' JNull b) now st = Inr st1"
    by (cases "bind_text X (dget_or ''invite_id'' JNull b)")
      (auto simp: invite_consumed_def consume_invite_def mark_invite_consumed_def split: option.splits)
  moreover have "upsert_peer f h f ''pending_local'' url mb now s \<noteq> Inl e" for f h url mb s e
    using upsert_pending_ok [of f h f url mb now s] by auto
  ultimately show ?thesis using Inr pb assms bind
    by (auto simp: import_invite_def seqp_def attempts_def guard_invite_def subscript_def
        split: sum.splits option.splits)
qed

text \<open>
   A refused invite changes nothing: whenever \<open>import_invite\<close> raises \<open>InviteError\<close>, whatever
  the packet and the reason, the store is as it was; in particular the invite is not consumed and
  no peer is created or changed.
\<close>

theorem refused_invite_changes_nothing:
  assumes "import_invite X invite now st = (Inl (InviteError m), st')"
  shows "st' = st"
  by (rule import_invite_error_unchanged [OF assms])

theorem refused_invite_changes_nothing_witness:
  "import_invite toy (JObj [(''body'', JStr ''x'')]) 0 (one_peer ''paired'') = (Inl (InviteError ''malformed_invite''), one_peer ''paired'')"
proof -
  have "fst (import_invite toy (JObj [(''body'', JStr ''x'')]) 0 (one_peer ''paired'')) = Inl (InviteError ''malformed_invite'')"
    by (simp add: import_invite_def seqp_def check_invite_def subscript_def guard_invite_def)
  then obtain st' where e: "import_invite toy (JObj [(''body'', JStr ''x'')]) 0 (one_peer ''paired'') = (Inl (InviteError ''malformed_invite''), st')"
    by (metis prod.collapse)
  with refused_invite_changes_nothing [OF e] show ?thesis by simp
qed

text \<open>
   A new invite reopens a closed relationship. Whatever state the peer of an imported invite
  had before, \<open>blocked\<close> included, it is \<open>pending_local\<close> afterwards, from which the two confirmation
  steps lead to \<open>paired\<close>, although the consent machine has no transition out of \<open>blocked\<close>.
\<close>

theorem invite_reopens_blocked:
  assumes "import_invite X invite now st = (Inr (p, phrase), st')" "has_consent st p Blocked"
  shows "has_consent st' p PendingLocal \<and>
    (\<exists>st1 st2. confirm_local_fingerprint p now st' = (Inr (), st1) \<and> mark_remote_paired p now st1 = (Inr (), st2) \<and>
       has_consent st2 p Paired)"
proof -
  obtain r where r: "get_peer st' p = Some r" "consent_state r = ''pending_local''"
    using import_invite_InrD [OF assms(1)] upsert_pending_get by blast
  obtain st1 st2 where "set_consent p ''pending_remote'' now st' = Inr st1" "set_consent p ''paired'' now st1 = Inr st2"
    "get_peer st2 p = Some (r\<lparr>consent_state := ''paired'', p_updated_at := now\<rparr>)"
    by (rule pair_after_import [OF r])
  with r show ?thesis
    by (auto simp: has_consent_def confirm_local_fingerprint_def mark_remote_paired_def attempts_def)
qed

definition blocked_alice :: store where
  "blocked_alice = empty_store\<lparr>peers := [\<lparr>p_id = key_id toy alice, identity_pub = bytes_hex (public_bytes toy alice),
     p_fingerprint = key_id toy alice, consent_state = ''blocked'', relay_url = None, relay_mailbox = None,
     p_created_at = 0, p_updated_at = 0, previous_identity_pub = None\<rparr>]\<rparr>"

lemma demo_import:
  obtains st' where "import_invite toy (JObj demo_invite) 63000000000000000 blocked_alice =
    (Inr (key_id toy alice, fingerprint_phrase toy (public_bytes toy alice)), st')"
proof -
  obtain b where b: "demo_invite = [(''body'', JObj b), (''signature'', JStr (bytes_hex (sign toy alice (canonical_json toy (JObj b)))))]"
    "dget ''invite_id'' b = Some (JStr (''inv_'' @ ''ab''))" "dget ''relay_url'' b = Some (JStr DEFAULT_KINDLED_RELAY_URL)"
    "dget_or ''mailbox_id'' JNull b = JStr ''mbx_c''"
    using create_invite_parts [of toy alice "JStr DEFAULT_KINDLED_RELAY_URL" "Some ''mbx_c''" 63000000000000000 "''ab''"]
    unfolding demo_invite_def by (metis option.simps(5))
  have g: "genuine toy (JObj demo_invite) 63000000000000000 (public_bytes toy alice) b"
    by (rule created_genuine [OF toy_laws(1) demo_time b(1) [unfolded demo_invite_def]]) (simp_all add: b(1))
  show ?thesis
    by (rule import_invite_InrI [OF g b(2) _ b(3), of blocked_alice "Some DEFAULT_KINDLED_RELAY_URL" "Some ''mbx_c''"])
      (use that in \<open>simp_all add: b(4) is_invite_consumed_def blocked_alice_def empty_store_def key_id_def\<close>)
qed

theorem invite_reopens_blocked_witness:
  "\<exists>st'. import_invite toy (JObj demo_invite) 63000000000000000 blocked_alice =
      (Inr (key_id toy alice, fingerprint_phrase toy (public_bytes toy alice)), st') \<and>
     has_consent blocked_alice (key_id toy alice) Blocked \<and> has_consent st' (key_id toy alice) PendingLocal"
proof -
  obtain st' where i: "import_invite toy (JObj demo_invite) 63000000000000000 blocked_alice =
    (Inr (key_id toy alice, fingerprint_phrase toy (public_bytes toy alice)), st')" by (rule demo_import)
  have "has_consent blocked_alice (key_id toy alice) Blocked"
    by (simp add: has_consent_def blocked_alice_def get_peer_def)
  with invite_reopens_blocked [OF i this] i show ?thesis by blast
qed

theorem import_invite_sound_witness:
  "\<exists>st' pub b. import_invite toy (JObj demo_invite) 63000000000000000 blocked_alice =
      (Inr (key_id toy alice, fingerprint_phrase toy (public_bytes toy alice)), st') \<and>
     genuine toy (JObj demo_invite) 63000000000000000 pub b \<and> key_id toy alice = fingerprint toy pub"
proof -
  obtain st' where i: "import_invite toy (JObj demo_invite) 63000000000000000 blocked_alice =
    (Inr (key_id toy alice, fingerprint_phrase toy (public_bytes toy alice)), st')" by (rule demo_import)
  with import_invite_sound [OF i] show ?thesis by blast
qed

lemma as_400_world: "snd (as_400 m w) = snd (m w)"
  by (simp add: as_400_def split: prod.split sum.split exn.split)

lemma on_db_cfg:
  "kindled_link_enabled (snd (on_db m w)) = kindled_link_enabled w"
  "kindled_relay_url (snd (on_db m w)) = kindled_relay_url w"
  by (simp_all add: on_db_def split: prod.split)

text \<open>
   A connect code cannot redirect traffic. Whatever the request, its code and the outcome, an
  exception included, \<open>kindled_connect\<close> leaves the configured relay as it was or sets it to the
  install's own choice (the configured relay, else the built-in default), never to a relay named
  in the code, and leaves the enabled flag alone; on an install that was never enabled and never
  configured it answers 400 and changes nothing at all.
\<close>

theorem connect_keeps_own_relay:
  "kindled_link_enabled (snd (kindled_connect X payload now w)) = kindled_link_enabled w
   \<and> kindled_relay_url (snd (kindled_connect X payload now w)) \<in> {kindled_relay_url w, Some (own_relay w)}
   \<and> (kindled_relay_url w = None \<and> \<not> kindled_link_enabled w \<longrightarrow> kindled_connect X payload now w = (Inr (HttpError 400), w))"
proof -
  have cfg: "kindled_link_enabled w' = kindled_link_enabled w \<and> kindled_relay_url w' = kindled_relay_url w"
    if "as_400 (on_db m) w = (r, w')" for m r w'
    using as_400_world [of "on_db m" w] on_db_cfg [of m w] that by simp
  have own: "own_relay w' = own_relay w" if "kindled_relay_url w' = kindled_relay_url w" for w'
    using that by (simp add: own_relay_def)
  show ?thesis
    by (auto simp: kindled_connect_def seqp_def Let_def dest!: cfg dest: own
        split: prod.split sum.split response.split)
qed

theorem connect_keeps_own_relay_witness:
  "kindled_connect toy [] 0 \<lparr>db = empty_store, kindled_link_enabled = False, kindled_relay_url = None\<rparr>
     = (Inr (HttpError 400), \<lparr>db = empty_store, kindled_link_enabled = False, kindled_relay_url = None\<rparr>)"
  using connect_keeps_own_relay [of toy "[]" 0 "\<lparr>db = empty_store, kindled_link_enabled = False, kindled_relay_url = None\<rparr>"]
  by simp

end
