(* ===== verification/Panel.thy ===== *)
theory Panel
  imports Tick Pairing "HOL-Library.List_Lexorder" "HOL-Library.Char_ord"
begin

text \<open>
  What the user's panel sees (\<open>kindled_link/views.py\<close>, \<open>feed_source.py\<close> and the reading endpoints of
  \<open>bridge/server.py\<close>): the projections of the store and of the transport log. A missing database is
  \<open>None\<close>; the log is the list of its rows.
\<close>

section \<open>Projections of the store\<close>

record peer_entry =
  pe_id :: string
  pe_fingerprint :: string
  pe_relay :: "string option"
  pe_consent :: string
  pe_stage :: string
  pe_tags :: "string list"
  pe_active :: bool

definition list_peers :: "store \<Rightarrow> peer_entry list" where
  "list_peers st =
     map (\<lambda>r. let rel = get_relationship_state st (p_id r) in
            \<lparr>pe_id = p_id r, pe_fingerprint = p_fingerprint r, pe_relay = relay_url r, pe_consent = consent_state r,
             pe_stage = r_stage rel, pe_tags = r_affinity rel, pe_active = (get_active_session st (p_id r) \<noteq> None)\<rparr>)
       (sort_key p_created_at (peers st))"

record transcript_entry =
  te_seq :: int
  te_direction :: string
  te_text :: string
  te_provenance :: string
  te_ts :: time

definition peer_transcript :: "ext \<Rightarrow> store \<Rightarrow> string \<Rightarrow> nat \<Rightarrow> transcript_entry list" where
  "peer_transcript X st peer_id limit =
     map (\<lambda>r. \<lparr>te_seq = t_seq r, te_direction = t_direction r, te_text = shown X r, te_provenance = t_provenance r, te_ts = t_ts r\<rparr>)
       (recent_transcript st peer_id limit)"

text \<open>Session and time of the held drafts, newest first: never a body.\<close>

definition holds_status :: "store \<Rightarrow> nat \<times> (string \<times> time) list" where
  "holds_status st =
     (let rows = sort_key (\<lambda>d. - d_created_at d) (filter (\<lambda>d. d_status d = ''hold'') (outbound_drafts st)) in
      (length rows, map (\<lambda>d. (d_session d, d_created_at d)) rows))"

definition MILESTONE_STAGES :: "string list" where
  "MILESTONE_STAGES = [''acquaintance'', ''familiar'', ''friend'', ''close'']"

text \<open>\<open>ORDER BY last_reflected_at DESC LIMIT ?\<close>, rows without a time last.\<close>

definition relationship_milestone_entries :: "store \<Rightarrow> nat \<Rightarrow> (string \<times> string \<times> time option) list" where
  "relationship_milestone_entries st limit =
     map (\<lambda>r. (r_peer r, r_stage r, r_reflected_at r))
       (filter (\<lambda>r. r_stage r \<in> set MILESTONE_STAGES)
         (take limit
           (sort_key (\<lambda>r. case r_reflected_at r of None \<Rightarrow> 1 | Some t \<Rightarrow> - t)
             (filter (\<lambda>r. r_stage r \<noteq> ''stranger'') (relationship_state st)))))"

section \<open>Projections of the transport log\<close>

record health =
  relay_ok :: "bool option"
  last_poll_ts :: json
  last_push_ts :: json
  flooding_peers :: "json list"

definition event_of :: "dict \<Rightarrow> json" where "event_of row = dget_or ''event'' JNull row"

definition health_step :: "health \<Rightarrow> dict \<Rightarrow> health" where
  "health_step h row =
     (if event_of row = JStr ''poll'' then h\<lparr>last_poll_ts := dget_or ''ts'' JNull row, relay_ok := Some True\<rparr>
      else if event_of row = JStr ''push'' then h\<lparr>last_push_ts := dget_or ''ts'' JNull row, relay_ok := Some True\<rparr>
      else if event_of row = JStr ''relay_unavailable'' then h\<lparr>relay_ok := Some False\<rparr>
      else if event_of row = JStr ''flood_clamped'' then
        let pid = dget_or ''peer_id'' JNull row in
        if truthy pid \<and> \<not> list_ex (\<lambda>d. same_key d pid) (flooding_peers h)
        then h\<lparr>flooding_peers := flooding_peers h @ [pid]\<rparr> else h
      else h)"

definition relay_health :: "dict list \<Rightarrow> health" where
  "relay_health rows = foldl health_step \<lparr>relay_ok = None, last_poll_ts = JNull, last_push_ts = JNull, flooding_peers = []\<rparr> rows"

text \<open>The rows of \<open>log_transport\<close> have a text as \<open>ts\<close>. A descending sort keeps equal rows in order.\<close>

definition row_ts :: "dict \<Rightarrow> string" where
  "row_ts row = (case dget_or ''ts'' (JStr '''') row of JStr s \<Rightarrow> s | _ \<Rightarrow> '''')"

definition peer_key_rotated_entries :: "dict list \<Rightarrow> nat \<Rightarrow> dict list" where
  "peer_key_rotated_entries rows limit =
     take limit (rev (sort_key row_ts (rev (filter (\<lambda>r. event_of r = JStr ''peer_key_rotated'') rows))))"

section \<open>The endpoints\<close>

definition kindled_peers :: "store option \<Rightarrow> peer_entry list" where
  "kindled_peers found = (case found of None \<Rightarrow> [] | Some st \<Rightarrow> list_peers st)"

definition kindled_transcript :: "ext \<Rightarrow> store option \<Rightarrow> string \<Rightarrow> transcript_entry list" where
  "kindled_transcript X found peer_id = (case found of None \<Rightarrow> [] | Some st \<Rightarrow> peer_transcript X st peer_id 50)"

definition kindled_holds :: "store option \<Rightarrow> nat \<times> (string \<times> time) list" where
  "kindled_holds found = (case found of None \<Rightarrow> (0, []) | Some st \<Rightarrow> holds_status st)"

definition kindled_link_status :: "keeper \<Rightarrow> health \<times> bool" where
  "kindled_link_status k = (relay_health (audit (net (who k))), recovered_flag k \<noteq> None)"

text \<open>\<open>POST /persona/config/kindled-link\<close>, and the gate of the self-test endpoint.\<close>

definition set_kindled_link_enabled :: "bool \<Rightarrow> string option \<Rightarrow> bridge \<Rightarrow> (bool \<times> string option) \<times> bridge" where
  "set_kindled_link_enabled on url w =
     (let s = py_strip (case url of None \<Rightarrow> '''' | Some u \<Rightarrow> u);
          w = w\<lparr>kindled_link_enabled := on, kindled_relay_url := (if s = [] then None else Some s)\<rparr> in
      ((on, kindled_relay_url w), w))"

definition self_test_allowed :: "bridge \<Rightarrow> bool" where
  "self_test_allowed w \<longleftrightarrow> \<not> (kindled_relay_url w = None \<and> \<not> kindled_link_enabled w)"

end
