(* ===== verification/Self_Test.thy ===== *)
theory Self_Test
  imports Panel
begin

text \<open>
  The in-process self-test (\<open>kindled_link/self_test.py\<close>): the persona's real identity and a throwaway
  peer, each on a temporary store, drive the whole loop over a relay. A side is a world; what the relay
  answers each side is that side's environment. A stage is its name and whether it passed (its detail
  text is left out); the temporary stores and their rows, the log among them, vanish with the bench.
\<close>

record bench =
  side_a :: world
  side_b :: world
  client_a :: "client option"
  client_b :: "client option"
  stages :: "(string \<times> bool) list"

definition on_a :: "(world, 'x) prog \<Rightarrow> (bench, 'x) prog" where
  "on_a m s = (case m (side_a s) of (r, w) \<Rightarrow> (r, s\<lparr>side_a := w\<rparr>))"
definition on_b :: "(world, 'x) prog \<Rightarrow> (bench, 'x) prog" where
  "on_b m s = (case m (side_b s) of (r, w) \<Rightarrow> (r, s\<lparr>side_b := w\<rparr>))"

definition stage :: "string \<Rightarrow> bool \<Rightarrow> (bench, unit) prog" where
  "stage name ok = writes (\<lambda>s. s\<lparr>stages := stages s @ [(name, ok)]\<rparr>)"

text \<open>A stage under \<open>except Exception\<close>: it passes with a value.\<close>

definition staged :: "string \<Rightarrow> (bench, 'x option) prog \<Rightarrow> (bench, 'x option) prog" where
  "staged name m =
     seqp (catch m (\<lambda>_. ret None)) (\<lambda>r. seqp (stage name (r \<noteq> None)) (\<lambda>_. ret r))"

definition CANNED :: string where "CANNED = ''kindled self-test '' @ [CHR 0xE2, CHR 0x9C, CHR 0x93]"

definition own_mailbox :: "env \<Rightarrow> (world, string) prog" where
  "own_mailbox E = seqp (drawn (draw_token E)) (\<lambda>token. on_kdb (calls_to (get_or_create_local_mailbox token)))"

text \<open>Stage 4: the three legs, and the session id when both a session and its key are there.\<close>

definition test_handshake :: "env \<Rightarrow> env \<Rightarrow> client \<Rightarrow> client \<Rightarrow> time \<Rightarrow> (bench, string option) prog" where
  "test_handshake Ea Eb ca cb now =
     (let a = c_identity ca; b = c_identity cb; other = key_id (ext_of Ea) b in
      seqp (on_a (seqp (drawn (draw_token Ea)) (\<lambda>id_token.
                  seqp (drawn (draw_key Ea)) (\<lambda>eph.
                  seqp (drawn (draw_key Ea)) (\<lambda>nonce.
                  seqp (drawn (draw_token Ea)) (\<lambda>mbx_token.
                  seqp (on_kdb (open_session (ext_of Ea) a other now SESSION_OPEN_TTL id_token eph nonce mbx_token))
                    (\<lambda>leg1. push Ea ca leg1))))))) (\<lambda>_.
      seqp (on_b (poll_and_ingest Eb b cb now)) (\<lambda>_.
      seqp (on_a (poll_and_ingest Ea a ca now)) (\<lambda>_.
      reads (\<lambda>s. let st = kdb (side_a s) in
        case get_active_session st other of
          None \<Rightarrow> None
        | Some sess \<Rightarrow> if get_session_key st other (s_id sess) = None then None else Some (s_id sess))))))"

definition test_pairing :: "env \<Rightarrow> env \<Rightarrow> client \<Rightarrow> client \<Rightarrow> string \<Rightarrow> time \<Rightarrow> (bench, unit option) prog" where
  "test_pairing Ea Eb ca cb url now =
     (let X = ext_of Ea; a = c_identity ca; b = c_identity cb in
      seqp (on_a (on_kdb (attempts (upsert_peer (key_id X b) (bytes_hex (public_bytes X b)) (key_id X b) ''paired'' (Some url)
              (Some (c_mailbox cb)) now)))) (\<lambda>_.
      seqp (on_b (on_kdb (attempts (upsert_peer (key_id X a) (bytes_hex (public_bytes X a)) (key_id X a) ''paired'' (Some url)
              (Some (c_mailbox ca)) now)))) (\<lambda>_.
      ret (Some ()))))"

definition test_send :: "env \<Rightarrow> client \<Rightarrow> client \<Rightarrow> string \<Rightarrow> time \<Rightarrow> (bench, unit option) prog" where
  "test_send Ea ca cb session_id now =
     seqp (on_a (send_message Ea (c_identity ca) ca (key_id (ext_of Ea) (c_identity cb)) session_id
            (JObj [(''text'', JStr CANNED)]) now MESSAGE_TTL)) (\<lambda>sent. ret (if sent then Some () else None))"

definition test_receive :: "env \<Rightarrow> env \<Rightarrow> client \<Rightarrow> client \<Rightarrow> time \<Rightarrow> (bench, unit option) prog" where
  "test_receive Ea Eb ca cb now =
     seqp (on_b (poll_and_ingest Eb (c_identity cb) cb now)) (\<lambda>_.
     reads (\<lambda>s. if list_ex (\<lambda>r. te_text r = CANNED) (peer_transcript (ext_of Eb) (kdb (side_b s)) (key_id (ext_of Ea) (c_identity ca)) 50)
                then Some () else None))"

text \<open>Stages 3 to 6, each only after the ones before it passed.\<close>

definition test_stages :: "env \<Rightarrow> env \<Rightarrow> client \<Rightarrow> client \<Rightarrow> string \<Rightarrow> time \<Rightarrow> (bench, bool) prog" where
  "test_stages Ea Eb ca cb url now =
     seqp (staged ''pairing'' (test_pairing Ea Eb ca cb url now)) (\<lambda>r. if r = None then ret False else
     seqp (staged ''handshake'' (test_handshake Ea Eb ca cb now)) (\<lambda>r. case r of None \<Rightarrow> ret False | Some session_id \<Rightarrow>
     seqp (staged ''message_sent'' (test_send Ea ca cb session_id now)) (\<lambda>r. if r = None then ret False else
     seqp (staged ''message_received'' (test_receive Ea Eb ca cb now)) (\<lambda>r. ret (r \<noteq> None)))))"

text \<open>The body of the \<open>try\<close>. Only the relay's errors are caught around the registration.\<close>

definition self_test_body :: "env \<Rightarrow> env \<Rightarrow> identity res \<Rightarrow> identity res \<Rightarrow> string \<Rightarrow> time \<Rightarrow> (bench, bool) prog" where
  "self_test_body Ea Eb a b url now =
     seqp (lift a) (\<lambda>a. seqp (lift b) (\<lambda>b.
     seqp (on_a (own_mailbox Ea)) (\<lambda>ma. seqp (on_b (own_mailbox Eb)) (\<lambda>mb.
     let ca = \<lparr>c_identity = a, c_mailbox = ma\<rparr>; cb = \<lparr>c_identity = b, c_mailbox = mb\<rparr> in
     seqp (writes (\<lambda>s. s\<lparr>client_a := Some ca, client_b := Some cb\<rparr>)) (\<lambda>_.
     seqp (catch (seqp (on_a (register Ea ca)) (\<lambda>_. seqp (on_b (register Eb cb)) (\<lambda>_. ret True)))
            (\<lambda>e. case e of RelayUnavailableError _ \<Rightarrow> ret False | _ \<Rightarrow> raise e)) (\<lambda>reached.
     if \<not> reached then seqp (stage ''relay_reachable'' False) (\<lambda>_. ret False)
     else
       seqp (stage ''relay_reachable'' True) (\<lambda>_. seqp (stage ''register'' True) (\<lambda>_.
       test_stages Ea Eb ca cb url now))))))))"

text \<open>
  \<open>finally\<close>: drain the mailbox of every client the body got to build, every failure suppressed, and
  append the cleanup stage.
\<close>

fun item_ids :: "json list \<Rightarrow> json list option" where
  "item_ids [] = Some []"
| "item_ids (JObj d # items) =
     (case dget ''id'' d of None \<Rightarrow> None | Some i \<Rightarrow> map_option ((#) i) (item_ids items))"
| "item_ids (_ # items) = None"

definition drain_mailbox :: "env \<Rightarrow> client option \<Rightarrow> (world, unit) prog" where
  "drain_mailbox E cl =
     (case cl of
        None \<Rightarrow> ret ()
      | Some c \<Rightarrow>
          catch (seqp (fetch E c) (\<lambda>items.
                 case item_ids items of
                   None \<Rightarrow> ret ()
                 | Some ids \<Rightarrow>
                     if ids = [] then ret ()
                     else seqp (auth E c) (\<lambda>a.
                          seqp (post E ''/mailbox/ack'' (JObj (a @ [(''envelope_ids'', JList ids)]))) (\<lambda>_. ret ()))))
            (\<lambda>_. ret ()))"

definition cleanup :: "env \<Rightarrow> env \<Rightarrow> (bench, unit) prog" where
  "cleanup Ea Eb =
     seqp (reads (\<lambda>s. (client_a s, client_b s))) (\<lambda>(ca, cb).
     seqp (on_a (drain_mailbox Ea ca)) (\<lambda>_. seqp (on_b (drain_mailbox Eb cb)) (\<lambda>_. stage ''cleanup'' True)))"

definition run_self_test :: "env \<Rightarrow> env \<Rightarrow> identity res \<Rightarrow> identity res \<Rightarrow> string \<Rightarrow> time \<Rightarrow> (bench, bool) prog" where
  "run_self_test Ea Eb a b url now s =
     (case self_test_body Ea Eb a b url now s of (r, s') \<Rightarrow> (r, snd (cleanup Ea Eb s')))"

definition fresh_bench :: bench where
  "fresh_bench =
     (let w = \<lparr>kdb = empty_store, requests = [], sleeps = [], audit = [], draws = 0\<rparr> in
      \<lparr>side_a = w, side_b = w, client_a = None, client_b = None, stages = []\<rparr>)"

section \<open>What a report looks like\<close>

definition STAGE_NAMES :: "string list" where
  "STAGE_NAMES = [''relay_reachable'', ''register'', ''pairing'', ''handshake'', ''message_sent'', ''message_received'']"

text \<open>The stages of a report: passed ones, then the one that failed if any.\<close>

definition report :: "nat \<Rightarrow> (string \<times> bool) list" where
  "report n = map (\<lambda>x. (x, True)) (take n STAGE_NAMES) @ (if n < 6 then [(STAGE_NAMES ! n, False)] else [])"

lemma bench_steps:
  "stages (snd (on_a m s)) = stages s" "stages (snd (on_b m' s)) = stages s"
  by (simp_all add: on_a_def on_b_def split: prod.split)

lemma staged_run:
  assumes "\<And>s. stages (snd (m s)) = stages s"
  obtains r s' where "staged name m s = (Inr r, s')" "stages s' = stages s @ [(name, r \<noteq> None)]"
proof -
  obtain q s1 where run: "m s = (q, s1)" by fastforce
  then have same: "stages s1 = stages s" using assms [of s] by simp
  show thesis
  proof (cases q)
    case (Inl e)
    show thesis by (rule that [of None "s1\<lparr>stages := stages s1 @ [(name, False)]\<rparr>"])
      (simp_all add: staged_def catch_def seqp_def run Inl stage_def same)
  next
    case (Inr r)
    show thesis by (rule that [of r "s1\<lparr>stages := stages s1 @ [(name, r \<noteq> None)]\<rparr>"])
      (simp_all add: staged_def catch_def seqp_def run Inr stage_def same)
  qed
qed

lemma keeps_stages [keeps_intros]: "keeps (\<lambda>s. stages s = S) (on_a m)" "keeps (\<lambda>s. stages s = S) (on_b m')"
  by (simp_all add: keeps_def bench_steps)

lemma stage_programs:
  "stages (snd (test_pairing Ea Eb ca cb url now s)) = stages s" "stages (snd (test_handshake Ea Eb ca cb now s)) = stages s"
  "stages (snd (test_send Ea ca cb sid now s)) = stages s" "stages (snd (test_receive Ea Eb ca cb now s)) = stages s"
proof -
  have "keeps (\<lambda>x. stages x = stages s) (test_pairing Ea Eb ca cb url now)" "keeps (\<lambda>x. stages x = stages s) (test_handshake Ea Eb ca cb now)"
    "keeps (\<lambda>x. stages x = stages s) (test_send Ea ca cb sid now)" "keeps (\<lambda>x. stages x = stages s) (test_receive Ea Eb ca cb now)"
    unfolding test_pairing_def test_handshake_def test_send_def test_receive_def Let_def by (intro keeps_intros)+
  from this [THEN keepsD, OF refl] show
    "stages (snd (test_pairing Ea Eb ca cb url now s)) = stages s" "stages (snd (test_handshake Ea Eb ca cb now s)) = stages s"
    "stages (snd (test_send Ea ca cb sid now s)) = stages s" "stages (snd (test_receive Ea Eb ca cb now s)) = stages s" .
qed

lemma own_mailbox_run: "\<exists>m w'. own_mailbox E w = (Inr m, w')"
  by (cases "get_or_create_local_mailbox (draw_token E (draws w)) (kdb w)") (simp add: own_mailbox_def seqp_def drawn_def on_kdb_def calls_to_def)

lemma register_run: "(\<exists>w'. register E c w = (Inr (), w')) \<or> (\<exists>msg w'. register E c w = (Inl (RelayUnavailableError msg), w'))"
proof -
  obtain r w' where run: "register E c w = (r, w')" by fastforce
  obtain q w1 where p: "post E ''/mailbox/register'' (JObj [(''mailbox_id'', JStr (c_mailbox c)),
     (''identity_pub'', JStr (bytes_hex (public_bytes (ext_of E) (c_identity c))))]) w = (q, w1)" by fastforce
  have "case q of Inl e \<Rightarrow> (\<exists>s. e = RelayUnavailableError s) | Inr _ \<Rightarrow> True"
    using post_bounded [of E "''/mailbox/register''" "JObj [(''mailbox_id'', JStr (c_mailbox c)),
     (''identity_pub'', JStr (bytes_hex (public_bytes (ext_of E) (c_identity c))))]" w] p by auto
  with p run show ?thesis by (cases q) (auto simp: register_def seqp_def)
qed

text \<open>The chain after the registration: each stage runs only after the ones before it passed.\<close>

lemma test_chain:
  assumes "stages s = map (\<lambda>x. (x, True)) (take 2 STAGE_NAMES)"
  shows "\<exists>n s'. 2 \<le> n \<and> n \<le> 6 \<and> test_stages Ea Eb ca cb url now s = (Inr (n = 6), s') \<and> stages s' = report n"
proof -
  note names = assms report_def STAGE_NAMES_def test_stages_def
  obtain r1 s1 where p: "staged ''pairing'' (test_pairing Ea Eb ca cb url now) s = (Inr r1, s1)" "stages s1 = stages s @ [(''pairing'', r1 \<noteq> None)]"
    by (rule staged_run [OF stage_programs(1)])
  obtain r2 s2 where h: "staged ''handshake'' (test_handshake Ea Eb ca cb now) s1 = (Inr r2, s2)" "stages s2 = stages s1 @ [(''handshake'', r2 \<noteq> None)]"
    by (rule staged_run [OF stage_programs(2)])
  obtain r3 s3 where m: "staged ''message_sent'' (test_send Ea ca cb (the r2) now) s2 = (Inr r3, s3)" "stages s3 = stages s2 @ [(''message_sent'', r3 \<noteq> None)]"
    by (rule staged_run [OF stage_programs(3)])
  obtain r4 s4 where v: "staged ''message_received'' (test_receive Ea Eb ca cb now) s3 = (Inr r4, s4)"
    "stages s4 = stages s3 @ [(''message_received'', r4 \<noteq> None)]"
    by (rule staged_run [OF stage_programs(4)])
  consider "r1 = None" | "r1 \<noteq> None" "r2 = None" | "r1 \<noteq> None" "r2 \<noteq> None" "r3 = None"
    | "r1 \<noteq> None" "r2 \<noteq> None" "r3 \<noteq> None" by blast
  then show ?thesis
  proof cases
    case 1
    with p show ?thesis by (intro exI [of _ 2] exI [of _ s1]) (simp add: names)
  next
    case 2
    with p h show ?thesis by (intro exI [of _ 3] exI [of _ s2]) (auto simp: names numeral_3_eq_3)
  next
    case 3
    with p h m show ?thesis by (intro exI [of _ 4] exI [of _ s3]) (auto simp: names)
  next
    case 4
    with p h m v show ?thesis
      by (intro exI [of _ "if r4 = None then 5 else 6"] exI [of _ s4]) (auto simp: names)
  qed
qed

lemma self_test_body_run:
  "\<exists>n s'. n \<noteq> 1 \<and> n \<le> 6 \<and> self_test_body Ea Eb (Inr a) (Inr b) url now fresh_bench = (Inr (n = 6), s') \<and> stages s' = report n"
proof -
  obtain ma s1 where a: "on_a (own_mailbox Ea) fresh_bench = (Inr ma, s1)" "stages s1 = []"
    using own_mailbox_run [of Ea "side_a fresh_bench"] by (auto simp: on_a_def fresh_bench_def Let_def)
  obtain mb s2 where b: "on_b (own_mailbox Eb) s1 = (Inr mb, s2)" "stages s2 = []"
    using own_mailbox_run [of Eb "side_b s1"] a(2) by (auto simp: on_b_def)
  define ca cb where "ca = \<lparr>c_identity = a, c_mailbox = ma\<rparr>" and "cb = \<lparr>c_identity = b, c_mailbox = mb\<rparr>"
  let ?s = "s2\<lparr>client_a := Some ca, client_b := Some cb\<rparr>"
  let ?reg = "catch (seqp (on_a (register Ea ca)) (\<lambda>_. seqp (on_b (register Eb cb)) (\<lambda>_. ret True)))
            (\<lambda>e. case e of RelayUnavailableError _ \<Rightarrow> ret False | _ \<Rightarrow> raise e)"
  obtain reached s3 where reg: "?reg ?s = (Inr reached, s3)" "stages s3 = []"
  proof -
    obtain r w where ra: "register Ea ca (side_a ?s) = (r, w)" by fastforce
    obtain r' w' where rb: "register Eb cb (side_b (?s\<lparr>side_a := w\<rparr>)) = (r', w')" by fastforce
    show thesis
    proof (cases r)
      case (Inl e)
      then show thesis using ra register_run [of Ea ca "side_a ?s"] b(2)
        by (intro that [of False "?s\<lparr>side_a := w\<rparr>"]) (auto simp: on_a_def seqp_def catch_def)
    next
      case r: (Inr u)
      show thesis
      proof (cases r')
        case (Inl e)
        then show thesis using ra rb r register_run [of Eb cb "side_b (?s\<lparr>side_a := w\<rparr>)"] b(2)
          by (intro that [of False "?s\<lparr>side_a := w, side_b := w'\<rparr>"]) (auto simp: on_a_def on_b_def seqp_def catch_def)
      next
        case (Inr u')
        then show thesis using ra rb r b(2)
          by (intro that [of True "?s\<lparr>side_a := w, side_b := w'\<rparr>"]) (auto simp: on_a_def on_b_def seqp_def catch_def)
      qed
    qed
  qed
  show ?thesis
  proof (cases reached)
    case False
    then show ?thesis using a b reg
      by (intro exI [of _ 0] exI [of _ "s3\<lparr>stages := stages s3 @ [(''relay_reachable'', False)]\<rparr>"])
        (simp add: self_test_body_def seqp_def [of "lift _"] Let_def ca_def cb_def stage_def report_def STAGE_NAMES_def)
  next
    case True
    let ?s4 = "s3\<lparr>stages := (stages s3 @ [(''relay_reachable'', True)]) @ [(''register'', True)]\<rparr>"
    have "stages ?s4 = map (\<lambda>x. (x, True)) (take 2 STAGE_NAMES)" using reg(2) by (simp add: STAGE_NAMES_def)
    from test_chain [OF this, of Ea Eb ca cb url now] obtain n s' where chain: "2 \<le> n" "n \<le> 6"
      "test_stages Ea Eb ca cb url now ?s4 = (Inr (n = 6), s')"
      "stages s' = report n" by blast
    then show ?thesis using a b reg True
      by (intro exI [of _ n] exI [of _ s'])
        (simp add: self_test_body_def seqp_def [of "lift _"] Let_def ca_def cb_def stage_def)
  qed
qed

text \<open>
   The self-test's report. With both identities loaded it never raises, whatever the relay answers:
  the report is a run of passed stages in their order, the first failed one if any, and cleanup at the
  end, and it says ok exactly when all six passed. An identity that cannot be loaded is not reported
  but raised.
\<close>

theorem self_test_report:
  "(\<exists>n s'. n \<noteq> 1 \<and> n \<le> 6 \<and> run_self_test Ea Eb (Inr a) (Inr b) url now fresh_bench = (Inr (n = 6), s') \<and>
      stages s' = report n @ [(''cleanup'', True)]) \<and>
   fst (run_self_test Ea Eb (Inl e) rb url now fresh_bench) = Inl e"
proof
  obtain n s' where body: "n \<noteq> 1" "n \<le> 6" "self_test_body Ea Eb (Inr a) (Inr b) url now fresh_bench = (Inr (n = 6), s')" "stages s' = report n"
    using self_test_body_run by blast
  have quiet: "\<exists>w'. drain_mailbox E cl w = (Inr (), w')" for E cl w
    by (cases cl) (auto simp: drain_mailbox_def catch_def split: prod.split sum.split)
  obtain wa where "drain_mailbox Ea (client_a s') (side_a s') = (Inr (), wa)" using quiet by blast
  moreover obtain wb where "drain_mailbox Eb (client_b s') (side_b s') = (Inr (), wb)" using quiet by blast
  ultimately have "stages (snd (cleanup Ea Eb s')) = stages s' @ [(''cleanup'', True)]"
    by (simp add: cleanup_def seqp_def on_a_def on_b_def stage_def)
  then show "\<exists>n s'. n \<noteq> 1 \<and> n \<le> 6 \<and> run_self_test Ea Eb (Inr a) (Inr b) url now fresh_bench = (Inr (n = 6), s') \<and>
      stages s' = report n @ [(''cleanup'', True)]"
    using body by (intro exI [of _ n] exI [of _ "snd (cleanup Ea Eb s')"]) (simp add: run_self_test_def)
  show "fst (run_self_test Ea Eb (Inl e) rb url now fresh_bench) = Inl e"
    by (simp add: run_self_test_def self_test_body_def seqp_def split: prod.split)
qed

end
