(* ===== verification/Poll.thy ===== *)
theory Poll
  imports Transport_Laws "HOL-Library.Multiset"
begin

text \<open>
  What one poll does to the store as a whole: the flood clamp, the shape of item that stops it, a
  poll the relay does not answer, and the delivery of an honest message end to end.
\<close>

section \<open>The flood clamp\<close>

lemma keeps_lookup:
  "keeps P (lookup_peer X j)" "keeps P (lookup_session_key X q j)" "keeps P (lookup_handshake X q j)"
  by (simp_all add: keeps_def lookups_pure)

lemma transcript_handshake:
  "keeps (\<lambda>st. Q (transcript st)) (on_session_open X idn e now ttl eph tk)"
  "keeps (\<lambda>st. Q (transcript st)) (complete_session X idn e now)"
proof -
  have w: "keeps (\<lambda>st. Q (transcript st)) (writes (save_session_key q s k a b t))"
    "keeps (\<lambda>st. Q (transcript st)) (writes (create_session q s t))"
    "keeps (\<lambda>st. Q (transcript st)) (writes (clear_pending_handshake q s))"
    "keeps (\<lambda>st. Q (transcript st)) (calls_to (get_or_create_local_mailbox tk'))"
    "keeps (\<lambda>st. Q (transcript st)) (attempts (upsert_peer q1 q2 q3 q4 q5 q6 t))" for q s k a b t tk' q1 q2 q3 q4 q5 q6
    by (rule keeps_intros; simp add: save_session_key_def create_session_def clear_pending_handshake_def
        get_or_create_local_mailbox_def upsert_peer_def Let_def split: option.splits if_splits; auto)+
  show "keeps (\<lambda>st. Q (transcript st)) (on_session_open X idn e now ttl eph tk)"
    "keeps (\<lambda>st. Q (transcript st)) (complete_session X idn e now)"
    unfolding on_session_open_def answer_open_def complete_session_def learn_mailbox_def Let_def
    by (intro keeps_lookup w keeps_intros)+
qed

lemma rekey_children_transcript: "length (transcript (snd (rekey_children old new st))) = length (transcript st)"
proof -
  have "keeps (\<lambda>s. length (transcript s) = length (transcript st)) (rekey_children old new)"
  proof (rule keepsI)
    fix s :: store assume same: "length (transcript s) = length (transcript st)"
    show "length (transcript (snd (rekey_children old new s))) = length (transcript st)"
      by (insert same, unfold rekey_children_def,
         ((rule rekey_step_keep [where P = "\<lambda>s. length (transcript s) = length (transcript st)"], assumption)
         | (drule rekey_moved, simp; fail) | (simp; fail))+)
  qed
  from keepsD [OF this refl] show ?thesis .
qed

lemma apply_rotation_transcript:
  "keeps (\<lambda>st. length (transcript st) = n) (apply_rotation q pub new now)"
proof (rule keepsI)
  fix st :: store assume "length (transcript st) = n"
  then have "length (transcript (snd (update_peer_identity q pub new now st))) = n"
    by (simp add: update_peer_identity_def Let_def rekey_children_transcript)
  then show "length (transcript (snd (apply_rotation q pub new now st))) = n"
    by (cases "update_peer_identity q pub new now st") (simp add: apply_rotation_def)
qed

abbreviation rows :: "world \<Rightarrow> nat" where
  "rows w \<equiv> length (transcript (kdb w))"

lemma rows_session_open: "keeps (\<lambda>w. rows w = n) (ingest_session_open E idn c sender e now)"
  unfolding ingest_session_open_def Let_def
  by (intro keeps_on_kdb [where Q = "\<lambda>st. length (transcript st) = n"] transcript_handshake keeps_intros
      keeps_drawn [where Q = "\<lambda>st. length (transcript st) = n"] keeps_relay [where Q = "\<lambda>st. length (transcript st) = n"]
      keeps_log [where Q = "\<lambda>st. length (transcript st) = n"])

lemma rows_rotation_notice: "keeps (\<lambda>w. rows w = n) (handle_key_rotation_notice E e sender now)"
  unfolding handle_key_rotation_notice_def Let_def
  by (intro keeps_on_kdb [where Q = "\<lambda>st. length (transcript st) = n"] apply_rotation_transcript keeps_intros
      keeps_log [where Q = "\<lambda>st. length (transcript st) = n"]) (simp add: keeps_def peer_of_run)

lemma rows_item: "rows (snd (ingest_item E idn c sender e now w)) \<le> Suc (rows w)"
proof -
  have msg: "rows (snd (ingest_message E idn sender e now w)) \<le> Suc (rows w)"
  proof -
    obtain r w' where run: "ingest_message E idn sender e now w = (r, w')" by (cases "ingest_message E idn sender e now w")
    from ingest_message_cases [OF run] show ?thesis
    proof
      assume "\<exists>p s n st1. bind2 (ext_of E) sender (dget_or ''session_id'' (JStr '''') e) = Inr (Some (p, s)) \<and> read_sequence e = Inr (Some n) \<and>
         get_session_key (kdb w) p s \<noteq> None \<and>
         get_seq_high_water (kdb w) p s < n \<and> (\<exists>tx. append_transcript p s n ''inbound'' tx now ''peer'' (kdb w) = Inr st1) \<and>
         (if r = Inr True then set_seq_high_water p s n st1 = Inr (kdb w') else kdb w' = st1)"
      then obtain p s n st1 tx where st1: "append_transcript p s n ''inbound'' tx now ''peer'' (kdb w) = Inr st1"
        "if r = Inr True then set_seq_high_water p s n st1 = Inr (kdb w') else kdb w' = st1" by blast
      have "length (transcript st1) = Suc (rows w)" using append_transcript_Inr [OF st1(1)] by auto
      moreover have "transcript (kdb w') = transcript st1"
        using st1(2) by (auto simp: set_seq_high_water_def split: if_splits dest!: arg_cong [where f = transcript])
      ultimately show ?thesis by (simp add: run)
    qed (simp add: run)
  qed
  have ret_seqp: "rows (snd (seqp m (\<lambda>_. ret x) w)) = rows (snd (m w))" for m :: "(world, 'x) prog" and x :: bool
    by (cases "m w") (auto simp: seqp_def split: sum.split)
  show ?thesis unfolding ingest_item_def
    using msg keepsD [OF rows_session_open refl, of E idn c sender e now w] keepsD [OF rows_rotation_notice refl, of E e sender now w]
    by (simp add: ret_seqp)
qed

lemma rows_items:
  "rows (snd (ingest_items E idn c sender items now t w)) \<le> rows w + length items"
proof (induction items arbitrary: t w)
  case (Cons x xs)
  obtain i e where x: "x = (i, e)" by (cases x)
  obtain r w' where run: "ingest_item E idn c sender e now w = (r, w')" by (cases "ingest_item E idn c sender e now w")
  have one: "rows w' \<le> Suc (rows w)" using rows_item [of E idn c sender e now w] run by simp
  show ?case
  proof (cases r)
    case (Inr ok)
    have "rows (snd (ingest_items E idn c sender xs now t' w')) \<le> rows w + length (x # xs)" for t'
      using Cons.IH [of t' w'] one by simp
    then show ?thesis by (simp add: x seqp_def run Inr)
  qed (use one in \<open>simp add: x seqp_def run\<close>)
qed simp

lemma ingest_items_acks:
  "ingest_items E idn c sender items now t w = (Inr t', w') \<Longrightarrow>
   to_ack t' = to_ack t @ map fst items \<and> degraded t' = degraded t"
proof (induction items arbitrary: t w)
  case (Cons x xs)
  obtain i e where x: "x = (i, e)" by (cases x)
  obtain r v where run: "ingest_item E idn c sender e now w = (r, v)" by (cases "ingest_item E idn c sender e now w")
  from Cons.prems x run obtain ok where r: "r = Inr ok" by (cases r) (simp_all add: seqp_def)
  from Cons.prems have "ingest_items E idn c sender xs now (t\<lparr>to_ack := to_ack t @ [i],
      accepted := (if ok then bump_accepted sender (accepted t) else accepted t)\<rparr>) v = (Inr t', w')"
    by (simp add: x seqp_def run r)
  from Cons.IH [OF this] show ?case by (simp add: x)
qed simp

text \<open>What one group does, when it returns.\<close>

lemma ingest_group_run:
  assumes "ingest_group E idn c k items now t w = (r, w')"
  shows "rows w' \<le> rows w + 20 \<and>
    (\<forall>t'. r = Inr t' \<longrightarrow>
      (\<exists>p. fst (peer_of (ext_of E) k (kdb w)) = Inr p \<and>
      (if (case p of None \<Rightarrow> False | Some r \<Rightarrow> consent_state r \<in> set INBOUND_BLOCKED_CONSENT)
       then rows w' = rows w \<and> to_ack t' = to_ack t @ map fst items \<and> degraded t' = degraded t
       else mset (to_ack t') = mset (to_ack t) + mset (map fst (take 20 items)) \<and>
            degraded t' = degraded t @ (if 20 < length items then [k] else []))))"
proof -
  let ?kept = "sort_key (\<lambda>(i, e). if dget ''session_open'' e \<noteq> None then 0 else 1 :: nat) (take INBOUND_FLOOD_CAP items)"
  obtain f where f: "on_kdb (peer_of (ext_of E) k) w = (f, w)" "fst (peer_of (ext_of E) k (kdb w)) = f"
    using peer_of_run(1) [of "ext_of E" k "kdb w"]
    by (cases "peer_of (ext_of E) k (kdb w)") (simp add: on_kdb_def)
  show ?thesis
  proof (cases f)
    case (Inl err)
    then show ?thesis using assms f by (auto simp: ingest_group_def seqp_def)
  next
    case (Inr p)
    let ?gate = "case p of None \<Rightarrow> False | Some r \<Rightarrow> consent_state r \<in> set INBOUND_BLOCKED_CONSENT"
    show ?thesis
    proof (cases ?gate)
      case True
      then show ?thesis using assms f Inr by (auto simp: ingest_group_def seqp_def log_transport_def)
    next
      case False
      let ?fl = "20 < length items"
      let ?v = "if ?fl then snd (log_transport ''flood_clamped'' (no_fields\<lparr>e_peer_id := Some k,
          e_count := Some (length items - 20)\<rparr>) now w) else w"
      let ?t = "if ?fl then t\<lparr>degraded := degraded t @ [k]\<rparr> else t"
      have go: "ingest_items E idn c k ?kept now ?t ?v = (r, w')"
        using assms unfolding ingest_group_def Let_def
        by (cases ?fl) (simp_all add: seqp_def f Inr False log_transport_def INBOUND_FLOOD_CAP_def)
      obtain v t0 where v: "kdb v = kdb w" "to_ack t0 = to_ack t"
          "degraded t0 = degraded t @ (if 20 < length items then [k] else [])"
          "ingest_items E idn c k ?kept now t0 v = (r, w')"
        by (rule that [OF _ _ _ go]) (simp_all add: log_transport_def)
      have len: "length ?kept \<le> 20" by (simp add: INBOUND_FLOOD_CAP_def)
      have "rows w' \<le> rows v + length ?kept" using rows_items [of E idn c k ?kept now t0 v] v(4) by simp
      moreover have "rows v = rows w" using v(1) by simp
      ultimately have "rows w' \<le> rows w + 20" using len by linarith
      moreover have "mset (to_ack t') = mset (to_ack t) + mset (map fst (take 20 items)) \<and> degraded t' = degraded t0" if "r = Inr t'" for t'
        using ingest_items_acks [of E idn c k ?kept now t0 v t' w'] v(2,4) that by (auto simp: INBOUND_FLOOD_CAP_def)
      ultimately show ?thesis using f(2) Inr False v(3) by auto
    qed
  qed
qed

text \<open>
  The flood clamp. Handling one sender's items adds at most twenty transcript rows, whatever
  they are and even if it raises; when it returns, a sender the user shut out has every item
  acknowledged and none stored, and any other has exactly its first twenty acknowledged (in some
  order) and is reported as flooding exactly when it sent more.
\<close>

theorem flood_clamp:
  assumes "ingest_group E idn c k items now t w = (r, w')"
  shows "length (transcript (kdb w')) \<le> length (transcript (kdb w)) + 20 \<and>
    (\<forall>t'. r = Inr t' \<longrightarrow>
      (\<exists>p. fst (peer_of (ext_of E) k (kdb w)) = Inr p \<and>
      (if (case p of None \<Rightarrow> False | Some r \<Rightarrow> consent_state r \<in> set INBOUND_BLOCKED_CONSENT)
       then length (transcript (kdb w')) = length (transcript (kdb w)) \<and>
            to_ack t' = to_ack t @ map fst items \<and> degraded t' = degraded t
       else mset (to_ack t') = mset (to_ack t) + mset (map fst (take 20 items)) \<and>
            degraded t' = degraded t @ (if 20 < length items then [k] else []))))"
  using ingest_group_run [OF assms] by blast

definition chatter :: "nat \<Rightarrow> (string \<times> dict) list" where
  "chatter n = map (\<lambda>i. (dec_nat i, [(''sender_key_id'', JStr ''x'')])) [0..<n]"

theorem flood_clamp_witness:
  "\<exists>t' w'. ingest_group down \<lparr>priv = [1]\<rparr> \<lparr>c_identity = \<lparr>priv = [1]\<rparr>, c_mailbox = ''m''\<rparr> (JStr ''x'') (chatter 2) 0
     \<lparr>to_ack = [], degraded = [], accepted = []\<rparr> (idle empty_store) = (Inr t', w') \<and> length (transcript (kdb w')) \<le> 20"
proof -
  have "\<exists>t' w'. ingest_group down \<lparr>priv = [1]\<rparr> \<lparr>c_identity = \<lparr>priv = [1]\<rparr>, c_mailbox = ''m''\<rparr> (JStr ''x'') (chatter 2) 0
     \<lparr>to_ack = [], degraded = [], accepted = []\<rparr> (idle empty_store) = (Inr t', w')"
    by (simp add: ingest_group_def ingest_item_def ingest_message_def chatter_def upt_rec down_def idle_def empty_store_def Let_def
        seqp_def peer_of_def get_peer_def get_session_key_def on_kdb_def log_transport_def INBOUND_FLOOD_CAP_def bind2_def dget_or_def)
  then obtain t' w' where run: "ingest_group down \<lparr>priv = [1]\<rparr> \<lparr>c_identity = \<lparr>priv = [1]\<rparr>, c_mailbox = ''m''\<rparr> (JStr ''x'') (chatter 2) 0
     \<lparr>to_ack = [], degraded = [], accepted = []\<rparr> (idle empty_store) = (Inr t', w')" by blast
  from flood_clamp [OF this] run show ?thesis by (auto simp: idle_def empty_store_def)
qed

section \<open>A poll that fails\<close>

lemma group_items_unhashable:
  assumes "item \<in> set items" "item_parts item = Some (i, e)" "\<not> hashable (dget_or ''sender_key_id'' (JStr '''') e)"
  shows "fst (group_items items gs now w) = Inl TypeError \<and> kdb (snd (group_items items gs now w)) = kdb w \<and>
    requests (snd (group_items items gs now w)) = requests w"
  using assms(1)
proof (induction items arbitrary: gs w)
  case (Cons a items)
  show ?case
  proof (cases "item_parts a")
    case None
    then have "item \<in> set items" using Cons.prems assms(2) by auto
    from Cons.IH [OF this] None show ?thesis by (simp add: seqp_def log_transport_def)
  next
    case (Some ie)
    obtain j f where ie: "ie = (j, f)" by (cases ie)
    show ?thesis
    proof (cases "hashable (dget_or ''sender_key_id'' (JStr '''') f)")
      case True
      then have "item \<in> set items" using Cons.prems assms(2,3) Some ie by auto
      from Cons.IH [OF this] True Some ie show ?thesis by (simp add: Let_def)
    qed (simp add: Some ie Let_def)
  qed
qed simp

text \<open>
   One malformed item stops the whole poll. When the relay answers the fetch with a list that
  holds a well-shaped item whose \<open>sender_key_id\<close> is a list or an object, grouping by sender raises
  \<open>TypeError\<close> and the poll ends with it: no item of any peer is stored and nothing is
  acknowledged, so the relay can deliver the same list again for ever.
\<close>

theorem unhashable_sender_stops_poll:
  assumes "fetch E c w = (Inr items, w1)" "item \<in> set items" "item_parts item = Some (i, e)"
    "dget ''sender_key_id'' e = Some (JList xs) \<or> dget ''sender_key_id'' e = Some (JObj d)"
    "poll_and_ingest E idn c now w = (r, w')"
  shows "r = Inl TypeError \<and> kdb w' = kdb w \<and> requests w' = requests w1"
proof -
  have db: "kdb w1 = kdb w" using keepsD [OF keeps_relay(1) [where Q = "\<lambda>st. st = kdb w"] refl, of E c] assms(1) by simp
  have bad: "\<not> hashable (dget_or ''sender_key_id'' (JStr '''') e)" using assms(4) by (auto simp: dget_or_def)
  let ?w = "snd (log_transport ''poll'' (no_fields\<lparr>e_count := Some (length items)\<rparr>) now w1)"
  note stop = group_items_unhashable [OF assms(2,3) bad, of "[]" now ?w]
  obtain x v where run: "group_items items [] now ?w = (x, v)" by (cases "group_items items [] now ?w")
  have "poll_and_ingest E idn c now w = (Inl TypeError, v)"
    using run stop by (simp add: poll_and_ingest_def seqp_def on_relay_error_def catch_def assms(1) log_transport_def)
  then show ?thesis using assms(5) stop run db by (simp add: log_transport_def)
qed

text \<open>A relay that answers every challenge and hands out the given items.\<close>

definition serving :: "json list \<Rightarrow> env" where
  "serving items = down\<lparr>answer := \<lambda>_ path _.
     if path = ''/mailbox/challenge'' then Reply 200 (Some (JObj [(''nonce'', JStr ''n'')]))
     else if path = ''/mailbox/fetch'' then Reply 200 (Some (JObj [(''envelopes'', JList items)]))
     else Reply 200 (Some (JObj []))\<rparr>"

abbreviation me :: identity where "me \<equiv> \<lparr>priv = [1]\<rparr>"
abbreviation my_client :: client where "my_client \<equiv> \<lparr>c_identity = me, c_mailbox = ''m''\<rparr>"

lemma serving_fetch: "\<exists>w1. fetch (serving items) my_client w = (Inr items, w1)"
  by (simp add: fetch_def auth_def field_def post_def MAX_RETRIES_def numeral_3_eq_3 request_def serving_def seqp_def dget_def Let_def)

definition poison :: json where
  "poison = JObj [(''id'', JStr ''e1''), (''envelope'', JObj [(''sender_key_id'', JList [])])]"

theorem unhashable_sender_stops_poll_witness:
  "fst (poll_and_ingest (serving [poison]) me my_client 0 (idle empty_store)) = Inl TypeError"
proof -
  obtain w1 where f: "fetch (serving [poison]) my_client (idle empty_store) = (Inr [poison], w1)" using serving_fetch by blast
  have p: "item_parts poison = Some (''e1'', [(''sender_key_id'', JList [])])" by (simp add: poison_def item_parts_def dget_def)
  show ?thesis
    using unhashable_sender_stops_poll [OF f _ p, of "[]" "[]" me 0 "fst (poll_and_ingest (serving [poison]) me my_client 0 (idle empty_store))"
        "snd (poll_and_ingest (serving [poison]) me my_client 0 (idle empty_store))"]
    by (simp add: dget_def)
qed

definition paused_peer :: peer_row where
  "paused_peer = \<lparr>p_id = ''x'', identity_pub = ''00'', p_fingerprint = ''x'', consent_state = ''paused'', relay_url = None,
     relay_mailbox = None, p_created_at = 0, p_updated_at = 0, previous_identity_pub = None\<rparr>"

theorem consent_gate_witness:
  "map_option consent_state (get_peer (kdb (snd (poll_and_ingest (serving [poison]) me my_client 0
     (idle (empty_store\<lparr>peers := [paused_peer]\<rparr>))))) ''x'') = Some ''paused''"
proof -
  let ?w = "idle (empty_store\<lparr>peers := [paused_peer]\<rparr>)"
  have "get_peer (kdb ?w) ''x'' = Some paused_peer" by (simp add: idle_def get_peer_def paused_peer_def)
  moreover have "distinct (map p_id (peers (kdb ?w)))" by (simp add: idle_def)
  moreover have "consent_state paused_peer = ''paused''" by (simp add: paused_peer_def)
  ultimately show ?thesis
    using consent_gate [of ?w "''x''" paused_peer "serving [poison]" me my_client 0
        "fst (poll_and_ingest (serving [poison]) me my_client 0 ?w)" "snd (poll_and_ingest (serving [poison]) me my_client 0 ?w)"]
    by simp
qed

section \<open>Delivery\<close>

lemma push_answered:
  assumes "answer E (length (requests w)) ''/envelope'' (JObj env) = Reply 200 b"
  shows "push E c env w = (Inr (), w\<lparr>requests := requests w @ [(''/envelope'', JObj env)]\<rparr>)"
  using assms by (simp add: push_def post_def MAX_RETRIES_def numeral_3_eq_3 request_def seqp_def)

lemma ingest_message_accepts:
  assumes "dget ''session_id'' env = Some (JStr sid)" "dget ''sequence'' env = Some (JInt n)"
    "get_session_key (kdb w) a sid = Some sk" "get_peer (kdb w) a = Some r" "hex_or_error (identity_pub r) = Inr pub"
    "verify_and_open (ext_of E) env idn pub (session_key sk) (peer_role sk) (get_seq_high_water (kdb w) a sid) now
       = Inr (Accept (JObj [(''text'', JStr tx)]))"
    "int64 n" "tget transcript_key_of (a, sid, n) (transcript (kdb w)) = None"
  shows "\<exists>w'. ingest_message E idn (JStr a) env now w = (Inr True, w') \<and>
    transcript (kdb w') = transcript (kdb w) @ [\<lparr>t_peer = a, t_session = sid, t_seq = n, t_direction = ''inbound'',
       t_text = JStr tx, t_provenance = ''peer'', t_ts = now\<rparr>] \<and>
    get_seq_high_water (kdb w') a sid = n"
proof -
  have sid: "dget_or ''session_id'' (JStr '''') env = JStr sid" using assms(1) by (simp add: dget_or_def)
  have "get_seq_high_water st a sid = n"
    if "seq_high_water st = tput seq_key_of \<lparr>q_peer = a, q_session = sid, q_value = n\<rparr> t" for st :: store and t
    using that by (simp add: get_seq_high_water_def tget_tput)
  then show ?thesis unfolding ingest_message_def Let_def sid
    using assms by (simp add: seqp_def bind2_def on_kdb_def attempts_def log_transport_def append_transcript_def
        set_seq_high_water_def payload_text_def dget_or_def)
qed

text \<open>
  C10: A message sent is a message received. The sender holds the session's key, its next sequence
  number is within range and the relay answers the push; then \<open>send_message\<close> returns true after
  one request that carries an envelope, and when that envelope reaches the addressed peer, which
  holds the same key for that session and has seen no number as high, before it expires, the peer
  accepts it, appends exactly the text to the transcript as an inbound row and moves its
  high-water mark to the number.
\<close>

theorem message_delivery:
  fixes wA wB :: world and EA EB :: env and idA idB :: identity
  defines "X \<equiv> ext_of EA" and "A \<equiv> key_id (ext_of EA) idA" and "B \<equiv> key_id (ext_of EA) idB"
  assumes laws: "signatures_verify X" "aead_inverts X" "ext_of EB = X"
    and sender: "get_session_key (kdb wA) B sid = Some skA" "my_role skA \<in> {0, 1}"
      "fst (next_outbound_sequence B sid (kdb wA)) = n" "0 \<le> n" "n < 2 ^ 63"
    and relay: "\<And>b. answer EA (length (requests wA)) ''/envelope'' b = Reply 200 body"
    and receiver: "get_session_key (kdb wB) A sid = Some skB" "session_key skB = session_key skA" "peer_role skB = my_role skA"
      "get_peer (kdb wB) A = Some r" "identity_pub r = bytes_hex (public_bytes X idA)"
      "get_seq_high_water (kdb wB) A sid < n" "tget transcript_key_of (A, sid, n) (transcript (kdb wB)) = None"
    and time: "valid_time (sent + ttl)" "now \<le> sent + ttl - (sent + ttl) mod second + skew"
  shows "\<exists>env wA' wB'.
    send_message EA idA c B sid (JObj [(''text'', JStr tx)]) sent ttl wA = (Inr True, wA') \<and>
    requests wA' = requests wA @ [(''/envelope'', JObj env)] \<and>
    ingest_message EB idB (JStr A) env now wB = (Inr True, wB') \<and>
    transcript (kdb wB') = transcript (kdb wB) @ [\<lparr>t_peer = A, t_session = sid, t_seq = n, t_direction = ''inbound'',
       t_text = JStr tx, t_provenance = ''peer'', t_ts = now\<rparr>] \<and>
    get_seq_high_water (kdb wB') A sid = n"
proof -
  let ?payload = "JObj [(''text'', JStr tx)]"
  obtain st1 where seq: "next_outbound_sequence B sid (kdb wA) = (n, st1)"
    using sender(3) by (cases "next_outbound_sequence B sid (kdb wA)") simp
  define mailbox where "mailbox = (case get_peer st1 B of None \<Rightarrow> JStr '''' | Some r \<Rightarrow> mailbox_json (relay_mailbox r))"
  have "n < 2 ^ 88" using sender(5) by simp
  then obtain env where env: "build_envelope X ?payload idA B mailbox sid n (my_role skA) (session_key skA) sent ttl = Inr env"
      "dget ''session_id'' env = Some (JStr sid)" "dget ''sequence'' env = Some (JInt n)"
      "verify_and_open X env idB (public_bytes X idA) (session_key skA) (my_role skA) (get_seq_high_water (kdb wB) A sid) now
        = Inr (Accept ?payload)"
    using honest_envelope [OF laws(1,2) _ sender(2,4) _ receiver(6) time, of ?payload idA idB mailbox sid "session_key skA"]
    by (auto simp: B_def X_def)
  have "hex_or_error (identity_pub r) = Inr (public_bytes X idA)" by (simp add: receiver(5) hex_or_error_def hexc.dec_enc)
  moreover have "int64 n" using sender(4,5) by (simp add: int64_def)
  ultimately obtain wB' where B: "ingest_message EB idB (JStr A) env now wB = (Inr True, wB')"
      "transcript (kdb wB') = transcript (kdb wB) @ [\<lparr>t_peer = A, t_session = sid, t_seq = n, t_direction = ''inbound'',
         t_text = JStr tx, t_provenance = ''peer'', t_ts = now\<rparr>]" "get_seq_high_water (kdb wB') A sid = n"
    using ingest_message_accepts [OF env(2,3) receiver(1,4), of "public_bytes X idA" EB idB now tx] env(4) laws(3) receiver(2,3,7)
    by auto
  have "\<exists>wA'. send_message EA idA c B sid ?payload sent ttl wA = (Inr True, wA') \<and>
      requests wA' = requests wA @ [(''/envelope'', JObj env)]"
    using env(1) relay sender(1)
    by (simp add: send_message_def Let_def seqp_def on_kdb_def calls_to_def seq mailbox_def X_def log_transport_def
        push_answered on_relay_error_def catch_def)
  with B show ?thesis by blast
qed

definition alice :: identity where "alice = \<lparr>priv = [1]\<rparr>"
definition bob :: identity where "bob = \<lparr>priv = [2]\<rparr>"
definition alice_id :: string where "alice_id = key_id toy alice"
definition bob_id :: string where "bob_id = key_id toy bob"

definition shared_key :: "string \<Rightarrow> int \<Rightarrow> key_row" where
  "shared_key p role = \<lparr>k_peer = p, k_session = ''ks_1'', session_key = [7], my_role = role, peer_role = 1 - role, established_at = 0\<rparr>"

definition alice_world :: world where
  "alice_world = idle (empty_store\<lparr>session_keys := [shared_key bob_id 0]\<rparr>)"

definition bob_world :: world where
  "bob_world = idle (empty_store\<lparr>session_keys := [shared_key alice_id 1],
     peers := [paused_peer\<lparr>p_id := alice_id, identity_pub := bytes_hex (public_bytes toy alice)\<rparr>]\<rparr>)"

theorem message_delivery_witness:
  "\<exists>env wA' wB'.
    send_message (serving []) alice my_client bob_id ''ks_1'' (JObj [(''text'', JStr ''hi'')]) 63000000000000000 (7 * day)
      alice_world = (Inr True, wA') \<and>
    requests wA' = [(''/envelope'', JObj env)] \<and>
    ingest_message (serving []) bob (JStr alice_id) env 63000000000000000 bob_world = (Inr True, wB') \<and>
    map t_text (transcript (kdb wB')) = [JStr ''hi'']"
proof -
  have X: "ext_of (serving []) = toy" by (simp add: serving_def down_def)
  note laws = toy_laws(1,3)
  have "get_session_key (kdb alice_world) bob_id ''ks_1'' = Some (shared_key bob_id 0)"
    "get_session_key (kdb bob_world) alice_id ''ks_1'' = Some (shared_key alice_id 1)"
    "get_peer (kdb bob_world) alice_id = Some (paused_peer\<lparr>p_id := alice_id, identity_pub := bytes_hex (public_bytes toy alice)\<rparr>)"
    "fst (next_outbound_sequence bob_id ''ks_1'' (kdb alice_world)) = 1"
    "get_seq_high_water (kdb bob_world) alice_id ''ks_1'' = 0" "transcript (kdb bob_world) = []"
    "requests alice_world = []" "answer (serving []) 0 ''/envelope'' b = Reply 200 (Some (JObj []))"
    "valid_time (63000000000000000 + 7 * day)" for b
    by (simp_all add: alice_world_def bob_world_def idle_def empty_store_def get_session_key_def shared_key_def get_peer_def
        next_outbound_sequence_def get_seq_high_water_def serving_def valid_time_def)
  then show ?thesis
    using message_delivery [where EA = "serving []" and EB = "serving []" and idA = alice and idB = bob and n = 1
        and wA = alice_world and wB = bob_world and sid = "''ks_1''" and skA = "shared_key bob_id 0" and skB = "shared_key alice_id 1"
        and sent = 63000000000000000 and now = 63000000000000000 and ttl = "7 * day" and tx = "''hi''" and c = my_client and body = "Some (JObj [])"
        and r = "paused_peer\<lparr>p_id := alice_id, identity_pub := bytes_hex (public_bytes toy alice)\<rparr>", unfolded X,
        folded alice_id_def bob_id_def, OF laws refl]
    by (simp add: shared_key_def skew_def) fastforce
qed

end
