(* ===== verification/Gate_Laws.thy ===== *)
theory Gate_Laws
  imports Gate Store_Laws
begin

text \<open>
  What the gate guarantees: the pre-filter finds exactly the patterns' occurrences, nothing with a
  hard leak is sent or shown to the provider, the review never raises and fails closed, a depleted
  budget stops a send, and a provider call is counted exactly when it completed.
\<close>

section \<open>The pre-filter\<close>

text \<open>The pattern describes a part of the text, read in its context.\<close>

definition occurs :: "item list \<Rightarrow> string \<Rightarrow> bool" where
  "occurs p s \<longleftrightarrow> (\<exists>before u after. s = before @ u @ after \<and> den p (last_or None before) u after)"

lemma search_occurs: "search p s = occurs p s"
  by (simp add: search_correct occurs_def)


lemma den_context: "den p prev u v \<Longrightarrow> word_at (head_of v) = word_at (head_of v') \<Longrightarrow> den p prev u v'"
proof (induction rule: den.induct)
  case (den_bnd prev u v r)
  then show ?case by (intro den.den_bnd) (cases u; simp)+
qed (auto intro: den.intros)

text \<open>A line break, or nothing, after the text makes no difference to an occurrence.\<close>

lemma occurs_more: "occurs p s \<Longrightarrow> t = [] \<or> hd t = CHR 0x0A \<Longrightarrow> occurs p (s @ t)"
proof -
  assume "occurs p s" and t: "t = [] \<or> hd t = CHR 0x0A"
  then obtain x u v where s: "s = x @ u @ v" "den p (last_or None x) u v" by (auto simp: occurs_def)
  have "word_at (head_of v) = word_at (head_of (v @ t))"
    using t by (cases v; cases t) (auto simp: is_word_def Let_def)
  with s(2) have "den p (last_or None x) u (v @ t)" by (rule den_context)
  then show "occurs p (s @ t)" unfolding occurs_def using s(1) by (metis append.assoc)
qed

lemma payload_scan_body: "\<exists>t. payload_scan X p = take MAX_SCAN_CHARS (body p) @ t \<and> (t = [] \<or> hd t = CHR 0x0A)"
  by (auto simp: payload_scan_def join_def split: option.splits)

lemma prefilter_leak: "p \<in> set PATTERNS \<Longrightarrow> occurs p s \<Longrightarrow> \<exists>d. prefilter s = Some d \<and> decided d \<in> {Revise, Hold}"
  by (auto simp: prefilter_def Let_def search_occurs filter_empty_conv)


section \<open>The review\<close>

lemma decision_simps [simp]: "decided (decision act why) = act"
  by (simp add: decision_def)

lemma store_of_simps [simp]:
  "on_net m a = (fst (m (net a)), a\<lparr>net := snd (m (net a))\<rparr>)"
  "on_kdb m' w = (fst (m' (kdb w)), w\<lparr>kdb := snd (m' (kdb w))\<rparr>)"
  "calls_to f st = (Inr (fst (f st)), snd (f st))"
  by (simp_all add: on_net_def on_kdb_def calls_to_def split: prod.split)

lemma review_run:
  assumes "review X M msg peer stage summary reason now today a = (r, a')"
  obtains d where "r = Inr d" "prefilter (payload_scan X msg) = Some d" "a' = a"
  | d where "r = Inr d" "decided d = Hold" "prompts a' = prompts a"
      "\<not> fst (try_reserve_provider peer today DAILY_PROVIDER_CAP (store_of a))"
      "net a' = (net a)\<lparr>kdb := snd (try_reserve_provider peer today DAILY_PROVIDER_CAP (store_of a))\<rparr>"
  | d where "r = Inr d" "decided d = Hold" "fst (try_reserve_provider peer today DAILY_PROVIDER_CAP (store_of a))"
      "net a' = (net a)\<lparr>kdb := release_provider_slot peer today (snd (try_reserve_provider peer today DAILY_PROVIDER_CAP (store_of a)))\<rparr>"
      "prompts a' = prompts a \<or> (\<exists>pr e. prompts a' = prompts a @ [pr] \<and> complete M (length (prompts a)) pr = Inl e)"
  | d pr raw where "r = Inr d" "prefilter (payload_scan X msg) = None"
      "fst (try_reserve_provider peer today DAILY_PROVIDER_CAP (store_of a))"
      "net a' = (net a)\<lparr>kdb := snd (try_reserve_provider peer today DAILY_PROVIDER_CAP (store_of a))\<rparr>"
      "prompts a' = prompts a @ [pr]" "complete M (length (prompts a)) pr = Inr raw" "slot M (slots a) = Inr True"
      "d = apply_budget (parse_verdict X raw)
         (get_disclosure_budget (snd (try_reserve_provider peer today DAILY_PROVIDER_CAP (store_of a))) peer now)"
proof (cases "prefilter (payload_scan X msg)")
  case (Some d)
  with assms have "r = Inr d" "a' = a" by (simp_all add: review_def)
  with Some show ?thesis by (intro that(1))
next
  case None
  obtain g st where g: "try_reserve_provider peer today DAILY_PROVIDER_CAP (store_of a) = (g, st)" by fastforce
  show ?thesis
  proof (cases g)
    case False
    with assms None g show ?thesis by (intro that(2) [of "decision Hold ''gate: provider cap spent''"]) (auto simp: review_def seqp_def)
  next
    case True
    consider e where "slot M (slots a) = Inl e" | "slot M (slots a) = Inr False" | "slot M (slots a) = Inr True"
      by (metis (full_types) sum.exhaust)
    then show ?thesis
    proof cases
      case 3
      let ?st = "a\<lparr>net := (net a)\<lparr>kdb := st\<rparr>, slots := Suc (slots a)\<rparr>"
      define pr where "pr = gate_prompt (body msg)
          (dumps X '', '' '': '' True (JObj (case relationship_hint msg of None \<Rightarrow> [] | Some h \<Rightarrow> h))) summary reason stage
          (BUDGET_TIGHTEN_THRESHOLD \<le> get_disclosure_budget st peer now)"
      have run: "review X M msg peer stage summary reason now today a =
          (case complete M (length (prompts a)) pr of
             Inl e \<Rightarrow> (Inr (decision Hold ''gate: provider error''),
               ?st\<lparr>net := (net a)\<lparr>kdb := release_provider_slot peer today st\<rparr>, prompts := prompts a @ [pr]\<rparr>)
           | Inr raw \<Rightarrow> (Inr (apply_budget (parse_verdict X raw) (get_disclosure_budget st peer now)), ?st\<lparr>prompts := prompts a @ [pr]\<rparr>))"
        using True None g 3 unfolding review_def Let_def
        by (cases "complete M (length (prompts a)) pr")
          (simp_all add: seqp_def catch_def take_slot_def ask_def pr_def [symmetric] del: dumps.simps)
      show ?thesis
      proof (cases "complete M (length (prompts a)) pr")
        case (Inl e)
        with run assms g True show ?thesis by (intro that(3) [of "decision Hold ''gate: provider error''"]) auto
      next
        case (Inr raw)
        with run assms g True None 3 show ?thesis by (intro that(4)) auto
      qed
    next
      case 1
      with assms None g True show ?thesis
        by (intro that(3) [of "decision Hold ''gate: provider error''"]) (auto simp: review_def seqp_def Let_def catch_def take_slot_def)
    next
      case 2
      with assms None g True show ?thesis
        by (intro that(3) [of "decision Hold ''gate: throttle deferred''"]) (auto simp: review_def seqp_def Let_def catch_def take_slot_def)
    qed
  qed
qed

lemma clamp_texture: "decided (apply_budget d b) = Send \<Longrightarrow> apply_budget d b = d \<and> 1 / 4 \<le> b"
  by (auto simp: apply_budget_def BUDGET_DEPLETED_THRESHOLD_def MIN_SEND_DEBIT_def BUDGET_TIGHTEN_THRESHOLD_def split: if_splits)

lemma counters_frame: "get_disclosure_budget (snd (try_reserve_provider p d c st)) q now = get_disclosure_budget st q now"
  by (simp add: try_reserve_provider_def ensure_counter_row_def get_disclosure_budget_def Let_def split: option.split)

text \<open>
  C13: The gate fails closed. The review always returns a decision, never an exception, whatever
  the language model and the throttle do; and the decision is to send only if no pattern occurs in
  the text, a provider call was reserved and its slot granted, the model completed exactly one call
  whose reply says send, and at least a quarter of the peer's disclosure budget was left.
\<close>

theorem review_fails_closed:
  assumes "review X M msg peer stage summary reason now today a = (r, a')"
  shows "\<exists>d. r = Inr d \<and> (decided d \<noteq> Send \<or>
    prefilter (payload_scan X msg) = None \<and> fst (try_reserve_provider peer today 60 (store_of a)) \<and> slot M (slots a) = Inr True \<and>
    (\<exists>pr raw. prompts a' = prompts a @ [pr] \<and> complete M (length (prompts a)) pr = Inr raw \<and> d = parse_verdict X raw) \<and>
    1 / 4 \<le> get_disclosure_budget (store_of a) peer now)"
  using assms
proof (cases rule: review_run)
  case (1 d)
  then have "decided d \<noteq> Send" by (auto simp: prefilter_def Let_def split: if_splits)
  with 1 show ?thesis by auto
next
  case (4 d pr raw)
  then show ?thesis
    using clamp_texture [of "parse_verdict X raw" "get_disclosure_budget (store_of a) peer now"]
    by (simp add: counters_frame DAILY_PROVIDER_CAP_def)
qed auto

lemma provider_used_nonneg: "store_ok st \<Longrightarrow> 0 \<le> provider_used d st p"
  by (auto simp: store_ok_def tok_def get_counters_def split: option.split dest: tget_mem)

lemma counters_only:
  "\<exists>cs. snd (try_reserve_provider p d c st) = st\<lparr>peer_counters := cs\<rparr>"
  "\<exists>cs. snd (try_reserve_outbound p d c st) = st\<lparr>peer_counters := cs\<rparr>"
  "\<exists>cs. release_provider_slot p d st = st\<lparr>peer_counters := cs\<rparr>"
proof -
  have "\<exists>cs. ensure_counter_row p d st = st\<lparr>peer_counters := cs\<rparr>"
    by (auto simp: ensure_counter_row_def Let_def split: option.split intro: exI [of _ "peer_counters st"])
  then obtain cs where cs: "ensure_counter_row p d st = st\<lparr>peer_counters := cs\<rparr>" ..
  show "\<exists>cs. snd (try_reserve_provider p d c st) = st\<lparr>peer_counters := cs\<rparr>"
    "\<exists>cs. snd (try_reserve_outbound p d c st) = st\<lparr>peer_counters := cs\<rparr>"
    "\<exists>cs. release_provider_slot p d st = st\<lparr>peer_counters := cs\<rparr>"
    by (auto simp: try_reserve_provider_def try_reserve_outbound_def release_provider_slot_def Let_def cs)
qed

lemma refunded:
  assumes "store_ok st" "fst (try_reserve_provider p d c st)"
  shows "provider_used d (release_provider_slot p d (snd (try_reserve_provider p d c st))) q = provider_used d st q"
  using assms provider_used_nonneg [OF assms(1), of p d]
  by (simp add: provider_used_release provider.used_after provider.granted_iff)

text \<open>
   Provider calls are counted exactly. In a well-formed store a review raises the peer's count
  of the day by one when its call to the model completed, and leaves it as it was when no call was
  made, the throttle refused or the model failed; it never passes the cap of 60, no other peer's
  count changes, and nothing of the world but the store's counters does.
\<close>

theorem review_counts_completed:
  assumes "store_ok (store_of a)" "review X M msg peer stage summary reason now today a = (r, a')"
  shows "(let completed = (\<exists>pr raw. prompts a' = prompts a @ [pr] \<and> complete M (length (prompts a)) pr = Inr raw) in
      snd (get_counters (store_of a') peer today) = snd (get_counters (store_of a) peer today) + (if completed then 1 else 0) \<and>
      (completed \<longrightarrow> snd (get_counters (store_of a') peer today) \<le> 60)) \<and>
    (\<forall>q. q \<noteq> peer \<longrightarrow> snd (get_counters (store_of a') q today) = snd (get_counters (store_of a) q today)) \<and>
    (\<exists>cs. net a' = (net a)\<lparr>kdb := (store_of a)\<lparr>peer_counters := cs\<rparr>\<rparr>)"
  using assms(2)
proof (cases rule: review_run)
  case (1 d)
  then show ?thesis by (auto intro!: exI [of _ "peer_counters (store_of a)"])
next
  case (2 d)
  note used = provider.used_after [OF assms(1), of peer today DAILY_PROVIDER_CAP] provider.granted_iff [OF assms(1), of peer today DAILY_PROVIDER_CAP]
  obtain cs where "snd (try_reserve_provider peer today DAILY_PROVIDER_CAP (store_of a)) = (store_of a)\<lparr>peer_counters := cs\<rparr>"
    using counters_only(1) by blast
  with 2 used show ?thesis by auto
next
  case (3 d)
  obtain cs where "snd (try_reserve_provider peer today DAILY_PROVIDER_CAP (store_of a)) = (store_of a)\<lparr>peer_counters := cs\<rparr>"
    using counters_only(1) by blast
  moreover obtain cs' where "release_provider_slot peer today ((store_of a)\<lparr>peer_counters := cs\<rparr>) =
      (store_of a)\<lparr>peer_counters := cs, peer_counters := cs'\<rparr>"
    using counters_only(3) by blast
  ultimately have "\<exists>cs. release_provider_slot peer today (snd (try_reserve_provider peer today DAILY_PROVIDER_CAP (store_of a)))
      = (store_of a)\<lparr>peer_counters := cs\<rparr>" by auto
  moreover have "provider_used today (store_of a') q = provider_used today (store_of a) q" for q
    using refunded [OF assms(1) 3(3)] 3(4) by simp
  ultimately show ?thesis using 3 by auto
next
  case (4 d pr raw)
  note used = provider.used_after [OF assms(1), of peer today DAILY_PROVIDER_CAP] provider.granted_iff [OF assms(1), of peer today DAILY_PROVIDER_CAP]
  obtain cs where "snd (try_reserve_provider peer today DAILY_PROVIDER_CAP (store_of a)) = (store_of a)\<lparr>peer_counters := cs\<rparr>"
    using counters_only(1) by blast
  with 4 used show ?thesis by (auto simp: DAILY_PROVIDER_CAP_def)
qed

section \<open>Concrete reviews\<close>

definition agreeable :: mind where
  "agreeable = \<lparr>complete = (\<lambda>_ _. Inr ''{\"decision\": \"send\", \"texture_score\": 0.5}''), slot = (\<lambda>_. Inr True),
     should_yield = (\<lambda>_. Inr False), surface = '''', tool_prohibition = '''', privacy_guidance = '''', guidance = [],
     regenerate_segments = ('''', '''', ''''), reflection_segments = ('''', '''', '''')\<rparr>"

definition resting :: "store \<Rightarrow> agent" where
  "resting st = \<lparr>net = idle st, prompts = [], slots = 0, memories = []\<rparr>"


theorem review_fails_closed_witness:
  "\<exists>d a'. review toy agreeable \<lparr>body = ''hello'', relationship_hint = None\<rparr> ''p'' ''friend'' '''' ''r'' 0 ''d'' (resting empty_store) = (Inr d, a')"
proof -
  obtain r a' where run: "review toy agreeable \<lparr>body = ''hello'', relationship_hint = None\<rparr> ''p'' ''friend'' '''' ''r'' 0 ''d'' (resting empty_store) = (r, a')"
    by fastforce
  from review_fails_closed [OF this] run show ?thesis by blast
qed

theorem review_counts_completed_witness:
  "\<exists>r a'. review toy agreeable \<lparr>body = ''hello'', relationship_hint = None\<rparr> ''p'' ''friend'' '''' ''r'' 0 ''d'' (resting empty_store) = (r, a') \<and>
     snd (get_counters (store_of a') ''q'' ''d'') = 0"
proof -
  obtain r a' where run: "review toy agreeable \<lparr>body = ''hello'', relationship_hint = None\<rparr> ''p'' ''friend'' '''' ''r'' 0 ''d'' (resting empty_store) = (r, a')"
    by fastforce
  have "store_ok (store_of (resting empty_store))" by (simp add: resting_def idle_def store_ok_empty)
  from review_counts_completed [OF this run] run show ?thesis
    by (auto simp: resting_def idle_def empty_store_def get_counters_def)
qed

end
