(* ===== verification/Relationship_Laws.thy ===== *)
theory Relationship_Laws
  imports Relationship Gate_Laws
begin

text \<open>
  What a reflection can do to a relationship, and what a peer can do to the Kindled's feelings.
\<close>

section \<open>The stage\<close>

lemma stage_index_nth: "stage_index s = Some i \<Longrightarrow> i < 5 \<and> STAGES ! i = s"
  using nth_length_takeWhile [of "\<lambda>t. t \<noteq> s" STAGES]
  by (auto simp: stage_index_def Let_def STAGES_def split: if_splits)

lemma index_of_nth: "i < 5 \<Longrightarrow> stage_index (STAGES ! i) = Some i"
  by (auto simp: stage_index_def Let_def STAGES_def less_Suc_eq numeral_eq_Suc)

lemma bounded_stage_index:
  assumes "bounded_stage s p = Inr s'" "stage_index s = Some i"
  shows "\<exists>j. stage_index s' = Some j \<and>
    (case stage_index p of None \<Rightarrow> j = i | Some k \<Rightarrow> if i < k then j = i + 1 else if k < i then j = i - 1 else j = i)"
proof -
  have "i < 5" using stage_index_nth [OF assms(2)] by simp
  then show ?thesis
    using assms stage_index_nth [of p]
    by (auto simp: bounded_stage_def index_of_nth STAGES_def [THEN arg_cong, of length] split: option.splits if_splits)
qed

lemma grounded_evidence_all:
  "grounded_evidence X corr es = Inr evs \<Longrightarrow> e \<in> set evs \<Longrightarrow> is_grounded X (fst e) corr"
  by (induction es arbitrary: evs)
    (auto simp: Let_def bind_res_Inr_iff split: json.splits if_splits)

lemma apply_verdict_stage:
  assumes "apply_verdict X data corr held s = Inr s'" "stage_index (r_stage s) = Some i"
  shows "\<exists>j. stage_index (r_stage s') = Some j \<and> j \<le> i + 1 \<and> i \<le> j + 2 \<and>
    (j = i + 1 \<longrightarrow> (\<exists>e \<in> set (r_evidence s'). is_grounded X (fst e) corr)) \<and>
    (\<forall>h. held = Some h \<longrightarrow> 3 \<le> h \<longrightarrow> j \<le> i)"
proof -
  obtain grounded where g: "bind_res (evidence_items (dget_or ''evidence'' JNull data)) (grounded_evidence X corr) = Inr grounded"
    using assms(1) by (auto simp: apply_verdict_def bind_res_Inr_iff)
  then obtain es where es: "grounded_evidence X corr es = Inr grounded" by (auto simp: bind_res_Inr_iff)
  have all: "e \<in> set grounded \<Longrightarrow> is_grounded X (fst e) corr" for e
    by (rule grounded_evidence_all [OF es])
  define given where "given = py_str X (dget_or ''proposed_stage'' (JStr (r_stage s)) data)"
  define proposed where "proposed = (if (case stage_index given of None \<Rightarrow> False | Some p \<Rightarrow> i < p) \<and> grounded = [] then r_stage s else given)"
  obtain stage where stage: "bounded_stage (r_stage s) proposed = Inr stage"
    and s': "r_stage s' = (case held of
                        Some h \<Rightarrow> if HOLD_REGRESS_THRESHOLD \<le> h
                                  then (case stage_index stage of Some (Suc i) \<Rightarrow> STAGES ! i | _ \<Rightarrow> stage) else stage
                      | None \<Rightarrow> stage)" "r_evidence s' = (if grounded = [] then r_evidence s else take 10 grounded)"
    using assms unfolding apply_verdict_def g
    by (auto simp: bind_res_Inr_iff Let_def given_def [symmetric] proposed_def)
  obtain k where k: "stage_index stage = Some k"
    "case stage_index proposed of None \<Rightarrow> k = i | Some l \<Rightarrow> if i < l then k = i + 1 else if l < i then k = i - 1 else k = i"
    using bounded_stage_index [OF stage assms(2)] by blast
  have up: "k \<le> i + 1" "i \<le> k + 1" using k(2) by (auto split: option.splits if_splits)
  have ground: "k = i + 1 \<Longrightarrow> grounded \<noteq> []"
    using k(2) assms(2) by (auto simp: proposed_def split: option.splits if_splits)
  have ev: "grounded \<noteq> [] \<Longrightarrow> \<exists>e \<in> set (r_evidence s'). is_grounded X (fst e) corr"
    using all s'(2) by (cases grounded) auto
  have "k < 5" using stage_index_nth [OF k(1)] by simp
  show ?thesis
  proof (cases "\<exists>h. held = Some h \<and> 3 \<le> h")
    case True
    then have "stage_index (r_stage s') = Some (k - 1)"
      using s'(1) k(1) \<open>k < 5\<close> by (cases k) (auto simp: HOLD_REGRESS_THRESHOLD_def index_of_nth)
    then show ?thesis using up by auto
  next
    case False
    then have "r_stage s' = stage" using s'(1) by (auto simp: HOLD_REGRESS_THRESHOLD_def split: option.splits)
    then show ?thesis using k(1) up ground ev False by auto
  qed
qed

lemma tget_upsert: "get_relationship_row (upsert_relationship_row row now st) (r_peer row) = Some (row\<lparr>r_reflected_at := Some now\<rparr>)"
  by (simp add: upsert_relationship_row_def get_relationship_row_def tget_tput)

lemma relationship_frame:
  "get_relationship_row (snd (try_reserve_provider p d c st)) q = get_relationship_row st q"
  "get_relationship_row (release_provider_slot p d st) q = get_relationship_row st q"
  using counters_only(1) [of p d c st] counters_only(3) [of p d st] by (auto simp: get_relationship_row_def)

lemma emotion_frame: "get_relationship_row (snd (apply_peer_emotion p delta now st)) q = get_relationship_row st q"
  by (auto simp: apply_peer_emotion_def add_peer_emotion_def get_relationship_row_def Let_def split: pyfloat.splits)

lemma write_back_frame:
  "get_relationship_row (store_of (write_back X registered create data p sid persona stage now a)) q =
   get_relationship_row (store_of a) q"
  using emotion_frame [of p _ now "store_of a" q]
  by (auto simp: write_back_def Let_def split: option.splits prod.splits) (metis snd_conv)+

lemma state_peer: "r_peer (get_relationship_state st p) = p"
  by (auto simp: get_relationship_state_def get_relationship_row_def fresh_state_def dest: tget_key split: option.split)

lemma verdict_peer: "apply_verdict X data corr held s = Inr s' \<Longrightarrow> r_peer s' = r_peer s"
  by (cases "stage_index (r_stage s)") (auto simp: apply_verdict_def bind_res_Inr_iff Let_def)

lemma consult_frame:
  "\<exists>reply a'. consult M p today prompt a = (Inr reply, a') \<and>
     (\<forall>q. get_relationship_row (store_of a') q = get_relationship_row (store_of a) q)"
  unfolding consult_def Let_def
  by (cases "slot M (slots a)"; cases "complete M (length (prompts a)) prompt")
    (auto simp: catch_def seqp_def take_slot_def ask_def relationship_frame(2))

lemma conclude_run:
  assumes "conclude X registered mem p corr now held persona sid s data a = (r, a')" "r_peer s = p"
  shows "(\<exists>e. r = Inl e \<and> a' = a) \<or>
    (\<exists>s'. r = Inr (s'\<lparr>r_reflected_at := Some now\<rparr>) \<and> apply_verdict X data corr held s = Inr s' \<and>
       get_relationship_row (store_of a') p = Some (s'\<lparr>r_reflected_at := Some now\<rparr>))"
proof (cases "apply_verdict X data corr held s")
  case (Inr s')
  from verdict_peer [OF Inr] assms(2)
  have "get_relationship_row (upsert_relationship_row (s'\<lparr>r_reflected_at := Some now\<rparr>) now st) p = Some (s'\<lparr>r_reflected_at := Some now\<rparr>)" for st
    using tget_upsert [of "s'\<lparr>r_reflected_at := Some now\<rparr>"] by simp
  with assms(1) Inr show ?thesis
    by (cases mem) (auto simp: conclude_def Let_def seqp_def write_back_frame)
next
  case (Inl e)
  with assms(1) have "r = Inl e" "a' = a" by (simp_all add: conclude_def seqp_def)
  then show ?thesis by blast
qed

lemma hard_breach_run:
  assumes "hard_breach X data now s a = (r, a')" "r_peer s = p"
  shows "(\<exists>e. r = Inl e \<and> a' = a) \<or>
    (\<exists>s'. r = Inr s' \<and> r_stage s' = ''stranger'' \<and> r_trust s' = 0 \<and> get_relationship_row (store_of a') p = Some s')"
  using assms tget_upsert [of "s\<lparr>r_stage := ''stranger'', r_trust := 0, r_boundaries := b, r_reflected_at := Some now\<rparr>" now for b]
  by (cases "breach_note X data") (auto simp: hard_breach_def Let_def seqp_def)

lemma reflection_run:
  assumes "run_reflection X M registered mem p corr now today held persona sid a = (r, a')"
  obtains "r = Inr (get_relationship_state (store_of a) p)" "get_relationship_row (store_of a') p = get_relationship_row (store_of a) p"
  | e where "r = Inl e" "get_relationship_row (store_of a') p = get_relationship_row (store_of a) p"
  | s' where "r = Inr s'" "r_stage s' = ''stranger''" "r_trust s' = 0" "get_relationship_row (store_of a') p = Some s'"
  | s' data where "r = Inr (s'\<lparr>r_reflected_at := Some now\<rparr>)" "apply_verdict X data corr held (get_relationship_state (store_of a) p) = Inr s'"
      "get_relationship_row (store_of a') p = Some (s'\<lparr>r_reflected_at := Some now\<rparr>)"
proof -
  let ?s = "get_relationship_state (store_of a) p"
  obtain g st where g: "try_reserve_provider p today DAILY_PROVIDER_CAP (store_of a) = (g, st)" by fastforce
  have st: "get_relationship_row st q = get_relationship_row (store_of a) q" for q
    using relationship_frame(1) [of p today DAILY_PROVIDER_CAP "store_of a" q] g by simp
  show thesis
  proof (cases "today = day_text now \<and> g")
    case False
    then show ?thesis using assms g st that(1) by (auto simp: run_reflection_def seqp_def split: if_splits)
  next
    case True
    obtain reply a1 where c: "consult M p today (reflection_prompt M (r_stage ?s) corr) (a\<lparr>net := (net a)\<lparr>kdb := st\<rparr>\<rparr>) = (Inr reply, a1)"
        "get_relationship_row (store_of a1) p = get_relationship_row (store_of a) p"
      using consult_frame st by fastforce
    let ?data = "Option.bind (Option.bind reply braced) json_loads"
    have run: "(r, a') = (case ?data of
        Some (JObj data) \<Rightarrow>
          if truthy (dget_or ''hard_breach'' JNull data) then hard_breach X data now ?s
          else conclude X registered mem p corr now held persona sid ?s data
        | _ \<Rightarrow> ret ?s) a1"
      using assms True g c(1) by (simp add: run_reflection_def seqp_def)
    consider data where "?data = Some (JObj data)" | "\<And>data. ?data \<noteq> Some (JObj data)" by blast
    then show ?thesis
    proof cases
      case (1 data)
      show ?thesis
      proof (cases "truthy (dget_or ''hard_breach'' JNull data)")
        case True
        then have "hard_breach X data now ?s a1 = (r, a')" using run 1 by simp
        from hard_breach_run [OF this state_peer] c(2) that(2,3) show ?thesis by auto
      next
        case False
        then have "conclude X registered mem p corr now held persona sid ?s data a1 = (r, a')" using run 1 by simp
        from conclude_run [OF this state_peer] c(2) that(2,4) show ?thesis by auto
      qed
    next
      case 2
      then have "(r, a') = (Inr ?s, a1)" using run by (auto split: option.splits json.splits)
      then show ?thesis using c(2) that(1) by simp
    qed
  qed
qed

lemma get_stage_state: "get_stage st p = r_stage (get_relationship_state st p)"
  by (simp add: get_stage_def get_relationship_state_def fresh_state_def split: option.split)

text \<open>
  C36: A reflection moves a relationship by bounded steps. Whatever the model answers, the stage
  rises by at most one, and only when the stored evidence holds a quote of at least twelve
  characters that occurs in the correspondence; three or more held drafts rule out any rise; a fall
  of more than two stages is only the reset to \<open>stranger\<close>; and if the pass raises, the stage stays.
\<close>

theorem reflection_stage_bounded:
  assumes "run_reflection X M registered mem p corr now today held persona sid a = (r, a')"
    and "stage_index (get_stage (store_of a) p) = Some i"
  shows "\<exists>j. stage_index (get_stage (store_of a') p) = Some j \<and> j \<le> i + 1 \<and>
    (j = i + 1 \<longrightarrow> (\<exists>row. get_relationship_row (store_of a') p = Some row \<and> (\<exists>e \<in> set (r_evidence row). is_grounded X (fst e) corr))) \<and>
    (\<forall>h. held = Some h \<longrightarrow> 3 \<le> h \<longrightarrow> j \<le> i) \<and> (j + 2 < i \<longrightarrow> j = 0) \<and>
    ((\<exists>e. r = Inl e) \<longrightarrow> j = i)"
  using assms(1)
proof (cases rule: reflection_run)
  case 1
  then show ?thesis using assms(2) by (auto simp: get_stage_def)
next
  case (2 e)
  then show ?thesis using assms(2) by (auto simp: get_stage_def)
next
  case (3 s')
  then show ?thesis by (auto simp: get_stage_def stage_index_def STAGES_def)
next
  case (4 s' data)
  from apply_verdict_stage [OF 4(2) assms(2) [unfolded get_stage_state]] obtain j where
    "stage_index (r_stage s') = Some j \<and> j \<le> i + 1 \<and> i \<le> j + 2 \<and>
    (j = i + 1 \<longrightarrow> (\<exists>e \<in> set (r_evidence s'). is_grounded X (fst e) corr)) \<and> (\<forall>h. held = Some h \<longrightarrow> 3 \<le> h \<longrightarrow> j \<le> i)" ..
  then show ?thesis using 4 by (intro exI [of _ j]) (auto simp: get_stage_def)
qed

theorem reflection_stage_bounded_witness:
  "\<exists>r a' j. run_reflection toy agreeable (\<lambda>_. True) None ''p'' ''hi'' 0 (day_text 0) (Some 4) ''k'' '''' (resting empty_store) = (r, a') \<and>
     stage_index (get_stage (store_of a') ''p'') = Some j \<and> j = 0"
proof -
  obtain r a' where run: "run_reflection toy agreeable (\<lambda>_. True) None ''p'' ''hi'' 0 (day_text 0) (Some 4) ''k'' '''' (resting empty_store) = (r, a')"
    by fastforce
  have "stage_index (get_stage (store_of (resting empty_store)) ''p'') = Some 0"
    by (simp add: resting_def idle_def empty_store_def get_stage_def get_relationship_row_def stage_index_def STAGES_def)
  from reflection_stage_bounded [OF run this] run show ?thesis by auto
qed

text \<open>
   The two gradual regressions add up. When the model proposes a lower stage and three or more
  drafts were held, one reflection lowers the stage by two, although the hard breach is documented
  as the only move over more than one stage.
\<close>

theorem regressions_add_up:
  assumes "stage_index (r_stage s) = Some (Suc (Suc i))" "data = [(''proposed_stage'', JStr ''stranger'')]" "3 \<le> h"
  shows "\<exists>s'. apply_verdict X data corr (Some h) s = Inr s' \<and> stage_index (r_stage s') = Some i"
proof -
  have i: "i < 3" using stage_index_nth [OF assms(1)] by simp
  have z: "stage_index ''stranger'' = Some 0" by (simp add: stage_index_def STAGES_def)
  show ?thesis
    using assms i z index_of_nth [of "Suc i"] index_of_nth [of i]
    by (simp add: apply_verdict_def evidence_items_def dget_or_def bounded_stage_def HOLD_REGRESS_THRESHOLD_def Let_def)
qed

theorem regressions_add_up_witness:
  "\<exists>s'. apply_verdict toy [(''proposed_stage'', JStr ''stranger'')] '''' (Some 3) ((fresh_state ''p'')\<lparr>r_stage := ''friend''\<rparr>) = Inr s' \<and>
     stage_index (r_stage s') = Some 1"
proof -
  have "stage_index (r_stage ((fresh_state ''p'')\<lparr>r_stage := ''friend''\<rparr>)) = Some (Suc (Suc 1))"
    by (simp add: stage_index_def STAGES_def)
  from regressions_add_up [OF this refl, of 3 toy "''''"] show ?thesis by simp
qed

section \<open>The emotion cap\<close>

lemma flt_add_stuck: "(\<And>q. x \<noteq> Fin q) \<Longrightarrow> flt_add x y \<noteq> Fin q"
  by (cases x; cases y) auto

lemma total_stuck: "(\<And>q. x \<noteq> Fin q) \<Longrightarrow> foldl (\<lambda>a kv. flt_add a (flt_abs (snd kv))) x ys \<noteq> Fin m"
proof (induction ys arbitrary: x)
  case (Cons y ys)
  then show ?case using flt_add_stuck [OF Cons.prems] by simp
qed simp

lemma total_finite:
  "foldl (\<lambda>a kv. flt_add a (flt_abs (snd kv))) (Fin a) delta = Fin m \<Longrightarrow>
   (\<forall>kv \<in> set delta. \<exists>q. snd kv = Fin q) \<and> m = a + sum_list (map (\<lambda>kv. case snd kv of Fin q \<Rightarrow> \<bar>q\<bar> | _ \<Rightarrow> 0) delta)"
proof (induction delta arbitrary: a)
  case (Cons kv delta)
  have "\<exists>q. flt_add (Fin a) (flt_abs (snd kv)) = Fin q" using Cons.prems total_stuck by (metis foldl_Cons)
  then obtain v where v: "snd kv = Fin v" "flt_add (Fin a) (flt_abs (snd kv)) = Fin (a + \<bar>v\<bar>)"
    by (cases "snd kv") (auto simp: float_of_rat_def split: if_splits)
  with Cons.prems have "foldl (\<lambda>a kv. flt_add a (flt_abs (snd kv))) (Fin (a + \<bar>v\<bar>)) delta = Fin m" by simp
  from Cons.IH [OF this] v(1) show ?case by simp
qed simp

lemma decayed_bounds: "0 \<le> v \<Longrightarrow> 0 \<le> decayed_window v u t \<and> decayed_window v u t \<le> v"
proof -
  assume v: "0 \<le> v"
  have le: "v * max 0 (1 - y) \<le> v" if "0 < y" for y :: rat using mult_left_mono [of "max 0 (1 - y)" 1 v] v that by auto
  show ?thesis using v by (auto intro!: le simp: decayed_window_def PEER_EMOTION_WINDOW_HOURS_def Let_def not_le split: sum.split)
qed

lemma decayed_now: "decayed_window v (At now) now = v"
  by (simp add: decayed_window_def since_def)

text \<open>
  A peer's pull on the Kindled's feelings is capped. Starting from windows within the cap, a
  call of \<open>apply_peer_emotion\<close> with any delta at any time leaves every peer's window between 0 and
  0.6 at every time; what it applies is exactly what the peer's window grew by (nothing when the
  delta is not finite or the window is full), and no other peer's window moves.
\<close>

theorem peer_emotion_capped:
  assumes "\<And>q t. 0 \<le> get_peer_emotion_accumulated st q t \<and> get_peer_emotion_accumulated st q t \<le> 6 / 10"
    and "apply_peer_emotion p delta now st = (applied, st')"
  shows "0 \<le> get_peer_emotion_accumulated st' q t \<and> get_peer_emotion_accumulated st' q t \<le> 6 / 10 \<and>
    sum_list (map (\<lambda>kv. \<bar>snd kv\<bar>) applied) = get_peer_emotion_accumulated st' p now - get_peer_emotion_accumulated st p now \<and>
    (q \<noteq> p \<longrightarrow> get_peer_emotion_accumulated st' q t = get_peer_emotion_accumulated st q t)"
proof (cases "applied = [] \<and> st' = st")
  case False
  let ?acc = "get_peer_emotion_accumulated st p now"
  obtain m where m: "foldl (\<lambda>a kv. flt_add a (flt_abs (snd kv))) (Fin 0) delta = Fin m" "0 < m" "?acc < 6 / 10"
    using assms(2) False by (auto simp: apply_peer_emotion_def PEER_EMOTION_WINDOW_CAP_def Let_def split: pyfloat.splits if_splits)
  define sc where "sc = min 1 ((6 / 10 - ?acc) / m)"
  have sc: "0 \<le> sc" "m * sc \<le> 6 / 10 - ?acc" using m by (auto simp: sc_def min_def field_simps)
  have res: "applied = map (scaled sc) delta"
    "st' = st\<lparr>peer_emotion_window := tput m_peer \<lparr>m_peer = p, m_value = ?acc + m * sc, m_updated_at = At now\<rparr> (peer_emotion_window st)\<rparr>"
    using assms(2) m sc(1)
    by (auto simp: apply_peer_emotion_def PEER_EMOTION_WINDOW_CAP_def Let_def add_peer_emotion_def max_def sc_def)
  have acc': "get_peer_emotion_accumulated st' q t =
      (if q = p then decayed_window (?acc + m * sc) (At now) t else get_peer_emotion_accumulated st q t)" for q t
    by (simp add: res(2) get_peer_emotion_accumulated_def tget_tput)
  have range: "0 \<le> ?acc + m * sc" "?acc + m * sc \<le> 6 / 10" using assms(1) [of p now] sc m(2) by auto
  have "sum_list (map (\<lambda>kv. \<bar>snd kv\<bar>) applied) = m * sc"
  proof -
    from total_finite [OF m(1)] have fin: "\<forall>kv \<in> set delta. \<exists>q. snd kv = Fin q"
      "m = sum_list (map (\<lambda>kv. case snd kv of Fin q \<Rightarrow> \<bar>q\<bar> | _ \<Rightarrow> 0) delta)" by auto
    have "map (\<lambda>kv. \<bar>snd kv\<bar>) applied = map (\<lambda>kv. (case snd kv of Fin q \<Rightarrow> \<bar>q\<bar> | _ \<Rightarrow> 0) * sc) delta"
      using fin(1) sc(1) by (auto simp: res(1) scaled_def abs_mult)
    then show ?thesis by (simp add: fin(2) sum_list_mult_const)
  qed
  moreover have "0 \<le> decayed_window (?acc + m * sc) (At now) t \<and> decayed_window (?acc + m * sc) (At now) t \<le> 6 / 10"
    using decayed_bounds [OF range(1), of "At now" t] range(2) by linarith
  ultimately show ?thesis using assms(1) by (auto simp: acc' decayed_now)
qed (use assms(1) in simp)

theorem peer_emotion_capped_witness:
  "\<exists>applied st'. apply_peer_emotion ''p'' [(''joy'', Fin 2), (''fear'', Fin (- 2))] 0 empty_store = (applied, st') \<and>
     get_peer_emotion_accumulated st' ''p'' 0 \<le> 6 / 10 \<and> sum_list (map (\<lambda>kv. \<bar>snd kv\<bar>) applied) = 6 / 10"
proof -
  have start: "get_peer_emotion_accumulated empty_store q t = 0" for q t
    by (simp add: get_peer_emotion_accumulated_def empty_store_def)
  obtain applied st' where run: "apply_peer_emotion ''p'' [(''joy'', Fin 2), (''fear'', Fin (- 2))] 0 empty_store = (applied, st')" by fastforce
  have "applied = [(''joy'', 3 / 10), (''fear'', - 3 / 10)]"
    using run by (auto simp: apply_peer_emotion_def start PEER_EMOTION_WINDOW_CAP_def float_of_rat_def Let_def scaled_def min_def)
  then show ?thesis using peer_emotion_capped [OF _ run, of "''p''" 0] run start by auto
qed

end
