(* ===== verification/Engine_Laws.thy ===== *)
theory Engine_Laws
  imports Engine Relationship_Laws
begin

text \<open>
  What the engine guarantees with any gate that keeps to its contract: nothing leaves without a
  review that cleared it, the pacing and the caps hold over every sequence of calls, and what a
  malformed revision does. The contract is the locale \<open>outbound_gate\<close>, met by both gates of the
  code.
\<close>

section \<open>Programs that only touch the counters\<close>

definition quiet :: "(agent, 'a) prog \<Rightarrow> bool" where
  "quiet m \<longleftrightarrow> (\<forall>a. \<exists>cs. net (snd (m a)) = (net a)\<lparr>kdb := (store_of a)\<lparr>peer_counters := cs\<rparr>\<rparr>)"

named_theorems quiet_intros \<open>programs that change nothing of the world but the counters\<close>

lemma quietD: "quiet m \<Longrightarrow> \<exists>cs. net (snd (m a)) = (net a)\<lparr>kdb := (store_of a)\<lparr>peer_counters := cs\<rparr>\<rparr>"
  by (simp add: quiet_def)

lemma quiet_same: "(\<And>a. net (snd (m a)) = net a) \<Longrightarrow> quiet m"
proof -
  assume "\<And>a. net (snd (m a)) = net a"
  then have "net (snd (m a)) = (net a)\<lparr>kdb := (store_of a)\<lparr>peer_counters := peer_counters (store_of a)\<rparr>\<rparr>" for a by simp
  then show "quiet m" unfolding quiet_def by blast
qed

lemma quiet_basic [quiet_intros]:
  "quiet (ret x)" "quiet (raise e)" "quiet (lift r)" "quiet (reads f)" "quiet (ask M pr)" "quiet (take_slot M)"
  by (rule quiet_same; simp add: ask_def take_slot_def)+

lemma quiet_seqp [quiet_intros]: "quiet m \<Longrightarrow> (\<And>x. quiet (k x)) \<Longrightarrow> quiet (seqp m k)"
  unfolding quiet_def
proof
  fix a
  assume m: "\<forall>a. \<exists>cs. net (snd (m a)) = (net a)\<lparr>kdb := (store_of a)\<lparr>peer_counters := cs\<rparr>\<rparr>"
    and k: "\<And>x. \<forall>a. \<exists>cs. net (snd (k x a)) = (net a)\<lparr>kdb := (store_of a)\<lparr>peer_counters := cs\<rparr>\<rparr>"
  obtain r b where run: "m a = (r, b)" by fastforce
  from m obtain cs where b: "net b = (net a)\<lparr>kdb := (store_of a)\<lparr>peer_counters := cs\<rparr>\<rparr>" using run by (metis snd_conv)
  show "\<exists>cs. net (snd (seqp m k a)) = (net a)\<lparr>kdb := (store_of a)\<lparr>peer_counters := cs\<rparr>\<rparr>"
  proof (cases r)
    case (Inr x)
    from k [of x] obtain cs' where "net (snd (k x b)) = (net b)\<lparr>kdb := (store_of b)\<lparr>peer_counters := cs'\<rparr>\<rparr>" by blast
    then show ?thesis using run Inr b by auto
  qed (use run b in auto)
qed

lemma quiet_catch [quiet_intros]: "quiet m \<Longrightarrow> (\<And>e. quiet (h e)) \<Longrightarrow> quiet (catch m h)"
proof -
  assume m: "quiet m" and h: "\<And>e. quiet (h e)"
  show ?thesis unfolding quiet_def
  proof
    fix a
    obtain r b where run: "m a = (r, b)" by fastforce
    from quietD [OF m, of a] obtain cs where b: "net b = (net a)\<lparr>kdb := (store_of a)\<lparr>peer_counters := cs\<rparr>\<rparr>" using run by auto
    show "\<exists>cs. net (snd (catch m h a)) = (net a)\<lparr>kdb := (store_of a)\<lparr>peer_counters := cs\<rparr>\<rparr>"
    proof (cases r)
      case (Inl e)
      from quietD [OF h, of e b] obtain cs' where "net (snd (h e b)) = (net b)\<lparr>kdb := (store_of b)\<lparr>peer_counters := cs'\<rparr>\<rparr>" by blast
      then show ?thesis using run Inl b by (auto simp: catch_def)
    qed (use run b in \<open>auto simp: catch_def\<close>)
  qed
qed

lemma quiet_cases [quiet_intros]:
  "quiet m \<Longrightarrow> quiet m' \<Longrightarrow> quiet (if b then m else m')"
  "quiet m \<Longrightarrow> (\<And>x. quiet (k x)) \<Longrightarrow> quiet (case y of None \<Rightarrow> m | Some x \<Rightarrow> k x)"
  "(\<And>y. quiet (k y)) \<Longrightarrow> quiet (let y = x in k y)"
  by (auto split: option.split)

lemma quiet_store: "(\<And>st. \<exists>cs. snd (m st) = st\<lparr>peer_counters := cs\<rparr>) \<Longrightarrow> quiet (on_store m)"
proof -
  assume m: "\<And>st. \<exists>cs. snd (m st) = st\<lparr>peer_counters := cs\<rparr>"
  show "quiet (on_store m)" unfolding quiet_def
  proof
    fix a
    from m [of "store_of a"] obtain cs where "snd (m (store_of a)) = (store_of a)\<lparr>peer_counters := cs\<rparr>" ..
    then have "net (snd (on_store m a)) = (net a)\<lparr>kdb := (store_of a)\<lparr>peer_counters := cs\<rparr>\<rparr>" by simp
    then show "\<exists>cs. net (snd (on_store m a)) = (net a)\<lparr>kdb := (store_of a)\<lparr>peer_counters := cs\<rparr>\<rparr>" by blast
  qed
qed

lemma quiet_counters [quiet_intros]:
  "quiet (on_store (calls_to (try_reserve_provider p d c)))" "quiet (on_store (writes (release_provider_slot p d)))"
  "quiet (on_store (calls_to (try_reserve_outbound p d c)))"
  by (rule quiet_store; simp add: counters_only)+

lemma quiet_review: "quiet (review X M p peer stage ts reason now today)"
  unfolding review_def Let_def by (intro quiet_intros)

lemma quiet_regenerate: "quiet (regenerate M p c peer today)"
  unfolding regenerate_def Let_def by (intro quiet_intros)

lemma quiet_deny_all: "quiet (deny_all p peer stage ts reason now today)"
  unfolding deny_all_def by (intro quiet_intros)

lemma quiet_frame:
  assumes "quiet m"
  shows "sessions (store_of (snd (m a))) = sessions (store_of a)" "requests (net (snd (m a))) = requests (net a)"
  using quietD [OF assms, of a] by auto

section \<open>The contract of a gate\<close>

text \<open>The gate said send for this payload, at some moment of the call.\<close>

definition cleared :: "reviewer \<Rightarrow> payload \<Rightarrow> string \<Rightarrow> time \<Rightarrow> string \<Rightarrow> bool" where
  "cleared gate p peer now today \<longleftrightarrow>
     (\<exists>stage ts reason a d a'. gate p peer stage ts reason now today a = (Inr d, a') \<and> decided d = Send)"

definition bumped :: "string \<Rightarrow> string \<Rightarrow> time \<Rightarrow> session_row list \<Rightarrow> session_row list" where
  "bumped p s now t = tupd session_key_of (p, s) (\<lambda>r. r\<lparr>msg_count := msg_count r + 1, last_outbound_at := Some (At now)\<rparr>) t"

definition paused_at :: "string \<Rightarrow> string \<Rightarrow> time \<Rightarrow> session_row list \<Rightarrow> session_row list" where
  "paused_at p s now t = tupd session_key_of (p, s)
     (\<lambda>r. r\<lparr>s_state := ''ended'', ended_at := Some now, cooldown_until := Some (now + SESSION_COOLDOWN)\<rparr>) t"

text \<open>
  What a call did after its reviews: nothing; paused the session; or handed a cleared payload to the
  transmit closure, which may raise.
\<close>

definition outcome :: "reviewer \<Rightarrow> sender \<Rightarrow> string \<Rightarrow> string \<Rightarrow> time \<Rightarrow> string \<Rightarrow> agent \<Rightarrow> action res \<times> agent \<Rightarrow> bool" where
  "outcome gate send_fn p s now today a ra \<longleftrightarrow> (case ra of (r, a') \<Rightarrow>
     (r \<noteq> Inr Send \<and> r \<noteq> Inr EndOrPause \<and> sessions (store_of a') = sessions (store_of a) \<and> requests (net a') = requests (net a)) \<or>
     (r = Inr EndOrPause \<and> sessions (store_of a') = paused_at p s now (sessions (store_of a)) \<and> requests (net a') = requests (net a)) \<or>
     (\<exists>pl b. cleared gate pl p now today \<and> sessions (store_of b) = sessions (store_of a) \<and> requests (net b) = requests (net a) \<and>
        (case send_fn pl b of
           (Inl e, c) \<Rightarrow> r = Inl e \<and> a' = c
         | (Inr _, c) \<Rightarrow> r = Inr Send \<and> sessions (store_of a') = bumped p s now (sessions (store_of c)) \<and>
             requests (net a') = requests (net c))))"

lemma outcome_from:
  "outcome gate send_fn p s now today b ra \<Longrightarrow> sessions (store_of b) = sessions (store_of a) \<Longrightarrow>
   requests (net b) = requests (net a) \<Longrightarrow> outcome gate send_fn p s now today a ra"
  by (simp add: outcome_def)

lemma outcome_nothing:
  "r \<noteq> Inr Send \<Longrightarrow> r \<noteq> Inr EndOrPause \<Longrightarrow> sessions (store_of a') = sessions (store_of a) \<Longrightarrow>
   requests (net a') = requests (net a) \<Longrightarrow> outcome gate send_fn p s now today a (r, a')"
  by (simp add: outcome_def)

lemma outcome_quiet:
  assumes "quiet m" "\<And>e b. m a = (Inl e, b) \<Longrightarrow> fst (seqp m k a) = Inl e"
    and "\<And>x b. m a = (Inr x, b) \<Longrightarrow> outcome gate send_fn p s now today b (k x b)"
  shows "outcome gate send_fn p s now today a (seqp m k a)"
proof -
  obtain r b where run: "m a = (r, b)" by fastforce
  have same: "sessions (store_of b) = sessions (store_of a)" "requests (net b) = requests (net a)"
    using quiet_frame [OF assms(1), of a] run by simp_all
  show ?thesis
  proof (cases r)
    case (Inl e)
    then show ?thesis using run same by (simp add: outcome_nothing)
  next
    case (Inr x)
    then show ?thesis using run same assms(3) outcome_from by simp
  qed
qed

lemma outcome_transmit:
  assumes "cleared gate pl p now today"
  shows "outcome gate send_fn p s now today a (transmit send_fn p s pl score now today a)"
  unfolding transmit_def
proof (rule outcome_quiet, rule quiet_intros, goal_cases)
  case (2 reserved b)
  show ?case
  proof (cases reserved)
    case True
    obtain r c where sent: "send_fn pl b = (r, c)" by fastforce
    then show ?thesis using assms True
      by (cases r) (auto simp: outcome_def bumped_def bump_session_outbound_def debit_disclosure_budget_def Let_def seqp_def
          intro!: exI [of _ pl] exI [of _ b])
  qed (simp add: outcome_nothing)
qed simp

lemma outcome_final:
  assumes "decided d = Send \<Longrightarrow> cleared gate pl p now today"
  shows "outcome gate send_fn p s now today a (act_final send_fn d p s pl now today a)"
  using assms outcome_transmit
  by (cases "decided d") (auto simp: act_final_def outcome_def pause_session_def end_session_def paused_at_def seqp_def)

lemma outcome_requests:
  assumes "outcome gate send_fn p s now today a (r, a')" "requests (net a') \<noteq> requests (net a)"
  shows "\<exists>pl b. cleared gate pl p now today \<and> requests (net b) = requests (net a) \<and> requests (net a') = requests (net (snd (send_fn pl b)))"
proof -
  obtain pl b where b: "cleared gate pl p now today" "requests (net b) = requests (net a)"
    "case send_fn pl b of (Inl e, c) \<Rightarrow> r = Inl e \<and> a' = c
       | (Inr _, c) \<Rightarrow> r = Inr Send \<and> sessions (store_of a') = bumped p s now (sessions (store_of c)) \<and> requests (net a') = requests (net c)"
    using assms unfolding outcome_def by auto
  then have "requests (net a') = requests (net (snd (send_fn pl b)))" by (auto split: prod.splits sum.splits)
  with b show ?thesis by blast
qed

locale outbound_gate =
  fixes gate :: reviewer
  assumes gate_quiet: "quiet (gate p peer stage ts reason now today)"
begin

lemma outcome_act:
  assumes "decided d = Send \<Longrightarrow> cleared gate pl p now today"
  shows "outcome gate send_fn p s now today a (act_on_decision M gate send_fn d p s pl ts reason now today a)"
proof (cases "decided d = Revise")
  case False
  then show ?thesis using outcome_final [OF assms] by (simp add: act_on_decision_def)
next
  case True
  have "outcome gate send_fn p s now today b
      ((case revised of
          None \<Rightarrow> ret Hold
        | Some p' \<Rightarrow>
            seqp (reads (\<lambda>a. get_stage (store_of a) p)) (\<lambda>stage.
            seqp (catch (seqp (gate p' p stage ts reason now today) (\<lambda>d. ret (Some d))) (\<lambda>_. ret None)) (\<lambda>second.
            case second of
              None \<Rightarrow> ret Hold
            | Some d' \<Rightarrow> if decided d' = Revise then ret Hold else act_final send_fn d' p s p' now today))) b)"
    for revised b
  proof (cases revised)
    case (Some p')
    show ?thesis unfolding Some option.case
    proof (rule outcome_quiet, rule quiet_intros, goal_cases)
      case (2 stage b)
      let ?again = "catch (seqp (gate p' p stage ts reason now today) (\<lambda>d. ret (Some d))) (\<lambda>_. ret None)"
      show ?case
      proof (rule outcome_quiet [where m = ?again], goal_cases)
        case 1
        show ?case by (intro quiet_intros gate_quiet)
      next
        case (3 second c)
        show ?case
        proof (cases second)
          case (Some d')
          have "gate p' p stage ts reason now today b = (Inr d', c)"
            using 3 Some by (cases "gate p' p stage ts reason now today b") (auto simp: catch_def seqp_def split: sum.splits)
          then have "decided d' = Send \<Longrightarrow> cleared gate p' p now today" unfolding cleared_def by blast
          from outcome_final [OF this] show ?thesis using Some by (simp add: outcome_nothing)
        qed (simp add: outcome_nothing)
      qed simp
    qed simp
  qed (simp add: outcome_nothing)
  then show ?thesis unfolding act_on_decision_def True
    by (simp only: refl if_True) (rule outcome_quiet, rule quiet_regenerate, simp, blast)
qed

lemma outcome_process:
  "(case process_outbound M gate send_fn p s pl reason now today ts a of (r, a') \<Rightarrow>
     (a' = a \<and> (r = Inr Hold \<or> r = Inl ValueError)) \<or> (today = day_text now \<and> send_allowed (store_of a) p s now today)) \<and>
   outcome gate send_fn p s now today a (process_outbound M gate send_fn p s pl reason now today ts a)"
proof (cases "today = day_text now \<and> send_allowed (store_of a) p s now today")
  case False
  then show ?thesis by (auto simp: process_outbound_def check_day_def seqp_def outcome_nothing)
next
  case True
  let ?stage = "get_stage (store_of a) p"
  let ?first = "catch (gate pl p ?stage ts reason now today) (\<lambda>_. ret (decision Hold ''''))"
  have "process_outbound M gate send_fn p s pl reason now today ts a =
      seqp ?first (\<lambda>d. act_on_decision M gate send_fn d p s pl ts reason now today) a"
    using True [THEN conjunct1] True [THEN conjunct2, unfolded True [THEN conjunct1]]
    by (simp add: process_outbound_def check_day_def)
  moreover have "outcome gate send_fn p s now today a (seqp ?first (\<lambda>d. act_on_decision M gate send_fn d p s pl ts reason now today) a)"
  proof (rule outcome_quiet, goal_cases)
    case 1
    show ?case by (intro quiet_intros gate_quiet)
  next
    case (3 d b)
    have "decided d = Send \<Longrightarrow> cleared gate pl p now today"
    proof -
      assume "decided d = Send"
      moreover obtain r c where g: "gate pl p ?stage ts reason now today a = (r, c)" by fastforce
      ultimately show ?thesis using 3 unfolding cleared_def by (cases r) (auto simp: catch_def, blast)
    qed
    then show ?case by (rule outcome_act)
  qed simp
  ultimately show ?thesis using True by (auto split: prod.split)
qed

lemma process_outcome:
  "process_outbound M gate send_fn p s pl reason now today ts a = (r, a') \<Longrightarrow> outcome gate send_fn p s now today a (r, a')"
  by (metis outcome_process)

lemma process_allowed:
  assumes "process_outbound M gate send_fn p s pl reason now today ts a = (r, a')"
  shows "(a' = a \<and> (r = Inr Hold \<or> r = Inl ValueError)) \<or> (today = day_text now \<and> send_allowed (store_of a) p s now today)"
proof -
  have "case process_outbound M gate send_fn p s pl reason now today ts a of (r, a') \<Rightarrow>
     (a' = a \<and> (r = Inr Hold \<or> r = Inl ValueError)) \<or> (today = day_text now \<and> send_allowed (store_of a) p s now today)"
    by (rule outcome_process [THEN conjunct1])
  then show ?thesis unfolding assms by simp
qed

lemma sent_only_if_cleared:
  assumes "process_outbound M gate send_fn p s pl reason now today ts a = (r, a')" "requests (net a') \<noteq> requests (net a)"
  shows "today = day_text now \<and> send_allowed (store_of a) p s now today \<and>
    (\<exists>pl' b. cleared gate pl' p now today \<and> requests (net b) = requests (net a) \<and>
       requests (net a') = requests (net (snd (send_fn pl' b))))"
proof -
  from process_allowed [OF assms(1)] assms(2)
  have "today = day_text now \<and> send_allowed (store_of a) p s now today" by auto
  with outcome_requests [OF process_outcome [OF assms(1)] assms(2)] show ?thesis by blast
qed

end

interpretation privacy: outbound_gate "review X M" for X M
  by unfold_locales (rule quiet_review)

interpretation closed: outbound_gate deny_all
  by unfold_locales (rule quiet_deny_all)

lemma cleared_review:
  assumes "cleared (review X M) pl p now today"
  shows "prefilter (payload_scan X pl) = None \<and>
    (\<exists>n prompt raw. complete M n prompt = Inr raw \<and> decided (parse_verdict X raw) = Send)"
proof -
  obtain stage ts reason a d a' where run: "review X M pl p stage ts reason now today a = (Inr d, a')" and d: "decided d = Send"
    using assms by (auto simp: cleared_def)
  from run show ?thesis
  proof (cases rule: review_run)
    case (1 d')
    then show ?thesis using d by (auto simp: prefilter_def Let_def split: if_splits)
  next
    case (4 d' pr raw)
    then show ?thesis using d clamp_texture by fastforce
  qed (use d in auto)
qed


text \<open>
   The deny-all gate lets nothing out: with it no call of \<open>process_outbound\<close>, for any draft, peer,
  time and transmit closure, makes a request to the relay.
\<close>

theorem deny_all_sends_nothing:
  "requests (net (snd (process_outbound M deny_all send_fn p s pl reason now today ts a))) = requests (net a)"
proof (rule ccontr)
  assume "requests (net (snd (process_outbound M deny_all send_fn p s pl reason now today ts a))) \<noteq> requests (net a)"
  from closed.sent_only_if_cleared [OF prod.collapse [symmetric] this] obtain pl' where "cleared deny_all pl' p now today" by blast
  then show False by (auto simp: cleared_def deny_all_def decision_def)
qed

section \<open>Pacing\<close>

text \<open>Calls that may go through, each on a lane with the time of its last passage and a count.\<close>

locale pacer =
  fixes call :: "'c \<Rightarrow> 's \<Rightarrow> bool \<times> 's" and lane :: "'c \<Rightarrow> 'k" and at_time :: "'c \<Rightarrow> int"
    and prev :: "'s \<Rightarrow> 'k \<Rightarrow> int option" and used :: "'s \<Rightarrow> 'k \<Rightarrow> int" and gap cap :: int
  assumes passed: "fst (call c s) \<Longrightarrow> used s (lane c) < cap \<and> (\<forall>t. prev s (lane c) = Some t \<longrightarrow> t + gap \<le> at_time c) \<and>
      prev (snd (call c s)) (lane c) = Some (at_time c) \<and> used (snd (call c s)) (lane c) = used s (lane c) + 1"
    and waited: "k \<noteq> lane c \<or> \<not> fst (call c s) \<Longrightarrow> prev (snd (call c s)) k = prev s k \<and> used (snd (call c s)) k = used s k"
    and gap_pos: "0 \<le> gap"
begin

definition passages :: "'c list \<Rightarrow> 's \<Rightarrow> 'k \<Rightarrow> int list" where
  "passages cs s k = map at_time (filter (\<lambda>c. lane c = k) (map fst (filter snd (calls call cs s))))"

lemma passages_spaced:
  "sorted_wrt (\<lambda>x y. x + gap \<le> y) (passages cs s k) \<and> (\<forall>t. prev s k = Some t \<longrightarrow> (\<forall>u \<in> set (passages cs s k). t + gap \<le> u)) \<and>
   int (length (passages cs s k)) \<le> max 0 (cap - used s k)"
proof (induction cs arbitrary: s)
  case (Cons c cs)
  obtain g s' where run: "call c s = (g, s')" by fastforce
  show ?case
  proof (cases "g \<and> lane c = k")
    case True
    then have p: "passages (c # cs) s k = at_time c # passages cs s' k" by (simp add: passages_def run)
    have s': "used s k < cap" "\<forall>t. prev s k = Some t \<longrightarrow> t + gap \<le> at_time c" "prev s' k = Some (at_time c)" "used s' k = used s k + 1"
      using passed [of c s] run True by auto
    with Cons.IH [of s'] show ?thesis unfolding p using gap_pos by auto
  next
    case False
    then have p: "passages (c # cs) s k = passages cs s' k" by (auto simp: passages_def run)
    have "prev s' k = prev s k" "used s' k = used s k" using waited [of k c s] run False by auto
    with Cons.IH [of s'] show ?thesis unfolding p by simp
  qed
qed (simp add: passages_def)

end

record outbound_call =
  oc_peer :: string
  oc_session :: string
  oc_payload :: payload
  oc_reason :: string
  oc_time :: time
  oc_summary :: string

text \<open>A call of the engine as the tick makes it, with the privacy gate and the relay's closure.\<close>

definition engine_call :: "env \<Rightarrow> identity \<Rightarrow> client \<Rightarrow> mind \<Rightarrow> outbound_call \<Rightarrow> agent \<Rightarrow> bool \<times> agent" where
  "engine_call E idn c M oc a =
     (case process_outbound M (review (ext_of E) M) (make_send_fn E idn c (oc_time oc) (oc_peer oc) (oc_session oc))
             (oc_peer oc) (oc_session oc) (oc_payload oc) (oc_reason oc) (oc_time oc) (day_text (oc_time oc)) (oc_summary oc) a of
        (r, a') \<Rightarrow> (r = Inr Send, a'))"

definition session_last :: "session_row list \<Rightarrow> string \<times> string \<Rightarrow> time option" where
  "session_last t k = (case tget session_key_of k t of None \<Rightarrow> None | Some r \<Rightarrow> lenient_utc (last_outbound_at r))"
definition session_count :: "session_row list \<Rightarrow> string \<times> string \<Rightarrow> int" where
  "session_count t k = (case tget session_key_of k t of None \<Rightarrow> 0 | Some r \<Rightarrow> msg_count r)"

lemma send_message_sessions: "keeps (\<lambda>w. sessions (kdb w) = S) (send_message E idn c peer sid j now ttl)"
proof -
  have seq: "keeps (\<lambda>st. sessions st = S) (calls_to (next_outbound_sequence p s))" for p s
    by (rule keeps_calls_to) (simp add: next_outbound_sequence_def Let_def)
  show ?thesis unfolding send_message_def Let_def
    by (intro keeps_on_kdb [where Q = "\<lambda>st. sessions st = S"] seq keeps_intros keeps_relay [where Q = "\<lambda>st. sessions st = S"]
        keeps_log [where Q = "\<lambda>st. sessions st = S"])
qed

lemma make_send_fn_sessions: "sessions (store_of (snd (make_send_fn E idn c now p s pl a))) = sessions (store_of a)"
proof -
  let ?m = "send_message E idn c p s (JObj [(''text'', JStr (body pl))]) now MESSAGE_TTL"
  have "sessions (kdb (snd (?m (net a)))) = sessions (store_of a)"
    using keepsD [OF send_message_sessions refl] .
  then show ?thesis by (cases "?m (net a)"; cases "fst (?m (net a))") (auto simp: make_send_fn_def seqp_def)
qed

lemma session_table_simps:
  "session_last (bumped p s now t) k = (if k = (p, s) \<and> tget session_key_of k t \<noteq> None then Some now else session_last t k)"
  "session_count (bumped p s now t) k = (if k = (p, s) \<and> tget session_key_of k t \<noteq> None then session_count t k + 1 else session_count t k)"
  "session_last (paused_at p s now t) k = session_last t k" "session_count (paused_at p s now t) k = session_count t k"
  by (auto simp: session_last_def session_count_def bumped_def paused_at_def tget_tupd split: option.split)

lemma outcome_sessions:
  assumes "outcome gate send_fn p s now today a (r, a')"
    and "\<And>pl b. sessions (store_of (snd (send_fn pl b))) = sessions (store_of b)"
  shows "if r = Inr Send then sessions (store_of a') = bumped p s now (sessions (store_of a))
    else sessions (store_of a') = sessions (store_of a) \<or> sessions (store_of a') = paused_at p s now (sessions (store_of a))"
proof -
  have handed: "r = Inr Send \<longrightarrow> sessions (store_of a') = bumped p s now (sessions (store_of a))"
    "r \<noteq> Inr Send \<longrightarrow> sessions (store_of a') = sessions (store_of a)"
    if "sessions (store_of b) = sessions (store_of a)"
      "case send_fn pl b of (Inl e, c) \<Rightarrow> r = Inl e \<and> a' = c
         | (Inr _, c) \<Rightarrow> r = Inr Send \<and> sessions (store_of a') = bumped p s now (sessions (store_of c)) \<and>
             requests (net a') = requests (net c)" for pl b
    using that assms(2) [of pl b] by (cases "send_fn pl b"; cases "fst (send_fn pl b)"; auto)+
  from assms(1) show ?thesis unfolding outcome_def prod.case
    by (elim disjE exE conjE) (simp_all add: handed)
qed

lemma engine_call_sessions:
  assumes "engine_call E idn c M oc a = (g, a')"
  shows "if g then sessions (store_of a') = bumped (oc_peer oc) (oc_session oc) (oc_time oc) (sessions (store_of a)) \<and>
      send_allowed (store_of a) (oc_peer oc) (oc_session oc) (oc_time oc) (day_text (oc_time oc))
    else sessions (store_of a') = sessions (store_of a) \<or>
      sessions (store_of a') = paused_at (oc_peer oc) (oc_session oc) (oc_time oc) (sessions (store_of a))"
proof -
  let ?send = "make_send_fn E idn c (oc_time oc) (oc_peer oc) (oc_session oc)"
  obtain r where run: "process_outbound M (review (ext_of E) M) ?send (oc_peer oc) (oc_session oc) (oc_payload oc) (oc_reason oc)
      (oc_time oc) (day_text (oc_time oc)) (oc_summary oc) a = (r, a')" and g: "g = (r = Inr Send)"
    using assms(1) by (auto simp: engine_call_def split: prod.splits)
  from outcome_sessions [OF privacy.process_outcome [OF run] make_send_fn_sessions] privacy.process_allowed [OF run]
  show ?thesis unfolding g by auto
qed

lemma allowed_session:
  assumes "send_allowed st p s now today"
  shows "session_count (sessions st) (p, s) < 24" "tget session_key_of (p, s) (sessions st) \<noteq> None"
    "session_last (sessions st) (p, s) = Some t \<Longrightarrow> t + 60 * second \<le> now"
  using assms by (auto simp: send_allowed_def can_send_now_def under_session_cap_def get_session_def session_count_def session_last_def
      SESSION_MSG_CAP_def MIN_OUTBOUND_GAP_def split: option.splits)

interpretation pacing: pacer "engine_call E idn c M" "\<lambda>oc. (oc_peer oc, oc_session oc)" oc_time
  "\<lambda>a. session_last (sessions (store_of a))" "\<lambda>a. session_count (sessions (store_of a))" "60 * second" 24 for E idn c M
proof (unfold_locales, goal_cases)
  case (1 oc a)
  then obtain a' where run: "engine_call E idn c M oc a = (True, a')" by (metis prod.collapse)
  from engine_call_sessions [OF run] allowed_session show ?case using run by (auto simp: session_table_simps)
next
  case (2 k oc a)
  obtain g a' where run: "engine_call E idn c M oc a = (g, a')" by fastforce
  from engine_call_sessions [OF run] 2 show ?case using run by (cases g) (auto simp: session_table_simps)
qed simp

text \<open>
  C26: The engine paces itself. Over any sequence of calls with the privacy gate and the relay's
  closure, for any drafts, peers, sessions, times and answers of the model and the relay, the sends of
  one session are at least a minute apart, also from the last send recorded before, and there are at
  most 24 of them together with those already counted.
\<close>

theorem engine_paced:
  "let ran = map fst (filter snd (calls (engine_call E idn c M) cs a));
       times = map oc_time (filter (\<lambda>oc. oc_peer oc = p \<and> oc_session oc = s) ran)
   in sorted_wrt (\<lambda>x y. x + 60 * second \<le> y) times \<and>
      list_all (\<lambda>u. case session_last (sessions (store_of a)) (p, s) of None \<Rightarrow> True | Some t \<Rightarrow> t + 60 * second \<le> u) times \<and>
      int (length times) \<le> max 0 (24 - session_count (sessions (store_of a)) (p, s))"
proof -
  have "(\<lambda>c. (oc_peer c, oc_session c) = (p, s)) = (\<lambda>oc. oc_peer oc = p \<and> oc_session oc = s)" by simp
  then show ?thesis using pacing.passages_spaced [of E idn c M cs a "(p, s)"]
    by (auto simp: pacing.passages_def Let_def list_all_iff split: option.split)
qed

section \<open>Concrete calls\<close>

definition open_store :: store where
  "open_store = create_session ''p'' ''s'' 0 empty_store"

definition replying :: "string \<Rightarrow> mind" where
  "replying reply = agreeable\<lparr>complete := (\<lambda>_ _. Inr reply)\<rparr>"

definition plain :: "string \<Rightarrow> payload" where "plain s = \<lparr>body = s, relationship_hint = None\<rparr>"

text \<open>A transmit closure that makes one request.\<close>

definition beacon :: sender where
  "beacon p a = (Inr (), a\<lparr>net := (net a)\<lparr>requests := requests (net a) @ [(''/envelope'', JStr (body p))]\<rparr>\<rparr>)"

lemma prefilter_plain [simp]: "prefilter (payload_scan X (plain ''hello'')) = None"
proof -
  have "payload_scan X (plain ''hello'') = ''hello''" by (simp add: payload_scan_def plain_def MAX_SCAN_CHARS_def)
  moreover have "prefilter ''hello'' = None" by code_simp
  ultimately show ?thesis by simp
qed

lemma first_verdicts:
  "parse_verdict toy ''{\"decision\": \"send\"}'' = \<lparr>decided = Send, d_reason = '''', revision_constraints = JNull, texture_score = 1\<rparr>"
  "parse_verdict toy ''{\"decision\": \"revise\", \"revision_constraints\": 7}'' =
     \<lparr>decided = Revise, d_reason = '''', revision_constraints = JInt 7, texture_score = 1\<rparr>"
  by code_simp+

definition asked_of :: "string \<Rightarrow> agent" where
  "asked_of pr = \<lparr>net = idle (open_store\<lparr>peer_counters := [\<lparr>c_peer = ''p'', reset_date = day_text 0, outbound_count = 0, provider_call_count = 1\<rparr>]\<rparr>),
     prompts = [pr], slots = 1, memories = []\<rparr>"

lemma review_open:
  "\<exists>pr. review X (replying reply) (plain ''hello'') ''p'' stage summary why 0 (day_text 0) (resting open_store) =
     (Inr (apply_budget (parse_verdict X reply) 1), asked_of pr)"
  by (simp add: review_def Let_def seqp_def catch_def take_slot_def ask_def replying_def agreeable_def resting_def idle_def open_store_def
      create_session_def empty_store_def try_reserve_provider_def ensure_counter_row_def get_disclosure_budget_def DAILY_PROVIDER_CAP_def
      asked_of_def BUDGET_MAX_def tget_def tupd_def tins_def del: dumps.simps)

lemma open_verdict:
  assumes "parse_verdict X reply = d" "apply_budget d 1 = d"
  obtains pr where "review X (replying reply) (plain ''hello'') ''p'' (get_stage (store_of (resting open_store)) ''p'') '''' ''r'' 0 (day_text 0)
    (resting open_store) = (Inr d, asked_of pr)"
  using review_open assms by metis

lemma allowed_open: "send_allowed (store_of (resting open_store)) ''p'' ''s'' 0 (day_text 0)"
  by (simp add: send_allowed_def can_send_now_def under_session_cap_def under_daily_caps_def resting_def idle_def open_store_def
      create_session_def empty_store_def get_session_def get_counters_def tget_def tins_def SESSION_MSG_CAP_def DAILY_OUTBOUND_CAP_def
      DAILY_PROVIDER_CAP_def)

text \<open>
   A revision the model words badly is not held but raised. When the gate asks for a revision and
  its constraint is neither missing, empty nor a text, \<open>process_outbound\<close> raises \<open>TypeError\<close> instead of
  holding: the draft stays pending and the exception reaches the caller.
\<close>

theorem revise_constraint_raises:
  assumes "today = day_text now" "send_allowed (store_of a) p s now today"
    and "gate pl p (get_stage (store_of a) p) summary why now today a = (Inr d, b)"
    and "decided d = Revise" "truthy (revision_constraints d)" "constraint_text (revision_constraints d) = Inl e"
  shows "process_outbound M gate send_fn p s pl why now today summary a = (Inl TypeError, b)"
proof -
  have "constraint_text (revision_constraints d) = Inl TypeError"
    using assms(5,6) by (cases "revision_constraints d") (auto simp: constraint_text_def)
  moreover have "seqp (regenerate M pl (revision_constraints d) p today) k b = (Inl TypeError, b)" for k :: "payload option \<Rightarrow> (agent, action) prog"
    by (simp add: regenerate_def seqp_def calculation)
  ultimately show ?thesis using assms(2-4) unfolding process_outbound_def check_day_def assms(1) act_on_decision_def
    by (simp add: seqp_def catch_def)
qed

theorem revise_constraint_raises_witness:
  "\<exists>b. process_outbound (replying ''{\"decision\": \"revise\", \"revision_constraints\": 7}'')
     (review toy (replying ''{\"decision\": \"revise\", \"revision_constraints\": 7}'')) beacon ''p'' ''s'' (plain ''hello'') ''r'' 0 (day_text 0) ''''
     (resting open_store) = (Inl TypeError, b)"
proof -
  let ?reply = "''{\"decision\": \"revise\", \"revision_constraints\": 7}''"
  let ?d = "\<lparr>decided = Revise, d_reason = '''', revision_constraints = JInt 7, texture_score = 1\<rparr>"
  obtain pr where "review toy (replying ?reply) (plain ''hello'') ''p'' (get_stage (store_of (resting open_store)) ''p'') '''' ''r'' 0 (day_text 0)
      (resting open_store) = (Inr ?d, asked_of pr)"
    using open_verdict [of toy ?reply ?d] first_verdicts by (auto simp: apply_budget_def)
  from revise_constraint_raises [where gate = "review toy (replying ?reply)", OF refl allowed_open this] show ?thesis by (auto simp: constraint_text_def)
qed

lemma beacon_sends:
  "\<exists>b. process_outbound (replying ''{\"decision\": \"send\"}'') (review toy (replying ''{\"decision\": \"send\"}''))
     beacon ''p'' ''s'' (plain ''hello'') ''r'' 0 (day_text 0) '''' (resting open_store) = (Inr Send, b) \<and>
     requests (net b) = [(''/envelope'', JStr ''hello'')]"
proof -
  let ?reply = "''{\"decision\": \"send\"}''"
  let ?d = "\<lparr>decided = Send, d_reason = '''', revision_constraints = JNull, texture_score = 1\<rparr>"
  obtain pr where run: "review toy (replying ?reply) (plain ''hello'') ''p'' (get_stage (store_of (resting open_store)) ''p'') '''' ''r'' 0 (day_text 0)
      (resting open_store) = (Inr ?d, asked_of pr)"
    using open_verdict [of toy ?reply ?d] first_verdicts by (auto simp: apply_budget_def BUDGET_DEPLETED_THRESHOLD_def
      MIN_SEND_DEBIT_def BUDGET_TIGHTEN_THRESHOLD_def)
  have "fst (try_reserve_outbound ''p'' (day_text 0) DAILY_OUTBOUND_CAP (store_of (asked_of pr)))"
    by (simp add: try_reserve_outbound_def ensure_counter_row_def asked_of_def idle_def tget_def Let_def DAILY_OUTBOUND_CAP_def)
  with run allowed_open show ?thesis
    by (simp add: process_outbound_def check_day_def seqp_def catch_def act_on_decision_def act_final_def transmit_def beacon_def
        asked_of_def idle_def plain_def)
qed


end
