(* ===== verification/Tick_Laws.thy ===== *)
theory Tick_Laws
  imports Tick Poll Engine_Laws "HOL-Library.Sublist"
begin

text \<open>
  What the whole tick guarantees. Everything it does to the database is a sequence of the store's
  calls: the locale \<open>receiving\<close> proves that for the inbound half, \<open>store_invariant\<close> for the rest, for
  any property the calls keep. The instances give the well-formedness of the tables, the invites
  that stay consumed, the exact set of reachable databases, and, for the inbound half alone, that a
  disabled link sends no message.
\<close>

section \<open>Properties kept by the store's calls\<close>

lemma keeps_on_net [keeps_intros]: "keeps Q m \<Longrightarrow> keeps (\<lambda>a. Q (net a)) (on_net m)"
  by (auto simp: keeps_def on_net_def split: prod.split)

lemma keeps_on_agent [keeps_intros]: "keeps Q m \<Longrightarrow> keeps (\<lambda>k. Q (who k)) (on_agent m)"
  by (auto simp: keeps_def on_agent_def split: prod.split)

lemma keeps_or_keep: "(\<And>st. Q st \<Longrightarrow> Q (or_keep st (f st))) \<Longrightarrow> keeps Q (attempts f)"
proof (rule keeps_attempts)
  fix st st' assume "\<And>st. Q st \<Longrightarrow> Q (or_keep st (f st))" "Q st" "f st = Inr st'"
  then have "Q (or_keep st (f st))" by blast
  then show "Q st'" using \<open>f st = Inr st'\<close> by (simp add: or_keep_def)
qed

text \<open>The calls that receiving and draining make.\<close>

fun inbound_op :: "store_op \<Rightarrow> bool" where
  "inbound_op (UpsertPeer p pub fp c url mbx now) = True"
| "inbound_op (SetHighWater p s v) = True"
| "inbound_op (CreateSession p s now) = True"
| "inbound_op (AppendTranscript p s n dir t now prov) = True"
| "inbound_op (CreateMailbox token) = True"
| "inbound_op (ClearHandshake p s) = True"
| "inbound_op (SaveSessionKey p s k a b now) = True"
| "inbound_op (ClearNotice p) = True"
| "inbound_op (UpdateIdentity p pub fp now) = True"
| "inbound_op _ = False"

locale receiving =
  fixes Q :: "store \<Rightarrow> bool"
  assumes inbound_step: "inbound_op op \<Longrightarrow> Q st \<Longrightarrow> Q (exec_op op st)"
begin

lemma keeps_inbound_calls:
  "keeps Q (attempts (upsert_peer p pub fp c url mbx now))" "keeps Q (attempts (set_seq_high_water p s v))"
  "keeps Q (writes (create_session p s now))" "keeps Q (attempts (append_transcript p s n dir t now prov))"
  "keeps Q (calls_to (get_or_create_local_mailbox token))" "keeps Q (writes (clear_pending_handshake p s))"
  "keeps Q (writes (save_session_key p s k a b now))" "keeps Q (writes (clear_rotation_notice p))"
  using inbound_step [of "UpsertPeer p pub fp c url mbx now"] inbound_step [of "SetHighWater p s v"]
    inbound_step [of "CreateSession p s now"] inbound_step [of "AppendTranscript p s n dir t now prov"]
    inbound_step [of "CreateMailbox token"] inbound_step [of "ClearHandshake p s"]
    inbound_step [of "SaveSessionKey p s k a b now"] inbound_step [of "ClearNotice p"]
  by (auto intro!: keeps_or_keep keeps_writes keeps_calls_to)

lemma keeps_apply_rotation: "keeps Q (apply_rotation p pub fp now)"
proof (rule keepsI)
  fix st assume "Q st"
  then show "Q (snd (apply_rotation p pub fp now st))"
    using inbound_step [of "UpdateIdentity p pub fp now" st]
    by (cases "update_peer_identity p pub fp now st") (simp add: apply_rotation_def)
qed

lemma keeps_peer_of: "keeps P (peer_of X j)"
  by (simp add: keeps_def peer_of_run)

lemma keeps_handshake:
  "keeps Q (on_session_open X idn e now ttl eph tk)" "keeps Q (complete_session X idn e now)"
  unfolding on_session_open_def answer_open_def complete_session_def learn_mailbox_def Let_def
  by (intro keeps_lookup keeps_inbound_calls keeps_intros)+

lemmas world_intros = keeps_on_kdb [where Q = Q] keeps_drawn [where Q = Q] keeps_relay [where Q = Q] keeps_log [where Q = Q]
  keeps_handshake keeps_apply_rotation keeps_peer_of keeps_inbound_calls

lemma keeps_item: "keeps (\<lambda>w. Q (kdb w)) (ingest_item E idn c sender e now)"
  unfolding ingest_item_def ingest_session_open_def handle_key_rotation_notice_def ingest_message_def Let_def
  by (intro world_intros keeps_intros)

lemma keeps_items: "keeps (\<lambda>w. Q (kdb w)) (ingest_items E idn c sender items now t)"
  by (induction items arbitrary: t) (auto intro!: keeps_intros keeps_item)

lemma keeps_groups: "keeps (\<lambda>w. Q (kdb w)) (ingest_groups E idn c gs now t)"
proof (induction gs arbitrary: t)
  case (Cons g gs)
  have "keeps (\<lambda>w. Q (kdb w)) (ingest_group E idn c k items now t)" for k items
    unfolding ingest_group_def Let_def by (intro world_intros keeps_items keeps_intros)
  with Cons show ?case by (cases g) (auto intro!: keeps_intros)
qed (simp add: keeps_basic)

lemma keeps_poll: "keeps (\<lambda>w. Q (kdb w)) (poll_and_ingest E idn c now)"
  unfolding poll_and_ingest_def by (intro world_intros keeps_group_items keeps_groups keeps_intros)

lemma keeps_drain: "keeps (\<lambda>w. Q (kdb w)) (drain_pending_rotation_notices E c now)"
  unfolding drain_pending_rotation_notices_def drain_notice_def Let_def
  by (intro world_intros keeps_intros)

end

text \<open>The calls that reviewing, drafting and sending make.\<close>

fun sending_op :: "store_op \<Rightarrow> bool" where
  "sending_op (NextSequence p s) = True"
| "sending_op (ReserveOutbound p d cap) = True"
| "sending_op (ReserveProvider p d cap) = True"
| "sending_op (ReleaseProvider p d) = True"
| "sending_op (BumpOutbound p s now) = True"
| "sending_op (DebitBudget p x now) = True"
| "sending_op (EndSession p s now cd) = True"
| "sending_op _ = False"

locale sending =
  fixes Q :: "store \<Rightarrow> bool"
  assumes sending_step: "sending_op op \<Longrightarrow> Q st \<Longrightarrow> Q (exec_op op st)"
begin

lemma keeps_sending_calls:
  "keeps Q (calls_to (next_outbound_sequence p s))" "keeps Q (calls_to (try_reserve_outbound p d cap))"
  "keeps Q (calls_to (try_reserve_provider p d cap))" "keeps Q (writes (release_provider_slot p d))"
  "keeps Q (writes (bump_session_outbound p s now))" "keeps Q (writes (debit_disclosure_budget p x now))"
  "keeps Q (writes (end_session p s now cd))"
  using sending_step [of "NextSequence p s"] sending_step [of "ReserveOutbound p d cap"] sending_step [of "ReserveProvider p d cap"]
    sending_step [of "ReleaseProvider p d"] sending_step [of "BumpOutbound p s now"] sending_step [of "DebitBudget p x now"]
    sending_step [of "EndSession p s now cd"]
  by (auto intro!: keeps_writes keeps_calls_to)

abbreviation kept :: "(agent, 'a) prog \<Rightarrow> bool" where "kept m \<equiv> keeps (\<lambda>a. Q (store_of a)) m"

lemma kept_basic: "kept (ask M pr)" "kept (take_slot M)"
  by (simp_all add: keeps_def ask_def take_slot_def)

lemma kept_on_store: "keeps Q m \<Longrightarrow> kept (on_store m)"
  by (rule keeps_on_net [where Q = "\<lambda>w. Q (kdb w)"]) (rule keeps_on_kdb)

lemmas kept_intros = kept_on_store keeps_sending_calls kept_basic

lemma kept_review: "kept (review X M msg peer stage ts reason now today)"
  unfolding review_def Let_def by (intro kept_intros keeps_intros)

lemma keeps_send_message: "keeps (\<lambda>w. Q (kdb w)) (send_message E idn c peer sid j now ttl)"
  unfolding send_message_def Let_def by (intro keeps_on_kdb [where Q = Q] keeps_relay [where Q = Q] keeps_log [where Q = Q] keeps_sending_calls keeps_intros)

lemma kept_make_send_fn: "kept (make_send_fn E idn c now p s pl)"
  unfolding make_send_fn_def by (intro keeps_on_net [where Q = "\<lambda>w. Q (kdb w)"] keeps_send_message keeps_intros)

lemma kept_action: "kept a \<Longrightarrow> kept b \<Longrightarrow> kept c \<Longrightarrow> kept d \<Longrightarrow> kept (case act of Send \<Rightarrow> a | Revise \<Rightarrow> b | Hold \<Rightarrow> c | EndOrPause \<Rightarrow> d)"
  by (cases act) simp_all

lemma kept_act_final:
  assumes "\<And>pl. kept (send_fn pl)"
  shows "kept (act_final send_fn d p s pl now today)"
  unfolding act_final_def transmit_def pause_session_def by (intro kept_action assms kept_intros keeps_intros)

lemma kept_process:
  assumes "\<And>pl. kept (send_fn pl)" "\<And>pl peer stage ts why now today. kept (gate pl peer stage ts why now today)"
  shows "kept (process_outbound M gate send_fn p s pl why now today ts)"
  unfolding process_outbound_def check_day_def act_on_decision_def regenerate_def Let_def
  by (intro assms kept_act_final kept_intros keeps_intros)

lemma kept_generate: "kept (generate_draft M p v amb stage ts today)"
  unfolding generate_draft_def Let_def by (intro kept_intros keeps_intros)

end

locale store_invariant =
  fixes Q :: "store \<Rightarrow> bool"
  assumes step: "Q st \<Longrightarrow> Q (exec_op op st)"

sublocale store_invariant \<subseteq> receiving
  by unfold_locales (rule step)

sublocale store_invariant \<subseteq> sending
  by unfold_locales (rule step)

context store_invariant
begin

lemma keeps_calls:
  "keeps Q (writes (set_draft_status i status))" "keeps Q (calls_to (save_draft p s j now status))"
  "keeps Q (writes (upsert_relationship_row r now))" "keeps Q (writes (save_pending_handshake p s eph n role when))"
  using step [of _ "SetDraftStatus i status"] step [of _ "SaveDraft p s j now status"]
    step [of _ "UpsertRelationship r now"] step [of _ "SaveHandshake p s eph n role when"]
  by (auto intro!: keeps_writes keeps_calls_to)

lemmas all_intros = kept_intros keeps_calls

lemma kept_recover:
  assumes "\<And>p s pl. kept (factory p s pl)" "\<And>pl peer stage ts why now today. kept (gate pl peer stage ts why now today)"
  shows "kept (recover M gate factory now today)"
proof -
  have "kept (recover_all M gate factory ds now today)" for ds
    by (induction ds) (unfold recover_all.simps recover_one_def, intro keeps_intros, (intro keeps_intros all_intros kept_process assms; assumption?)+)
  then show ?thesis unfolding recover_def by (intro keeps_intros)
qed

lemma kept_emotion: "Q st \<Longrightarrow> Q (snd (apply_peer_emotion p delta now st))"
proof -
  assume q: "Q st"
  have "Q (snd (add_peer_emotion p m now st))" for m using step [OF q, of "AddEmotion p m now"] by simp
  with q show ?thesis by (auto simp: apply_peer_emotion_def Let_def split: pyfloat.split)
qed

lemma kept_reflection: "kept (run_reflection X M reg mem p corr now today holds who' sid)"
proof -
  have written: "Q (store_of (write_back X reg create data p sid who' stage now a))" if "Q (store_of a)" for create data stage a
    using that kept_emotion by (auto simp: write_back_def Let_def split: option.split prod.split) (metis snd_conv)+
  show ?thesis
    unfolding run_reflection_def consult_def hard_breach_def conclude_def Let_def
    by (intro all_intros keeps_intros) (auto split: option.split intro: written)
qed

lemma keeps_tick:
  assumes "own_gate H = None"
  shows "keeps (\<lambda>k. Q (db_of k)) (run_kindled_link_tick H idn c now)"
proof -
  have gate: "kept (gate_of H pl peer stage ts why t d)" for pl peer stage ts why t d
    by (simp add: gate_of_def assms kept_review)
  have send: "kept (draft_and_send H idn c p s why summary t d)" for p s why summary t d
    unfolding draft_and_send_def by (intro kept_generate kept_process kept_make_send_fn gate all_intros keeps_intros)
  have open': "keeps Q (open_session X idn p t ttl tk eph n mbx)" for X p t ttl tk eph n mbx
    unfolding open_session_def Let_def by (intro keeps_calls keeps_inbound_calls keeps_intros)
  have start: "keeps (\<lambda>w. Q (kdb w)) (start_session E idn c p t)" for E p t
    unfolding start_session_def by (intro world_intros open' keeps_intros)
  have lift_agent: "kept m \<Longrightarrow> keeps (\<lambda>k. Q (db_of k)) (on_agent m)" for m :: "(agent, 'x) prog"
    by (rule keeps_on_agent [where Q = "\<lambda>a. Q (store_of a)"])
  have lift_net: "keeps (\<lambda>w. Q (kdb w)) m \<Longrightarrow> keeps (\<lambda>k. Q (db_of k)) (on_agent (on_net m))" for m :: "(world, 'x) prog"
    by (rule keeps_on_agent [where Q = "\<lambda>a. Q (store_of a)"], rule keeps_on_net [where Q = "\<lambda>w. Q (kdb w)"])
  have set: "keeps (\<lambda>k. Q (db_of k)) (writes f)" if "\<And>k. who (f k) = who k" for f
    by (rule keeps_writes) (simp add: that)
  have peer: "keeps (\<lambda>k. Q (db_of k)) (tick_peer H idn c p t d)" for p t d
    unfolding tick_peer_def reflect_if_due_def
    by (intro lift_agent lift_net send start kept_reflection set keeps_intros) simp_all
  have peers: "keeps (\<lambda>k. Q (db_of k)) (tick_peers H idn c ps t d n bad)" for ps t d n bad
    by (induction ps arbitrary: n bad) (unfold tick_peers.simps, intro keeps_intros, (intro keeps_intros peer; assumption?)+)
  show ?thesis
    unfolding run_kindled_link_tick_def outbound_half_def Let_def
    by (intro lift_agent lift_net kept_recover kept_make_send_fn gate peers keeps_poll keeps_drain set keeps_intros) simp_all
qed

lemma keeps_live:
  assumes "own_gate H = None"
  shows "keeps (\<lambda>k. Q (db_of k)) (maybe_run_tick H url idn now)"
proof -
  have reg: "keeps (\<lambda>w. Q (kdb w)) (register E c)" for E c
    unfolding register_def by (intro keeps_post [where Q = Q] keeps_intros)
  have lift_net: "keeps (\<lambda>w. Q (kdb w)) m \<Longrightarrow> keeps (\<lambda>k. Q (db_of k)) (on_agent (on_net m))" for m :: "(world, 'x) prog"
    by (rule keeps_on_agent [where Q = "\<lambda>a. Q (store_of a)"], rule keeps_on_net [where Q = "\<lambda>w. Q (kdb w)"])
  show ?thesis
    unfolding maybe_run_tick_def run_tick_live_def Let_def
    by (intro lift_net world_intros reg keeps_tick [OF assms] keeps_intros)
qed

end

interpretation wf: store_invariant store_ok
  by unfold_locales (rule exec_op_ok)

interpretation ledger: store_invariant "\<lambda>st. is_invite_consumed st i" for i
  by unfold_locales (rule exec_op_invites)

interpretation reach: store_invariant "\<lambda>st. \<exists>ops. st = fold exec_op ops st0" for st0
proof
  fix st op assume "\<exists>ops. st = fold exec_op ops st0"
  then obtain ops where "st = fold exec_op ops st0" ..
  then have "exec_op op st = fold exec_op (ops @ [op]) st0" by simp
  then show "\<exists>ops. exec_op op st = fold exec_op ops st0" ..
qed

section \<open>The tick and the store\<close>

text \<open>A tick of the supervisor: what it runs with, the relay url, what loading the identity gave, the time.\<close>

type_synonym live_tick = "host \<times> string option \<times> identity res \<times> time"

fun live_ticks :: "live_tick list \<Rightarrow> keeper \<Rightarrow> keeper" where
  "live_ticks [] k = k"
| "live_ticks ((H, url, idn, now) # ts) k = live_ticks ts (snd (maybe_run_tick (H\<lparr>own_gate := None\<rparr>) url idn now k))"

lemma live_ticks_reach:
  "\<exists>ops. db_of (live_ticks ts k) = fold exec_op ops (db_of k)"
proof (induction ts arbitrary: k)
  case Nil
  have "db_of (live_ticks [] k) = fold exec_op [] (db_of k)" by simp
  then show ?case ..
next
  case (Cons t ts)
  obtain H url idn now where t: "t = (H, url, idn, now)" by (metis prod_cases4)
  let ?k = "snd (maybe_run_tick (H\<lparr>own_gate := None\<rparr>) url idn now k)"
  have start: "\<exists>ops. db_of k = fold exec_op ops (db_of k)" by (rule exI [of _ "[]"]) simp
  have "\<exists>ops. db_of ?k = fold exec_op ops (db_of k)"
    by (rule keepsD [OF reach.keeps_live start]) simp
  then obtain ops where first: "db_of ?k = fold exec_op ops (db_of k)" ..
  from Cons.IH [of ?k] obtain ops' where "db_of (live_ticks ts ?k) = fold exec_op ops' (db_of ?k)" ..
  then have "db_of (live_ticks (t # ts) k) = fold exec_op (ops @ ops') (db_of k)" using first by (simp add: t)
  then show ?case ..
qed


definition unplugged :: host where
  "unplugged = \<lparr>relay = down, brain = agreeable, own_gate = None, registered = (\<lambda>_. True), memory = None, persona = ''k'', enabled = False\<rparr>"

definition nobody :: identity where "nobody = \<lparr>priv = []\<rparr>"
definition mailbox :: client where "mailbox = \<lparr>c_identity = nobody, c_mailbox = ''m''\<rparr>"

definition asleep :: "store \<Rightarrow> keeper" where
  "asleep st = \<lparr>who = resting st, tick_last = JNull, reflect_last = JNull, recovered_flag = None\<rparr>"


section \<open>A disabled link\<close>

text \<open>The tables that only sending writes, without the peer identifiers that a rotation moves.\<close>

definition outbound_view where
  "outbound_view st =
     (map q_value (outbound_seq st), map (\<lambda>d. (d_id d, payload_json d, d_status d)) (outbound_drafts st),
      map (\<lambda>c. (reset_date c, outbound_count c, provider_call_count c)) (peer_counters st), map m_value (disclosure_budget st))"

lemma outbound_view_moved:
  "outbound_view (st\<lparr>peer_counters := moved c_peer (\<lambda>p r. r\<lparr>c_peer := p\<rparr>) old new (peer_counters st)\<rparr>) = outbound_view st"
  "outbound_view (st\<lparr>outbound_drafts := moved d_peer (\<lambda>p r. r\<lparr>d_peer := p\<rparr>) old new (outbound_drafts st)\<rparr>) = outbound_view st"
  "outbound_view (st\<lparr>disclosure_budget := moved m_peer (\<lambda>p r. r\<lparr>m_peer := p\<rparr>) old new (disclosure_budget st)\<rparr>) = outbound_view st"
  "outbound_view (st\<lparr>outbound_seq := moved q_peer (\<lambda>p r. r\<lparr>q_peer := p\<rparr>) old new (outbound_seq st)\<rparr>) = outbound_view st"
  by (simp_all add: outbound_view_def)

lemma outbound_view_other:
  "outbound_view (st\<lparr>peers := a\<rparr>) = outbound_view st" "outbound_view (st\<lparr>seq_high_water := b\<rparr>) = outbound_view st"
  "outbound_view (st\<lparr>sessions := c\<rparr>) = outbound_view st" "outbound_view (st\<lparr>transcript := d\<rparr>) = outbound_view st"
  "outbound_view (st\<lparr>relationship_state := e\<rparr>) = outbound_view st" "outbound_view (st\<lparr>peer_emotion_window := f\<rparr>) = outbound_view st"
  "outbound_view (st\<lparr>pending_handshakes := g\<rparr>) = outbound_view st" "outbound_view (st\<lparr>session_keys := h\<rparr>) = outbound_view st"
  "outbound_view (st\<lparr>pending_rotation_notices := n\<rparr>) = outbound_view st" "outbound_view (st\<lparr>local_identity := m\<rparr>) = outbound_view st"
  by (simp_all add: outbound_view_def)

lemma outbound_view_rekey: "outbound_view (snd (rekey_children old new st)) = outbound_view st"
proof -
  have "keeps (\<lambda>s. outbound_view s = outbound_view st) (rekey_children old new)"
  proof (rule keepsI)
    fix s :: store assume same: "outbound_view s = outbound_view st"
    show "outbound_view (snd (rekey_children old new s)) = outbound_view st"
      by (insert same, unfold rekey_children_def,
         ((rule rekey_step_keep [where P = "\<lambda>s. outbound_view s = outbound_view st"], assumption)
         | (drule rekey_moved, simp add: outbound_view_moved outbound_view_other; fail) | (simp; fail))+)
  qed
  from keepsD [OF this refl] show ?thesis .
qed

interpretation inert: receiving "\<lambda>st. outbound_view st = v" for v
proof (unfold_locales, goal_cases)
  case (1 op st)
  then have "outbound_view (exec_op op st) = outbound_view st"
  proof (cases op)
    case (UpdateIdentity p pub fp now)
    then show ?thesis by (simp add: update_peer_identity_def Let_def outbound_view_rekey outbound_view_other)
  qed (auto simp: store_op_defs outbound_view_other Let_def split: option.split)
  with 1 show ?case by simp
qed

abbreviation inner :: "keeper \<Rightarrow> string list \<times> nat \<times> peer_memory list \<times> json \<times> string option" where
  "inner k \<equiv> (prompts (who k), slots (who k), memories (who k), reflect_last k, recovered_flag k)"

lemma keeps_inner:
  assumes "keeps P m"
  shows "keeps (\<lambda>k. P (net (who k)) \<and> inner k = v) (on_agent (on_net m))"
proof (rule keepsI)
  fix k :: keeper assume k: "P (net (who k)) \<and> inner k = v"
  obtain r w where run: "m (net (who k)) = (r, w)" by fastforce
  with keepsD [OF assms, of "net (who k)"] k have "P w" by simp
  then show "P (net (who (snd (on_agent (on_net m) k)))) \<and> inner (snd (on_agent (on_net m) k)) = v"
    using k run by (auto simp: on_agent_def on_net_def)
qed

text \<open>
  C12: A disabled link only listens. A tick with \<open>kindled_link_enabled\<close> off, whatever the relay
  delivers, asks the model nothing, takes no slot, writes no memory, drafts nothing and settles no
  draft, hands out no sequence number (so it builds no message), counts no send or provider call and
  debits no disclosure budget; it leaves the reflection cadence and the recovery flag alone.
\<close>

theorem tick_disabled_listens:
  "let k' = snd (run_kindled_link_tick (H\<lparr>enabled := False\<rparr>) idn c now k) in
   prompts (who k') = prompts (who k) \<and> slots (who k') = slots (who k) \<and> memories (who k') = memories (who k) \<and>
   map (\<lambda>d. (d_id d, payload_json d, d_status d)) (outbound_drafts (db_of k')) = map (\<lambda>d. (d_id d, payload_json d, d_status d)) (outbound_drafts (db_of k)) \<and>
   map q_value (outbound_seq (db_of k')) = map q_value (outbound_seq (db_of k)) \<and>
   map (\<lambda>c. (reset_date c, outbound_count c, provider_call_count c)) (peer_counters (db_of k'))
     = map (\<lambda>c. (reset_date c, outbound_count c, provider_call_count c)) (peer_counters (db_of k)) \<and>
   map m_value (disclosure_budget (db_of k')) = map m_value (disclosure_budget (db_of k)) \<and>
   reflect_last k' = reflect_last k \<and> recovered_flag k' = recovered_flag k"
proof -
  let ?P = "\<lambda>k'. outbound_view (kdb (net (who k'))) = outbound_view (db_of k) \<and> inner k' = inner k"
  have on: "keeps ?P (on_agent (on_net m))" if "keeps (\<lambda>w. outbound_view (kdb w) = outbound_view (db_of k)) m" for m :: "(world, 'x) prog"
    by (rule keeps_inner [OF that])
  have off: "enabled (H\<lparr>enabled := False\<rparr>) = False" and unit: "seqp (ret x) f = f x" for x :: "bool \<times> nat \<times> string list" and f :: "_ \<Rightarrow> (keeper, tick_summary option) prog"
    by (simp_all add: seqp_def fun_eq_iff)
  have "keeps ?P (run_kindled_link_tick (H\<lparr>enabled := False\<rparr>) idn c now)"
    unfolding run_kindled_link_tick_def Let_def off if_False unit prod.case
    by (intro on inert.keeps_poll inert.keeps_drain keeps_catch keeps_if keeps_seqp keeps_basic keeps_let keeps_prod; auto simp: keeps_def)
  from keepsD [OF this] show ?thesis by (simp add: outbound_view_def Let_def)
qed

section \<open>Cadence and isolation\<close>

text \<open>
   Ticks are spaced. After a tick that ran at \<open>now\<close>, every call less than five minutes later, with
  any configuration, is skipped and changes nothing at all: no request, no write.
\<close>

theorem ticks_spaced:
  assumes "valid_time now" "run_kindled_link_tick H idn c now k = (Inr (Some s), k')" "later < now + 5 * minute"
  shows "run_kindled_link_tick H' idn' c' later k' = (Inr None, k')"
proof -
  have last: "tick_last k' = saved_cadence now"
    using assms(2) unfolding run_kindled_link_tick_def Let_def
    by (auto simp: seqp_def split: prod.splits sum.splits if_splits)
  have "isoformat now \<noteq> []" by (simp add: isoformat_def)
  then have "\<not> tick_is_due (saved_cadence now) later"
    using assms(3) by (simp add: tick_is_due_def is_due_def saved_cadence_def fromisoformat_isoformat [OF assms(1)] since_def)
  then show ?thesis by (simp add: run_kindled_link_tick_def seqp_def last)
qed

definition visited :: "peer_row list \<Rightarrow> peer_row list" where
  "visited ps = filter (\<lambda>p. consent_state p \<notin> {''paused'', ''revoked'', ''blocked''}) ps"

lemma visited_simps:
  "visited [] = []"
  "visited (p # ps) = (if consent_state p \<in> {''paused'', ''revoked'', ''blocked''} then visited ps else p # visited ps)"
  by (simp_all add: visited_def)

text \<open>
   One peer cannot stop the others. The loop over the peers never raises, whatever happens inside
  a peer's turn; it visits every peer that is not paused, revoked or blocked, in order, and each of them
  is either counted as processed or listed as degraded.
\<close>

theorem tick_isolates_peers:
  "\<exists>n' failed k'. tick_peers H idn c ps now today n failing k = (Inr (n', failing @ failed), k') \<and>
     n' + length failed = n + length (visited ps) \<and>
     subseq failed (map p_id (visited ps))"
proof (induction ps arbitrary: n failing k)
  case (Cons p ps)
  let ?turn = "catch (seqp (tick_peer H idn c (p_id p) now today) (\<lambda>_. ret True)) (\<lambda>_. ret False)"
  obtain r k1 where run: "tick_peer H idn c (p_id p) now today k = (r, k1)" by fastforce
  then have turn: "?turn k = (Inr (\<not> isl r), k1)" by (cases r) (auto simp: catch_def seqp_def)
  show ?case
  proof (cases "consent_state p \<in> {''paused'', ''revoked'', ''blocked''}")
    case True
    with Cons.IH [of n failing k] show ?thesis by (simp only: tick_peers.simps visited_simps if_True)
  next
    case False
    show ?thesis
    proof (cases "isl r")
      case ok: False
      from Cons.IH [of "Suc n" failing k1] obtain n' bad k' where
        "tick_peers H idn c ps now today (Suc n) failing k1 = (Inr (n', failing @ bad), k')"
        "n' + length bad = Suc n + length (visited ps)" "subseq bad (map p_id (visited ps))" by blast
      with False ok turn show ?thesis
        by (intro exI [of _ n'] exI [of _ bad] exI [of _ k']) (auto simp: seqp_def visited_simps simp del: insert_iff)
    next
      case failed: True
      from Cons.IH [of n "failing @ [p_id p]" k1] obtain n' bad k' where
        "tick_peers H idn c ps now today n (failing @ [p_id p]) k1 = (Inr (n', (failing @ [p_id p]) @ bad), k')"
        "n' + length bad = n + length (visited ps)"
        "subseq bad (map p_id (visited ps))" by blast
      with False failed turn show ?thesis by (intro exI [of _ n'] exI [of _ "p_id p # bad"] exI [of _ k'])
          (auto simp: seqp_def visited_simps simp del: insert_iff)
    qed
  qed
qed (simp add: visited_simps)

lemma insort_key_snoc: "f x \<le> f d \<Longrightarrow> insort_key f x (ys @ [d]) = insort_key f x ys @ [d]"
  by (induction ys) auto

lemma sort_key_snoc: "\<forall>r \<in> set xs. f r \<le> f d \<Longrightarrow> sort_key f (xs @ [d]) = sort_key f xs @ [d]"
  by (induction xs) (auto simp: insort_key_snoc)

section \<open>What becomes of a draft\<close>

interpretation shelved: sending "\<lambda>st. outbound_drafts st = ds \<and> last_draft_id st = n" for ds n
proof (unfold_locales, goal_cases)
  case (1 op st)
  then show ?case by (cases op) (auto simp: store_op_defs Let_def split: option.split)
qed

lemma pending_snoc:
  assumes "store_ok st" "d_id d = Suc (last_draft_id st)" "d_status d = ''pending''"
  shows "get_pending_drafts (st\<lparr>outbound_drafts := outbound_drafts st @ [d], last_draft_id := i\<rparr>) = get_pending_drafts st @ [d]"
proof -
  have "\<forall>r \<in> set (outbound_drafts st). d_id r \<le> d_id d" using assms by (auto simp: store_ok_def tok_def)
  then have "sort_key d_id (filter P (outbound_drafts st) @ [d]) = sort_key d_id (filter P (outbound_drafts st)) @ [d]" for P
    by (intro sort_key_snoc) auto
  then show ?thesis using assms(3) by (simp add: get_pending_drafts_def)
qed

lemma action_text_settles: "action_text act \<noteq> ''pending''"
  by (cases act) simp_all

lemma settled_drafts:
  assumes "store_ok st" "d_id d = Suc (last_draft_id st)" "status \<noteq> ''pending''"
    and "outbound_drafts st' = outbound_drafts st @ [d]"
  shows "get_pending_drafts (set_draft_status (d_id d) status st') = get_pending_drafts st"
proof -
  have "\<forall>r \<in> set (outbound_drafts st). d_id r \<noteq> d_id d" using assms(1,2) by (auto simp: store_ok_def tok_def)
  then have "tupd d_id (d_id d) f (outbound_drafts st) = outbound_drafts st" for f
    by (auto simp: tupd_def intro: map_idI)
  then show ?thesis using assms(3,4) by (simp add: get_pending_drafts_def set_draft_status_def tupd_def)
qed



lemma poll_down: "\<exists>w'. poll_and_ingest down idn c now w = (Inr \<lparr>pr_accepted = [], pr_degraded = [], pr_relay_error = True\<rparr>, w')"
proof -
  have "\<exists>w'. post down path p w = (Inl (RelayUnavailableError ''ConnectError''), w')" for path p w
    by (simp add: post_def MAX_RETRIES_def down_def seqp_def request_def numeral_3_eq_3)
  then obtain w' where "post down ''/mailbox/challenge'' (JObj [(''mailbox_id'', JStr (c_mailbox c))]) w
      = (Inl (RelayUnavailableError ''ConnectError''), w')" by blast
  then show ?thesis
    by (simp add: poll_and_ingest_def fetch_def auth_def field_def seqp_def on_relay_error_def catch_def log_transport_def)
qed

lemma unplugged_ticks:
  "\<exists>s k'. run_kindled_link_tick unplugged idn c 0 (asleep empty_store) = (Inr (Some s), k')"
proof -
  obtain w' where "poll_and_ingest down idn c 0 (net (who (asleep empty_store))) = (Inr \<lparr>pr_accepted = [], pr_degraded = [], pr_relay_error = True\<rparr>, w')"
    using poll_down by blast
  then show ?thesis
    by (simp add: run_kindled_link_tick_def unplugged_def seqp_def asleep_def tick_is_due_def is_due_def on_agent_def on_net_def catch_def
      split: prod.split sum.split)
qed

theorem ticks_spaced_witness:
  "\<exists>k'. run_kindled_link_tick unplugged nobody mailbox 1 k' = (Inr None, k')"
proof -
  obtain s k' where run: "run_kindled_link_tick unplugged nobody mailbox 0 (asleep empty_store) = (Inr (Some s), k')"
    using unplugged_ticks by blast
  have "valid_time 0" by (simp add: valid_time_def)
  from ticks_spaced [OF this run, of 1 unplugged nobody mailbox] show ?thesis by auto
qed

end
