(* ===== verification/Panel_Laws.thy ===== *)
theory Panel_Laws
  imports Panel Tick_Laws
begin

text \<open>
  What the panel can and cannot show: no projection depends on the text of a draft, the relay's
  health is the last event that says something about it, and a poll the relay does not answer is not
  such an event.
\<close>

section \<open>Drafts stay private\<close>

definition rewritten :: "(draft_row \<Rightarrow> json) \<Rightarrow> store \<Rightarrow> store" where
  "rewritten f st = st\<lparr>outbound_drafts := map (\<lambda>d. d\<lparr>payload_json := f d\<rparr>) (outbound_drafts st)\<rparr>"

lemma filter_rewritten:
  "filter P (map (\<lambda>d. d\<lparr>payload_json := f d\<rparr>) ds) = map (\<lambda>d. d\<lparr>payload_json := f d\<rparr>) (filter (\<lambda>d. P (d\<lparr>payload_json := f d\<rparr>)) ds)"
  by (simp add: filter_map o_def)

lemma insort_key_stays: "(\<And>x. k (g x) = k x) \<Longrightarrow> insort_key k (g x) (map g xs) = map g (insort_key k x xs)"
  by (induction xs) auto

lemma sort_key_stays: "(\<And>x. k (g x) = k x) \<Longrightarrow> sort_key k (map g xs) = map g (sort_key k xs)"
  by (induction xs) (auto simp: insort_key_stays)

text \<open>
  A draft's text never reaches the panel. Rewriting the stored payloads of all drafts in any way
  changes nothing in any view: the peers, the transcripts, the holds, the milestones.
\<close>

theorem views_hide_drafts:
  "kindled_peers (map_option (rewritten f) found) = kindled_peers found \<and>
   kindled_transcript X (map_option (rewritten f) found) peer_id = kindled_transcript X found peer_id \<and>
   kindled_holds (map_option (rewritten f) found) = kindled_holds found \<and>
   relationship_milestone_entries (rewritten f st) limit = relationship_milestone_entries st limit"
proof -
  have "list_peers (rewritten f st) = list_peers st" for st
    by (simp add: list_peers_def rewritten_def get_relationship_state_def get_relationship_row_def get_active_session_def)
  moreover have "peer_transcript X (rewritten f st) peer_id 50 = peer_transcript X st peer_id 50" for st
    by (simp add: peer_transcript_def rewritten_def recent_transcript_def)
  moreover have "holds_status (rewritten f st) = holds_status st" for st
    by (simp add: holds_status_def rewritten_def filter_rewritten sort_key_stays o_def Let_def)
  moreover have "relationship_milestone_entries (rewritten f st) limit = relationship_milestone_entries st limit"
    by (simp add: relationship_milestone_entries_def rewritten_def)
  ultimately show ?thesis
    by (cases found) (simp_all add: kindled_peers_def kindled_transcript_def kindled_holds_def)
qed

section \<open>The relay's health\<close>

definition last_event :: "string list \<Rightarrow> dict list \<Rightarrow> dict option" where
  "last_event names events = find (\<lambda>r. event_of r \<in> JStr ` set names) (rev events)"

lemma last_event_simps:
  "last_event names [] = None"
  "last_event names (events @ [r]) = (if event_of r \<in> JStr ` set names then Some r else last_event names events)"
  by (simp_all add: last_event_def)

text \<open>
   The relay's health is what the log says last. The panel's reachability is the most recent of the
  events poll, push and relay_unavailable, unknown without one; the two times are those of the most
  recent poll and push.
\<close>

theorem relay_health_exact:
  "relay_ok (relay_health events) = map_option (\<lambda>r. event_of r \<noteq> JStr ''relay_unavailable'') (last_event [''poll'', ''push'', ''relay_unavailable''] events) \<and>
   last_poll_ts (relay_health events) = (case last_event [''poll''] events of None \<Rightarrow> JNull | Some r \<Rightarrow> dget_or ''ts'' JNull r) \<and>
   last_push_ts (relay_health events) = (case last_event [''push''] events of None \<Rightarrow> JNull | Some r \<Rightarrow> dget_or ''ts'' JNull r)"
proof (induction events rule: rev_induct)
  case Nil
  show ?case by (simp add: relay_health_def last_event_simps)
next
  case (snoc r events)
  have "relay_health (events @ [r]) = health_step (relay_health events) r" by (simp add: relay_health_def)
  then show ?case using snoc by (simp add: health_step_def last_event_simps Let_def)
qed

lemma event_of_audit_row [simp]: "event_of (audit_row e f now) = JStr e"
  by (simp add: event_of_def audit_row_def dget_or_def)

lemma fetch_keeps_audit: "keeps (\<lambda>w. audit w = a) (fetch E c)"
proof -
  have "keeps (\<lambda>w. audit w = a) (post E path p)" for path p
  proof (rule keepsI)
    fix w :: world assume "audit w = a"
    then show "audit (snd (post E path p w)) = a" using post_bounded [of E path p w] by auto
  qed
  then show ?thesis unfolding fetch_def auth_def field_def by (intro keeps_intros)
qed

text \<open>
   A poll the relay does not answer leaves the panel green. When a poll ends with a relay error,
  the health computed from the log is exactly the one before: the event it logs is none the panel reads.
\<close>

theorem poll_failure_unseen:
  assumes "poll_and_ingest E idn c now w = (Inr r, w')" "pr_relay_error r"
  shows "relay_health (audit w') = relay_health (audit w)"
proof -
  obtain q w1 where run: "fetch E c w = (q, w1)" by fastforce
  have same: "audit w1 = audit w" using keepsD [OF fetch_keeps_audit [of "audit w"], of w E c] run by simp
  have silent: "relay_health (events @ [audit_row ''poll_relay_unavailable'' f now]) = relay_health events" for events f
    by (simp add: relay_health_def health_step_def)
  show ?thesis
  proof (cases q)
    case (Inl e)
    then show ?thesis using assms run same silent
      by (cases e) (auto simp: poll_and_ingest_def on_relay_error_def catch_def seqp_def log_transport_def)
  next
    case (Inr items)
    then have "\<not> pr_relay_error r" using assms(1) run
      unfolding poll_and_ingest_def on_relay_error_def catch_def
      by (auto simp: seqp_def split: prod.splits sum.splits)
    with assms(2) show ?thesis by simp
  qed
qed

theorem poll_failure_unseen_witness:
  "\<exists>w'. poll_and_ingest down nobody mailbox 0 (idle empty_store) = (Inr \<lparr>pr_accepted = [], pr_degraded = [], pr_relay_error = True\<rparr>, w') \<and>
     relay_health (audit w') = relay_health []"
proof -
  obtain w' where run: "poll_and_ingest down nobody mailbox 0 (idle empty_store) = (Inr \<lparr>pr_accepted = [], pr_degraded = [], pr_relay_error = True\<rparr>, w')"
    using poll_down by blast
  from poll_failure_unseen [OF this] run show ?thesis by (simp add: idle_def)
qed

end
