(* ===== verification/Disk.thy ===== *)
theory Disk
  imports Json
begin

text \<open>
  The file system as the file tools see it (\<open>os\<close>, \<open>os.path\<close> and \<open>pathlib\<close> on a POSIX system): names that
  point to inodes, so two names may be one file; symbolic links and \<open>os.path.realpath\<close>; expansion of
  \<open>~\<close> and \<open>$VAR\<close>; the decoding of a file's bytes and its lines. A path is the list of its components
  from the root. On a volume that ignores case, a folder has several spellings, which are several names
  of one inode.
\<close>

section \<open>Names and inodes\<close>

type_synonym path = "string list"

datatype node = Folder | Regular bytes | Special | Symlink string

record disk =
  names :: "(path \<times> nat) list"
  inodes :: "nat \<Rightarrow> node"

definition ino_at :: "disk \<Rightarrow> path \<Rightarrow> nat option" where
  "ino_at d p = map_of (names d) p"

definition node_at :: "disk \<Rightarrow> path \<Rightarrow> node option" where
  "node_at d p = map_option (inodes d) (ino_at d p)"

fun split_on :: "char \<Rightarrow> string \<Rightarrow> string list" where
  "split_on c [] = [[]]"
| "split_on c (x # s) = (if x = c then [] # split_on c s else (case split_on c s of [] \<Rightarrow> [[x]] | w # ws \<Rightarrow> (x # w) # ws))"

definition components :: "string \<Rightarrow> string list" where
  "components s = filter (\<lambda>c. c \<noteq> [] \<and> c \<noteq> ''.'') (split_on (CHR ''/'') s)"

definition is_absolute :: "string \<Rightarrow> bool" where
  "is_absolute s \<longleftrightarrow> take 1 s = ''/''"

definition show_path :: "path \<Rightarrow> string" where
  "show_path p = ''/'' @ join ''/'' p"

section \<open>Real paths\<close>

text \<open>
  \<open>realpath\<close> walks the components from left to right. A link that is not resolved yet is opened: its
  target's components come first, then the mark \<open>Leave\<close>, at which the link's own resolution is
  remembered. A link met again while it is open is a loop: the walk stops there and appends the rest.
\<close>

datatype token = Comp string | Leave path

abbreviation tokens :: "string \<Rightarrow> token list" where
  "tokens s \<equiv> map Comp (components s)"

fun rest_of :: "token list \<Rightarrow> string list" where
  "rest_of [] = []"
| "rest_of (Comp c # ts) = c # rest_of ts"
| "rest_of (Leave _ # ts) = rest_of ts"

primrec lexically :: "path \<Rightarrow> string list \<Rightarrow> path" where
  "lexically p [] = p"
| "lexically p (c # cs) = lexically (if c = ''..'' then butlast p else p @ [c]) cs"

definition unread :: "disk \<Rightarrow> (path \<times> path option) list \<Rightarrow> path set" where
  "unread d seen = {p \<in> fst ` set (names d). map_of seen p = None}"

lemma finite_unread: "finite (unread d seen)"
  by (simp add: unread_def)

lemma unread_mono: "unread d (x # seen) \<subseteq> unread d seen"
  by (cases x) (auto simp: unread_def split: if_splits)

lemma unread_less:
  "node_at d p = Some n \<Longrightarrow> map_of seen p = None \<Longrightarrow> unread d ((p, v) # seen) \<subset> unread d seen"
  by (force simp: unread_def node_at_def ino_at_def dest!: map_of_SomeD)

function walk :: "disk \<Rightarrow> (path \<times> path option) list \<Rightarrow> path \<Rightarrow> token list \<Rightarrow> path \<times> bool" where
  "walk d seen p [] = (p, True)"
| "walk d seen p (Leave l # ts) = walk d ((l, Some p) # seen) p ts"
| "walk d seen p (Comp c # ts) =
     (if c = ''..'' then walk d seen (butlast p) ts
      else case node_at d (p @ [c]) of
        Some (Symlink t) \<Rightarrow>
          (case map_of seen (p @ [c]) of
             Some (Some q) \<Rightarrow> walk d seen q ts
           | Some None \<Rightarrow> (lexically (p @ [c]) (rest_of ts), False)
           | None \<Rightarrow> walk d ((p @ [c], None) # seen) (if is_absolute t then [] else p)
                       (tokens t @ Leave (p @ [c]) # ts))
      | _ \<Rightarrow> walk d seen (p @ [c]) ts)"
  by pat_completeness auto
termination
proof (relation "measures [\<lambda>(d, seen, p, ts). card (unread d seen), \<lambda>(d, seen, p, ts). length ts]")
  fix d and seen :: "(path \<times> path option) list" and p l :: path and ts :: "token list"
  have "card (unread d ((l, Some p) # seen)) \<le> card (unread d seen)"
    by (intro card_mono finite_unread unread_mono)
  then show "((d, (l, Some p) # seen, p, ts), (d, seen, p, Leave l # ts))
      \<in> measures [\<lambda>(d, seen, p, ts). card (unread d seen), \<lambda>(d, seen, p, ts). length ts]"
    by auto
next
  fix d and seen :: "(path \<times> path option) list" and p :: path and c t :: string and ts :: "token list" and n
  assume "node_at d (p @ [c]) = Some n" "map_of seen (p @ [c]) = None"
  then have "card (unread d ((p @ [c], None) # seen)) < card (unread d seen)"
    by (intro psubset_card_mono finite_unread unread_less)
  then show "((d, (p @ [c], None) # seen, if is_absolute t then [] else p, tokens t @ Leave (p @ [c]) # ts),
      (d, seen, p, Comp c # ts)) \<in> measures [\<lambda>(d, seen, p, ts). card (unread d seen), \<lambda>(d, seen, p, ts). length ts]"
    by simp
qed auto

text \<open>\<open>os.path.realpath\<close> of an absolute path, and what the kernel opens at a path (\<open>None\<close> for a loop).\<close>

definition realpath :: "disk \<Rightarrow> path \<Rightarrow> path" where
  "realpath d p = fst (walk d [] [] (map Comp p))"

definition reaches :: "disk \<Rightarrow> path \<Rightarrow> nat option" where
  "reaches d p = (case walk d [] [] (map Comp p) of (q, ok) \<Rightarrow> if ok then ino_at d q else None)"

definition stat :: "disk \<Rightarrow> path \<Rightarrow> node option" where
  "stat d p = map_option (inodes d) (reaches d p)"

text \<open>A path without a link on the way is its own real path.\<close>

definition link_free :: "disk \<Rightarrow> path \<Rightarrow> bool" where
  "link_free d p \<longleftrightarrow> (\<forall>q t. prefix q p \<longrightarrow> q \<noteq> [] \<longrightarrow> node_at d q \<noteq> Some (Symlink t)) \<and> ''..'' \<notin> set p"

lemma link_free_Nil [simp]: "link_free d []"
  by (simp add: link_free_def)

lemma link_free_butlast: "link_free d p \<Longrightarrow> link_free d (butlast p)"
  by (auto simp: link_free_def intro: prefix_order.trans [OF _ prefixeq_butlast] dest: in_set_butlastD)

lemma link_free_snoc:
  "link_free d (p @ [c]) \<longleftrightarrow> link_free d p \<and> c \<noteq> ''..'' \<and> (\<forall>t. node_at d (p @ [c]) \<noteq> Some (Symlink t))"
  by (auto simp: link_free_def)

lemma walk_link_free:
  "walk d seen p ts = (q, True) \<Longrightarrow> link_free d p \<Longrightarrow> (\<forall>l r. map_of seen l = Some (Some r) \<longrightarrow> link_free d r) \<Longrightarrow>
   link_free d q"
proof (induction d seen p ts arbitrary: q rule: walk.induct)
  case (2 d seen p l ts)
  then show ?case by simp
next
  case (3 d seen p c ts)
  show ?case
  proof (cases "c = ''..''")
    case True
    with 3 show ?thesis by (auto intro: link_free_butlast)
  next
    case False
    show ?thesis
    proof (cases "\<exists>t. node_at d (p @ [c]) = Some (Symlink t)")
      case True
      then obtain t where t: "node_at d (p @ [c]) = Some (Symlink t)" ..
      show ?thesis
      proof (cases "map_of seen (p @ [c])")
        case None
        show ?thesis
          using "3.IH"(6) [OF False t refl None, of q] "3.prems" False t None by (auto split: if_splits)
      next
        case (Some m)
        then show ?thesis
          using "3.IH"(7) [OF False t refl Some] "3.prems" False t Some by (cases m) auto
      qed
    next
      case no_link: False
      then have "link_free d (p @ [c])" using "3.prems"(2) False by (simp add: link_free_snoc)
      then show ?thesis using 3 False no_link by (auto split: option.splits node.splits)
    qed
  qed
qed simp

lemma walk_identity:
  "link_free d (p @ cs) \<Longrightarrow> walk d seen p (map Comp cs) = (p @ cs, True)"
proof (induction cs arbitrary: p)
  case (Cons c cs)
  then have "link_free d ((p @ [c]) @ cs)" by simp
  then have "link_free d (p @ [c])" "c \<noteq> ''..''"
    by (auto simp: link_free_def intro: prefix_order.trans)
  with Cons.IH [of "p @ [c]"] Cons.prems show ?case
    by (auto simp: link_free_snoc split: option.split node.split)
qed simp

lemma realpath_link_free [simp]: "link_free d p \<Longrightarrow> realpath d p = p"
  using walk_identity [of d "[]" p "[]"] by (simp add: realpath_def)

lemma reaches_link_free [simp]: "link_free d p \<Longrightarrow> reaches d p = ino_at d p"
  using walk_identity [of d "[]" p "[]"] by (simp add: reaches_def)

lemma reaches_realpath: "reaches d p = Some i \<Longrightarrow> link_free d (realpath d p) \<and> ino_at d (realpath d p) = Some i"
  using walk_link_free [of d "[]" "[]" "map Comp p"]
  by (auto simp: reaches_def realpath_def split: prod.splits if_splits)

section \<open>Expansion\<close>

text \<open>What the process asks the operating system: environment, user database, working directory; and the
  home directory of the program (\<open>paths.get_home()\<close>).\<close>

record machine =
  env_vars :: "(string \<times> string) list"
  user_home :: "string \<Rightarrow> string option"
  own_home :: string
  kindled_home :: string
  cwd :: path

definition word_char :: "char \<Rightarrow> bool" where
  "word_char c = (let n = of_char c :: nat in (48 \<le> n \<and> n \<le> 57) \<or> (65 \<le> n \<and> n \<le> 90) \<or> n = 95 \<or> (97 \<le> n \<and> n \<le> 122))"

text \<open>\<open>os.path.expandvars\<close>; what was substituted is not expanded again, an unknown variable stays.\<close>

function expandvars :: "machine \<Rightarrow> string \<Rightarrow> string" where
  "expandvars M [] = []"
| "expandvars M (c # s) =
     (if c \<noteq> CHR ''$'' then c # expandvars M s
      else if takeWhile word_char s \<noteq> [] then
        (case map_of (env_vars M) (takeWhile word_char s) of
           Some v \<Rightarrow> v | None \<Rightarrow> c # takeWhile word_char s) @ expandvars M (dropWhile word_char s)
      else if take 1 s = ''{'' \<and> CHR ''}'' \<in> set s then
        (case map_of (env_vars M) (takeWhile (\<lambda>x. x \<noteq> CHR ''}'') (tl s)) of
           Some v \<Rightarrow> v | None \<Rightarrow> c # takeWhile (\<lambda>x. x \<noteq> CHR ''}'') s @ ''}'')
        @ expandvars M (tl (dropWhile (\<lambda>x. x \<noteq> CHR ''}'') s))
      else c # expandvars M s)"
  by pat_completeness auto
termination
  by (relation "measure (\<lambda>(M, s). length s)")
    (auto simp: length_dropWhile_le less_Suc_eq_le intro: le_trans [OF diff_le_self] length_dropWhile_le)

definition rstrip_slash :: "string \<Rightarrow> string" where
  "rstrip_slash s = rev (dropWhile (\<lambda>c. c = CHR ''/'') (rev s))"

definition expanduser :: "machine \<Rightarrow> string \<Rightarrow> string" where
  "expanduser M s =
     (if take 1 s \<noteq> ''~'' then s
      else let name = takeWhile (\<lambda>c. c \<noteq> CHR ''/'') (tl s); r = dropWhile (\<lambda>c. c \<noteq> CHR ''/'') (tl s);
               home = (if name = [] then (case map_of (env_vars M) ''HOME'' of Some h \<Rightarrow> Some h | None \<Rightarrow> Some (own_home M))
                       else user_home M name)
           in case home of None \<Rightarrow> s
              | Some h \<Rightarrow> (if rstrip_slash h @ r = [] then ''/'' else rstrip_slash h @ r))"

text \<open>
  \<open>Path(s).resolve()\<close> as of Python 3.13: a zero byte is a \<open>ValueError\<close>, a loop of links is not an error.
  (Python 3.12 raises \<open>RuntimeError\<close> for a loop.)
\<close>

definition resolve :: "machine \<Rightarrow> disk \<Rightarrow> string \<Rightarrow> path res" where
  "resolve M d s =
     (if CHR 0x00 \<in> set s then Inl ValueError
      else Inr (realpath d ((if is_absolute s then [] else cwd M) @ components s)))"

text \<open>\<open>Path(s)\<close> where no symbolic link is looked at, and \<open>Path.home()\<close>.\<close>

definition path_of :: "machine \<Rightarrow> string \<Rightarrow> path" where
  "path_of M s = (if is_absolute s then [] else cwd M) @ components s"

definition home_path :: "machine \<Rightarrow> path" where
  "home_path M = path_of M (expanduser M ''~'')"

section \<open>Text of a file\<close>

text \<open>
  UTF-8 as CPython decodes it: \<open>None\<close> stands for one ill-formed part (a byte that cannot start a
  character, or the longest start of a character that breaks off). Code points are numbers here, since
  a file may hold any of them.
\<close>

definition is_cont :: "8 word \<Rightarrow> bool" where
  "is_cont b \<longleftrightarrow> 128 \<le> unat b \<and> unat b < 192"

definition second_ok :: "nat \<Rightarrow> 8 word \<Rightarrow> bool" where
  "second_ok a b \<longleftrightarrow> is_cont b \<and> (a = 224 \<longrightarrow> 160 \<le> unat b) \<and> (a = 237 \<longrightarrow> unat b < 160) \<and>
     (a = 240 \<longrightarrow> 144 \<le> unat b) \<and> (a = 244 \<longrightarrow> unat b < 144)"

definition cont_val :: "8 word \<Rightarrow> nat" where
  "cont_val b = unat b - 128"

text \<open>One character or ill-formed part at the front, with the number of its bytes.\<close>

definition utf8_front :: "bytes \<Rightarrow> nat option \<times> nat" where
  "utf8_front bs =
     (let a = unat (bs ! 0); n = length bs in
      if a < 128 then (Some a, 1)
      else if a < 194 \<or> 244 < a then (None, 1)
      else if n < 2 \<or> \<not> second_ok a (bs ! 1) then (None, 1)
      else if a < 224 then (Some (64 * (a - 192) + cont_val (bs ! 1)), 2)
      else if n < 3 \<or> \<not> is_cont (bs ! 2) then (None, 2)
      else if a < 240 then (Some (4096 * (a - 224) + 64 * cont_val (bs ! 1) + cont_val (bs ! 2)), 3)
      else if n < 4 \<or> \<not> is_cont (bs ! 3) then (None, 3)
      else (Some (262144 * (a - 240) + 4096 * cont_val (bs ! 1) + 64 * cont_val (bs ! 2) + cont_val (bs ! 3)), 4))"

lemma utf8_front_pos: "0 < snd (utf8_front bs)"
  by (simp add: utf8_front_def Let_def)

function utf8_units :: "bytes \<Rightarrow> nat option list" where
  "utf8_units bs = (if bs = [] then [] else fst (utf8_front bs) # utf8_units (drop (snd (utf8_front bs)) bs))"
  by pat_completeness auto
termination
  by (relation "measure length") (use utf8_front_pos in \<open>auto simp: length_greater_0_conv [symmetric] simp del: length_greater_0_conv\<close>)

declare utf8_units.simps [simp del]

text \<open>\<open>data.decode("utf-8", errors="replace")\<close> and \<open>data.decode("utf-8")\<close>.\<close>

definition decode_replace :: "bytes \<Rightarrow> nat list" where
  "decode_replace bs = map (\<lambda>u. case u of None \<Rightarrow> 65533 | Some n \<Rightarrow> n) (utf8_units bs)"

definition decode_strict :: "bytes \<Rightarrow> nat list option" where
  "decode_strict bs = (if None \<in> set (utf8_units bs) then None else Some (map the (utf8_units bs)))"

definition points :: "string \<Rightarrow> nat list" where
  "points s = map of_char s"

lemma utf8_units_ascii: "n < 128 \<Longrightarrow> utf8_units (word_of_nat n # bs) = Some n # utf8_units bs"
  by (subst utf8_units.simps) (simp add: utf8_front_def unat_of_nat)

lemma utf8_units_two:
  assumes "128 \<le> n" "n < 256"
  shows "utf8_units (word_of_nat (192 + n div 64) # word_of_nat (128 + n mod 64) # bs) = Some n # utf8_units bs"
proof -
  have q: "n div 64 = 2 \<or> n div 64 = 3" using assms by linarith
  have a: "unat (word_of_nat (192 + n div 64) :: 8 word) = 192 + n div 64"
    using q by (auto simp: unat_of_nat)
  have b: "unat (word_of_nat (128 + n mod 64) :: 8 word) = 128 + n mod 64"
    by (simp add: unat_of_nat del: of_nat_add)
  have "64 * (n div 64) + n mod 64 = n" by simp
  then show ?thesis using q
    by (subst utf8_units.simps)
      (auto simp: utf8_front_def Let_def a b second_ok_def is_cont_def cont_val_def simp del: of_nat_add)
qed

lemma utf8_units_enc: "utf8_units (utf8_enc s @ bs) = map Some (points s) @ utf8_units bs"
proof (induction s)
  case (Cons c s)
  show ?case
  proof (cases "(of_char c :: nat) < 128")
    case True
    with Cons show ?thesis by (simp add: utf8_enc_def points_def Let_def utf8_units_ascii)
  next
    case False
    with Cons show ?thesis
      using utf8_units_two [of "of_char c" "utf8_enc s @ bs"] of_char_less_256 [of c]
      by (simp add: utf8_enc_def points_def Let_def del: of_nat_add)
  qed
qed (simp add: utf8_enc_def points_def)

lemma decode_enc: "decode_replace (utf8_enc s @ bs) = points s @ decode_replace bs"
  by (simp add: decode_replace_def utf8_units_enc o_def)

text \<open>
  Reading in text mode makes every \<open>\r\n\<close> and \<open>\r\<close> a \<open>\n\<close>. \<open>str.splitlines()\<close> takes them for one break
  too; a break at the end starts no further line.
\<close>

primrec newlines :: "bool \<Rightarrow> nat list \<Rightarrow> nat list" where
  "newlines after_cr [] = []"
| "newlines after_cr (n # s) =
     (if n = 10 \<and> after_cr then newlines False s else (if n = 13 then 10 else n) # newlines (n = 13) s)"

definition universal_newlines :: "nat list \<Rightarrow> nat list" where
  "universal_newlines s = newlines False s"

definition line_break :: "nat \<Rightarrow> bool" where
  "line_break n \<longleftrightarrow> n \<in> {10, 11, 12, 28, 29, 30, 133, 8232, 8233}"

primrec split_lines :: "nat list \<Rightarrow> nat list \<Rightarrow> nat list list" where
  "split_lines cur [] = (if cur = [] then [] else [cur])"
| "split_lines cur (n # s) = (if line_break n then cur # split_lines [] s else split_lines (cur @ [n]) s)"

definition splitlines :: "nat list \<Rightarrow> nat list list" where
  "splitlines s = split_lines [] (universal_newlines s)"

section \<open>Writing\<close>

definition OSError :: exn where
  "OSError = OtherError ''OSError''"

definition fresh_ino :: "disk \<Rightarrow> nat" where
  "fresh_ino d = Suc (fold max (map snd (names d)) 0)"

definition enter :: "path \<Rightarrow> node \<Rightarrow> disk \<Rightarrow> disk" where
  "enter p n d = d\<lparr>names := (p, fresh_ino d) # names d, inodes := (inodes d)(fresh_ino d := n)\<rparr>"

text \<open>\<open>p.mkdir(parents=True, exist_ok=True)\<close>: a level that is not a folder is an \<open>OSError\<close>.\<close>

primrec mkdir_all :: "path list \<Rightarrow> disk \<Rightarrow> disk res" where
  "mkdir_all [] d = Inr d"
| "mkdir_all (q # qs) d =
     (case stat d q of
        Some Folder \<Rightarrow> mkdir_all qs d
      | Some _ \<Rightarrow> Inl OSError
      | None \<Rightarrow> (if node_at d q = None then mkdir_all qs (enter q Folder d) else Inl OSError))"

definition mkdir_parents :: "path \<Rightarrow> disk \<Rightarrow> disk res" where
  "mkdir_parents p d = mkdir_all (filter (\<lambda>q. q \<noteq> []) (prefixes p)) d"

text \<open>
  \<open>open(p, "w")\<close> and \<open>open(p, "a")\<close>: the kernel follows links, a missing file is made in an existing
  folder, an existing one is emptied by \<open>"w"\<close>. The handle is the inode. A special file is not opened.
\<close>

definition open_file :: "bool \<Rightarrow> path \<Rightarrow> disk \<Rightarrow> (nat \<times> disk) res" where
  "open_file at_end p d =
     (case walk d [] [] (map Comp p) of
        (_, False) \<Rightarrow> Inl OSError
      | (q, True) \<Rightarrow>
          (case node_at d q of
             Some (Regular b) \<Rightarrow>
               Inr (the (ino_at d q), if at_end then d else d\<lparr>inodes := (inodes d)(the (ino_at d q) := Regular [])\<rparr>)
           | Some _ \<Rightarrow> Inl OSError
           | None \<Rightarrow> (if q \<noteq> [] \<and> (butlast q = [] \<or> node_at d (butlast q) = Some Folder)
                      then Inr (fresh_ino d, enter q (Regular []) d) else Inl OSError)))"

text \<open>Bytes written through a handle: at the end, or over the start of the file.\<close>

definition write_bytes :: "bool \<Rightarrow> nat \<Rightarrow> bytes \<Rightarrow> disk \<Rightarrow> disk" where
  "write_bytes at_end i bs d =
     (case inodes d i of
        Regular b \<Rightarrow> d\<lparr>inodes := (inodes d)(i := Regular (if at_end then b @ bs else bs @ drop (length bs) b))\<rparr>
      | _ \<Rightarrow> d)"

end
