(* ===== verification/Guards.thy ===== *)
theory Guards
  imports Disk "HOL-Library.List_Lexorder" "HOL-Library.Char_ord"
begin

text \<open>
  The two guards of the file tools: \<open>files/write_guard.py\<close>, which compares real paths, and
  \<open>files/read_guard.py\<close>, which compares inodes; and the tool that lists a directory under the second
  (\<open>tools/impls/list_directory.py\<close>). The guards only look at the disk.
\<close>

section \<open>The write guard\<close>

definition MAX_WRITE_BYTES :: nat where
  "MAX_WRITE_BYTES = 1 * 1024 * 1024"

definition MAX_RESULT_FILE_BYTES :: nat where
  "MAX_RESULT_FILE_BYTES = 25 * 1024 * 1024"

definition HOME_DENY :: "string list" where
  "HOME_DENY =
     [''.zshrc'', ''.bashrc'', ''.bash_profile'', ''.profile'', ''.zprofile'', ''.zshenv'', ''.zlogin'',
      ''.ssh'', ''.aws'', ''.gnupg'', ''.netrc'', ''.config/gh'',
      ''Library/LaunchAgents'']"

definition ABS_DENY :: "string list" where
  "ABS_DENY =
     [''/etc'', ''/usr'', ''/bin'', ''/sbin'', ''/System'', ''/Library'', ''/private/etc'',
      ''/Applications'', ''/Library/LaunchDaemons'']"

text \<open>\<open>c == p or c.startswith(p + "/")\<close>: nothing but the root itself is within the root.\<close>

definition is_within :: "disk \<Rightarrow> path \<Rightarrow> path \<Rightarrow> bool" where
  "is_within d child parent =
     (let c = realpath d child; p = realpath d parent in c = p \<or> p \<noteq> [] \<and> prefix p c)"

definition is_within_authorized :: "machine \<Rightarrow> disk \<Rightarrow> path \<Rightarrow> string option \<Rightarrow> bool" where
  "is_within_authorized M d resolved folder =
     (case folder of None \<Rightarrow> False | Some f \<Rightarrow> is_within d resolved (path_of M f))"

definition protected_paths :: "machine \<Rightarrow> string \<Rightarrow> path list" where
  "protected_paths M persona_dir =
     map (\<lambda>r. home_path M @ components r) HOME_DENY @ map components ABS_DENY @ [path_of M persona_dir]"

definition denied :: "machine \<Rightarrow> disk \<Rightarrow> string \<Rightarrow> path \<Rightarrow> bool" where
  "denied M d persona_dir resolved = list_ex (is_within d resolved) (protected_paths M persona_dir)"

text \<open>The guard's answer is the error it reports or the path it resolved.\<close>

definition check_write_target :: "ext \<Rightarrow> machine \<Rightarrow> disk \<Rightarrow> string \<Rightarrow> string \<Rightarrow> json \<Rightarrow> string + path" where
  "check_write_target X M d persona_dir raw op =
     (case resolve M d (expandvars M (expanduser M raw)) of
        Inl _ \<Rightarrow> Inl ''bad path: embedded null byte''
      | Inr resolved \<Rightarrow>
          if denied M d persona_dir resolved then Inl (''denied: '' @ show_path resolved @ '' is in a protected location'')
          else if op = JStr ''create'' then
            (if stat d resolved \<noteq> None
             then Inl (''path already exists (create won't overwrite): '' @ show_path resolved) else Inr resolved)
          else if op = JStr ''append'' then
            (case stat d resolved of
               Some (Regular _) \<Rightarrow> Inr resolved
             | _ \<Rightarrow> Inl (''append target must exist as a file: '' @ show_path resolved))
          else Inl (''unknown op: '' @ py_repr X op))"

definition size_of_node :: "node \<Rightarrow> nat" where
  "size_of_node n = (case n of Regular b \<Rightarrow> length b | _ \<Rightarrow> 0)"

definition check_size :: "disk \<Rightarrow> string \<Rightarrow> json \<Rightarrow> path \<Rightarrow> string + path" where
  "check_size d content op resolved =
     (let nbytes = length (utf8_enc content) in
      if MAX_WRITE_BYTES < nbytes
      then Inl (''too large ('' @ dec_nat nbytes @ '' > '' @ dec_nat MAX_WRITE_BYTES @ '' cap)'')
      else case (op = JStr ''append'', stat d resolved) of
        (True, Some n) \<Rightarrow> (if MAX_RESULT_FILE_BYTES < size_of_node n + nbytes
                         then Inl ''append would exceed the file-size ceiling'' else Inr resolved)
      | _ \<Rightarrow> Inr resolved)"

section \<open>The read guard\<close>

definition PROTECTED :: string where
  "PROTECTED = ''protected location (credentials or secrets)''"

definition HOME_DENY_DIRS :: "string list" where
  "HOME_DENY_DIRS =
     [''.claude'', ''.ssh'', ''.aws'', ''.gnupg'', ''.config/gh'', ''.docker'', ''.kube'', ''.password-store'',
      ''.local/share/keyrings'',
      ''Library/Keychains'', ''Library/Cookies'',
      ''Library/Application Support/Google/Chrome'', ''Library/Application Support/Firefox'',
      ''.mozilla'', ''.config/google-chrome'', ''.config/chromium'',
      ''AppData/Local/Google/Chrome'', ''AppData/Roaming/Mozilla'',
      ''AppData/Roaming/Microsoft/Credentials'', ''AppData/Roaming/Microsoft/Protect'',
      ''Library/Application Support/BraveSoftware'', ''Library/Application Support/Microsoft Edge'',
      ''Library/Application Support/com.operasoftware.Opera'', ''Library/Application Support/Vivaldi'',
      ''Library/Application Support/Chromium'', ''Library/Safari'', ''Library/Containers/com.apple.Safari'',
      ''.config/BraveSoftware'', ''.config/microsoft-edge'', ''.config/opera'', ''.config/vivaldi'',
      ''AppData/Local/BraveSoftware'', ''AppData/Local/Microsoft/Edge'', ''AppData/Roaming/Opera Software'',
      ''AppData/Local/Vivaldi'', ''AppData/Local/Chromium'',
      ''AppData/Local/Microsoft/Credentials'',
      ''AppData/Roaming/Microsoft/Windows/PowerShell/PSReadLine'',
      ''.config/gcloud'', ''.azure'', ''AppData/Roaming/gcloud'', ''AppData/Roaming/GitHub CLI'']"

definition HOME_DENY_FILES :: "string list" where
  "HOME_DENY_FILES =
     [''.claude.json'', ''.netrc'', ''.git-credentials'', ''.pgpass'', ''.npmrc'', ''.pypirc'',
      ''.cargo/credentials.toml'', ''.cargo/credentials'', ''.gem/credentials'', ''.terraform.d/credentials.tfrc.json'',
      ''.bash_history'', ''.zsh_history'', ''.python_history'', ''.psql_history'', ''.mysql_history'', ''.node_repl_history'',
      ''.local/share/fish/fish_history'']"

definition DENY_NAMES :: "string list" where
  "DENY_NAMES = [''.env'', ''id_rsa'', ''id_dsa'', ''id_ecdsa'', ''id_ed25519'']"

definition DENY_SUFFIXES :: "string list" where
  "DENY_SUFFIXES = [''.key'', ''.p12'', ''.pfx'', ''.keychain'', ''.keychain-db'']"

definition DOTENV_TEMPLATES :: "string list" where
  "DOTENV_TEMPLATES = [''.example'', ''.sample'', ''.template'', ''.dist'']"

definition path_name :: "path \<Rightarrow> string" where
  "path_name p = (if p = [] then [] else last p)"

text \<open>\<open>Path(name).suffix\<close> up to Python 3.13: from the last dot, unless it is the first or last character.\<close>

definition suffix_of :: "string \<Rightarrow> string" where
  "suffix_of name =
     (let tail = rev (takeWhile (\<lambda>c. c \<noteq> CHR ''.'') (rev name)); i = length name - Suc (length tail) in
      if CHR ''.'' \<in> set name \<and> 0 < i \<and> tail \<noteq> [] then drop i name else [])"

definition ascii_bytes :: "string \<Rightarrow> bytes" where
  "ascii_bytes s = map (\<lambda>c. word_of_nat (of_char c)) s"

definition holds_private_key :: "disk \<Rightarrow> path \<Rightarrow> bool" where
  "holds_private_key d p =
     (case stat d p of Some (Regular b) \<Rightarrow> sublist (ascii_bytes ''PRIVATE KEY'') (take (2 ^ 20) b) | _ \<Rightarrow> True)"

definition secret_name :: "ext \<Rightarrow> disk \<Rightarrow> path \<Rightarrow> bool" where
  "secret_name X d p =
     (if stat d p = Some Folder then False
      else let name = casefold X (path_name p) in
        if prefix ''.env.'' name \<and> suffix_of name \<in> set DOTENV_TEMPLATES then False
        else if suffix_of name = ''.pem'' then holds_private_key d p
        else name \<in> set DENY_NAMES \<or> prefix ''.env.'' name \<or> suffix_of name \<in> set DENY_SUFFIXES)"

text \<open>The names in a folder, as \<open>iterdir\<close> finds them.\<close>

definition children :: "disk \<Rightarrow> path \<Rightarrow> string list" where
  "children d p = remdups (map last (filter (\<lambda>q. q \<noteq> [] \<and> butlast q = p) (map fst (names d))))"

definition STATE_FILENAME :: string where
  "STATE_FILENAME = ''bridge.json''"

definition other_personas :: "machine \<Rightarrow> disk \<Rightarrow> string \<Rightarrow> path list" where
  "other_personas M d persona_dir =
     (let root = path_of M (kindled_home M) @ [''personas''] in
      if stat d root = Some Folder then
        filter (\<lambda>q. reaches d q \<noteq> None \<and> reaches d q \<noteq> reaches d (path_of M persona_dir))
          (map (\<lambda>n. root @ [n]) (children d (realpath d root)))
      else [])"

definition denied_paths :: "machine \<Rightarrow> disk \<Rightarrow> string \<Rightarrow> path list" where
  "denied_paths M d persona_dir =
     map (\<lambda>r. home_path M @ components r) (HOME_DENY_DIRS @ HOME_DENY_FILES)
     @ [path_of M (kindled_home M) @ [''claude-config'']]
     @ (case map_of (env_vars M) ''CLAUDE_CONFIG_DIR'' of
          Some v \<Rightarrow> (if v \<noteq> [] then [path_of M (expanduser M v)] else []) | None \<Rightarrow> [])
     @ [path_of M persona_dir @ [STATE_FILENAME], path_of M persona_dir @ [''kindled_link'']]
     @ other_personas M d persona_dir"

definition denied_stats :: "machine \<Rightarrow> disk \<Rightarrow> string \<Rightarrow> nat list" where
  "denied_stats M d persona_dir = List.map_filter (reaches d) (denied_paths M d persona_dir)"

definition same_file :: "disk \<Rightarrow> nat list \<Rightarrow> path \<Rightarrow> bool" where
  "same_file d den p = (case reaches d p of Some i \<Rightarrow> i \<in> set den | None \<Rightarrow> False)"

definition is_read_denied :: "ext \<Rightarrow> disk \<Rightarrow> nat list \<Rightarrow> path \<Rightarrow> bool" where
  "is_read_denied X d den resolved =
     (if secret_name X d resolved then True
      else if take 1 resolved = [''proc''] \<and> path_name resolved = ''environ'' then True
      else list_ex (same_file d den) (prefixes resolved))"

section \<open>Listing a directory\<close>

definition LIST_ENTRY_CAP :: nat where
  "LIST_ENTRY_CAP = 200"

record listing =
  l_path :: string
  l_entries :: "(string \<times> bool \<times> nat option) list"

text \<open>The entry of a child: its name, whether it is a folder, the size of a file. A dangling link is a file without size.\<close>

definition entry_of :: "disk \<Rightarrow> path \<Rightarrow> string \<times> bool \<times> nat option" where
  "entry_of d child =
     (path_name child, stat d child = Some Folder,
      (case stat d child of Some (Regular b) \<Rightarrow> Some (length b) | _ \<Rightarrow> None))"

primrec list_entries :: "ext \<Rightarrow> disk \<Rightarrow> nat list \<Rightarrow> (string \<times> bool \<times> nat option) list \<Rightarrow> path list
    \<Rightarrow> (string \<times> bool \<times> nat option) list" where
  "list_entries X d den entries [] = entries"
| "list_entries X d den entries (child # rest) =
     (if LIST_ENTRY_CAP \<le> length entries then entries
      else if is_read_denied X d den (realpath d child) then list_entries X d den entries rest
      else list_entries X d den (entries @ [entry_of d child]) rest)"

definition list_directory :: "ext \<Rightarrow> machine \<Rightarrow> disk \<Rightarrow> string \<Rightarrow> string \<Rightarrow> string + listing" where
  "list_directory X M d persona_dir raw =
     (case resolve M d (expandvars M (expanduser M raw)) of
        Inl _ \<Rightarrow> Inl ''bad path: embedded null byte''
      | Inr p \<Rightarrow>
          if is_read_denied X d (denied_stats M d persona_dir) p
          then Inl (''refused: '' @ show_path p @ '' is in a '' @ PROTECTED)
          else if stat d p = None then Inl (''path does not exist: '' @ show_path p)
          else if stat d p \<noteq> Some Folder then Inl (''not a directory: '' @ show_path p)
          else Inr \<lparr>l_path = show_path p,
            l_entries = list_entries X d (denied_stats M d persona_dir) [] (map (\<lambda>n. p @ [n]) (sort (children d p)))\<rparr>)"

section \<open>What the guards guarantee\<close>


definition home_machine :: machine where
  "home_machine = \<lparr>env_vars = [(''HOME'', ''/home/u'')], user_home = (\<lambda>_. None), own_home = ''/home/u'',
     kindled_home = ''/home/u/.kindled'', cwd = []\<rparr>"

text \<open>A home with a notes folder, a link to it, and the folder \<open>.ssh\<close> under two spellings, as on a volume that ignores case.\<close>

definition home_disk :: disk where
  "home_disk =
     \<lparr>names = [([''home''], 1), ([''home'', ''u''], 2), ([''home'', ''u'', ''.ssh''], 3), ([''home'', ''u'', ''.SSH''], 3),
        ([''home'', ''u'', ''notes''], 4), ([''home'', ''u'', ''notes'', ''a.txt''], 5), ([''home'', ''u'', ''n''], 6)],
      inodes = (\<lambda>_. Folder)(5 := Regular [65, 10], 6 := Symlink ''/home/u/notes'')\<rparr>"

lemmas home_defs = home_machine_def home_disk_def



text \<open>Inside a place that exists, by name or under another name of the same file.\<close>

lemma same_file_iff: "same_file d den p \<longleftrightarrow> (\<exists>i. reaches d p = Some i \<and> i \<in> set den)"
  by (cases "reaches d p") (simp_all add: same_file_def)

lemma denied_stats_iff:
  "i \<in> set (denied_stats M d persona_dir) \<longleftrightarrow> (\<exists>p \<in> set (denied_paths M d persona_dir). reaches d p = Some i)"
proof -
  have "i \<in> set (List.map_filter f xs) \<longleftrightarrow> (\<exists>x \<in> set xs. f x = Some i)" for f :: "path \<Rightarrow> nat option" and xs
    by (induction xs) (auto split: option.split)
  then show ?thesis by (simp only: denied_stats_def)
qed

lemma is_read_denied_iff:
  "is_read_denied X d (denied_stats M d persona_dir) r \<longleftrightarrow>
     secret_name X d r \<or> take 1 r = [''proc''] \<and> path_name r = ''environ'' \<or>
     (\<exists>p \<in> set (denied_paths M d persona_dir). \<exists>anc i. prefix anc r \<and> reaches d anc = Some i \<and> reaches d p = Some i)"
  unfolding is_read_denied_def list_ex_iff same_file_iff denied_stats_iff Bex_def in_set_prefixes
  by (split if_split)+ blast

text \<open>
  C38: The read guard cannot be walked around. Whatever text is asked for, with links, \<open>..\<close> and
  variables in it: when it resolves to a path that has a protected place among its ancestors, or an
  ancestor that is the same file as one under another name, the read is refused.
\<close>

theorem read_guard_covers:
  assumes "resolve M d (expandvars M (expanduser M raw)) = Inr r" "link_free d r"
    and "p \<in> set (denied_paths M d persona_dir)" "reaches d p = Some i"
    and "prefix (realpath d p) r \<or> (\<exists>anc. prefix anc r \<and> reaches d anc = Some i)"
  shows "is_read_denied X d (denied_stats M d persona_dir) r"
proof -
  have "\<exists>anc. prefix anc r \<and> reaches d anc = Some i"
    using assms(5)
  proof
    assume "prefix (realpath d p) r"
    moreover have "link_free d (realpath d p)" "ino_at d (realpath d p) = Some i"
      using reaches_realpath [OF assms(4)] by auto
    ultimately show ?thesis by (intro exI [of _ "realpath d p"]) simp
  qed
  then show ?thesis using assms(3,4) by (auto simp: is_read_denied_iff)
qed

lemma read_guard_covers_witness:
  "\<forall>X. is_read_denied X home_disk (denied_stats home_machine home_disk ''/home/u/.kindled/p'')
     [''home'', ''u'', ''.SSH'', ''config'']"
proof
  fix X
  have r: "resolve home_machine home_disk (expandvars home_machine (expanduser home_machine ''~/n/../.SSH/config''))
      = Inr [''home'', ''u'', ''.SSH'', ''config'']"
    by code_simp
  have l: "walk home_disk [] [] (map Comp [''home'', ''u'', ''.SSH'', ''config'']) = ([''home'', ''u'', ''.SSH'', ''config''], True)"
    by code_simp
  have p: "[''home'', ''u'', ''.ssh''] \<in> set (denied_paths home_machine home_disk ''/home/u/.kindled/p'')"
    by code_simp
  have a: "reaches home_disk [''home'', ''u'', ''.ssh''] = Some 3" "reaches home_disk [''home'', ''u'', ''.SSH''] = Some 3"
    by code_simp+
  show "is_read_denied X home_disk (denied_stats home_machine home_disk ''/home/u/.kindled/p'') [''home'', ''u'', ''.SSH'', ''config'']"
    by (rule read_guard_covers [OF r _ p a(1)])
      (use walk_link_free [OF l] a(2) in \<open>auto intro!: exI [of _ "[''home'', ''u'', ''.SSH'']"]\<close>)
qed

text \<open>
  The write guard compares spellings. On a volume that takes \<open>.SSH\<close> and \<open>.ssh\<close> for one folder, a
  file proposed under the other spelling is accepted and lands in the protected folder, which the read
  guard refuses to open under either.
\<close>

theorem write_guard_by_spelling:
  "ino_at home_disk [''home'', ''u'', ''.SSH''] = ino_at home_disk [''home'', ''u'', ''.ssh''] \<and>
   (\<forall>X. check_write_target X home_machine home_disk ''/home/u/.kindled/p'' ''~/.SSH/rc'' (JStr ''create'')
      = Inr [''home'', ''u'', ''.SSH'', ''rc''] \<and>
    is_read_denied X home_disk (denied_stats home_machine home_disk ''/home/u/.kindled/p'') [''home'', ''u'', ''.SSH'', ''rc''])"
proof -
  have "ino_at home_disk [''home'', ''u'', ''.SSH''] = ino_at home_disk [''home'', ''u'', ''.ssh'']" by code_simp
  moreover have "check_write_target X home_machine home_disk ''/home/u/.kindled/p'' ''~/.SSH/rc'' (JStr ''create'')
      = Inr [''home'', ''u'', ''.SSH'', ''rc'']" for X by code_simp
  moreover have "is_read_denied X home_disk (denied_stats home_machine home_disk ''/home/u/.kindled/p'') [''home'', ''u'', ''.SSH'', ''rc'']" for X
  proof -
    have "\<exists>p \<in> set (denied_paths home_machine home_disk ''/home/u/.kindled/p''). reaches home_disk p = Some 3"
      "reaches home_disk [''home'', ''u'', ''.SSH''] = Some 3"
      by code_simp+
    then show ?thesis
      unfolding is_read_denied_iff by (auto intro!: exI [of _ "[''home'', ''u'', ''.SSH'']"])
  qed
  ultimately show ?thesis by blast
qed

lemma subseq_sorted: "subseq xs ys \<Longrightarrow> sorted ys \<Longrightarrow> sorted xs"
  by (induction rule: list_emb.induct) (auto dest: subseq_subset)

text \<open>
   A listing shows at most 200 entries, in the order of their names, and no name whose file a read
  would refuse.
\<close>

theorem listing_hides_denied:
  assumes "list_directory X M d persona_dir raw = Inr l"
  shows "length (l_entries l) \<le> LIST_ENTRY_CAP \<and> sorted (map fst (l_entries l)) \<and>
    (\<exists>p. l_path l = show_path p \<and> \<not> is_read_denied X d (denied_stats M d persona_dir) p \<and>
      (\<forall>e \<in> set (l_entries l). fst e \<in> set (children d p) \<and>
        \<not> is_read_denied X d (denied_stats M d persona_dir) (realpath d (p @ [fst e]))))"
proof -
  let ?den = "denied_stats M d persona_dir"
  have len: "length (list_entries X d ?den es cs) \<le> LIST_ENTRY_CAP" if "length es \<le> LIST_ENTRY_CAP" for es cs
    using that by (induction cs arbitrary: es) simp_all
  have sub: "\<exists>ns'. list_entries X d ?den es (map (\<lambda>n. p @ [n]) ns) = es @ map (\<lambda>n. entry_of d (p @ [n])) ns' \<and>
      subseq ns' ns \<and> (\<forall>n \<in> set ns'. \<not> is_read_denied X d ?den (realpath d (p @ [n])))" for es ns p
  proof (induction ns arbitrary: es)
    case (Cons n ns)
    let ?c = "p @ [n]"
    show ?case
    proof (cases "LIST_ENTRY_CAP \<le> length es \<or> is_read_denied X d ?den (realpath d ?c)")
      case True
      then show ?thesis using Cons.IH [of es] by (auto intro: exI [of _ "[]"])
    next
      case False
      obtain ns' where "list_entries X d ?den (es @ [entry_of d ?c]) (map (\<lambda>n. p @ [n]) ns)
          = (es @ [entry_of d ?c]) @ map (\<lambda>n. entry_of d (p @ [n])) ns'"
        "subseq ns' ns" "\<forall>n \<in> set ns'. \<not> is_read_denied X d ?den (realpath d (p @ [n]))"
        using Cons.IH by blast
      with False show ?thesis by (intro exI [of _ "n # ns'"]) simp
    qed
  qed (auto intro: exI [of _ "[]"])
  obtain p where p: "\<not> is_read_denied X d ?den p" "l_path l = show_path p"
      "l_entries l = list_entries X d ?den [] (map (\<lambda>n. p @ [n]) (sort (children d p)))"
    using assms by (auto simp: list_directory_def split: sum.splits if_splits)
  obtain ns where ns: "l_entries l = map (\<lambda>n. entry_of d (p @ [n])) ns" "subseq ns (sort (children d p))"
      "\<forall>n \<in> set ns. \<not> is_read_denied X d ?den (realpath d (p @ [n]))"
    using sub [of "[]" p "sort (children d p)"] p(3) by auto
  have "map fst (l_entries l) = ns" using ns(1) by (simp add: o_def entry_of_def path_name_def)
  moreover have "sorted ns" using subseq_sorted [OF ns(2)] by simp
  moreover have "set ns \<subseteq> set (children d p)" using subseq_subset [OF ns(2)] by simp
  moreover have "length (l_entries l) \<le> LIST_ENTRY_CAP"
    unfolding p(3) by (rule len) simp
  moreover have "fst e \<in> set ns" if "e \<in> set (l_entries l)" for e
    using that ns(1) by (auto simp: entry_of_def path_name_def)
  ultimately show ?thesis using p(1,2) ns(3) by (metis subsetD)
qed

end
