(* ===== verification/Proc.thy ===== *)
theory Proc
  imports Prelude
begin

text \<open>
  Programs that share a state: a resumption is finished or an atomic step that reads and writes the
  state and says how to go on. A pool runs its members in any interleaving, may be joined by new ones
  at any time, and shares the state with an environment. Stopping a member forever is a schedule like
  any other, so a crash needs no rule of its own. Two proof principles follow: \<open>ticketed\<close> counts what the
  members do, \<open>guarantee\<close> keeps an invariant while the facts a member has read stay true.
\<close>

section \<open>Resumptions\<close>

datatype ('s, 'a) proc = Done 'a | Atom "'s \<Rightarrow> ('s, 'a) proc \<times> 's"

primrec andthen :: "('s, 'a) proc \<Rightarrow> ('a \<Rightarrow> ('s, 'b) proc) \<Rightarrow> ('s, 'b) proc" where
  "andthen (Done x) k = k x"
| "andthen (Atom f) k = Atom (\<lambda>s. map_prod (\<lambda>p. andthen p k) (\<lambda>s. s) (f s))"

definition atomic :: "('s \<Rightarrow> 'a \<times> 's) \<Rightarrow> ('s, 'a) proc" where
  "atomic f = Atom (\<lambda>s. map_prod Done (\<lambda>s. s) (f s))"

definition look :: "('s \<Rightarrow> 'a) \<Rightarrow> ('s, 'a) proc" where
  "look f = Atom (\<lambda>s. (Done (f s), s))"

text \<open>\<open>x = m(); rest\<close>, where an exception of \<open>m\<close> skips the rest.\<close>

definition andok :: "('s, 'a res) proc \<Rightarrow> ('a \<Rightarrow> ('s, 'b res) proc) \<Rightarrow> ('s, 'b res) proc" where
  "andok p k = andthen p (\<lambda>r. case r of Inl e \<Rightarrow> Done (Inl e) | Inr x \<Rightarrow> k x)"

lemma andthen_simps:
  "andthen (atomic f) k = Atom (\<lambda>s. map_prod k (\<lambda>s. s) (f s))"
  "andthen (look g) k = Atom (\<lambda>s. (k (g s), s))"
  by (simp_all add: atomic_def look_def prod.map_comp o_def fun_eq_iff)

text \<open>A member running with nobody else.\<close>

primrec alone :: "('s, 'a) proc \<Rightarrow> 's \<Rightarrow> 'a \<times> 's" where
  "alone (Done x) = (\<lambda>s. (x, s))"
| "alone (Atom f) = (\<lambda>s. case map_prod alone (\<lambda>s. s) (f s) of (r, s') \<Rightarrow> r s')"

lemma alone_Atom: "alone (Atom f) s = (case f s of (p, s') \<Rightarrow> alone p s')"
  by (cases "f s") simp

declare alone.simps(2) [simp del]

lemma alone_andthen: "alone (andthen p k) s = (case alone p s of (x, s') \<Rightarrow> alone (k x) s')"
proof (induction p arbitrary: s)
  case (Atom f)
  obtain q s' where f: "f s = (q, s')" by (cases "f s")
  then have "alone (andthen q k) s' = (case alone q s' of (x, s'') \<Rightarrow> alone (k x) s'')"
    by (intro Atom.IH [of "f s"]) (auto simp: prod_set_defs intro: range_eqI [of _ _ s])
  with f show ?case by (simp add: alone_Atom)
qed simp

lemma alone_simps [simp]:
  "alone (atomic g) s = g s" "alone (look h) s = (h s, s)"
  by (cases "g s") (simp_all add: atomic_def look_def alone_Atom)

lemma alone_andok:
  "alone (andok p k) s = (case alone p s of (Inl e, s') \<Rightarrow> (Inl e, s') | (Inr x, s') \<Rightarrow> alone (k x) s')"
  by (auto simp: andok_def alone_andthen split: prod.split sum.split)

section \<open>Pools\<close>

type_synonym ('s, 'a) pool = "('s, 'a) proc list \<times> 's"

inductive pool_step :: "('s, 'a) proc set \<Rightarrow> ('s \<Rightarrow> 's \<Rightarrow> bool) \<Rightarrow> ('s, 'a) pool \<Rightarrow> ('s, 'a) pool \<Rightarrow> bool"
  for progs :: "('s, 'a) proc set" and env :: "'s \<Rightarrow> 's \<Rightarrow> bool" where
  member: "i < length ps \<Longrightarrow> ps ! i = Atom f \<Longrightarrow> f s = (p, s') \<Longrightarrow> pool_step progs env (ps, s) (ps[i := p], s')"
| joins: "p \<in> progs \<Longrightarrow> pool_step progs env (ps, s) (ps @ [p], s)"
| outside: "env s s' \<Longrightarrow> pool_step progs env (ps, s) (ps, s')"

inductive pool_runs :: "('s, 'a) proc set \<Rightarrow> ('s \<Rightarrow> 's \<Rightarrow> bool) \<Rightarrow> ('s, 'a) pool \<Rightarrow> ('s, 'a) pool \<Rightarrow> bool"
  for progs :: "('s, 'a) proc set" and env :: "'s \<Rightarrow> 's \<Rightarrow> bool" where
  start: "pool_runs progs env c c"
| more: "pool_runs progs env c c' \<Longrightarrow> pool_step progs env c' c'' \<Longrightarrow> pool_runs progs env c c''"

inductive_cases pool_stepE: "pool_step progs env (ps, s) c"

text \<open>A schedule: whose turn it is, step by step; a finished member's turn is idle.\<close>

definition turn :: "nat \<Rightarrow> ('s, 'a) pool \<Rightarrow> ('s, 'a) pool" where
  "turn i c = (case c of (ps, s) \<Rightarrow>
     if i < length ps then (case ps ! i of Done _ \<Rightarrow> (ps, s) | Atom f \<Rightarrow> (case f s of (p, s') \<Rightarrow> (ps[i := p], s'))) else (ps, s))"

definition schedule :: "nat list \<Rightarrow> ('s, 'a) pool \<Rightarrow> ('s, 'a) pool" where
  "schedule js c = fold turn js c"

lemma turn_runs: "pool_runs progs env c c' \<Longrightarrow> pool_runs progs env c (turn i c')"
  by (auto simp: turn_def split: prod.split proc.split intro: pool_runs.more member)

lemma schedule_runs: "pool_runs progs env c c' \<Longrightarrow> pool_runs progs env c (schedule js c')"
  unfolding schedule_def by (induction js arbitrary: c') (simp_all add: turn_runs)

lemma joined_runs: "set ps \<subseteq> progs \<Longrightarrow> pool_runs progs env ([], s) (ps, s)"
  by (induction ps rule: rev_induct) (auto intro: pool_runs.start pool_runs.more pool_step.joins)

text \<open>A member that runs some steps, or to its end, with nobody between.\<close>

primrec advance :: "nat \<Rightarrow> ('s, 'a) proc \<times> 's \<Rightarrow> ('s, 'a) proc \<times> 's" where
  "advance 0 c = c"
| "advance (Suc n) c = (case fst c of Done x \<Rightarrow> c | Atom f \<Rightarrow> advance n (f (snd c)))"

lemma advance_runs:
  assumes "pool_runs progs env c (ps @ [p], s)"
  shows "pool_runs progs env c (ps @ [fst (advance n (p, s))], snd (advance n (p, s)))"
  using assms
proof (induction n arbitrary: p s)
  case (Suc n)
  show ?case
  proof (cases p)
    case (Atom f)
    have "pool_step progs env (ps @ [p], s) ((ps @ [p])[length ps := fst (f s)], snd (f s))"
      by (rule member [where f = f]) (use Atom in auto)
    then have "pool_runs progs env c (ps @ [fst (f s)], snd (f s))"
      using Suc.prems pool_runs.more by fastforce
    from Suc.IH [OF this] show ?thesis using Atom by simp
  qed (use Suc.prems in simp)
qed simp

lemma alone_runs:
  assumes "alone p s = (x, s')" "pool_runs progs env c (ps @ [p], s)"
  shows "pool_runs progs env c (ps @ [Done x], s')"
  using assms
proof (induction p arbitrary: s)
  case (Atom f)
  obtain q t where f: "f s = (q, t)" by (cases "f s")
  have "pool_step progs env (ps @ [Atom f], s) ((ps @ [Atom f])[length ps := q], t)"
    by (rule member [where f = f]) (use f in auto)
  then have "pool_runs progs env c (ps @ [q], t)" using Atom.prems(2) pool_runs.more by fastforce
  moreover have "alone q t = (x, s')" using Atom.prems(1) f by (simp add: alone_Atom)
  moreover have "f s \<in> range f" by (rule rangeI)
  moreover have "q \<in> Basic_BNFs.fsts (f s)" using f by (simp add: prod_set_defs)
  ultimately show ?case using Atom.IH by blast
qed simp

lemma next_runs:
  "pool_runs progs env c (ps, s) \<Longrightarrow> p \<in> progs \<Longrightarrow> alone p s = (x, s') \<Longrightarrow> pool_runs progs env c (ps @ [Done x], s')"
  by (rule alone_runs) (auto intro: pool_runs.more pool_step.joins)

text \<open>\<open>I\<close> holds whenever a member that starts alone from \<open>s\<close> is stopped.\<close>

definition always :: "('s \<Rightarrow> bool) \<Rightarrow> ('s, 'a) proc \<Rightarrow> 's \<Rightarrow> bool" where
  "always I p s \<longleftrightarrow> (\<forall>n. I (snd (advance n (p, s))))"

lemma advance_Done [simp]: "advance n (Done x, s) = (Done x, s)"
  by (cases n) simp_all

lemma always_Done [simp]: "always I (Done x) s \<longleftrightarrow> I s"
  by (simp add: always_def)

lemma always_Atom: "always I (Atom f) s \<longleftrightarrow> I s \<and> always I (fst (f s)) (snd (f s))"
proof -
  have "(\<forall>n. P n) \<longleftrightarrow> P 0 \<and> (\<forall>n. P (Suc n))" for P :: "nat \<Rightarrow> bool" by (metis not0_implies_Suc)
  from this [of "\<lambda>n. I (snd (advance n (Atom f, s)))"] show ?thesis by (simp add: always_def)
qed

lemma always_now: "always I p s \<Longrightarrow> I s"
  by (cases p) (simp_all add: always_Atom)

lemma always_ends: "always I p s \<Longrightarrow> alone p s = (x, t) \<Longrightarrow> I t"
proof (induction p arbitrary: s)
  case (Atom f)
  obtain q u where f: "f s = (q, u)" by (cases "f s")
  have "q \<in> Basic_BNFs.fsts (f s)" using f by (simp add: prod_set_defs)
  moreover have "always I q u" "alone q u = (x, t)" using Atom.prems f by (simp_all add: always_Atom alone_Atom)
  ultimately show ?case using Atom.IH [OF rangeI] by blast
qed simp

lemma always_andthen:
  "always I p s \<Longrightarrow> (\<And>x t. alone p s = (x, t) \<Longrightarrow> I t \<Longrightarrow> always I (k x) t) \<Longrightarrow> always I (andthen p k) s"
proof (induction p arbitrary: s)
  case (Atom f)
  obtain q t where f: "f s = (q, t)" by (cases "f s")
  have "q \<in> Basic_BNFs.fsts (f s)" using f by (simp add: prod_set_defs)
  moreover have "always I q t" using Atom.prems(1) f by (simp add: always_Atom)
  moreover have "always I (k x) u" if "alone q t = (x, u)" "I u" for x u
    using Atom.prems(2) that f by (simp add: alone_Atom)
  ultimately have "always I (andthen q k) t" using Atom.IH [OF rangeI] by blast
  then show ?case using Atom.prems(1) f by (simp add: always_Atom)
qed simp

lemma always_simps [simp]:
  "always I (look g) s \<longleftrightarrow> I s" "always I (atomic h) s \<longleftrightarrow> I s \<and> I (snd (h s))"
  by (simp_all add: look_def atomic_def always_Atom)

lemma always_andok:
  "always I p s \<Longrightarrow> (\<And>x t. alone p s = (Inr x, t) \<Longrightarrow> I t \<Longrightarrow> always I (k x) t) \<Longrightarrow> always I (andok p k) s"
  unfolding andok_def by (erule always_andthen) (auto split: sum.split)

section \<open>Counting\<close>

text \<open>
  Members get a ticket by one kind of step and give one up by another. \<open>licensed n p\<close>: holding \<open>n\<close>
  tickets, \<open>p\<close> never uses one it does not have, and every other step of it leaves both counts alone.
\<close>

locale ticketed =
  fixes granted used :: "'s \<Rightarrow> nat"
begin

definition idle_step :: "'s \<Rightarrow> 's \<Rightarrow> bool" where
  "idle_step s s' \<longleftrightarrow> granted s' = granted s \<and> used s' = used s"

inductive licensed :: "nat \<Rightarrow> ('s, 'a) proc \<Rightarrow> bool" where
  finished: "licensed n (Done x)"
| steps: "(\<And>s. idle_step s (snd (f s)) \<and> licensed n (fst (f s)) \<or>
             granted (snd (f s)) = Suc (granted s) \<and> used (snd (f s)) = used s \<and> licensed (Suc n) (fst (f s)) \<or>
             (\<exists>m. n = Suc m \<and> granted (snd (f s)) = granted s \<and> used (snd (f s)) = Suc (used s) \<and> licensed m (fst (f s))))
         \<Longrightarrow> licensed n (Atom f)"

lemma licensed_andthen: "licensed n p \<Longrightarrow> (\<And>m x. licensed m (k x)) \<Longrightarrow> licensed n (andthen p k)"
proof (induction rule: licensed.induct)
  case (steps f n)
  have "idle_step s (snd (f s)) \<and> licensed n (andthen (fst (f s)) k) \<or>
      granted (snd (f s)) = Suc (granted s) \<and> used (snd (f s)) = used s \<and> licensed (Suc n) (andthen (fst (f s)) k) \<or>
      (\<exists>m. n = Suc m \<and> granted (snd (f s)) = granted s \<and> used (snd (f s)) = Suc (used s) \<and> licensed m (andthen (fst (f s)) k))" for s
    using steps(1) [of s] steps(2) by blast
  then show ?case unfolding andthen.simps
    by (intro licensed.steps) simp
qed simp

lemma licensed_look: "(\<And>x. licensed n (k x)) \<Longrightarrow> licensed n (andthen (look g) k)"
  unfolding andthen_simps by (rule licensed.steps) (simp add: idle_step_def)

lemma licensed_atomic:
  "(\<And>s. idle_step s (snd (f s))) \<Longrightarrow> (\<And>x. licensed n (k x)) \<Longrightarrow> licensed n (andthen (atomic f) k)"
  unfolding andthen_simps by (rule licensed.steps) simp

lemma licensed_more: "licensed n p \<Longrightarrow> licensed (n + m) p"
proof (induction rule: licensed.induct)
  case (steps f n)
  then show ?case by (intro licensed.steps) (metis add_Suc)
qed (rule licensed.finished)

lemma licensed_any: "licensed 0 p \<Longrightarrow> licensed m p"
  using licensed_more [of 0 p m] by simp

lemma licensed_andok_look: "(\<And>x. licensed n (k x)) \<Longrightarrow> licensed n (andok (look g) k)"
  unfolding andok_def by (rule licensed_look) (auto intro: licensed.finished split: sum.split)

lemma licensed_andok_atomic:
  "(\<And>s. idle_step s (snd (f s))) \<Longrightarrow> (\<And>x. licensed n (k x)) \<Longrightarrow> licensed n (andok (atomic f) k)"
  unfolding andok_def by (rule licensed_atomic) (auto intro: licensed.finished split: sum.split)

text \<open>The tickets the members hold and the used ones together are the granted ones.\<close>

lemma one_step:
  assumes "licensed n (Atom f)" "f s = (p, s')"
  obtains m where "licensed m p" "m + used s' + granted s = n + used s + granted s'"
proof -
  have "idle_step s s' \<and> licensed n p \<or> granted s' = Suc (granted s) \<and> used s' = used s \<and> licensed (Suc n) p \<or>
      (\<exists>m. n = Suc m \<and> granted s' = granted s \<and> used s' = Suc (used s) \<and> licensed m p)"
    using assms(1) by (cases rule: licensed.cases) (use assms(2) in \<open>force dest: spec [of _ s]\<close>)
  then show thesis
    by (elim disjE conjE exE) (rule that; simp add: idle_step_def)+
qed

lemma balance:
  assumes "pool_runs progs env c0 c" "\<And>p. p \<in> progs \<Longrightarrow> licensed 0 p"
    and "\<And>s s'. env s s' \<Longrightarrow> idle_step s s'" "fst c0 = []" "used (snd c0) = granted (snd c0)"
  shows "\<exists>ns. list_all2 licensed ns (fst c) \<and> sum_list ns + used (snd c) = granted (snd c)"
  using assms(1,4,5)
proof (induction rule: pool_runs.induct)
  case (start c)
  then show ?case by (auto intro: exI [of _ "[]"])
next
  case (more c c' c'')
  then obtain ns where ns: "list_all2 licensed ns (fst c')" "sum_list ns + used (snd c') = granted (snd c')" by blast
  from more.hyps(2) show ?case
  proof cases
    case (member i ps f s p s')
    have i: "i < length ns" and lic: "licensed (ns ! i) (Atom f)"
      using ns(1) member by (auto dest: list_all2_lengthD list_all2_nthD2)
    obtain m where m: "licensed m p" "m + used s' + granted s = ns ! i + used s + granted s'"
      using one_step [OF lic member(5)] by blast
    have "sum_list (ns[i := m]) + ns ! i = sum_list ns + m"
      using i elem_le_sum_list [OF i] by (simp add: sum_list_update)
    then have "sum_list (ns[i := m]) + used s' = granted s'" using ns(2) m(2) member by simp
    moreover have "list_all2 licensed (ns[i := m]) (ps[i := p])"
      using ns(1) m(1) member by (simp add: list_all2_update_cong)
    ultimately show ?thesis using member by auto
  next
    case (joins p ps s)
    then have "list_all2 licensed (ns @ [0]) (ps @ [p])" using ns assms(2) by (auto intro: list_all2_appendI)
    then show ?thesis using ns joins by (intro exI [of _ "ns @ [0]"]) simp
  next
    case (outside s s' ps)
    then show ?thesis using ns assms(3) by (auto simp: idle_step_def)
  qed
qed

lemma used_le_granted:
  assumes "pool_runs progs env c0 c" "\<And>p. p \<in> progs \<Longrightarrow> licensed 0 p"
    and "\<And>s s'. env s s' \<Longrightarrow> idle_step s s'" "fst c0 = []" "used (snd c0) = granted (snd c0)"
  shows "used (snd c) \<le> granted (snd c)"
proof -
  obtain ns where "sum_list ns + used (snd c) = granted (snd c)" using balance [OF assms] by blast
  then show ?thesis by simp
qed

end

section \<open>Keeping an invariant\<close>

text \<open>
  \<open>I\<close> holds between the steps and \<open>R\<close> relates every state to the later ones. \<open>sound Q s p\<close>: from any
  state after \<open>s\<close>, each step of \<open>p\<close> keeps both, and what \<open>p\<close> returns satisfies \<open>Q\<close>.
\<close>

locale guarantee =
  fixes I :: "'s \<Rightarrow> bool" and R :: "'s \<Rightarrow> 's \<Rightarrow> bool"
  assumes refl: "R s s" and trans: "R s t \<Longrightarrow> R t u \<Longrightarrow> R s u"
begin

definition allowed :: "'s \<Rightarrow> 's \<Rightarrow> bool" where
  "allowed s t \<longleftrightarrow> I t \<and> R s t"

inductive sound :: "('a \<Rightarrow> bool) \<Rightarrow> 's \<Rightarrow> ('s, 'a) proc \<Rightarrow> bool" for Q :: "'a \<Rightarrow> bool" where
  finished: "Q x \<Longrightarrow> sound Q s (Done x)"
| steps: "(\<And>t. R s t \<Longrightarrow> I t \<Longrightarrow> allowed t (snd (f t)) \<and> sound Q (snd (f t)) (fst (f t))) \<Longrightarrow> sound Q s (Atom f)"

lemma later: "sound Q s p \<Longrightarrow> R s t \<Longrightarrow> sound Q t p"
  by (erule sound.cases) (auto intro!: sound.intros dest: trans)

lemma sound_look: "(\<And>t. R s t \<Longrightarrow> I t \<Longrightarrow> sound Q t (k (g t))) \<Longrightarrow> sound Q s (andthen (look g) k)"
  unfolding andthen_simps by (rule sound.steps) (simp add: allowed_def refl)

lemma sound_atomic:
  "(\<And>t. R s t \<Longrightarrow> I t \<Longrightarrow> allowed t (snd (f t)) \<and> sound Q (snd (f t)) (k (fst (f t)))) \<Longrightarrow>
   sound Q s (andthen (atomic f) k)"
  unfolding andthen_simps by (rule sound.steps) simp

lemma sound_andok_look:
  "(\<And>t. R s t \<Longrightarrow> I t \<Longrightarrow> case g t of Inl e \<Rightarrow> Q (Inl e) | Inr x \<Rightarrow> sound Q t (k x)) \<Longrightarrow> sound Q s (andok (look g) k)"
  unfolding andok_def by (rule sound_look) (force intro: sound.finished split: sum.splits)

lemma sound_andok_atomic:
  "(\<And>t. R s t \<Longrightarrow> I t \<Longrightarrow> allowed t (snd (f t)) \<and>
      (case fst (f t) of Inl e \<Rightarrow> Q (Inl e) | Inr x \<Rightarrow> sound Q (snd (f t)) (k x))) \<Longrightarrow> sound Q s (andok (atomic f) k)"
  unfolding andok_def by (rule sound_atomic) (force intro: sound.finished split: sum.splits)

lemma sound_andthen:
  "sound Q' s p \<Longrightarrow> I s \<Longrightarrow> (\<And>x t. Q' x \<Longrightarrow> R s t \<Longrightarrow> I t \<Longrightarrow> sound Q t (k x)) \<Longrightarrow> sound Q s (andthen p k)"
proof (induction rule: sound.induct)
  case (finished x s)
  then show ?case by (simp add: refl)
next
  case (steps s f)
  have "allowed t (snd (f t)) \<and> sound Q (snd (f t)) (andthen (fst (f t)) k)" if "R s t" "I t" for t
  proof -
    have a: "allowed t (snd (f t))" using steps.IH [OF that] by blast
    then have "I (snd (f t))" "R s (snd (f t))" using trans [OF that(1)] by (auto simp: allowed_def)
    then have "sound Q (snd (f t)) (andthen (fst (f t)) k)"
      using steps.IH [OF that] steps.prems(2) trans by blast
    with a show ?thesis by blast
  qed
  then show ?case unfolding andthen.simps by (intro sound.steps) simp
qed

lemma sound_pool:
  assumes "pool_runs progs env c0 c" "fst c0 = []" "I (snd c0)"
    and "\<And>p s. p \<in> progs \<Longrightarrow> I s \<Longrightarrow> sound Q s p"
    and "\<And>s t. env s t \<Longrightarrow> I s \<Longrightarrow> allowed s t"
  shows "I (snd c) \<and> list_all (sound Q (snd c)) (fst c)"
  using assms(1-3)
proof (induction rule: pool_runs.induct)
  case (start c)
  then show ?case by simp
next
  case (more c c' c'')
  from more.hyps(2) show ?case
  proof cases
    case (member i ps f s p s')
    then have all: "list_all (sound Q s) ps" and "I s" and "sound Q s (Atom f)"
      using more.IH [OF more.prems] by (auto simp: list_all_length)
    then have "allowed s (snd (f s)) \<and> sound Q (snd (f s)) (fst (f s))"
      using refl by (auto elim!: sound.cases [of Q s "Atom f"])
    then have st: "allowed s s'" "sound Q s' p" using member(5) by simp_all
    then have "list_all (sound Q s') ps" using all by (auto simp: list_all_iff allowed_def intro: later)
    then show ?thesis using st member by (auto simp: allowed_def list_all_iff dest!: set_update_subset_insert [THEN subsetD])
  next
    case (joins p ps s)
    then show ?thesis using more.IH [OF more.prems] assms(4) by simp
  next
    case (outside s s' ps)
    then have "allowed s s'" using more.IH [OF more.prems] assms(5) by simp
    then show ?thesis using outside more.IH [OF more.prems] by (auto simp: list_all_iff allowed_def intro: later)
  qed
qed

end

section \<open>Safe programs\<close>

lemma andthen_assoc: "andthen (andthen p f) g = andthen p (\<lambda>x. andthen (f x) g)"
  by (induction p) (auto simp: prod.map_comp o_def fun_eq_iff prod_set_defs map_prod_def split: prod.split, metis rangeI)

text \<open>\<open>safe F p\<close>: from any state with the invariant and the stable fact \<open>F\<close>, every step of \<open>p\<close> keeps the guarantee.\<close>

context guarantee
begin

definition stable :: "('s \<Rightarrow> bool) \<Rightarrow> bool" where
  "stable F \<longleftrightarrow> (\<forall>s t. F s \<longrightarrow> R s t \<longrightarrow> F t)"

definition safe :: "('s \<Rightarrow> bool) \<Rightarrow> ('s, 'a) proc \<Rightarrow> bool" where
  "safe F p \<longleftrightarrow> (\<forall>s. I s \<longrightarrow> F s \<longrightarrow> sound (\<lambda>_. True) s p)"

lemma stable_True [simp]: "stable (\<lambda>_. True)"
  by (simp add: stable_def)

lemma safe_Done [simp]: "safe F (Done x)"
  by (simp add: safe_def sound.finished)

lemma safe_mono: "safe G p \<Longrightarrow> (\<And>s. F s \<Longrightarrow> G s) \<Longrightarrow> safe F p"
  by (simp add: safe_def)

lemma safe_andthen:
  assumes "stable F" "safe F p" "\<And>x. safe F (k x)"
  shows "safe F (andthen p k)"
  unfolding safe_def
proof (intro allI impI)
  fix s assume s: "I s" "F s"
  then have "sound (\<lambda>_. True) s p" using assms(2) by (simp add: safe_def)
  then show "sound (\<lambda>_. True) s (andthen p k)"
    by (rule sound_andthen) (use s assms(1,3) in \<open>auto simp: safe_def stable_def\<close>)
qed

lemma safe_andok: "stable F \<Longrightarrow> safe F p \<Longrightarrow> (\<And>x. safe F (k x)) \<Longrightarrow> safe F (andok p k)"
  unfolding andok_def by (rule safe_andthen) (auto split: sum.split)

lemma safe_look: "safe F (look g)"
  unfolding safe_def look_def by (auto intro!: sound.intros simp: allowed_def refl)

lemma safe_atomic: "stable F \<Longrightarrow> (\<And>t. I t \<Longrightarrow> F t \<Longrightarrow> allowed t (snd (f t))) \<Longrightarrow> safe F (atomic f)"
  unfolding safe_def atomic_def stable_def by (auto intro!: sound.intros split: prod.split) 

lemma safe_look_value:
  "stable F \<Longrightarrow> (\<And>t. I t \<Longrightarrow> F t \<Longrightarrow> safe F (k (g t))) \<Longrightarrow> safe F (andthen (look g) k)"
  unfolding safe_def stable_def by (blast intro: sound_look)

lemma safe_andok_look_value:
  "stable F \<Longrightarrow> (\<And>t x. I t \<Longrightarrow> F t \<Longrightarrow> g t = Inr x \<Longrightarrow> safe F (k x)) \<Longrightarrow> safe F (andok (look g) k)"
  unfolding andok_def by (rule safe_look_value) (auto split: sum.split)

lemma safe_establish:
  assumes "stable F" "\<And>t. I t \<Longrightarrow> F t \<Longrightarrow> allowed t (snd (f t)) \<and> (\<forall>x. fst (f t) = Inr x \<longrightarrow> safe G (k x) \<and> G (snd (f t)))"
  shows "safe F (andok (atomic f) k)"
  unfolding safe_def andok_def
proof (intro allI impI sound_atomic)
  fix s t assume "F s" "R s t" "I t"
  then have F: "F t" using assms(1) by (auto simp: stable_def)
  have a: "allowed t (snd (f t))" using assms(2) F \<open>I t\<close> by blast
  moreover have "sound (\<lambda>_. True) (snd (f t)) (case fst (f t) of Inl e \<Rightarrow> Done (Inl e) | Inr x \<Rightarrow> k x)"
  proof (cases "fst (f t)")
    case (Inr x)
    then show ?thesis using assms(2) [OF \<open>I t\<close> F] a by (auto simp: safe_def allowed_def)
  qed (simp add: sound.finished)
  ultimately show "allowed t (snd (f t)) \<and> sound (\<lambda>_. True) (snd (f t)) (case fst (f t) of Inl e \<Rightarrow> Done (Inl e) | Inr x \<Rightarrow> k x)"
    by blast
qed

lemmas safe_intros = safe_andthen safe_andok safe_look safe_atomic

lemma safe_pool:
  assumes "pool_runs progs env ([], s0) c" "I s0" "\<And>p. p \<in> progs \<Longrightarrow> safe (\<lambda>_. True) p" "\<And>s t. env s t \<Longrightarrow> I s \<Longrightarrow> allowed s t"
  shows "I (snd c)"
  using sound_pool [OF assms(1), where Q = "\<lambda>_. True"] assms(2-4) by (simp add: safe_def)

end

section \<open>Rights\<close>

text \<open>
  Members draw numbers and own what belongs to them. \<open>hold k\<close> is what the owner of \<open>k\<close> relies on the others for;
  \<open>drawn\<close> counts the numbers, so that one that is drawn is nobody else's.
\<close>

locale rights =
  fixes I :: "'s \<Rightarrow> bool" and hold :: "nat \<Rightarrow> 's \<Rightarrow> 's \<Rightarrow> bool" and drawn :: "'s \<Rightarrow> nat"
  assumes hold_refl: "hold k s s" and hold_trans: "hold k s t \<Longrightarrow> hold k t u \<Longrightarrow> hold k s u"
begin

definition relied :: "nat set \<Rightarrow> 's \<Rightarrow> 's \<Rightarrow> bool" where
  "relied K s t \<longleftrightarrow> I t \<and> drawn s \<le> drawn t \<and> (\<forall>k \<in> K. hold k s t)"

definition permitted :: "nat set \<Rightarrow> 's \<Rightarrow> 's \<Rightarrow> bool" where
  "permitted K s t \<longleftrightarrow> I t \<and> drawn s \<le> drawn t \<and> (\<forall>k. k < drawn s \<longrightarrow> k \<notin> K \<longrightarrow> hold k s t)"

lemma permitted_trans: "permitted K s t \<Longrightarrow> permitted K t u \<Longrightarrow> permitted K s u"
  by (auto simp: permitted_def intro: hold_trans)

inductive owning :: "('a \<Rightarrow> 's \<Rightarrow> bool) \<Rightarrow> nat set \<Rightarrow> 's \<Rightarrow> ('s, 'a) proc \<Rightarrow> bool" for Q :: "'a \<Rightarrow> 's \<Rightarrow> bool" where
  finished: "Q x s \<Longrightarrow> owning Q K s (Done x)"
| steps: "(\<And>t. relied K s t \<Longrightarrow> permitted K t (snd (f t)) \<and> owning Q (K \<union> {drawn t..<drawn (snd (f t))}) (snd (f t)) (fst (f t)))
    \<Longrightarrow> owning Q K s (Atom f)"

lemma owning_later: "owning (\<lambda>_ _. True) K s p \<Longrightarrow> relied K s t \<Longrightarrow> owning (\<lambda>_ _. True) K t p"
proof (erule owning.cases, goal_cases)
  case (1 x s' K')
  then show ?case by (auto intro: owning.finished)
next
  case (2 K' s' f)
  have "relied K s u" if "relied K t u" for u
    using 2(1) that by (auto simp: relied_def intro: hold_trans)
  with 2 show ?case by (auto intro!: owning.steps)
qed

text \<open>\<open>holds K F p Q\<close>: from \<open>F\<close>, a member that owns \<open>K\<close> runs \<open>p\<close> and reaches \<open>Q\<close>, without harm to anyone else.\<close>

definition lasting :: "nat set \<Rightarrow> ('s \<Rightarrow> bool) \<Rightarrow> bool" where
  "lasting K F \<longleftrightarrow> (\<forall>s t. F s \<longrightarrow> relied K s t \<longrightarrow> F t)"

definition holds :: "nat set \<Rightarrow> ('s \<Rightarrow> bool) \<Rightarrow> ('s, 'a) proc \<Rightarrow> ('a \<Rightarrow> 's \<Rightarrow> bool) \<Rightarrow> bool" where
  "holds K F p Q \<longleftrightarrow> (\<forall>K' s. K \<subseteq> K' \<longrightarrow> I s \<longrightarrow> F s \<longrightarrow> owning Q K' s p)"

lemma holds_Done: "(\<And>s. I s \<Longrightarrow> F s \<Longrightarrow> Q x s) \<Longrightarrow> holds K F (Done x) Q"
  by (simp add: holds_def owning.finished)

lemma holds_pre: "holds K F p Q \<Longrightarrow> (\<And>s. F' s \<Longrightarrow> F s) \<Longrightarrow> holds K F' p Q"
  by (simp add: holds_def)

lemma owning_post: "owning Q K s p \<Longrightarrow> I s \<Longrightarrow> (\<And>x s. I s \<Longrightarrow> Q x s \<Longrightarrow> Q' x s) \<Longrightarrow> owning Q' K s p"
proof (induction rule: owning.induct)
  case (finished x s K)
  then show ?case by (simp add: owning.finished)
next
  case (steps K s f)
  have "permitted K t (snd (f t)) \<and> owning Q' (K \<union> {drawn t..<drawn (snd (f t))}) (snd (f t)) (fst (f t))" if "relied K s t" for t
    using steps.IH [OF that] steps.prems(2) by (auto simp: permitted_def)
  then show ?case by (intro owning.steps) simp
qed

lemma holds_post: "holds K F p Q \<Longrightarrow> (\<And>x s. I s \<Longrightarrow> Q x s \<Longrightarrow> Q' x s) \<Longrightarrow> holds K F p Q'"
  unfolding holds_def
proof (intro allI impI)
  fix K' s assume "\<forall>K' s. K \<subseteq> K' \<longrightarrow> I s \<longrightarrow> F s \<longrightarrow> owning Q K' s p" "K \<subseteq> K'" "I s" "F s"
    and post: "\<And>x s. I s \<Longrightarrow> Q x s \<Longrightarrow> Q' x s"
  then have "owning Q K' s p" by blast
  then show "owning Q' K' s p" using \<open>I s\<close> by (rule owning_post) (rule post)
qed

lemma owning_andthen:
  assumes "owning Q K' s p" "I s" "K \<subseteq> K'" "\<And>x. holds K (Q x) (k x) Q'"
  shows "owning Q' K' s (andthen p k)"
  using assms(1-3)
proof (induction rule: owning.induct)
  case (finished x s K')
  then show ?case using assms(4) [of x] by (simp add: holds_def)
next
  case (steps K' s f)
  have "permitted K' t (snd (f t)) \<and> owning Q' (K' \<union> {drawn t..<drawn (snd (f t))}) (snd (f t)) (andthen (fst (f t)) k)"
    if "relied K' s t" for t
    using steps.IH [OF that] steps.prems by (auto simp: permitted_def)
  then show ?case unfolding andthen.simps by (intro owning.steps) simp
qed

lemma holds_andthen: "holds K F p Q \<Longrightarrow> (\<And>x. holds K (Q x) (k x) Q') \<Longrightarrow> holds K F (andthen p k) Q'"
  unfolding holds_def [of K F] by (auto intro: owning_andthen)

lemma holds_andok:
  assumes "holds K F p Q" "\<And>x. holds K (Q (Inr x)) (k x) Q'" "\<And>e s. I s \<Longrightarrow> Q (Inl e) s \<Longrightarrow> Q' (Inl e) s"
  shows "holds K F (andok p k) Q'"
  unfolding andok_def
proof (rule holds_andthen [OF assms(1)])
  show "holds K (Q r) (case r of Inl e \<Rightarrow> Done (Inl e) | Inr x \<Rightarrow> k x) Q'" for r
    using assms(2,3) by (cases r) (auto intro: holds_Done)
qed

lemma holds_atomic:
  assumes "lasting K F" "\<And>t. I t \<Longrightarrow> F t \<Longrightarrow> permitted K t (snd (f t)) \<and> Q (fst (f t)) (snd (f t))"
  shows "holds K F (atomic f) Q"
  unfolding holds_def atomic_def
proof (intro allI impI owning.steps)
  fix K' s t assume K: "K \<subseteq> K'" "I s" "F s" "relied K' s t"
  then have "relied K s t" by (auto simp: relied_def)
  then have t: "I t" "F t" using assms(1) K by (auto simp: lasting_def relied_def)
  then have "permitted K' t (snd (f t))" using assms(2) K(1) by (auto simp: permitted_def)
  moreover have "Q (fst (f t)) (snd (f t))" using assms(2) t by blast
  ultimately show "permitted K' t (snd (map_prod Done (\<lambda>s. s) (f t))) \<and>
      owning Q (K' \<union> {drawn t..<drawn (snd (map_prod Done (\<lambda>s. s) (f t)))}) (snd (map_prod Done (\<lambda>s. s) (f t)))
        (fst (map_prod Done (\<lambda>s. s) (f t)))"
    by (simp add: owning.finished)
qed

lemma holds_look: "lasting K F \<Longrightarrow> (\<And>t. I t \<Longrightarrow> F t \<Longrightarrow> Q (g t) t) \<Longrightarrow> holds K F (look g) Q"
  unfolding holds_def look_def
  by (auto intro!: owning.intros simp: relied_def permitted_def lasting_def hold_refl subset_iff)

text \<open>Drawing a number gives the rights to it.\<close>

lemma holds_draw:
  assumes "lasting K F"
    and "\<And>t. I t \<Longrightarrow> F t \<Longrightarrow> fst (f t) = Inr (drawn t) \<and> drawn (snd (f t)) = Suc (drawn t) \<and> permitted K t (snd (f t)) \<and> F' (drawn t) (snd (f t))"
    and "\<And>k. holds (insert k K) (F' k) (p k) Q"
  shows "holds K F (andok (atomic f) p) Q"
  unfolding holds_def andok_def andthen_simps
proof (intro allI impI owning.steps)
  fix K' s t assume K: "K \<subseteq> K'" "I s" "F s" "relied K' s t"
  then have "relied K s t" by (auto simp: relied_def)
  then have "I t" "F t" using assms(1) K by (auto simp: lasting_def relied_def)
  then have f: "fst (f t) = Inr (drawn t)" "drawn (snd (f t)) = Suc (drawn t)" "permitted K t (snd (f t))" "F' (drawn t) (snd (f t))"
    using assms(2) by blast+
  then have "owning Q (K' \<union> {drawn t..<drawn (snd (f t))}) (snd (f t)) (p (drawn t))"
  proof -
    have "insert (drawn t) K \<subseteq> K' \<union> {drawn t..<drawn (snd (f t))}" using K(1) f(2) by auto
    then show ?thesis using assms(3) [of "drawn t"] f(3,4) by (simp add: holds_def permitted_def)
  qed
  with f K(1) show "permitted K' t (snd (map_prod (\<lambda>r. case r of Inl e \<Rightarrow> Done (Inl e) | Inr x \<Rightarrow> p x) (\<lambda>s. s) (f t))) \<and>
      owning Q (K' \<union> {drawn t..<drawn (snd (map_prod (\<lambda>r. case r of Inl e \<Rightarrow> Done (Inl e) | Inr x \<Rightarrow> p x) (\<lambda>s. s) (f t)))})
        (snd (map_prod (\<lambda>r. case r of Inl e \<Rightarrow> Done (Inl e) | Inr x \<Rightarrow> p x) (\<lambda>s. s) (f t)))
        (fst (map_prod (\<lambda>r. case r of Inl e \<Rightarrow> Done (Inl e) | Inr x \<Rightarrow> p x) (\<lambda>s. s) (f t)))"
    by (cases "f t") (auto simp: permitted_def)
qed

text \<open>In a pool nobody owns what another owns.\<close>

definition apart :: "nat set list \<Rightarrow> bool" where
  "apart Ks \<longleftrightarrow> (\<forall>i j. i < length Ks \<longrightarrow> j < length Ks \<longrightarrow> i \<noteq> j \<longrightarrow> Ks ! i \<inter> Ks ! j = {})"

definition settled :: "nat set list \<Rightarrow> ('s, 'a) pool \<Rightarrow> bool" where
  "settled Ks c \<longleftrightarrow> I (snd c) \<and> apart Ks \<and> (\<forall>K \<in> set Ks. K \<subseteq> {..<drawn (snd c)}) \<and>
     list_all2 (\<lambda>K p. owning (\<lambda>_ _. True) K (snd c) p) Ks (fst c)"

lemma settled_member:
  assumes "settled Ks (ps, s)" "i < length ps" "ps ! i = Atom f" "f s = (p, s')"
  shows "\<exists>Ks'. settled Ks' (ps[i := p], s')"
proof -
  let ?K = "Ks ! i \<union> {drawn s..<drawn s'}"
  have len: "length Ks = length ps" using assms(1) by (auto simp: settled_def dest: list_all2_lengthD)
  have I: "I s" and below: "j < length ps \<Longrightarrow> Ks ! j \<subseteq> {..<drawn s}" and own: "j < length ps \<Longrightarrow> owning (\<lambda>_ _. True) (Ks ! j) s (ps ! j)" for j
    using assms(1) len by (auto simp: settled_def list_all2_conv_all_nth)
  have "owning (\<lambda>_ _. True) (Ks ! i) s (Atom f)" using own [OF assms(2)] assms(3) by simp
  moreover have "relied (Ks ! i) s s" using I by (simp add: relied_def hold_refl)
  ultimately have st: "permitted (Ks ! i) s s'" "owning (\<lambda>_ _. True) ?K s' p"
    using assms(4) by (auto elim!: owning.cases [of _ _ _ "Atom f"])
  have "relied (Ks ! j) s s'" if "j < length ps" "j \<noteq> i" for j
  proof -
    have "Ks ! j \<inter> Ks ! i = {}" using assms(1,2) that len by (auto simp: settled_def apart_def)
    then show ?thesis using st(1) below [OF that(1)] by (fastforce simp: relied_def permitted_def)
  qed
  then have "owning (\<lambda>_ _. True) (Ks[i := ?K] ! j) s' (ps[i := p] ! j)" if "j < length ps" for j
    using own [OF that] st(2) that len by (cases "j = i") (auto intro: owning_later)
  moreover have "apart (Ks[i := ?K])"
    unfolding apart_def
  proof (intro allI impI)
    fix a b assume ab: "a < length (Ks[i := ?K])" "b < length (Ks[i := ?K])" "a \<noteq> b"
    then have "Ks ! a \<inter> Ks ! b = {}" "Ks ! a \<subseteq> {..<drawn s}" "Ks ! b \<subseteq> {..<drawn s}"
      using assms(1) below len by (auto simp: settled_def apart_def)
    moreover have "Ks[i := ?K] ! j = Ks ! j \<or> j = i \<and> Ks[i := ?K] ! j = ?K" if "j < length Ks" for j
      using that by (cases "j = i") simp_all
    moreover have "Ks ! j \<inter> {drawn s..<drawn s'} = {}" if "Ks ! j \<subseteq> {..<drawn s}" for j using that by fastforce
    ultimately show "Ks[i := ?K] ! a \<inter> Ks[i := ?K] ! b = {}" using ab by (simp add: inf_sup_distrib1 inf_sup_distrib2 Int_commute) (metis Int_commute Int_Un_distrib Un_empty)
  qed
  moreover have "\<forall>K \<in> set (Ks[i := ?K]). K \<subseteq> {..<drawn s'}"
  proof
    fix K assume "K \<in> set (Ks[i := ?K])"
    then consider "K = ?K" | "K \<in> set Ks" by (auto dest!: set_update_subset_insert [THEN subsetD])
    moreover have "drawn s \<le> drawn s'" using st(1) by (simp add: permitted_def)
    ultimately show "K \<subseteq> {..<drawn s'}"
      using below [OF assms(2)] assms(1) by cases (fastforce simp: settled_def)+
  qed
  ultimately show ?thesis using st(1) len
    by (auto simp: settled_def list_all2_conv_all_nth permitted_def intro!: exI [of _ "Ks[i := ?K]"])
qed

lemma settled_others:
  assumes "settled Ks (ps, s)" "permitted {} s s'"
  shows "settled Ks (ps, s')"
proof -
  have "relied K s s'" if "K \<in> set Ks" for K
  proof -
    have "K \<subseteq> {..<drawn s}" using assms(1) that by (simp add: settled_def)
    then show ?thesis using assms(2) by (auto simp: permitted_def relied_def)
  qed
  then have "list_all2 (\<lambda>K p. owning (\<lambda>_ _. True) K s' p) Ks ps"
    using assms(1) unfolding settled_def list_all2_conv_all_nth fst_conv snd_conv by (metis nth_mem owning_later)
  moreover have "drawn s \<le> drawn s'" "I s'" using assms(2) by (simp_all add: permitted_def)
  ultimately show ?thesis using assms(1) by (fastforce simp: settled_def)
qed

lemma holds_pool:
  assumes "pool_runs progs env ([], s0) c" "I s0" "\<And>p. p \<in> progs \<Longrightarrow> holds {} (\<lambda>_. True) p (\<lambda>_ _. True)"
    and "\<And>s t. env s t \<Longrightarrow> I s \<Longrightarrow> permitted {} s t"
  shows "\<exists>Ks. settled Ks c"
  using assms(1)
proof (induction "([] :: ('s, 'a) proc list, s0)" c rule: pool_runs.induct)
  case start
  show ?case using assms(2) by (intro exI [of _ "[]"]) (simp add: settled_def apart_def)
next
  case (more c' c'')
  then obtain Ks where Ks: "settled Ks c'" by blast
  from more.hyps(3) show ?case
  proof cases
    case (member i ps f s p s')
    then show ?thesis using settled_member [of Ks ps s i f p s'] Ks by simp
  next
    case (joins p ps s)
    then have "owning (\<lambda>_ _. True) {} s p" using assms(3) Ks by (auto simp: holds_def settled_def)
    then have "settled (Ks @ [{}]) (ps @ [p], s)" using Ks joins
      by (auto simp: settled_def apart_def nth_append list_all2_appendI)
    then show ?thesis using joins by blast
  next
    case (outside s s' ps)
    then show ?thesis using settled_others [of Ks ps s s'] Ks assms(4) by (auto simp: settled_def)
  qed
qed

end

end
