(* ===== verification/Pending.thy ===== *)
theory Pending
  imports Guards Pytime Proc "HOL-Library.AList"
begin

text \<open>
  The store of proposed writes (\<open>files/pending.py\<close>), its audit log (\<open>files/audit.py\<close>) and the list of cards
  the user sees. A card is the JSON object in its file. The state holds the disk, the cards, the logs and
  the clock, and what goes wrong at the moment: cards that cannot be read, saves that fail, a full disk.
  The list of events is no part of the program; it records what the proofs speak of.
\<close>

section \<open>State\<close>

record audit_entry =
  ae_ts :: time
  ae_event :: string
  ae_id :: json
  ae_op :: json
  ae_path :: json
  ae_sha :: json
  ae_outcome :: string
  ae_error :: "string option"

datatype event = Staged string dict | Marked string string | Landed string path json bytes

record files =
  disk_of :: disk
  cards :: "(string \<times> dict) list"
  file_audit :: "audit_entry list"
  wired :: "(string \<times> string) list"
  events :: "event list"
  clock :: time
  notes_folder :: "string option"
  unreadable :: "string \<Rightarrow> bool"
  save_fails :: bool
  disk_fails :: bool
  disk_room :: "nat option"
  target_hidden :: bool
  audit_fails :: bool
  memory_fails :: bool

section \<open>Reading cards\<close>

definition TTL :: int where
  "TTL = 24 * hour"

definition MAX_PENDING :: nat where
  "MAX_PENDING = 10"

text \<open>The first twelve digits of the hash of path, time and the first 64 characters.\<close>

definition new_id :: "ext \<Rightarrow> string \<Rightarrow> string \<Rightarrow> time \<Rightarrow> string" where
  "new_id X resolved_path content now = take 12 (bytes_hex (sha256 X (utf8_enc (resolved_path @ isoformat now @ take 64 content))))"

definition stamp_of :: "json \<Rightarrow> time option" where
  "stamp_of j = (case j of JStr s \<Rightarrow> lenient_utc (Some (fromisoformat s)) | _ \<Rightarrow> None)"

definition field :: "string \<Rightarrow> dict \<Rightarrow> json" where
  "field k r = dget_or k JNull r"

text \<open>\<open>rec[k]\<close>.\<close>

definition item :: "string \<Rightarrow> dict \<Rightarrow> json res" where
  "item k r = (case dget k r of None \<Rightarrow> Inl KeyError | Some j \<Rightarrow> Inr j)"

definition card_age :: "dict \<Rightarrow> time \<Rightarrow> int option" where
  "card_age r now = map_option (\<lambda>t. now - t) (stamp_of (field ''proposed_at'' r))"

definition is_expired :: "dict \<Rightarrow> time \<Rightarrow> bool" where
  "is_expired r now = (case card_age r now of None \<Rightarrow> False | Some a \<Rightarrow> TTL < a)"

definition get_card :: "string \<Rightarrow> files \<Rightarrow> dict option" where
  "get_card rid w = (if unreadable w rid then None else map_of (cards w) rid)"

definition all_cards :: "files \<Rightarrow> dict list" where
  "all_cards w = map snd (filter (\<lambda>(rid, _). \<not> unreadable w rid) (cards w))"

definition has_status :: "string \<Rightarrow> dict \<Rightarrow> bool" where
  "has_status s r \<longleftrightarrow> field ''status'' r = JStr s"

definition text_or_empty :: "json \<Rightarrow> string" where
  "text_or_empty j = (case j of JStr s \<Rightarrow> s | _ \<Rightarrow> [])"

definition fresh_pending :: "time \<Rightarrow> dict \<Rightarrow> bool" where
  "fresh_pending now r \<longleftrightarrow> has_status ''pending'' r \<and> (case card_age r now of None \<Rightarrow> False | Some a \<Rightarrow> a \<le> TTL)"

text \<open>\<open>sorted(fresh, key=..., reverse=True)\<close> keeps the order of equal keys.\<close>

definition list_pending :: "time \<Rightarrow> files \<Rightarrow> dict list" where
  "list_pending now w =
     rev (sort_key (\<lambda>r. text_or_empty (field ''proposed_at'' r)) (rev (filter (fresh_pending now) (all_cards w))))"

definition count_pending :: "time \<Rightarrow> files \<Rightarrow> nat" where
  "count_pending now w = length (list_pending now w)"

definition same_write :: "json \<Rightarrow> string \<Rightarrow> string \<Rightarrow> dict \<Rightarrow> bool" where
  "same_write op resolved_path sha r \<longleftrightarrow>
     field ''op'' r = op \<and> field ''resolved_path'' r = JStr resolved_path \<and> field ''content_sha'' r = JStr sha"

definition find_duplicate :: "json \<Rightarrow> string \<Rightarrow> string \<Rightarrow> time \<Rightarrow> files \<Rightarrow> json option res" where
  "find_duplicate op resolved_path sha now w =
     (case find (same_write op resolved_path sha) (list_pending now w) of
        None \<Rightarrow> Inr None
      | Some r \<Rightarrow> bind_res (item ''id'' r) (\<lambda>j. Inr (Some j)))"

definition list_by_status :: "string \<Rightarrow> files \<Rightarrow> dict list" where
  "list_by_status s w = filter (has_status s) (all_cards w)"

text \<open>
  The cards shown to the user (\<open>_build_pending_writes\<close> of \<open>bridge/persona_state.py\<close>). A listing that
  fails gives no cards; a card without one of the fields raises \<open>KeyError\<close>, one whose content is no text
  \<open>TypeError\<close> (a list or object as content is outside the model).
\<close>

record shown_card =
  sc_id :: json
  sc_op :: json
  sc_path :: json
  sc_preview :: string
  sc_truncated :: bool
  sc_proposed :: json

definition show_card :: "dict \<Rightarrow> shown_card res" where
  "show_card r =
     bind_res (item ''id'' r) (\<lambda>i. bind_res (item ''op'' r) (\<lambda>op. bind_res (item ''resolved_path'' r) (\<lambda>p.
     case dget_or ''content'' (JStr []) r of
       JStr content \<Rightarrow> bind_res (item ''proposed_at'' r) (\<lambda>t.
         Inr \<lparr>sc_id = i, sc_op = op, sc_path = p, sc_preview = take 2000 content, sc_truncated = 2000 < length content,
              sc_proposed = t\<rparr>)
     | _ \<Rightarrow> Inl TypeError)))"

primrec show_cards :: "dict list \<Rightarrow> shown_card list res" where
  "show_cards [] = Inr []"
| "show_cards (r # rs) = bind_res (show_card r) (\<lambda>c. bind_res (show_cards rs) (\<lambda>cs. Inr (c # cs)))"

definition build_pending_writes :: "files \<Rightarrow> shown_card list res" where
  "build_pending_writes w = show_cards (list_pending (clock w) w)"

section \<open>Writing cards\<close>

definition put_card :: "string \<Rightarrow> dict \<Rightarrow> files \<Rightarrow> files" where
  "put_card rid r w = w\<lparr>cards := AList.update rid r (cards w)\<rparr>"

definition note_event :: "event \<Rightarrow> files \<Rightarrow> files" where
  "note_event e w = w\<lparr>events := events w @ [e]\<rparr>"

definition content_sha :: "ext \<Rightarrow> string \<Rightarrow> string" where
  "content_sha X content = bytes_hex (sha256 X (utf8_enc content))"

definition new_card :: "ext \<Rightarrow> string \<Rightarrow> json \<Rightarrow> string \<Rightarrow> string \<Rightarrow> time \<Rightarrow> string option \<Rightarrow> dict" where
  "new_card X rid op resolved_path content now making_id =
     [(''id'', JStr rid), (''op'', op), (''resolved_path'', JStr resolved_path), (''content'', JStr content),
      (''content_sha'', JStr (content_sha X content)),
      (''proposed_at'', JStr (isoformat now)), (''status'', JStr ''pending''),
      (''making_id'', (case making_id of None \<Rightarrow> JNull | Some m \<Rightarrow> JStr m))]"

definition create_card :: "ext \<Rightarrow> json \<Rightarrow> string \<Rightarrow> string \<Rightarrow> time \<Rightarrow> string option \<Rightarrow> files \<Rightarrow> string res \<times> files" where
  "create_card X op resolved_path content now making_id w =
     (let rid = new_id X resolved_path content now; r = new_card X rid op resolved_path content now making_id in
      if save_fails w then (Inl OSError, w) else (Inr rid, note_event (Staged rid r) (put_card rid r w)))"

text \<open>\<open>rec["status"] = status; rec.update(extra)\<close>.\<close>

definition marked :: "string \<Rightarrow> dict \<Rightarrow> dict \<Rightarrow> dict" where
  "marked status extra r = foldl (\<lambda>d (k, v). dset k v d) (dset ''status'' (JStr status) r) extra"

text \<open>The card is read, compared and replaced under the lock of the store, so this is one step.\<close>

definition mark :: "string \<Rightarrow> string \<Rightarrow> string option \<Rightarrow> dict \<Rightarrow> files \<Rightarrow> bool res \<times> files" where
  "mark rid status expect extra w =
     (case get_card rid w of
        None \<Rightarrow> (Inr False, w)
      | Some r \<Rightarrow>
          if (case expect of None \<Rightarrow> False | Some e \<Rightarrow> \<not> has_status e r) then (Inr False, w)
          else if save_fails w then (Inl OSError, w)
          else (Inr True, note_event (Marked rid status) (put_card rid (marked status extra r) w)))"

definition audit :: "string \<Rightarrow> json \<Rightarrow> json \<Rightarrow> json \<Rightarrow> json \<Rightarrow> string \<Rightarrow> string option \<Rightarrow> files \<Rightarrow> bool \<times> files" where
  "audit ev i op path sha outcome err w =
     (if audit_fails w then (False, w)
      else (True, w\<lparr>file_audit := file_audit w @
        [\<lparr>ae_ts = clock w, ae_event = ev, ae_id = i, ae_op = op, ae_path = path, ae_sha = sha, ae_outcome = outcome, ae_error = err\<rparr>]\<rparr>))"

section \<open>The sweep\<close>

definition card_id :: "ext \<Rightarrow> dict \<Rightarrow> string res" where
  "card_id X r = bind_res (item ''id'' r) (\<lambda>j. Inr (py_str X j))"

primrec sweep_cards :: "ext \<Rightarrow> time \<Rightarrow> nat \<Rightarrow> dict list \<Rightarrow> (files, json res) proc" where
  "sweep_cards X now n [] = Done (Inr (JInt (int n)))"
| "sweep_cards X now n (r # rs) =
     (if has_status ''pending'' r \<and> is_expired r now then
        (case card_id X r of
           Inl e \<Rightarrow> Done (Inl e)
         | Inr rid \<Rightarrow> andok (atomic (mark rid ''expired'' (Some ''pending'') [])) (\<lambda>took.
             sweep_cards X now (if took then Suc n else n) rs))
      else sweep_cards X now n rs)"

definition sweep_expired :: "ext \<Rightarrow> time \<Rightarrow> (files, json res) proc" where
  "sweep_expired X now = andthen (look all_cards) (sweep_cards X now 0)"

end
