(* ===== verification/Commit.thy ===== *)
theory Commit
  imports Pending
begin

text \<open>
  Proposing, approving, declining and recovering file writes (\<open>files/commit.py\<close>,
  \<open>tools/impls/propose_write.py\<close>, the two consent endpoints of \<open>bridge/server.py\<close>). Each is a program
  whose steps interleave with those of the others, so a step is what the operating system or the lock of
  the card store makes one: reading the clock, reading a card, replacing a card, a guard's look at the
  disk, opening a file, writing to it. A write may stop after any number of bytes when the disk is full.
\<close>

section \<open>Replies and memories\<close>

definition em_dash :: string where
  "em_dash = [CHR 0xE2, CHR 0x80, CHR 0x94]"

definition refusal :: "string \<Rightarrow> json" where
  "refusal msg = JObj [(''ok'', JBool False), (''error'', JStr msg)]"

definition wire_text :: "string \<Rightarrow> string \<Rightarrow> string" where
  "wire_text path outcome =
     (if outcome = ''committed'' then ''you let me write to '' @ path
      else if outcome = ''abandoned'' then
        ''you approved my write to '' @ path @ '', but I can't find it there. It may not have landed.''
      else if outcome = ''late'' then ''the write to '' @ path @ '' that I thought hadn't landed did land after all''
      else if outcome = ''unverified'' then ''you approved my write to '' @ path @ '', but I couldn't confirm whether it landed''
      else ''you declined my write to '' @ path)"

text \<open>The memory goes to \<open>route_write\<close>; a failure is logged and swallowed.\<close>

definition wire_memory :: "string \<Rightarrow> string \<Rightarrow> files \<Rightarrow> unit \<times> files" where
  "wire_memory path outcome w =
     ((), if memory_fails w then w else w\<lparr>wired := wired w @ [(wire_text path outcome, outcome)]\<rparr>)"

definition audit_row :: "string \<Rightarrow> string \<Rightarrow> json \<Rightarrow> json \<Rightarrow> json \<Rightarrow> string \<Rightarrow> string option \<Rightarrow> (files, bool) proc" where
  "audit_row ev rid op path sha outcome err = atomic (audit ev (JStr rid) op path sha outcome err)"

section \<open>Approving\<close>

text \<open>Two tries to record that the write has landed.\<close>

definition mark_final :: "string \<Rightarrow> (files, bool) proc" where
  "mark_final rid =
     andthen (atomic (mark rid ''committed'' None [])) (\<lambda>r.
     if r = Inr True then Done True
     else andthen (atomic (mark rid ''committed'' None [])) (\<lambda>r. Done (r = Inr True)))"

text \<open>The steps of the \<open>try\<close> block that writes.\<close>

definition make_parents :: "path \<Rightarrow> files \<Rightarrow> unit res \<times> files" where
  "make_parents p w =
     (if disk_fails w then (Inl OSError, w)
      else case mkdir_parents (butlast p) (disk_of w) of Inl e \<Rightarrow> (Inl e, w) | Inr d \<Rightarrow> (Inr (), w\<lparr>disk_of := d\<rparr>))"

definition needs_separator :: "path \<Rightarrow> files \<Rightarrow> bool res" where
  "needs_separator p w =
     (case stat (disk_of w) p of
        Some (Regular b) \<Rightarrow> (if b = [] then Inr False else if disk_fails w then Inl OSError else Inr (last b \<noteq> 10))
      | Some _ \<Rightarrow> Inl OSError
      | None \<Rightarrow> Inr False)"

definition open_target :: "bool \<Rightarrow> path \<Rightarrow> files \<Rightarrow> nat res \<times> files" where
  "open_target at_end p w =
     (if disk_fails w then (Inl OSError, w)
      else case open_file at_end p (disk_of w) of Inl e \<Rightarrow> (Inl e, w) | Inr (i, d) \<Rightarrow> (Inr i, w\<lparr>disk_of := d\<rparr>))"

definition write_target :: "string \<Rightarrow> path \<Rightarrow> json \<Rightarrow> bool \<Rightarrow> nat \<Rightarrow> bytes \<Rightarrow> files \<Rightarrow> unit res \<times> files" where
  "write_target rid p op at_end i bs w =
     (let room = (case disk_room w of None \<Rightarrow> length bs | Some n \<Rightarrow> n) in
      (if length bs \<le> room then Inr () else Inl OSError,
       note_event (Landed rid p op bs) (w\<lparr>disk_of := write_bytes at_end i (take room bs) (disk_of w)\<rparr>)))"

definition separated :: "bool \<Rightarrow> string \<Rightarrow> bytes" where
  "separated sep content = (if sep then [10] else []) @ utf8_enc content"

definition write_file :: "string \<Rightarrow> path \<Rightarrow> json \<Rightarrow> string \<Rightarrow> (files, unit res) proc" where
  "write_file rid p op content =
     (let at_end = (op \<noteq> JStr ''create'') in
      andok (atomic (make_parents p)) (\<lambda>_.
      andok (if at_end then look (needs_separator p) else Done (Inr False)) (\<lambda>sep.
      andok (atomic (open_target at_end p)) (\<lambda>i.
      atomic (write_target rid p op at_end i (separated sep content))))))"

text \<open>After the write: whether \<open>reconcile\<close> has given the card up meanwhile, the final mark, audit, memory.\<close>

definition given_up :: "dict option \<Rightarrow> bool" where
  "given_up prior = (case prior of None \<Rightarrow> False
     | Some r \<Rightarrow> has_status ''error'' r \<and> field ''resolved_by'' r = JStr ''reconcile'')"

definition landed :: "string \<Rightarrow> dict \<Rightarrow> json \<Rightarrow> path \<Rightarrow> (files, json res) proc" where
  "landed rid r op p =
     andthen (look (get_card rid)) (\<lambda>prior.
     andthen (mark_final rid) (\<lambda>took.
     case item ''content_sha'' r of
       Inl e \<Rightarrow> Done (Inl e)
     | Inr sha \<Rightarrow>
         andthen (audit_row ''commit'' rid op (JStr (show_path p)) sha ''committed''
           (if took then None else Some ''final status mark failed; record left committing for reconcile'')) (\<lambda>_.
         andthen (if took then atomic (wire_memory (show_path p) (if given_up prior then ''late'' else ''committed'')) else Done ()) (\<lambda>_.
         Done (Inr (JObj [(''ok'', JBool True), (''path'', JStr (show_path p))]))))))"

definition failed_write :: "string \<Rightarrow> json \<Rightarrow> path \<Rightarrow> exn \<Rightarrow> (files, json res) proc" where
  "failed_write rid op p e =
     andok (atomic (mark rid ''error'' None [])) (\<lambda>_.
     andthen (audit_row ''error'' rid op (JStr (show_path p)) (JStr []) [] (Some ''OSError'')) (\<lambda>_.
     Done (Inr (refusal ''OSError''))))"

text \<open>The claim and what follows it.\<close>

definition claim_and_write :: "string \<Rightarrow> dict \<Rightarrow> json \<Rightarrow> json \<Rightarrow> string \<Rightarrow> path \<Rightarrow> (files, json res) proc" where
  "claim_and_write rid r op path content p =
     andthen (look clock) (\<lambda>now.
     andok (atomic (mark rid ''committing'' (Some ''pending'') [(''claimed_at'', JStr (isoformat now))])) (\<lambda>took.
     if \<not> took then
       andthen (audit_row ''claim_failed'' rid op path (JStr []) [] (Some ''could not record the committing status'')) (\<lambda>_.
       Done (Inr (refusal ''could not claim the write for commit'')))
     else
       andthen (write_file rid p op content) (\<lambda>res.
       case res of Inl e \<Rightarrow> failed_write rid op p e | Inr _ \<Rightarrow> landed rid r op p)))"

definition refuse_write :: "string \<Rightarrow> json \<Rightarrow> json \<Rightarrow> string \<Rightarrow> (files, json res) proc" where
  "refuse_write rid op path err =
     andok (atomic (mark rid ''refused'' None [])) (\<lambda>_.
     andthen (audit_row ''commit_refused'' rid op path (JStr []) [] (Some err)) (\<lambda>_.
     Done (Inr (refusal err))))"

text \<open>The guard and the size check once more; a field of a wrong type raises as Python does.\<close>

definition recheck_and_write ::
  "ext \<Rightarrow> machine \<Rightarrow> string \<Rightarrow> string \<Rightarrow> dict \<Rightarrow> json \<Rightarrow> json \<Rightarrow> json \<Rightarrow> (files, json res) proc" where
  "recheck_and_write X M persona_dir rid r op content path =
     (case path of
        JStr raw \<Rightarrow>
          andthen (look (\<lambda>w. check_write_target X M (disk_of w) persona_dir raw op)) (\<lambda>g.
          case g of
            Inl err \<Rightarrow> refuse_write rid op path err
          | Inr p \<Rightarrow>
              (case content of
                 JStr text \<Rightarrow>
                   andthen (look (\<lambda>w. check_size (disk_of w) text op p)) (\<lambda>g.
                   case g of
                     Inl _ \<Rightarrow> refuse_write rid op path ''size check failed''
                   | Inr _ \<Rightarrow> claim_and_write rid r op path text p)
               | _ \<Rightarrow> Done (Inl AttributeError)))
      | _ \<Rightarrow> Done (Inl TypeError))"

definition with_fields :: "dict \<Rightarrow> (json \<Rightarrow> json \<Rightarrow> json \<Rightarrow> (files, json res) proc) \<Rightarrow> (files, json res) proc" where
  "with_fields r k =
     (case (item ''op'' r, item ''content'' r, item ''resolved_path'' r) of
        (Inr op, Inr content, Inr path) \<Rightarrow> k op content path
      | _ \<Rightarrow> Done (Inl KeyError))"

definition commit_write :: "ext \<Rightarrow> machine \<Rightarrow> string \<Rightarrow> string \<Rightarrow> (files, json res) proc" where
  "commit_write X M persona_dir rid =
     andthen (look (get_card rid)) (\<lambda>rec.
     case rec of
       None \<Rightarrow> Done (Inr (refusal ''not a pending write''))
     | Some r \<Rightarrow>
         if \<not> has_status ''pending'' r then Done (Inr (refusal ''not a pending write''))
         else
           andthen (look clock) (\<lambda>now.
           if is_expired r now then
             andok (atomic (mark rid ''expired'' (Some ''pending'') [])) (\<lambda>_.
             Done (Inr (refusal (''this write expired (older than 24h) '' @ em_dash @ '' ask again''))))
           else
             with_fields r (recheck_and_write X M persona_dir rid r)))"

section \<open>Declining\<close>

definition decline_write :: "ext \<Rightarrow> string \<Rightarrow> (files, json res) proc" where
  "decline_write X rid =
     andthen (look (get_card rid)) (\<lambda>rec.
     case rec of
       None \<Rightarrow> Done (Inr (refusal ''not a pending write''))
     | Some r \<Rightarrow>
         if \<not> has_status ''pending'' r then Done (Inr (refusal ''not a pending write''))
         else
           andok (atomic (mark rid ''declined'' (Some ''pending'') [])) (\<lambda>took.
           if \<not> took then Done (Inr (refusal ''not a pending write''))
           else
             case (item ''op'' r, item ''resolved_path'' r) of
               (Inr op, Inr path) \<Rightarrow>
                 andthen (audit_row ''decline'' rid op path (JStr []) ''declined'' None) (\<lambda>_.
                 andthen (atomic (wire_memory (py_str X path) ''declined'')) (\<lambda>_.
                 Done (Inr (JObj [(''ok'', JBool True)]))))
             | _ \<Rightarrow> Done (Inl KeyError)))"

definition open_store :: "files \<Rightarrow> unit res" where
  "open_store w = (if memory_fails w then Inl (OtherError ''OperationalError'') else Inr ())"

text \<open>The endpoints: 404 for an unknown card, 409 for one that is resolved already.\<close>

definition http_error :: "int \<Rightarrow> string \<Rightarrow> json" where
  "http_error status detail = JObj [(''status_code'', JInt status), (''detail'', JStr detail)]"

definition consent_route :: "ext \<Rightarrow> string \<Rightarrow> (files, json res) proc \<Rightarrow> (files, json res) proc" where
  "consent_route X rid action =
     andthen (look (get_card rid)) (\<lambda>rec.
     case rec of
       None \<Rightarrow> Done (Inr (http_error 404 ''unknown write''))
     | Some r \<Rightarrow>
         if \<not> has_status ''pending'' r then Done (Inr (http_error 409 (''already '' @ py_str X (field ''status'' r))))
         else andok (look open_store) (\<lambda>_. action))"

definition approve_write_route :: "ext \<Rightarrow> machine \<Rightarrow> string \<Rightarrow> string \<Rightarrow> (files, json res) proc" where
  "approve_write_route X M persona_dir rid = consent_route X rid (commit_write X M persona_dir rid)"

definition decline_write_route :: "ext \<Rightarrow> string \<Rightarrow> (files, json res) proc" where
  "decline_write_route X rid = consent_route X rid (decline_write X rid)"

section \<open>Recovering\<close>

text \<open>The block's lines as a run of complete lines of the file.\<close>

definition block_present :: "nat list \<Rightarrow> nat list \<Rightarrow> bool" where
  "block_present existing content =
     (let hay = splitlines existing; needle = splitlines content; n = length needle in
      needle = [] \<or> list_ex (\<lambda>i. take n (drop i hay) = needle) [0..<Suc (length hay) - n])"

datatype sighting = Present | Absent | Unreadable

text \<open>A look at the target. A missing parent may be an unmounted volume, so it proves nothing.\<close>

definition holds_block :: "json \<Rightarrow> string \<Rightarrow> bytes \<Rightarrow> bool" where
  "holds_block op content b =
     (if op = JStr ''create'' then sublist (utf8_enc content) b
      else block_present (decode_replace b) (points content))"

definition inspect_target :: "machine \<Rightarrow> json \<Rightarrow> json res \<Rightarrow> string \<Rightarrow> files \<Rightarrow> sighting res" where
  "inspect_target M op content path w =
     (let d = disk_of w; p = path_of M path in
      if target_hidden w \<or> \<not> snd (walk d [] [] (map Comp p)) then Inr Unreadable
      else case stat d p of
        None \<Rightarrow> Inr (if stat d (butlast p) = Some Folder then Absent else Unreadable)
      | Some (Regular b) \<Rightarrow>
          (if MAX_RESULT_FILE_BYTES < length b then Inr Unreadable
           else case content of
             Inl e \<Rightarrow> Inl e
           | Inr (JStr c) \<Rightarrow> Inr (if holds_block op c b then Present else Absent)
           | Inr _ \<Rightarrow> Inl AttributeError)
      | Some _ \<Rightarrow> Inr Unreadable)"

definition COMMIT_STALE :: int where
  "COMMIT_STALE = 10 * minute"

definition COMMIT_UNVERIFIABLE :: int where
  "COMMIT_UNVERIFIABLE = TTL"

definition STARTUP_RECONCILE_GATE :: int where
  "STARTUP_RECONCILE_GATE = 1 * minute"

text \<open>\<open>rec.get("claimed_at") or rec.get("proposed_at")\<close>.\<close>

definition claim_age :: "dict \<Rightarrow> time \<Rightarrow> int option" where
  "claim_age r now =
     (let ts = (if truthy (field ''claimed_at'' r) then field ''claimed_at'' r else field ''proposed_at'' r) in
      map_option (\<lambda>t. now - t) (stamp_of ts))"

definition settle :: "string \<Rightarrow> dict \<Rightarrow> json \<Rightarrow> json \<Rightarrow> string \<Rightarrow> string \<times> string \<times> string \<times> string \<Rightarrow> (files, bool res) proc" where
  "settle rid r op path p v =
     (case v of (status, ev, wire, why) \<Rightarrow>
        andok (look open_store) (\<lambda>_.
        andok (atomic (mark rid status (Some ''committing'') [(''resolved_by'', JStr ''reconcile'')])) (\<lambda>took.
        if \<not> took then Done (Inr False)
        else
          andthen (audit_row ev rid op path (dget_or ''content_sha'' (JStr []) r) status (Some why)) (\<lambda>_.
          andthen (atomic (wire_memory p wire)) (\<lambda>_. Done (Inr True))))))"

definition by_verdict :: "sighting \<Rightarrow> int option \<Rightarrow> (string \<times> string \<times> string \<times> string) option" where
  "by_verdict v age =
     (case v of
        Unreadable \<Rightarrow>
          (case age of Some a \<Rightarrow> if a \<le> COMMIT_UNVERIFIABLE then None
             else Some (''error'', ''commit_abandoned'', ''unverified'', ''could not read target to verify'')
           | None \<Rightarrow> Some (''error'', ''commit_abandoned'', ''unverified'', ''could not read target to verify''))
      | Present \<Rightarrow> Some (''committed'', ''commit_reconciled'', ''committed'',
          ''block found in target; could not confirm this write placed it'')
      | Absent \<Rightarrow> Some (''error'', ''commit_abandoned'', ''abandoned'',
          ''target missing or does not contain the full block (a partial write may exist)''))"

definition reconcile_one :: "ext \<Rightarrow> machine \<Rightarrow> time \<Rightarrow> int \<Rightarrow> dict \<Rightarrow> (files, bool res) proc" where
  "reconcile_one X M now stale_after r =
     (case (card_id X r, item ''op'' r, item ''resolved_path'' r) of
        (Inr rid, Inr op, Inr path) \<Rightarrow>
          (if (case claim_age r now of None \<Rightarrow> False | Some a \<Rightarrow> a \<le> stale_after) then Done (Inr False)
           else case path of
             JStr p \<Rightarrow>
               andok (look (inspect_target M op (item ''content'' r) p)) (\<lambda>v.
               case by_verdict v (claim_age r now) of None \<Rightarrow> Done (Inr False) | Some s \<Rightarrow> settle rid r op path p s)
           | _ \<Rightarrow> Done (Inl TypeError))
      | _ \<Rightarrow> Done (Inl KeyError))"

text \<open>An exception concerns its card only.\<close>

primrec reconcile_cards :: "ext \<Rightarrow> machine \<Rightarrow> time \<Rightarrow> int \<Rightarrow> nat \<Rightarrow> dict list \<Rightarrow> (files, json res) proc" where
  "reconcile_cards X M now stale_after n [] = Done (Inr (JInt (int n)))"
| "reconcile_cards X M now stale_after n (r # rs) =
     andthen (reconcile_one X M now stale_after r) (\<lambda>res.
     reconcile_cards X M now stale_after (if res = Inr True then Suc n else n) rs)"

definition reconcile_stale_commits :: "ext \<Rightarrow> machine \<Rightarrow> time \<Rightarrow> int \<Rightarrow> (files, json res) proc" where
  "reconcile_stale_commits X M now stale_after =
     andthen (look (list_by_status ''committing'')) (reconcile_cards X M now stale_after 0)"

section \<open>Proposing\<close>

definition tool_error :: "string \<Rightarrow> json" where
  "tool_error msg = JObj [(''error'', JStr msg)]"

text \<open>The text a file already holds; \<open>None\<close> when it cannot be read or is no UTF-8.\<close>

definition read_text :: "path \<Rightarrow> files \<Rightarrow> nat list option" where
  "read_text p w =
     (if target_hidden w then None
      else case stat (disk_of w) p of
        Some (Regular b) \<Rightarrow> map_option universal_newlines (decode_strict b)
      | _ \<Rightarrow> None)"

definition written_reply :: "path \<Rightarrow> json res \<Rightarrow> json res" where
  "written_reply p res =
     (case res of
        Inr (JObj d) \<Rightarrow>
          Inr (if truthy (field ''ok'' d)
               then JObj [(''status'', JStr ''written''), (''path'', field ''path'' d),
                 (''note'', JStr (''wrote directly to '' @ show_path p @ '' '' @ em_dash @
                    '' it's inside your authorised notes folder, so no confirmation was needed''))]
               else JObj [(''error'', dget_or ''error'' (JStr ''write failed'') d)])
      | _ \<Rightarrow> res)"

text \<open>Inside the notes folder the write is committed at once; an append whose block is there already is skipped.\<close>

definition write_note :: "ext \<Rightarrow> machine \<Rightarrow> string \<Rightarrow> json \<Rightarrow> string \<Rightarrow> string option \<Rightarrow> path \<Rightarrow> (files, json res) proc" where
  "write_note X M persona_dir op content making_id p =
     andthen (if op = JStr ''append'' then look (read_text p) else Done None) (\<lambda>existing.
     if (case existing of None \<Rightarrow> False | Some t \<Rightarrow> block_present t (points content)) then
       andthen (audit_row ''write_skipped_present'' [] op (JStr (show_path p)) (JStr (content_sha X content)) [] None) (\<lambda>_.
       Done (Inr (JObj [(''status'', JStr ''already_present''), (''path'', JStr (show_path p)), (''deduped'', JBool True),
         (''note'', JStr (''that block is already in '' @ show_path p @ '' '' @ em_dash @ '' nothing written''))])))
     else
       andthen (look clock) (\<lambda>now.
       andok (atomic (create_card X op (show_path p) content now making_id)) (\<lambda>rid.
       andok (look open_store) (\<lambda>_.
       andthen (commit_write X M persona_dir rid) (\<lambda>res. Done (written_reply p res))))))"

definition stage_card :: "ext \<Rightarrow> json \<Rightarrow> string \<Rightarrow> string option \<Rightarrow> path \<Rightarrow> (files, json res) proc" where
  "stage_card X op content making_id p =
     andthen (look clock) (\<lambda>now.
     andok (look (find_duplicate op (show_path p) (content_sha X content) now)) (\<lambda>existing.
     case existing of
       Some j \<Rightarrow>
         andthen (atomic (audit ''propose_deduped'' j op (JStr (show_path p)) (JStr (content_sha X content)) [] None)) (\<lambda>_.
         Done (Inr (JObj [(''status'', JStr ''already_proposed''), (''id'', j), (''deduped'', JBool True),
           (''note'', JStr (''this exact '' @ text_or_empty op @ '' of '' @ show_path p @
              '' is already staged and awaiting your confirmation '' @ em_dash @ '' no second card was created''))])))
     | None \<Rightarrow>
         andthen (look (count_pending now)) (\<lambda>n.
         if MAX_PENDING \<le> n then Done (Inr (tool_error (''too many writes awaiting your review '' @ em_dash @ '' resolve some first'')))
         else
           andok (atomic (create_card X op (show_path p) content now making_id)) (\<lambda>rid.
           andthen (audit_row ''propose'' rid op (JStr (show_path p)) (JStr (content_sha X content)) [] None) (\<lambda>_.
           Done (Inr (JObj [(''status'', JStr ''proposed''), (''id'', JStr rid),
             (''note'', JStr (''proposed '' @ text_or_empty op @ '' of '' @ show_path p @ '' '' @ em_dash @
                '' awaiting your confirmation in NellFace''))])))))))"

definition propose_text :: "ext \<Rightarrow> machine \<Rightarrow> string \<Rightarrow> string \<Rightarrow> string \<Rightarrow> json \<Rightarrow> string option \<Rightarrow> (files, json res) proc" where
  "propose_text X M persona_dir path content op making_id =
     andthen (look (\<lambda>w. check_write_target X M (disk_of w) persona_dir path op)) (\<lambda>g.
     case g of
       Inl err \<Rightarrow>
         andthen (audit_row ''propose_refused'' [] op (JStr path) (JStr []) [] (Some err)) (\<lambda>_. Done (Inr (tool_error err)))
     | Inr p \<Rightarrow>
         andthen (look (\<lambda>w. check_size (disk_of w) content op p)) (\<lambda>s.
         case s of
           Inl err \<Rightarrow>
             andthen (audit_row ''propose_refused'' [] op (JStr (show_path p)) (JStr []) [] (Some err)) (\<lambda>_. Done (Inr (tool_error err)))
         | Inr _ \<Rightarrow>
             andthen (look (\<lambda>w. is_within_authorized M (disk_of w) p (notes_folder w))) (\<lambda>auto.
             if auto then write_note X M persona_dir op content making_id p else stage_card X op content making_id p)))"

text \<open>
  \<open>works\<close> is what the store of works answers for a making: no such making, or its text. A \<open>making_id\<close>
  that is empty counts as none.
\<close>

definition propose_write ::
  "ext \<Rightarrow> machine \<Rightarrow> (string \<Rightarrow> string option) \<Rightarrow> string \<Rightarrow> string \<Rightarrow> string option \<Rightarrow> json \<Rightarrow> string option \<Rightarrow> (files, json res) proc" where
  "propose_write X M works persona_dir path content op making_id =
     (case (content, making_id) of
        (Some c, _) \<Rightarrow> propose_text X M persona_dir path c op making_id
      | (None, Some m) \<Rightarrow>
          (if m = [] then Done (Inr (tool_error ''nothing to write''))
           else case works m of
             None \<Rightarrow> Done (Inr (tool_error (''no making '' @ m)))
           | Some c \<Rightarrow> propose_text X M persona_dir path c op making_id)
      | (None, None) \<Rightarrow> Done (Inr (tool_error ''nothing to write'')))"

end
