(* ===== verification/Commit_Laws.thy ===== *)
theory Commit_Laws
  imports Commit
begin

text \<open>
  What the consent protocol guarantees whatever its callers interleave to: a card is written at most once
  for each time it was staged, only after its own claim, and with the text that was staged, to a target
  the guard accepted; the cards keep their types, so no caller meets a missing field. The locales of
  \<open>Proc\<close> carry the proofs. Then the functional behaviour of an approval, of recovery and of proposing.
\<close>

section \<open>The members\<close>

definition members :: "ext \<Rightarrow> machine \<Rightarrow> (string \<Rightarrow> string option) \<Rightarrow> string \<Rightarrow> (files, json res) proc set" where
  "members X M works persona_dir =
     {p. (\<exists>rid. p = approve_write_route X M persona_dir rid) \<or> (\<exists>rid. p = commit_write X M persona_dir rid) \<or>
         (\<exists>rid. p = decline_write_route X rid) \<or> (\<exists>rid. p = decline_write X rid) \<or>
         (\<exists>now. p = sweep_expired X now) \<or> (\<exists>now stale. p = reconcile_stale_commits X M now stale) \<or>
         (\<exists>path content op making. p = propose_write X M works persona_dir path content op making)}"

text \<open>What others may do meanwhile: anything to the disk, the settings and the clock, and any failure.\<close>

definition elsewhere :: "files \<Rightarrow> files \<Rightarrow> bool" where
  "elsewhere w w' \<longleftrightarrow> cards w' = cards w \<and> events w' = events w"

section \<open>Tickets\<close>

definition stagings :: "string \<Rightarrow> files \<Rightarrow> nat" where
  "stagings rid w = length (filter (\<lambda>e. case e of Staged i _ \<Rightarrow> i = rid | _ \<Rightarrow> False) (events w))"

definition claims :: "string \<Rightarrow> files \<Rightarrow> nat" where
  "claims rid w = length (filter (\<lambda>e. e = Marked rid ''committing'') (events w))"

definition landings :: "string \<Rightarrow> files \<Rightarrow> nat" where
  "landings rid w = length (filter (\<lambda>e. case e of Landed i _ _ _ \<Rightarrow> i = rid | _ \<Rightarrow> False) (events w))"

interpretation approvals: ticketed "claims rid" "landings rid" for rid .

named_theorems quiet_steps \<open>steps that leave cards and events alone\<close>

lemma calm_steps [quiet_steps]:
  "events (snd (audit ev i op path sha outcome err w)) = events w" "cards (snd (audit ev i op path sha outcome err w)) = cards w"
  "events (snd (wire_memory q outcome w)) = events w" "cards (snd (wire_memory q outcome w)) = cards w"
  "events (snd (make_parents p w)) = events w" "cards (snd (make_parents p w)) = cards w"
  "events (snd (open_target at_end p w)) = events w" "cards (snd (open_target at_end p w)) = cards w"
  by (simp_all add: audit_def wire_memory_def make_parents_def open_target_def split: sum.split prod.split)

lemma mark_events:
  "fst (mark rid st ex extra w) \<noteq> Inr True \<and> snd (mark rid st ex extra w) = w \<or>
   fst (mark rid st ex extra w) = Inr True \<and> events (snd (mark rid st ex extra w)) = events w @ [Marked rid st]"
  by (auto simp: mark_def note_event_def put_card_def split: option.splits)

lemma idle_by_events:
  "events w' = events w \<or> (\<exists>i st. events w' = events w @ [Marked i st] \<and> st \<noteq> ''committing'') \<or> (\<exists>i r. events w' = events w @ [Staged i r])
   \<Longrightarrow> approvals.idle_step rid w w'"
  by (auto simp: approvals.idle_step_def claims_def landings_def)

lemma idle_mark: "st \<noteq> ''committing'' \<Longrightarrow> approvals.idle_step rid w (snd (mark i st ex extra w))"
  using mark_events [of i st ex extra w] by (intro idle_by_events) auto

lemma idle_create: "approvals.idle_step rid w (snd (create_card X op path content now making w))"
  by (rule idle_by_events) (auto simp: create_card_def note_event_def put_card_def Let_def)

lemmas licensed_rules = approvals.licensed.finished approvals.licensed_look approvals.licensed_atomic
  approvals.licensed_andok_look approvals.licensed_andok_atomic

lemmas idle_rules = idle_mark idle_create idle_by_events

lemma licensed_audit [intro!]: "(\<And>x. approvals.licensed rid n (k x)) \<Longrightarrow> approvals.licensed rid n (andthen (audit_row ev i op path sha outcome err) k)"
  unfolding audit_row_def by (rule approvals.licensed_atomic) (simp_all add: idle_by_events quiet_steps)

lemma licensed_wire [intro!]: "(\<And>x. approvals.licensed rid n (k x)) \<Longrightarrow> approvals.licensed rid n (andthen (atomic (wire_memory p o')) k)"
  by (rule approvals.licensed_atomic) (simp_all add: idle_by_events quiet_steps)

lemma licensed_mark [intro!]:
  "st \<noteq> ''committing'' \<Longrightarrow> (\<And>x. approvals.licensed rid n (k x)) \<Longrightarrow> approvals.licensed rid n (andok (atomic (mark i st ex extra)) k)"
  "st \<noteq> ''committing'' \<Longrightarrow> (\<And>x. approvals.licensed rid n (l x)) \<Longrightarrow> approvals.licensed rid n (andthen (atomic (mark i st ex extra)) l)"
  by (auto intro: approvals.licensed_andok_atomic approvals.licensed_atomic idle_mark)

lemma licensed_create [intro!]:
  "(\<And>x. approvals.licensed rid n (k x)) \<Longrightarrow> approvals.licensed rid n (andok (atomic (create_card X op path content now making)) k)"
  by (auto intro: approvals.licensed_andok_atomic idle_create)

lemma licensed_done [simp]: "approvals.licensed rid n (Done x)"
  by (rule approvals.licensed.finished)

lemma licensed_landed: "approvals.licensed rid n (landed i r op p)"
proof -
  have "approvals.licensed rid n (mark_final i)" for n
    unfolding mark_final_def by (auto intro!: licensed_mark)
  then show ?thesis unfolding landed_def
    by (intro approvals.licensed_look approvals.licensed_andthen) (auto split: sum.split)
qed

lemma licensed_write:
  assumes "\<And>n x. approvals.licensed rid n (k x)"
  shows "approvals.licensed rid (if i = rid then Suc n else n) (andthen (write_file i p op content) k)"
proof -
  let ?n = "if i = rid then Suc n else n"
  have "approvals.licensed rid ?n (atomic (write_target i p op at_end j bs))" for at_end j bs
  proof (cases "i = rid")
    case True
    then show ?thesis unfolding atomic_def
      by (intro approvals.licensed.steps disjI2)
        (simp add: write_target_def note_event_def claims_def landings_def Let_def)
  next
    case False
    then show ?thesis unfolding atomic_def
      by (intro approvals.licensed.steps disjI1)
        (simp add: write_target_def note_event_def claims_def landings_def Let_def approvals.idle_step_def)
  qed
  then have "approvals.licensed rid ?n (write_file i p op content)"
    unfolding write_file_def Let_def
    by (intro approvals.licensed_andok_atomic)
      (auto simp: quiet_steps andok_def intro!: approvals.licensed_look approvals.licensed_atomic idle_by_events split: sum.split)
  then show ?thesis by (rule approvals.licensed_andthen) (rule assms)
qed

lemma licensed_claim: "approvals.licensed rid n (claim_and_write i r op path content p)"
proof -
  let ?k = "\<lambda>took. if \<not> took then
       andthen (audit_row ''claim_failed'' i op path (JStr []) [] (Some ''could not record the committing status'')) (\<lambda>_.
       Done (Inr (refusal ''could not claim the write for commit'')))
     else andthen (write_file i p op content) (\<lambda>res. case res of Inl e \<Rightarrow> failed_write i op p e | Inr _ \<Rightarrow> landed i r op p)"
  have k: "approvals.licensed rid m (?k False)" for m by auto
  have after: "approvals.licensed rid (if i = rid then Suc m else m) (?k True)" for m
    unfolding not_True_eq_False if_False
    by (rule licensed_write) (auto simp: failed_write_def licensed_landed split: sum.split)
  have "approvals.licensed rid n (andok (atomic (mark i ''committing'' ex extra)) ?k)" for ex extra
    unfolding andok_def andthen_simps
  proof (rule approvals.licensed.steps)
    fix w
    let ?p = "\<lambda>x. case x of Inl e \<Rightarrow> Done (Inl e) | Inr x \<Rightarrow> ?k x"
    consider "fst (mark i ''committing'' ex extra w) \<noteq> Inr True" "snd (mark i ''committing'' ex extra w) = w"
      | "fst (mark i ''committing'' ex extra w) = Inr True"
        "events (snd (mark i ''committing'' ex extra w)) = events w @ [Marked i ''committing'']"
      using mark_events by blast
    then show "approvals.idle_step rid w (snd (map_prod ?p (\<lambda>s. s) (mark i ''committing'' ex extra w))) \<and>
        approvals.licensed rid n (fst (map_prod ?p (\<lambda>s. s) (mark i ''committing'' ex extra w))) \<or>
      claims rid (snd (map_prod ?p (\<lambda>s. s) (mark i ''committing'' ex extra w))) = Suc (claims rid w) \<and>
        landings rid (snd (map_prod ?p (\<lambda>s. s) (mark i ''committing'' ex extra w))) = landings rid w \<and>
        approvals.licensed rid (Suc n) (fst (map_prod ?p (\<lambda>s. s) (mark i ''committing'' ex extra w))) \<or>
      (\<exists>m. n = Suc m \<and> claims rid (snd (map_prod ?p (\<lambda>s. s) (mark i ''committing'' ex extra w))) = claims rid w \<and>
        landings rid (snd (map_prod ?p (\<lambda>s. s) (mark i ''committing'' ex extra w))) = Suc (landings rid w) \<and>
        approvals.licensed rid m (fst (map_prod ?p (\<lambda>s. s) (mark i ''committing'' ex extra w))))"
    proof cases
      case 1
      then have "approvals.licensed rid n (?p (fst (mark i ''committing'' ex extra w)))"
        using k by (cases "fst (mark i ''committing'' ex extra w)") auto
      with 1 show ?thesis by (simp add: approvals.idle_step_def)
    next
      case 2
      then show ?thesis using after [of n]
        by (cases "i = rid") (auto simp: approvals.idle_step_def claims_def landings_def)
    qed
  qed
  then show ?thesis unfolding claim_and_write_def by (rule approvals.licensed_look)
qed

lemma licensed_commit: "approvals.licensed rid n (commit_write X M pd i)"
  unfolding commit_write_def with_fields_def recheck_and_write_def refuse_write_def
  by (auto intro!: approvals.licensed_look licensed_claim split: option.split sum.split json.split)

lemma licensed_stage: "approvals.licensed rid n (stage_card X op content making p)"
  unfolding stage_card_def
  by (auto intro!: approvals.licensed_look approvals.licensed_andok_look approvals.licensed_atomic idle_by_events
      simp: quiet_steps split: option.split)

lemma licensed_note: "approvals.licensed rid n (write_note X M pd op content making p)"
proof -
  have "approvals.licensed rid n (andthen (commit_write X M pd i) (\<lambda>res. Done (written_reply p res)))" for i
    by (rule approvals.licensed_andthen [OF licensed_commit]) simp
  then show ?thesis unfolding write_note_def
    by (auto intro!: approvals.licensed_look approvals.licensed_andok_look split: option.split)
qed

lemma licensed_propose: "approvals.licensed rid n (propose_write X M works pd path content op making)"
  unfolding propose_write_def propose_text_def
  by (auto intro!: approvals.licensed_look licensed_note licensed_stage split: option.split sum.split)

lemma licensed_decline: "approvals.licensed rid n (decline_write X i)"
  unfolding decline_write_def
  by (auto intro!: approvals.licensed_look split: option.split sum.split)

lemma licensed_sweep: "approvals.licensed rid n (sweep_expired X now)"
proof -
  have "approvals.licensed rid n (sweep_cards X now m rs)" for m rs
    by (induction rs arbitrary: m) (auto split: sum.split)
  then show ?thesis unfolding sweep_expired_def by (rule approvals.licensed_look)
qed

lemma licensed_reconcile: "approvals.licensed rid n (reconcile_stale_commits X M now stale)"
proof -
  have settle: "approvals.licensed rid n (settle i r op path p v)" if "fst v \<noteq> ''committing''" for n i r op path p v
    using that by (cases v) (auto simp: settle_def intro!: approvals.licensed_andok_look)
  have "approvals.licensed rid n (reconcile_one X M now stale r)" for r n
    unfolding reconcile_one_def
    by (auto intro!: approvals.licensed_andok_look settle simp: by_verdict_def split: sum.split json.split option.split sighting.split)
  then have "approvals.licensed rid n (reconcile_cards X M now stale m rs)" for m rs n
    by (induction rs arbitrary: m n) (auto intro: approvals.licensed_andthen)
  then show ?thesis unfolding reconcile_stale_commits_def by (rule approvals.licensed_look)
qed

lemma licensed_route: "(\<And>n. approvals.licensed rid n q) \<Longrightarrow> approvals.licensed rid n (consent_route X i q)"
  unfolding consent_route_def
  by (auto intro!: approvals.licensed_look approvals.licensed_andok_look split: option.split)

lemma members_licensed: "q \<in> members X M works pd \<Longrightarrow> approvals.licensed rid n q"
  unfolding members_def approve_write_route_def decline_write_route_def
  by (elim CollectE disjE exE)
    (simp_all add: licensed_route licensed_commit licensed_decline licensed_sweep licensed_reconcile licensed_propose)

lemma landings_claimed:
  assumes "pool_runs (members X M works pd) elsewhere ([], w0) c" "events w0 = []"
  shows "landings rid (snd c) \<le> claims rid (snd c)"
  using assms
  by (intro approvals.used_le_granted [OF assms(1)])
    (auto simp: members_licensed elsewhere_def approvals.idle_step_def claims_def landings_def)

section \<open>Facts that stay true\<close>

definition STATUSES :: "string list" where
  "STATUSES = [''pending'', ''committing'', ''committed'', ''declined'', ''refused'', ''expired'', ''error'']"

definition CORE :: "string list" where
  "CORE = [''id'', ''op'', ''resolved_path'', ''content'', ''content_sha'', ''proposed_at'']"

text \<open>The card was staged with this operation, target and text.\<close>

definition staged_as :: "ext \<Rightarrow> files \<Rightarrow> string \<Rightarrow> json \<Rightarrow> string \<Rightarrow> string \<Rightarrow> bool" where
  "staged_as X w rid op path content \<longleftrightarrow> (\<exists>now making. Staged rid (new_card X rid op path content now making) \<in> set (events w))"

definition well_typed :: "string \<Rightarrow> dict \<Rightarrow> bool" where
  "well_typed rid r \<longleftrightarrow> dget ''id'' r = Some (JStr rid) \<and> dget ''op'' r \<noteq> None \<and>
     (\<forall>k \<in> {''resolved_path'', ''content'', ''content_sha'', ''proposed_at''}. \<exists>s. dget k r = Some (JStr s)) \<and>
     (\<exists>st \<in> set STATUSES. dget ''status'' r = Some (JStr st))"

definition faithful :: "ext \<Rightarrow> files \<Rightarrow> string \<Rightarrow> dict \<Rightarrow> bool" where
  "faithful X w rid r \<longleftrightarrow> well_typed rid r \<and>
     (\<exists>op path content. staged_as X w rid op path content \<and> dget ''op'' r = Some op \<and>
        dget ''resolved_path'' r = Some (JStr path) \<and> dget ''content'' r = Some (JStr content))"

text \<open>What was written is what was staged, and the guard accepted the target.\<close>

definition consented :: "ext \<Rightarrow> machine \<Rightarrow> string \<Rightarrow> files \<Rightarrow> event \<Rightarrow> bool" where
  "consented X M persona_dir w e =
     (case e of
        Landed rid p op bs \<Rightarrow>
          (\<exists>path content sep d. staged_as X w rid op path content \<and> bs = separated sep content \<and>
             check_write_target X M d persona_dir path op = Inr p)
      | _ \<Rightarrow> True)"

definition is_pending :: "string \<Rightarrow> files \<Rightarrow> bool" where
  "is_pending rid w \<longleftrightarrow> (\<exists>r. map_of (cards w) rid = Some r \<and> has_status ''pending'' r)"

definition consent_inv :: "ext \<Rightarrow> machine \<Rightarrow> string \<Rightarrow> files \<Rightarrow> bool" where
  "consent_inv X M persona_dir w \<longleftrightarrow> distinct (map fst (cards w)) \<and>
     (\<forall>rid r. map_of (cards w) rid = Some r \<longrightarrow> faithful X w rid r) \<and>
     (\<forall>e \<in> set (events w). consented X M persona_dir w e) \<and>
     (\<forall>rid. claims rid w + of_bool (is_pending rid w) \<le> stagings rid w)"

definition longer :: "files \<Rightarrow> files \<Rightarrow> bool" where
  "longer w w' \<longleftrightarrow> prefix (events w) (events w')"

interpretation consent: guarantee "consent_inv X M pd" longer for X M pd
  by unfold_locales (auto simp: longer_def)

lemma longer_facts:
  assumes "longer w w'"
  shows "staged_as X w rid op path content \<Longrightarrow> staged_as X w' rid op path content"
    "faithful X w rid r \<Longrightarrow> faithful X w' rid r" "consented X M pd w e \<Longrightarrow> consented X M pd w' e"
proof -
  have sub: "set (events w) \<subseteq> set (events w')"
    using assms by (auto simp: longer_def dest: set_mono_prefix)
  show 1: "staged_as X w rid op path content \<Longrightarrow> staged_as X w' rid op path content" for rid op path content
    using sub by (auto simp: staged_as_def)
  show "faithful X w rid r \<Longrightarrow> faithful X w' rid r" using 1 by (auto simp: faithful_def)
  show "consented X M pd w e \<Longrightarrow> consented X M pd w' e"
    using 1 by (fastforce simp: consented_def split: event.splits)
qed

lemma calm_allowed:
  assumes "consent_inv X M pd w" "events w' = events w" "cards w' = cards w"
  shows "consent.allowed X M pd w w'"
proof -
  have st: "staged_as X w' = staged_as X w" by (simp add: staged_as_def fun_eq_iff assms)
  then have "faithful X w' = faithful X w" "consented X M pd w' = consented X M pd w"
    by (intro ext; simp only: faithful_def consented_def)+
  moreover have "claims i w' = claims i w" "stagings i w' = stagings i w" "is_pending i w' = is_pending i w" for i
    by (simp_all add: claims_def stagings_def is_pending_def assms)
  ultimately have "consent_inv X M pd w' = consent_inv X M pd w"
    by (simp only: consent_inv_def assms)
  then show ?thesis using assms by (simp add: consent.allowed_def longer_def)
qed

lemma dget_marked:
  "k \<notin> fst ` set extra \<Longrightarrow> dget k (marked st extra r) = (if k = ''status'' then Some (JStr st) else dget k r)"
proof -
  have "k \<notin> fst ` set extra \<Longrightarrow> dget k (foldl (\<lambda>d (k, v). dset k v d) d extra) = dget k d" for d
    by (induction extra arbitrary: d) (auto simp: dget_dset)
  then show "k \<notin> fst ` set extra \<Longrightarrow> dget k (marked st extra r) = (if k = ''status'' then Some (JStr st) else dget k r)"
    by (simp add: marked_def dget_dset)
qed

lemma add_event:
  assumes "consent_inv X M pd w" "events w' = events w @ [e]" "consented X M pd w' e"
    and "cards w' = AList.update rid r (cards w)" "faithful X w' rid r"
    and "\<And>i. claims i w' + of_bool (is_pending i w') \<le> stagings i w'"
  shows "consent.allowed X M pd w w'"
proof -
  have l: "longer w w'" using assms(2) by (simp add: longer_def)
  have "faithful X w' i r'" if "map_of (cards w') i = Some r'" for i r'
  proof (cases "i = rid")
    case True
    then show ?thesis using that assms(4,5) by (simp add: update_conv')
  next
    case False
    then show ?thesis using that assms(1,4) longer_facts(2) [OF l] by (simp add: consent_inv_def update_conv')
  qed
  moreover have "consented X M pd w' e'" if "e' \<in> set (events w')" for e'
  proof (cases "e' = e")
    case True
    then show ?thesis using assms(3) by simp
  next
    case False
    then have "e' \<in> set (events w)" using that assms(2) by simp
    then show ?thesis using assms(1) longer_facts(3) [OF l] by (simp add: consent_inv_def)
  qed
  moreover have "distinct (map fst (cards w'))" using assms(1,4) by (simp add: consent_inv_def distinct_update)
  ultimately show ?thesis using l assms(6) by (simp add: consent.allowed_def consent_inv_def)
qed

lemma mark_allowed:
  assumes "consent_inv X M pd w" "st \<in> set STATUSES" "st \<noteq> ''pending''"
    and "st = ''committing'' \<Longrightarrow> ex = Some ''pending''" "fst ` set extra \<subseteq> {''claimed_at'', ''resolved_by''}"
  shows "consent.allowed X M pd w (snd (mark rid st ex extra w))"
proof (cases "fst (mark rid st ex extra w) = Inr True")
  case False
  then have "snd (mark rid st ex extra w) = w" using mark_events by blast
  then show ?thesis using calm_allowed [OF assms(1)] by simp
next
  case True
  then obtain r where r: "map_of (cards w) rid = Some r" "case ex of None \<Rightarrow> True | Some e \<Rightarrow> has_status e r"
      "snd (mark rid st ex extra w) = note_event (Marked rid st) (put_card rid (marked st extra r) w)"
    by (auto simp: mark_def get_card_def split: option.splits if_splits)
  let ?w = "note_event (Marked rid st) (put_card rid (marked st extra r) w)"
  have ev: "events ?w = events w @ [Marked rid st]" and
    cards: "\<And>i. map_of (cards ?w) i = (if i = rid then Some (marked st extra r) else map_of (cards w) i)"
    by (simp_all add: note_event_def put_card_def update_conv')
  have l: "longer w ?w" by (simp add: longer_def ev)
  have k: "dget k (marked st extra r) = dget k r" if "k \<in> set CORE" for k
  proof -
    have "k \<notin> fst ` set extra" "k \<noteq> ''status''" using that assms(5) by (auto simp: CORE_def)
    then show ?thesis by (simp add: dget_marked)
  qed
  have s: "dget ''status'' (marked st extra r) = Some (JStr st)"
    using assms(5) by (subst dget_marked) auto
  have "faithful X ?w rid r" using assms(1) r(1) longer_facts(2) [OF l] by (simp add: consent_inv_def)
  then have "faithful X ?w rid (marked st extra r)"
    using k s assms(2) by (simp add: faithful_def well_typed_def CORE_def)
  moreover have "claims i ?w + of_bool (is_pending i ?w) \<le> stagings i ?w" for i
  proof -
    have "\<not> has_status ''pending'' (marked st extra r)" using s assms(3) by (simp add: has_status_def field_def dget_or_def)
    moreover have "is_pending i w" if "i = rid" "st = ''committing''"
      using that assms(4) r(1,2) by (simp add: is_pending_def)
    moreover have "claims i w + of_bool (is_pending i w) \<le> stagings i w" using assms(1) by (simp add: consent_inv_def)
    ultimately show ?thesis
      by (auto simp: claims_def stagings_def is_pending_def ev cards split: if_splits)
  qed
  ultimately show ?thesis
    unfolding r(3) by (intro add_event [OF assms(1) ev]) (simp_all add: consented_def note_event_def put_card_def)
qed

lemma create_allowed:
  assumes "consent_inv X M pd w"
  shows "consent.allowed X M pd w (snd (create_card X op path content now making w)) \<and>
    (case fst (create_card X op path content now making w) of
       Inl e \<Rightarrow> e = OSError | Inr rid \<Rightarrow> True)"
proof (cases "save_fails w")
  case True
  then show ?thesis using calm_allowed [OF assms] by (simp add: create_card_def)
next
  case False
  define rid where "rid = new_id X path content now"
  define r where "r = new_card X rid op path content now making"
  let ?w = "note_event (Staged rid r) (put_card rid r w)"
  have c: "create_card X op path content now making w = (Inr rid, ?w)"
    using False by (simp add: create_card_def rid_def r_def Let_def)
  have ev: "events ?w = events w @ [Staged rid r]" and
    cards: "\<And>i. map_of (cards ?w) i = (if i = rid then Some r else map_of (cards w) i)"
    by (simp_all add: note_event_def put_card_def update_conv')
  have "faithful X ?w rid r"
    unfolding faithful_def well_typed_def staged_as_def ev
    by (force simp: r_def new_card_def STATUSES_def)
  moreover have "claims i ?w + of_bool (is_pending i ?w) \<le> stagings i ?w" for i
  proof -
    have "claims i w + of_bool (is_pending i w) \<le> stagings i w" using assms by (simp add: consent_inv_def)
    then show ?thesis by (auto simp: claims_def stagings_def is_pending_def ev cards split: if_splits)
  qed
  ultimately show ?thesis
    unfolding c by (simp, intro add_event [OF assms ev]) (simp_all add: consented_def note_event_def put_card_def)
qed

lemma write_allowed:
  assumes "consent_inv X M pd w" "staged_as X w rid op path content"
    and "check_write_target X M d pd path op = Inr p"
  shows "consent.allowed X M pd w (snd (write_target rid p op at_end i (separated sep content) w))"
proof -
  define w' where "w' = snd (write_target rid p op at_end i (separated sep content) w)"
  have ev: "events w' = events w @ [Landed rid p op (separated sep content)]" and cards: "cards w' = cards w"
    by (simp_all add: w'_def write_target_def note_event_def Let_def)
  have l: "longer w w'" by (simp add: longer_def ev)
  have "consented X M pd w' (Landed rid p op (separated sep content))"
    using longer_facts(1) [OF l assms(2)] assms(3) by (auto simp: consented_def)
  moreover have "claims i w' = claims i w" "stagings i w' = stagings i w" "is_pending i w' = is_pending i w" for i
    by (simp_all add: claims_def stagings_def is_pending_def ev cards)
  ultimately have "consent_inv X M pd w'"
    using assms(1) longer_facts(2,3) [OF l] unfolding consent_inv_def cards by (simp add: ev)
  then show ?thesis using l by (simp add: consent.allowed_def w'_def)
qed

section \<open>Every member keeps the facts\<close>

definition unharmed :: "'a res \<Rightarrow> bool" where
  "unharmed x \<longleftrightarrow> x \<notin> {Inl KeyError, Inl TypeError, Inl AttributeError}"

lemma unharmed_simps [simp]:
  "unharmed (Inr x)" "unharmed (Inl OSError)" "unharmed (Inl (OtherError s))"
  by (simp_all add: unharmed_def OSError_def)

lemma sound_done [simp]: "consent.sound X M pd Q w (Done x) \<longleftrightarrow> Q x"
  by (auto intro: consent.sound.finished elim: consent.sound.cases)

lemma sound_step:
  assumes "\<And>t. longer w t \<Longrightarrow> consent_inv X M pd t \<Longrightarrow> consent.allowed X M pd t (snd (f t))"
    and "\<And>x t. longer w t \<Longrightarrow> consent_inv X M pd t \<Longrightarrow> consent.sound X M pd Q t (k x)"
  shows "consent.sound X M pd Q w (andthen (atomic f) k)"
proof (rule consent.sound_atomic)
  fix t assume t: "longer w t" "consent_inv X M pd t"
  have a: "consent.allowed X M pd t (snd (f t))" using assms(1) [OF t] .
  then have "longer w (snd (f t))" "consent_inv X M pd (snd (f t))"
    using consent.trans [OF t(1)] by (auto simp: consent.allowed_def)
  with a assms(2) show "consent.allowed X M pd t (snd (f t)) \<and> consent.sound X M pd Q (snd (f t)) (k (fst (f t)))" by blast
qed

lemma audit_allowed: "consent_inv X M pd w \<Longrightarrow> consent.allowed X M pd w (snd (audit ev i op path sha outcome err w))"
  by (simp add: calm_allowed quiet_steps)

lemma sound_audit [intro!]:
  assumes "\<And>x t. longer w t \<Longrightarrow> consent_inv X M pd t \<Longrightarrow> consent.sound X M pd Q t (k x)"
  shows "consent.sound X M pd Q w (andthen (audit_row ev i op path sha outcome err) k)"
  unfolding audit_row_def by (rule sound_step) (use assms in \<open>auto intro: calm_allowed simp: quiet_steps\<close>)

lemma sound_wire [intro!]:
  assumes "\<And>x t. longer w t \<Longrightarrow> consent_inv X M pd t \<Longrightarrow> consent.sound X M pd Q t (k x)"
  shows "consent.sound X M pd Q w (andthen (atomic (wire_memory p outcome)) k)"
  by (rule sound_step) (use assms in \<open>auto intro: calm_allowed simp: quiet_steps\<close>)

text \<open>The marks a member may make.\<close>

definition proper_mark :: "string \<Rightarrow> string option \<Rightarrow> dict \<Rightarrow> bool" where
  "proper_mark st ex extra \<longleftrightarrow> st \<in> set STATUSES \<and> st \<noteq> ''pending'' \<and> (st = ''committing'' \<longrightarrow> ex = Some ''pending'') \<and>
     fst ` set extra \<subseteq> {''claimed_at'', ''resolved_by''}"

lemma proper_allowed:
  "proper_mark st ex extra \<Longrightarrow> consent_inv X M pd w \<Longrightarrow> consent.allowed X M pd w (snd (mark rid st ex extra w))"
  using mark_allowed by (simp add: proper_mark_def)

lemma mark_result: "fst (mark rid st ex extra w) = Inl e \<Longrightarrow> e = OSError"
  by (auto simp: mark_def split: option.splits if_splits)

lemma sound_mark:
  assumes "proper_mark st ex extra" "\<And>e. e = OSError \<Longrightarrow> Q (Inl e)"
    and "\<And>x t. longer w t \<Longrightarrow> consent_inv X M pd t \<Longrightarrow> consent.sound X M pd Q t (k x)"
  shows "consent.sound X M pd Q w (andok (atomic (mark rid st ex extra)) k)"
  unfolding andok_def
proof (rule consent.sound_atomic)
  fix t assume t: "longer w t" "consent_inv X M pd t"
  have a: "consent.allowed X M pd t (snd (mark rid st ex extra t))"
    using proper_allowed [OF assms(1) t(2)] .
  then have "longer w (snd (mark rid st ex extra t))" "consent_inv X M pd (snd (mark rid st ex extra t))"
    using consent.trans [OF t(1)] by (auto simp: consent.allowed_def)
  with a show "consent.allowed X M pd t (snd (mark rid st ex extra t)) \<and>
      consent.sound X M pd Q (snd (mark rid st ex extra t))
        (case fst (mark rid st ex extra t) of Inl e \<Rightarrow> Done (Inl e) | Inr x \<Rightarrow> k x)"
    using assms(2,3) mark_result [of rid st ex extra t] by (auto split: sum.split)
qed

lemma sound_create:
  assumes "\<And>e. e = OSError \<Longrightarrow> Q (Inl e)" "\<And>x t. longer w t \<Longrightarrow> consent_inv X M pd t \<Longrightarrow> consent.sound X M pd Q t (k x)"
  shows "consent.sound X M pd Q w (andok (atomic (create_card X op path content now making)) k)"
  unfolding andok_def
proof (rule consent.sound_atomic)
  fix t assume t: "longer w t" "consent_inv X M pd t"
  let ?r = "create_card X op path content now making t"
  have a: "consent.allowed X M pd t (snd ?r)" "case fst ?r of Inl e \<Rightarrow> e = OSError | Inr rid \<Rightarrow> True"
    using create_allowed [OF t(2)] by blast+
  then have "longer w (snd ?r)" "consent_inv X M pd (snd ?r)"
    using consent.trans [OF t(1)] by (auto simp: consent.allowed_def)
  with a show "consent.allowed X M pd t (snd ?r) \<and>
      consent.sound X M pd Q (snd ?r) (case fst ?r of Inl e \<Rightarrow> Done (Inl e) | Inr x \<Rightarrow> k x)"
    using assms by (auto split: sum.split)
qed

lemma proper_marks [simp]:
  "proper_mark ''committed'' ex []" "proper_mark ''error'' ex []" "proper_mark ''refused'' ex []"
  "proper_mark ''expired'' ex []" "proper_mark ''declined'' ex []"
  "proper_mark ''committing'' (Some ''pending'') [(''claimed_at'', t)]"
  "proper_mark ''committed'' ex [(''resolved_by'', b)]" "proper_mark ''error'' ex [(''resolved_by'', b)]"
  by (simp_all add: proper_mark_def STATUSES_def)

lemma sound_final:
  assumes "\<And>x t. longer w t \<Longrightarrow> consent_inv X M pd t \<Longrightarrow> consent.sound X M pd Q t (k x)" "consent_inv X M pd w"
  shows "consent.sound X M pd Q w (andthen (mark_final rid) k)"
proof -
  have m: "consent.allowed X M pd t (snd (mark rid ''committed'' None [] t))" if "consent_inv X M pd t" for t
    using proper_allowed [OF _ that] by simp
  have "consent.sound X M pd (\<lambda>_. True) w (mark_final rid)"
    unfolding mark_final_def by (auto intro!: sound_step m)
  then show ?thesis by (rule consent.sound_andthen) (use assms in auto)
qed

text \<open>What a member has read of a card.\<close>

lemma read_card: "consent_inv X M pd w \<Longrightarrow> get_card rid w = Some r \<Longrightarrow> faithful X w rid r"
  by (simp add: consent_inv_def get_card_def split: if_splits)

lemma read_cards: "consent_inv X M pd w \<Longrightarrow> r \<in> set (all_cards w) \<Longrightarrow> \<exists>rid. well_typed rid r"
  by (force simp: consent_inv_def all_cards_def faithful_def)

lemma typed_items:
  assumes "well_typed rid r"
  shows "item ''id'' r = Inr (JStr rid)" "card_id X r = Inr rid" "\<exists>op. item ''op'' r = Inr op"
    "\<exists>s. item ''resolved_path'' r = Inr (JStr s)" "\<exists>s. item ''content'' r = Inr (JStr s)"
    "\<exists>s. item ''content_sha'' r = Inr (JStr s)"
  using assms by (auto simp: well_typed_def item_def card_id_def)

lemma longer_back: "longer t u \<Longrightarrow> longer w t \<Longrightarrow> longer w u"
  using consent.trans by blast

lemma sound_landed:
  assumes "well_typed rid r" "Q = unharmed" "consent_inv X M pd w"
  shows "consent.sound X M pd Q w (landed rid r op p)"
proof -
  obtain sha where "item ''content_sha'' r = Inr (JStr sha)" using typed_items(6) [OF assms(1)] by blast
  then show ?thesis unfolding landed_def assms(2)
    by (auto intro!: consent.sound_look sound_final split: if_split)
qed

lemma sound_failed: "consent.sound X M pd unharmed w (failed_write rid op p e)"
  unfolding failed_write_def by (auto intro!: sound_mark)

lemma sound_write:
  assumes "staged_as X w rid op path content" "check_write_target X M d pd path op = Inr p"
    and "\<And>x t. longer w t \<Longrightarrow> consent_inv X M pd t \<Longrightarrow> consent.sound X M pd Q t (k x)" "consent_inv X M pd w"
  shows "consent.sound X M pd Q w (andthen (write_file rid p op content) k)"
proof -
  have last: "consent.sound X M pd (\<lambda>_. True) t (atomic (write_target rid p op at_end i (separated sep content)))"
    if t: "longer w t" for t at_end i sep
    unfolding atomic_def
  proof (rule consent.sound.steps)
    fix u assume "longer t u" "consent_inv X M pd u"
    moreover have "staged_as X u rid op path content"
      using longer_facts(1) [OF consent.trans [OF t \<open>longer t u\<close>] assms(1)] .
    ultimately have "consent.allowed X M pd u (snd (write_target rid p op at_end i (separated sep content) u))"
      using write_allowed assms(2) by blast
    then show "consent.allowed X M pd u (snd (map_prod Done (\<lambda>s. s) (write_target rid p op at_end i (separated sep content) u))) \<and>
        consent.sound X M pd (\<lambda>_. True) (snd (map_prod Done (\<lambda>s. s) (write_target rid p op at_end i (separated sep content) u)))
          (fst (map_prod Done (\<lambda>s. s) (write_target rid p op at_end i (separated sep content) u)))"
      by simp
  qed
  have calm: "consent.allowed X M pd t (snd (make_parents q t))" "consent.allowed X M pd t (snd (open_target e q t))"
    if "consent_inv X M pd t" for t q e
    using that by (auto intro: calm_allowed simp: quiet_steps)
  have "consent.sound X M pd (\<lambda>_. True) t (andok (atomic (open_target at_end p)) (\<lambda>i.
      atomic (write_target rid p op at_end i (separated sep content))))" if "longer w t" for t at_end sep
    unfolding andok_def
    by (rule sound_step) (auto intro!: calm last split: sum.split dest: consent.trans [OF that])
  then have rest: "consent.sound X M pd (\<lambda>_. True) t (andok (if at_end then look (needs_separator p) else Done (Inr False)) (\<lambda>sep.
      andok (atomic (open_target at_end p)) (\<lambda>i.
      atomic (write_target rid p op at_end i (separated sep content)))))" if "longer w t" for t at_end
    using that by (cases at_end) (auto simp: andok_def intro!: consent.sound_look split: sum.split dest: consent.trans [OF that])
  have "consent.sound X M pd (\<lambda>_. True) w (write_file rid p op content)"
    unfolding write_file_def Let_def andok_def [of "atomic (make_parents p)"]
  proof (rule sound_step [OF calm(1)], assumption)
    fix x t assume "longer w t"
    then show "consent.sound X M pd (\<lambda>_. True) t (case x of Inl e \<Rightarrow> Done (Inl e)
        | Inr _ \<Rightarrow> andok (if op \<noteq> JStr ''create'' then look (needs_separator p) else Done (Inr False)) (\<lambda>sep.
            andok (atomic (open_target (op \<noteq> JStr ''create'') p)) (\<lambda>i.
            atomic (write_target rid p op (op \<noteq> JStr ''create'') i (separated sep content)))))"
      by (cases x) (simp_all only: sum.case sound_done rest)
  qed
  then show ?thesis by (rule consent.sound_andthen) (use assms(3,4) in auto)
qed

lemma sound_claim:
  assumes "faithful X w rid r" "dget ''op'' r = Some op" "dget ''content'' r = Some (JStr content)"
    and "dget ''resolved_path'' r = Some (JStr path)" "check_write_target X M d pd path op = Inr p"
  shows "consent.sound X M pd unharmed w (claim_and_write rid r op j content p)"
proof -
  have st: "staged_as X w rid op path content" and typed: "well_typed rid r"
    using assms by (auto simp: faithful_def)
  have "consent.sound X M pd unharmed t
      (andthen (write_file rid p op content) (\<lambda>res. case res of Inl e \<Rightarrow> failed_write rid op p e | Inr _ \<Rightarrow> landed rid r op p))"
    if "longer w t" "consent_inv X M pd t" for t
    by (rule sound_write [OF longer_facts(1) [OF that(1) st] assms(5)])
      (auto intro: sound_failed sound_landed [OF typed] that(2) split: sum.split)
  then show ?thesis unfolding claim_and_write_def
    by (intro consent.sound_look sound_mark) (auto dest: consent.trans simp del: sum.case_cong)
qed

lemma sound_refuse: "consent.sound X M pd unharmed w (refuse_write rid op j err)"
  unfolding refuse_write_def by (auto intro!: sound_mark)

lemma sound_recheck:
  assumes "faithful X w rid r"
  shows "consent.sound X M pd unharmed w (with_fields r (recheck_and_write X M pd rid r))"
proof -
  obtain op path content where r: "dget ''op'' r = Some op" "dget ''content'' r = Some (JStr content)"
      "dget ''resolved_path'' r = Some (JStr path)"
    using assms by (auto simp: faithful_def)
  have "consent.sound X M pd unharmed t (claim_and_write rid r op (JStr path) content p)"
    if "longer w t" "check_write_target X M d pd path op = Inr p" for t d p
    using sound_claim [OF longer_facts(2) [OF that(1) assms] r that(2)] .
  note later = this
  have "consent.sound X M pd unharmed w (recheck_and_write X M pd rid r op (JStr content) (JStr path))"
    unfolding recheck_and_write_def json.case
  proof (rule consent.sound_look)
    fix t assume t: "longer w t"
    have "consent.sound X M pd unharmed u (claim_and_write rid r op (JStr path) content p)"
      if "longer t u" "check_write_target X M (disk_of t) pd path op = Inr p" for u p
      using later [OF consent.trans [OF t that(1)] that(2)] .
    then show "consent.sound X M pd unharmed t
        (case check_write_target X M (disk_of t) pd path op of
           Inl err \<Rightarrow> refuse_write rid op (JStr path) err
         | Inr p \<Rightarrow> andthen (look (\<lambda>w. check_size (disk_of w) content op p)) (\<lambda>g.
             case g of Inl _ \<Rightarrow> refuse_write rid op (JStr path) ''size check failed''
             | Inr _ \<Rightarrow> claim_and_write rid r op (JStr path) content p))"
      by (auto intro!: consent.sound_look sound_refuse split: sum.split)
  qed
  then show ?thesis using r by (simp add: with_fields_def item_def)
qed

lemma sound_commit: "consent.sound X M pd unharmed w (commit_write X M pd rid)"
  unfolding commit_write_def
proof (rule consent.sound_look)
  fix t assume t: "consent_inv X M pd t"
  show "consent.sound X M pd unharmed t
      (case get_card rid t of
         None \<Rightarrow> Done (Inr (refusal ''not a pending write''))
       | Some r \<Rightarrow>
           if \<not> has_status ''pending'' r then Done (Inr (refusal ''not a pending write''))
           else andthen (look clock) (\<lambda>now.
             if is_expired r now then
               andok (atomic (mark rid ''expired'' (Some ''pending'') [])) (\<lambda>_.
               Done (Inr (refusal (''this write expired (older than 24h) '' @ em_dash @ '' ask again''))))
             else with_fields r (recheck_and_write X M pd rid r)))"
  proof (cases "get_card rid t")
    case (Some r)
    have "consent.sound X M pd unharmed u (with_fields r (recheck_and_write X M pd rid r))" if "longer t u" for u
      using sound_recheck [OF longer_facts(2) [OF that read_card [OF t Some]]] .
    then show ?thesis using Some by (auto intro!: consent.sound_look sound_mark)
  qed simp
qed

lemma sound_just_look: "consent.sound X M pd (\<lambda>_. True) w (look g)"
  unfolding look_def by (rule consent.sound.steps) (simp add: calm_allowed)

lemma sound_note:
  assumes "consent_inv X M pd w"
  shows "consent.sound X M pd unharmed w (write_note X M pd op content making p)"
proof -
  have c: "consent.sound X M pd unharmed t (andthen (commit_write X M pd i) (\<lambda>res. Done (written_reply p res)))"
    if "consent_inv X M pd t" for t i
    by (rule consent.sound_andthen [OF sound_commit that])
      (auto simp: written_reply_def unharmed_def split: sum.split json.split)
  show ?thesis unfolding write_note_def
    by (rule consent.sound_andthen [where Q' = "\<lambda>_. True"])
      (use assms in \<open>auto intro!: consent.sound_look consent.sound_andok_look sound_create c
        simp: open_store_def sound_just_look split: option.split\<close>)
qed

lemma find_mem: "find P xs = Some x \<Longrightarrow> x \<in> set xs"
  by (induction xs) (auto split: if_splits)

lemma sound_stage: "consent.sound X M pd unharmed w (stage_card X op content making p)"
proof -
  have found: "\<exists>x. find_duplicate op q sha now t = Inr x" if "consent_inv X M pd t" for q sha now t
  proof (cases "find (same_write op q sha) (list_pending now t)")
    case (Some r)
    then have "r \<in> set (all_cards t)" by (auto simp: list_pending_def dest: find_mem)
    then show ?thesis using read_cards [OF that] Some typed_items(1) by (force simp: find_duplicate_def)
  qed (simp add: find_duplicate_def)
  have dup: "consent.sound X M pd unharmed s (andok (look (find_duplicate op q sha now)) k)"
    if "\<And>x t. longer s t \<Longrightarrow> consent_inv X M pd t \<Longrightarrow> consent.sound X M pd unharmed t (k x)" for q sha now s k
    by (rule consent.sound_andok_look) (use found [of _ q sha now] that in force)
  show ?thesis unfolding stage_card_def
    by (auto intro!: consent.sound_look sound_create sound_step dup audit_allowed split: option.split)
qed

lemma sound_propose: "consent.sound X M pd unharmed w (propose_write X M works pd path content op making)"
  unfolding propose_write_def propose_text_def
  by (auto intro!: consent.sound_look sound_note sound_stage split: option.split sum.split)

lemma sound_decline: "consent.sound X M pd unharmed w (decline_write X rid)"
proof -
  have "\<exists>op s. item ''op'' r = Inr op \<and> item ''resolved_path'' r = Inr (JStr s)" if "faithful X t rid r" for t r
    using typed_items that unfolding faithful_def by blast
  then show ?thesis unfolding decline_write_def
    by (intro consent.sound_look) (force split: option.split intro!: sound_mark dest: read_card)
qed

lemma sound_sweep: "consent.sound X M pd unharmed w (sweep_expired X now)"
proof -
  have cards: "\<forall>r \<in> set rs. \<exists>rid. well_typed rid r \<Longrightarrow> consent.sound X M pd unharmed t (sweep_cards X now n rs)" for rs n t
  proof (induction rs arbitrary: n t)
    case (Cons r rs)
    then obtain rid where "card_id X r = Inr rid" using typed_items(2) by force
    then show ?case using Cons by (auto intro!: sound_mark)
  qed simp
  show ?thesis unfolding sweep_expired_def
    by (intro consent.sound_look cards) (auto dest: read_cards)
qed

lemma sound_settle:
  assumes "fst v \<in> {''committed'', ''error''}"
  shows "consent.sound X M pd (\<lambda>_. True) w (settle rid r op path p v)"
proof -
  obtain st ev wire why where v: "v = (st, ev, wire, why)" by (cases v)
  have "proper_mark st (Some ''committing'') [(''resolved_by'', JStr ''reconcile'')]" using assms v by auto
  then show ?thesis unfolding settle_def v prod.case
    by (intro consent.sound_andok_look) (auto intro!: sound_mark split: sum.split)
qed

lemma sound_reconcile_one: "consent.sound X M pd (\<lambda>_. True) w (reconcile_one X M now stale r)"
proof -
  have "consent.sound X M pd (\<lambda>_. True) t (case by_verdict v age of None \<Rightarrow> Done (Inr False) | Some s \<Rightarrow> settle rid r op path p s)"
    for t v age rid op path p
    by (auto simp: by_verdict_def intro!: sound_settle split: sighting.split option.split)
  then have "consent.sound X M pd (\<lambda>_. True) t (andok (look g)
      (\<lambda>v. case by_verdict v age of None \<Rightarrow> Done (Inr False) | Some s \<Rightarrow> settle rid r op path p s))" for t g age rid op path p
    by (intro consent.sound_andok_look) (simp split: sum.split)
  then show ?thesis unfolding reconcile_one_def by (auto split: sum.split json.split option.split)
qed

lemma sound_reconcile:
  assumes "consent_inv X M pd w"
  shows "consent.sound X M pd unharmed w (reconcile_stale_commits X M now stale)"
proof -
  have "consent_inv X M pd t \<Longrightarrow> consent.sound X M pd unharmed t (reconcile_cards X M now stale n rs)" for rs n t
  proof (induction rs arbitrary: n t)
    case (Cons r rs)
    show ?case unfolding reconcile_cards.simps
      by (rule consent.sound_andthen [OF sound_reconcile_one Cons.prems]) (use Cons.IH in blast)
  qed simp
  then show ?thesis unfolding reconcile_stale_commits_def by (intro consent.sound_look)
qed

lemma sound_route:
  "(\<And>t. consent_inv X M pd t \<Longrightarrow> consent.sound X M pd unharmed t q) \<Longrightarrow> consent.sound X M pd unharmed w (consent_route X i q)"
  unfolding consent_route_def
  by (auto intro!: consent.sound_look consent.sound_andok_look simp: open_store_def split: option.split)

lemma members_sound: "q \<in> members X M works pd \<Longrightarrow> consent_inv X M pd w \<Longrightarrow> consent.sound X M pd unharmed w q"
  unfolding members_def approve_write_route_def decline_write_route_def
  by (elim CollectE disjE exE)
    (simp_all add: sound_route sound_commit sound_decline sound_sweep sound_reconcile sound_propose)

lemma reached_facts:
  assumes "pool_runs (members X M works pd) elsewhere ([], w0) c" "cards w0 = []" "events w0 = []"
  shows "consent_inv X M pd (snd c) \<and> list_all (consent.sound X M pd unharmed (snd c)) (fst c)"
proof (rule consent.sound_pool [OF assms(1)])
  show "consent_inv X M pd (snd ([], w0))"
    using assms(2,3) by (simp add: consent_inv_def claims_def stagings_def is_pending_def)
  show "consent.allowed X M pd s t" if "elsewhere s t" "consent_inv X M pd s" for s t
    using that by (intro calm_allowed) (simp_all add: elsewhere_def)
qed (simp_all add: members_sound)

section \<open>What any interleaving keeps\<close>

text \<open>
  C3: Consent is used up. However proposals, approvals, refusals, sweeps and recoveries interleave, stop
  half-way or fail, and whatever happens to the disk meanwhile: a card is written at most as often as it
  was claimed, and claimed at most as often as it was staged, and while it waits for an answer one
  staging is left unclaimed. So a card staged once is written at most once, and never before a claim.
\<close>

theorem writes_use_up_consent:
  assumes "pool_runs (members X M works persona_dir) elsewhere ([], w0) c" "cards w0 = []" "events w0 = []"
  shows "landings rid (snd c) \<le> claims rid (snd c) \<and>
    claims rid (snd c) + of_bool (is_pending rid (snd c)) \<le> stagings rid (snd c)"
  using landings_claimed [OF assms(1,3)] reached_facts [OF assms] by (simp add: consent_inv_def)

text \<open>
  C15: What reaches the disk is what was staged. Every write of every interleaving writes the text of a
  staged card with at most one line break before it, for the operation of that card, to a path that the
  write guard accepted for the card's target.
\<close>

theorem writes_are_as_staged:
  assumes "pool_runs (members X M works persona_dir) elsewhere ([], w0) c" "cards w0 = []" "events w0 = []"
    and "Landed rid p op bs \<in> set (events (snd c))"
  shows "\<exists>path content sep d. staged_as X (snd c) rid op path content \<and> bs = separated sep content \<and>
    check_write_target X M d persona_dir path op = Inr p"
  using reached_facts [OF assms(1-3)] assms(4) by (fastforce simp: consent_inv_def consented_def)

text \<open>
  C23: The cards keep their types. In every interleaving each card has its fields with texts in them and
  one of the seven statuses, under the name of its file; so no approval, refusal, sweep, recovery or
  proposal ever ends in a \<open>KeyError\<close>, \<open>TypeError\<close> or \<open>AttributeError\<close>.
\<close>

theorem cards_keep_types:
  assumes "pool_runs (members X M works persona_dir) elsewhere ([], w0) c" "cards w0 = []" "events w0 = []"
  shows "(\<forall>(rid, r) \<in> set (cards (snd c)). well_typed rid r) \<and>
    (\<forall>e. Done (Inl e) \<in> set (fst c) \<longrightarrow> e \<notin> {KeyError, TypeError, AttributeError})"
proof -
  have "well_typed rid r" if "(rid, r) \<in> set (cards (snd c))" for rid r
    using reached_facts [OF assms] that by (auto simp: consent_inv_def faithful_def)
  moreover have "unharmed (Inl e :: json res)" if "Done (Inl e) \<in> set (fst c)" for e
    using reached_facts [OF assms] that by (auto simp: list_all_iff)
  ultimately show ?thesis by (auto simp: unharmed_def)
qed

section \<open>One approval\<close>

definition calm :: "files \<Rightarrow> bool" where
  "calm w \<longleftrightarrow> \<not> save_fails w \<and> \<not> disk_fails w \<and> disk_room w = None \<and> \<not> audit_fails w \<and> \<not> memory_fails w"

text \<open>What an opened file holds, and whether a line break goes before the text.\<close>

definition break_before :: "bytes \<Rightarrow> bool" where
  "break_before old \<longleftrightarrow> old \<noteq> [] \<and> last old \<noteq> 10"

lemma opened_file:
  assumes "open_file at_end p d = Inr (i, d')" "\<not> disk_fails w"
  obtains old where "inodes d' i = Regular old" "at_end \<Longrightarrow> needs_separator p (w\<lparr>disk_of := d\<rparr>) = Inr (break_before old)"
    "\<not> at_end \<Longrightarrow> old = []"
proof -
  obtain q where w: "walk d [] [] (map Comp p) = (q, True)"
    using assms(1) by (auto simp: open_file_def split: prod.splits bool.splits)
  then have st: "stat d p = node_at d q" by (simp add: stat_def reaches_def node_at_def)
  show thesis
  proof (cases "node_at d q")
    case None
    then have "inodes d' i = Regular []" using assms(1) w by (auto simp: open_file_def enter_def split: if_splits)
    then show thesis using None st by (intro that [of "[]"]) (auto simp: needs_separator_def break_before_def)
  next
    case (Some n)
    then obtain b where b: "n = Regular b" using assms(1) w by (auto simp: open_file_def split: node.splits)
    with Some have ino: "inodes d (the (ino_at d q)) = Regular b" by (auto simp: node_at_def)
    have "i = the (ino_at d q)" "inodes d' i = Regular (if at_end then b else [])"
      using assms(1) w Some b ino by (auto simp: open_file_def)
    then show thesis using Some st b assms(2)
      by (intro that [of "if at_end then b else []"]) (auto simp: needs_separator_def break_before_def)
  qed
qed

lemma write_opened:
  "inodes d i = Regular old \<Longrightarrow> at_end \<or> old = [] \<Longrightarrow> inodes (write_bytes at_end i bs d) i = Regular (old @ bs) \<and>
     (\<forall>j. j \<noteq> i \<longrightarrow> inodes (write_bytes at_end i bs d) j = inodes d j) \<and> names (write_bytes at_end i bs d) = names d"
  by (auto simp: write_bytes_def)

lemma alone_write_file:
  assumes "calm w" "mkdir_parents (butlast p) (disk_of w) = Inr d" "open_file (op \<noteq> JStr ''create'') p d = Inr (i, d')"
  obtains old where "inodes d' i = Regular old" "op = JStr ''create'' \<Longrightarrow> old = []"
    "alone (write_file rid p op content) w = (Inr (),
       note_event (Landed rid p op (separated (break_before old) content))
         (w\<lparr>disk_of := write_bytes (op \<noteq> JStr ''create'') i (separated (break_before old) content) d'\<rparr>))"
proof -
  have nf: "\<not> disk_fails w" "disk_room w = None" using assms(1) by (simp_all add: calm_def)
  obtain old where old: "inodes d' i = Regular old"
      "op \<noteq> JStr ''create'' \<Longrightarrow> needs_separator p (w\<lparr>disk_of := d\<rparr>) = Inr (break_before old)"
      "op = JStr ''create'' \<Longrightarrow> old = []"
    using opened_file [OF assms(3) nf(1)] by metis
  show thesis
  proof (rule that [OF old(1) old(3)])
    show "alone (write_file rid p op content) w = (Inr (),
       note_event (Landed rid p op (separated (break_before old) content))
         (w\<lparr>disk_of := write_bytes (op \<noteq> JStr ''create'') i (separated (break_before old) content) d'\<rparr>))"
      using old(2,3) assms(2,3) nf
      by (auto simp: write_file_def alone_andok make_parents_def open_target_def write_target_def Let_def break_before_def)
  qed
qed

lemma mark_takes:
  assumes "get_card rid w = Some r" "ex = None \<or> (\<exists>e. ex = Some e \<and> has_status e r)" "\<not> save_fails w"
  shows "mark rid st ex extra w = (Inr True, note_event (Marked rid st) (put_card rid (marked st extra r) w))"
  using assms by (auto simp: mark_def)

lemma get_put: "get_card rid (put_card rid r w) = (if unreadable w rid then None else Some r)"
  by (simp add: get_card_def put_card_def update_conv')

lemma get_note [simp]: "get_card rid (note_event e w) = get_card rid w"
  by (simp add: get_card_def note_event_def)

lemma calm_fields [simp]:
  "calm (note_event e w) = calm w" "calm (put_card rid r w) = calm w" "calm (w\<lparr>disk_of := d\<rparr>) = calm w"
  "get_card rid (w\<lparr>disk_of := d\<rparr>) = get_card rid w" "disk_of (note_event e w) = disk_of w" "disk_of (put_card rid r w) = disk_of w"
  by (simp_all add: calm_def note_event_def put_card_def get_card_def)

text \<open>The claim and the write, alone.\<close>

lemma claim_run:
  assumes card: "get_card rid w = Some r" "has_status ''pending'' r" and sha: "dget ''content_sha'' r = Some sha"
    and opened: "mkdir_parents (butlast p) (disk_of w) = Inr d" "open_file (op \<noteq> JStr ''create'') p d = Inr (i, d')"
    and "calm w"
  shows "\<exists>w' old. alone (claim_and_write rid r op j content p) w = (Inr (JObj [(''ok'', JBool True), (''path'', JStr (show_path p))]), w') \<and>
    inodes d' i = Regular old \<and> (op = JStr ''create'' \<longrightarrow> old = []) \<and>
    inodes (disk_of w') i = Regular (old @ (if break_before old then [10] else []) @ utf8_enc content) \<and>
    (\<forall>j. j \<noteq> i \<longrightarrow> inodes (disk_of w') j = inodes d' j) \<and> names (disk_of w') = names d' \<and>
    (\<exists>r'. get_card rid w' = Some r' \<and> has_status ''committed'' r') \<and>
    events w' = events w @ [Marked rid ''committing'', Landed rid p op (separated (break_before old) content), Marked rid ''committed''] \<and>
    length (file_audit w') = Suc (length (file_audit w)) \<and> length (wired w') = Suc (length (wired w))"
proof -
  define cl where "cl = put_card rid (marked ''committing'' [(''claimed_at'', JStr (isoformat (clock w)))] r) w"
  define w1 where "w1 = note_event (Marked rid ''committing'') cl"
  have nu: "\<not> unreadable w rid" using card(1) by (simp add: get_card_def split: if_splits)
  have m1: "mark rid ''committing'' (Some ''pending'') [(''claimed_at'', JStr (isoformat (clock w)))] w = (Inr True, w1)"
    using mark_takes [OF card(1), of "Some ''pending''"] card(2) \<open>calm w\<close> by (simp add: w1_def cl_def calm_def)
  have w1: "calm w1" "disk_of w1 = disk_of w" "\<exists>r1. get_card rid w1 = Some r1 \<and> \<not> given_up (Some r1)"
      "\<not> unreadable w1 rid" "file_audit w1 = file_audit w" "wired w1 = wired w"
      "events w1 = events w @ [Marked rid ''committing'']"
    using \<open>calm w\<close> nu
    by (simp_all add: w1_def cl_def get_put given_up_def has_status_def field_def dget_or_def dget_marked)
      (simp_all add: note_event_def put_card_def)
  obtain old where old: "inodes d' i = Regular old" "op = JStr ''create'' \<Longrightarrow> old = []"
      "alone (write_file rid p op content) w1 = (Inr (),
         note_event (Landed rid p op (separated (break_before old) content))
           (w1\<lparr>disk_of := write_bytes (op \<noteq> JStr ''create'') i (separated (break_before old) content) d'\<rparr>))"
    using alone_write_file [OF w1(1), of p d op i d' rid content] opened w1(2) by metis
  define dd where "dd = write_bytes (op \<noteq> JStr ''create'') i (separated (break_before old) content) d'"
  define w2 where "w2 = note_event (Landed rid p op (separated (break_before old) content)) (w1\<lparr>disk_of := dd\<rparr>)"
  obtain r1 where r1: "get_card rid w1 = Some r1" "\<not> given_up (Some r1)" using w1(3) by blast
  have w2: "calm w2" "get_card rid w2 = Some r1" "disk_of w2 = dd" "\<not> unreadable w2 rid" "file_audit w2 = file_audit w" "wired w2 = wired w"
      "events w2 = events w @ [Marked rid ''committing'', Landed rid p op (separated (break_before old) content)]"
    using w1 r1 by (simp_all add: w2_def) (simp_all add: note_event_def)
  define w3 where "w3 = note_event (Marked rid ''committed'') (put_card rid (marked ''committed'' [] r1) w2)"
  have m3: "mark rid ''committed'' None [] w2 = (Inr True, w3)"
    using mark_takes [OF w2(2), of None] w2(1) by (simp add: w3_def calm_def)
  have w3: "calm w3" "get_card rid w3 = Some (marked ''committed'' [] r1)" "disk_of w3 = dd" "file_audit w3 = file_audit w" "wired w3 = wired w"
      "events w3 = events w @ [Marked rid ''committing'', Landed rid p op (separated (break_before old) content), Marked rid ''committed'']"
    using w2 by (simp_all add: w3_def get_put) (simp_all add: note_event_def put_card_def)
  define w4 where "w4 = snd (wire_memory (show_path p) ''committed''
    (snd (audit ''commit'' (JStr rid) op (JStr (show_path p)) sha ''committed'' None w3)))"
  have w4: "get_card rid w4 = Some (marked ''committed'' [] r1)" "disk_of w4 = dd"
      "length (file_audit w4) = Suc (length (file_audit w))" "length (wired w4) = Suc (length (wired w))" "events w4 = events w3"
    using w3 by (simp_all add: w4_def wire_memory_def audit_def calm_def get_card_def split: if_splits)
  have run: "alone (claim_and_write rid r op j content p) w = (Inr (JObj [(''ok'', JBool True), (''path'', JStr (show_path p))]), w4)"
    using sha m1 m3 old(3) w2(2) r1(2)
    by (simp add: item_def claim_and_write_def landed_def mark_final_def
        alone_andthen alone_andok audit_row_def w4_def w2_def [symmetric] dd_def [symmetric] split: prod.split)
  have st: "has_status ''committed'' (marked ''committed'' [] r1)"
    by (simp add: has_status_def field_def dget_or_def dget_marked)
  have "op \<noteq> JStr ''create'' \<or> old = []" using old(2) by blast
  from write_opened [OF old(1) this, of "separated (break_before old) content"] show ?thesis
    using run w4 w3(6) st old(1,2) by (intro exI [of _ w4] exI [of _ old]) (simp add: dd_def separated_def)
qed

lemma approval_run:
  assumes card: "get_card rid w = Some r" "has_status ''pending'' r" "\<not> is_expired r (clock w)"
    and fields: "dget ''op'' r = Some op" "dget ''content'' r = Some (JStr content)"
      "dget ''resolved_path'' r = Some (JStr path)" "dget ''content_sha'' r = Some sha"
    and guard: "check_write_target X M (disk_of w) persona_dir path op = Inr p" "check_size (disk_of w) content op p = Inr q"
    and opened: "mkdir_parents (butlast p) (disk_of w) = Inr d" "open_file (op \<noteq> JStr ''create'') p d = Inr (i, d')"
    and "calm w"
  shows "\<exists>w' old. alone (commit_write X M persona_dir rid) w = (Inr (JObj [(''ok'', JBool True), (''path'', JStr (show_path p))]), w') \<and>
    inodes d' i = Regular old \<and> (op = JStr ''create'' \<longrightarrow> old = []) \<and>
    inodes (disk_of w') i = Regular (old @ (if break_before old then [10] else []) @ utf8_enc content) \<and>
    (\<forall>j. j \<noteq> i \<longrightarrow> inodes (disk_of w') j = inodes d' j) \<and> names (disk_of w') = names d' \<and>
    (\<exists>r'. get_card rid w' = Some r' \<and> has_status ''committed'' r') \<and>
    events w' = events w @ [Marked rid ''committing'', Landed rid p op (separated (break_before old) content), Marked rid ''committed''] \<and>
    length (file_audit w') = Suc (length (file_audit w)) \<and> length (wired w') = Suc (length (wired w)) \<and>
    alone (commit_write X M persona_dir rid) w' = (Inr (refusal ''not a pending write''), w')"
proof -
  from claim_run [OF card(1,2) fields(4) opened \<open>calm w\<close>, of "JStr path" content] obtain w' old where
    run: "alone (claim_and_write rid r op (JStr path) content p) w = (Inr (JObj [(''ok'', JBool True), (''path'', JStr (show_path p))]), w')"
    and rest: "inodes d' i = Regular old \<and> (op = JStr ''create'' \<longrightarrow> old = [])"
      "inodes (disk_of w') i = Regular (old @ (if break_before old then [10] else []) @ utf8_enc content) \<and>
       (\<forall>j. j \<noteq> i \<longrightarrow> inodes (disk_of w') j = inodes d' j) \<and> names (disk_of w') = names d'"
      "\<exists>r'. get_card rid w' = Some r' \<and> has_status ''committed'' r'"
      "events w' = events w @ [Marked rid ''committing'', Landed rid p op (separated (break_before old) content), Marked rid ''committed''] \<and>
       length (file_audit w') = Suc (length (file_audit w)) \<and> length (wired w') = Suc (length (wired w))"
    by (elim exE conjE) blast
  have "alone (commit_write X M persona_dir rid) w = alone (claim_and_write rid r op (JStr path) content p) w"
    using card fields guard by (simp add: commit_write_def with_fields_def item_def recheck_and_write_def alone_andthen)
  moreover have "alone (commit_write X M persona_dir rid) w' = (Inr (refusal ''not a pending write''), w')"
    using rest(3) by (auto simp: commit_write_def alone_andthen has_status_def)
  ultimately show ?thesis using run rest by (intro exI [of _ w'] exI [of _ old]) simp
qed

text \<open>
  C17: An approval does what was asked, once. When a fresh pending card passes the guard, its folder exists
  and nothing fails, the approval answers with the path; the target then ends with the staged text, on a
  line of its own and after what an append found there; no other file changes; the card is committed, one
  audit row and one memory are added; and approving it again is refused and changes nothing.
\<close>

theorem approval_writes:
  assumes card: "get_card rid w = Some r" "has_status ''pending'' r" "\<not> is_expired r (clock w)"
    and fields: "dget ''op'' r = Some op" "dget ''content'' r = Some (JStr content)"
      "dget ''resolved_path'' r = Some (JStr path)" "dget ''content_sha'' r = Some sha"
    and guard: "check_write_target X M (disk_of w) persona_dir path op = Inr p" "check_size (disk_of w) content op p = Inr q"
    and opened: "mkdir_parents (butlast p) (disk_of w) = Inr d" "open_file (op \<noteq> JStr ''create'') p d = Inr (i, d')"
    and "calm w"
  shows "\<exists>w' old. alone (commit_write X M persona_dir rid) w = (Inr (JObj [(''ok'', JBool True), (''path'', JStr (show_path p))]), w') \<and>
    inodes d' i = Regular old \<and> (op = JStr ''create'' \<longrightarrow> old = []) \<and>
    inodes (disk_of w') i = Regular (old @ (if break_before old then [10] else []) @ utf8_enc content) \<and>
    (\<forall>j. j \<noteq> i \<longrightarrow> inodes (disk_of w') j = inodes d' j) \<and> names (disk_of w') = names d' \<and>
    (\<exists>r'. get_card rid w' = Some r' \<and> has_status ''committed'' r') \<and>
    events w' = events w @ [Marked rid ''committing'', Landed rid p op (separated (break_before old) content), Marked rid ''committed''] \<and>
    length (file_audit w') = Suc (length (file_audit w)) \<and> length (wired w') = Suc (length (wired w)) \<and>
    alone (commit_write X M persona_dir rid) w' = (Inr (refusal ''not a pending write''), w')"
  using assms by (rule approval_run)

section \<open>Recovery finds what was written\<close>

text \<open>A line break is never inside a character, so the bytes before and after it decode on their own.\<close>

lemma front_break:
  assumes "b \<noteq> []"
  shows "utf8_front (b @ 10 # c) = utf8_front (b @ [10]) \<and> snd (utf8_front (b @ [10])) \<le> length b"
proof -
  have n: "\<not> is_cont 10" "\<not> second_ok a 10" for a by (simp_all add: is_cont_def second_ok_def)
  consider x where "b = [x]" | x y where "b = [x, y]" | x y z where "b = [x, y, z]" | x y z u v where "b = x # y # z # u # v"
    using assms by (metis neq_Nil_conv)
  then show ?thesis
    by cases (auto simp: utf8_front_def Let_def n nth_append)
qed

lemma units_break: "utf8_units (b @ 10 # c) = utf8_units (b @ [10]) @ utf8_units c"
proof (induction "length b" arbitrary: b rule: less_induct)
  case less
  show ?case
  proof (cases "b = []")
    case True
    have "utf8_units (10 # c) = Some 10 # utf8_units c" for c
      using utf8_units_ascii [of 10 c] by simp
    then show ?thesis using True by (simp add: utf8_units.simps [of "[]"])
  next
    case False
    let ?n = "snd (utf8_front (b @ [10]))"
    have f: "utf8_front (b @ 10 # c) = utf8_front (b @ [10])" "?n \<le> length b" for c
      using front_break [OF False] by auto
    have "0 < ?n" by (rule utf8_front_pos)
    then have "utf8_units (drop ?n b @ 10 # c) = utf8_units (drop ?n b @ [10]) @ utf8_units c"
      using False by (intro less) simp
    moreover have "utf8_units (b @ 10 # c) = fst (utf8_front (b @ [10])) # utf8_units (drop ?n b @ 10 # c)" for c
    proof -
      have "utf8_units (b @ 10 # c) = fst (utf8_front (b @ 10 # c)) # utf8_units (drop (snd (utf8_front (b @ 10 # c))) (b @ 10 # c))"
        by (subst utf8_units.simps) simp
      then show ?thesis unfolding f(1) [of c] using f(2) by simp
    qed
    note step = this
    show ?thesis unfolding step [of c] step [of "[]"] by (simp add: calculation)
  qed
qed

lemma decode_break: "decode_replace (b @ 10 # c) = decode_replace (b @ [10]) @ decode_replace c"
  unfolding decode_replace_def units_break [of b c] by simp

lemma decode_ends: "\<exists>s. decode_replace (b @ [10]) = s @ [10]"
proof (induction "length b" arbitrary: b rule: less_induct)
  case less
  have one: "utf8_units [10] = [Some 10]" using utf8_units_ascii [of 10 "[]"] by (simp add: utf8_units.simps [of "[]"])
  show ?case
  proof (cases "b = []")
    case True
    then show ?thesis using one by (simp add: decode_replace_def)
  next
    case False
    let ?n = "snd (utf8_front (b @ [10]))"
    have le: "?n \<le> length b" using front_break [OF False, of "[]"] by simp
    have "0 < ?n" by (rule utf8_front_pos)
    then obtain s where "decode_replace (drop ?n b @ [10]) = s @ [10]"
      using less [of "drop ?n b"] False by auto
    then show ?thesis using False le
      by (subst decode_replace_def, subst utf8_units.simps) (simp add: decode_replace_def)
  qed
qed

lemma newlines_break:
  "\<exists>t. newlines p (s @ 10 # u) = t @ newlines False u \<and> (if s = [] then t = (if p then [] else [10]) else t \<noteq> [] \<and> last t = 10)"
proof (induction s arbitrary: p)
  case (Cons n s)
  obtain t where t: "newlines q (s @ 10 # u) = t q @ newlines False u"
    "if s = [] then t q = (if q then [] else [10]) else t q \<noteq> [] \<and> last (t q) = 10" for q
    using Cons.IH by metis
  show ?case
  proof (cases "n = 10 \<and> p")
    case True
    then show ?thesis using t [of False] by (intro exI [of _ "t False"]) (auto split: if_splits)
  next
    case False
    then have "newlines p ((n # s) @ 10 # u) = ((if n = 13 then 10 else n) # t (n = 13)) @ newlines False u"
      using t(1) [of "n = 13"] False by auto
    moreover have "last ((if n = 13 then 10 else n) # t (n = 13)) = 10" using t(2) [of "n = 13"] by (auto split: if_splits)
    ultimately show ?thesis by (metis list.distinct(1))
  qed
qed simp

lemma split_break: "\<exists>ls. split_lines cur (t @ 10 # u) = ls @ split_lines [] u"
proof (induction t arbitrary: cur)
  case (Cons n t)
  then obtain ls where "split_lines (if line_break n then [] else cur @ [n]) (t @ 10 # u) = ls @ split_lines [] u" by blast
  then show ?case by (auto intro: exI [of _ "cur # ls"] exI [of _ ls])
qed (auto simp: line_break_def)

lemma splitlines_break: "\<exists>ls. splitlines (s @ 10 # u) = ls @ splitlines u"
proof -
  obtain t where t: "newlines False (s @ 10 # u) = t @ newlines False u" "t \<noteq> []" "last t = 10"
    using newlines_break [of False s u] by (auto split: if_splits)
  then have "newlines False (s @ 10 # u) = butlast t @ 10 # newlines False u"
    by (metis append_butlast_last_id append.assoc append_Cons append_Nil)
  then show ?thesis using split_break by (simp add: splitlines_def universal_newlines_def)
qed

lemma block_at_end:
  assumes "splitlines existing = ls @ splitlines content"
  shows "block_present existing content"
proof -
  let ?n = "length (splitlines content)"
  have "length ls \<in> set [0..<Suc (length (splitlines existing)) - ?n]" "take ?n (drop (length ls) (splitlines existing)) = splitlines content"
    using assms by simp_all
  then show ?thesis unfolding block_present_def Let_def list_ex_iff by blast
qed

lemma written_block_held: "holds_block op content (old @ separated (break_before old) content)"
proof (cases "op = JStr ''create''")
  case True
  have "sublist (utf8_enc content) (old @ (if break_before old then [10] else []) @ utf8_enc content)"
    by (metis append.assoc append.right_neutral sublist_appendI)
  then show ?thesis using True by (simp add: holds_block_def separated_def)
next
  case False
  have c: "decode_replace (utf8_enc content) = points content"
    using decode_enc [of content "[]"] by (simp add: decode_replace_def utf8_units.simps)
  have "\<exists>ls. splitlines (decode_replace (old @ separated (break_before old) content)) = ls @ splitlines (points content)"
  proof (cases "old = []")
    case True
    then show ?thesis using c by (simp add: separated_def break_before_def)
  next
    case False
    obtain b where b: "old @ separated (break_before old) content = b @ 10 # utf8_enc content"
    proof (cases "break_before old")
      case True
      then show thesis using that [of old] by (simp add: separated_def)
    next
      case no: False
      then have "last old = 10" using False by (simp add: break_before_def)
      then obtain b0 where "old = b0 @ [10]" using append_butlast_last_id [OF False] by metis
      with no show thesis by (intro that [of b0]) (simp add: separated_def)
    qed
    obtain s where "decode_replace (b @ [10]) = s @ [10]" using decode_ends by blast
    then have "decode_replace (b @ 10 # utf8_enc content) = s @ 10 # points content"
      using decode_break [of b "utf8_enc content"] c by simp
    then show ?thesis using b splitlines_break by metis
  qed
  then show ?thesis using False block_at_end by (force simp: holds_block_def)
qed

text \<open>
  C28: Recovery does not invent. Whatever it decides about a stale claim, it leaves the disk alone and moves
  at most the one card, from \<open>committing\<close>; it records \<open>committed\<close> only when the target is a regular file that
  holds the whole block, and otherwise \<open>error\<close>.
\<close>

theorem recovery_is_truthful:
  assumes "alone (reconcile_one X M now stale_after r) w = (res, w')"
  shows "disk_of w' = disk_of w \<and>
    (cards w' = cards w \<and> events w' = events w \<or>
     (\<exists>rid r0 st. res = Inr True \<and> card_id X r = Inr rid \<and> get_card rid w = Some r0 \<and> has_status ''committing'' r0 \<and>
        cards w' = AList.update rid (marked st [(''resolved_by'', JStr ''reconcile'')] r0) (cards w) \<and>
        (st = ''error'' \<or> st = ''committed'' \<and> (\<exists>path content b op. dget ''resolved_path'' r = Some (JStr path) \<and>
           dget ''content'' r = Some (JStr content) \<and> dget ''op'' r = Some op \<and>
           stat (disk_of w) (path_of M path) = Some (Regular b) \<and> holds_block op content b))))"
proof -
  have settled: "disk_of w' = disk_of w \<and> (cards w' = cards w \<and> events w' = events w \<or>
      (\<exists>r0. res = Inr True \<and> get_card rid w = Some r0 \<and> has_status ''committing'' r0 \<and>
         cards w' = AList.update rid (marked st [(''resolved_by'', JStr ''reconcile'')] r0) (cards w)))"
    if "alone (settle rid r op path p (st, ev, wire, why)) w = (res, w')" for rid op path p st ev wire why
    using that
    by (auto simp: settle_def alone_andok alone_andthen open_store_def mark_def audit_row_def audit_def wire_memory_def
        put_card_def note_event_def split: if_splits option.splits)
  show ?thesis
  proof (cases "\<exists>rid op path p v s. card_id X r = Inr rid \<and> item ''op'' r = Inr op \<and> item ''resolved_path'' r = Inr path \<and> path = JStr p \<and>
      inspect_target M op (item ''content'' r) p w = Inr v \<and> by_verdict v (claim_age r now) = Some s \<and>
      alone (settle rid r op path p s) w = (res, w')")
    case False
    then have "w' = w" using assms
      by (auto simp: reconcile_one_def alone_andok split: sum.splits json.splits option.splits if_splits prod.splits)
    then show ?thesis by simp
  next
    case True
    then obtain rid op p v st ev wire why where rid: "card_id X r = Inr rid" and it: "item ''op'' r = Inr op" "item ''resolved_path'' r = Inr (JStr p)"
      and v: "inspect_target M op (item ''content'' r) p w = Inr v" "by_verdict v (claim_age r now) = Some (st, ev, wire, why)"
      and run: "alone (settle rid r op (JStr p) p (st, ev, wire, why)) w = (res, w')" by (metis prod_cases4)
    have "st = ''error'' \<or> st = ''committed'' \<and> v = Present" using v(2) by (auto simp: by_verdict_def split: sighting.splits option.splits if_splits)
    moreover have "\<exists>content b. dget ''content'' r = Some (JStr content) \<and> stat (disk_of w) (path_of M p) = Some (Regular b) \<and> holds_block op content b"
      if "v = Present"
      using v(1) that by (auto simp: inspect_target_def Let_def item_def split: if_splits option.splits node.splits sum.splits json.splits)
    moreover have "dget ''op'' r = Some op" "dget ''resolved_path'' r = Some (JStr p)"
      using it by (auto simp: item_def split: option.splits)
    ultimately show ?thesis using settled [OF run] rid by blast
  qed
qed

text \<open>
  C22: A write that landed is recognised. Once the stale gate has passed, recovery finds the block a crashed
  approval left in the file, whatever bytes the file held before, and records the card as committed with
  its memory.
\<close>

theorem recovery_recognises_write:
  assumes card: "well_typed rid r" "get_card rid w = Some r" "has_status ''committing'' r"
    and stale: "case claim_age r now of None \<Rightarrow> True | Some a \<Rightarrow> stale_after < a"
    and fields: "dget ''op'' r = Some op" "dget ''content'' r = Some (JStr content)" "dget ''resolved_path'' r = Some (JStr path)"
    and there: "reaches (disk_of w) (path_of M path) = Some i" "\<not> target_hidden w"
      "inodes (disk_of w) i = Regular (old @ separated (break_before old) content)"
      "length (old @ separated (break_before old) content) \<le> MAX_RESULT_FILE_BYTES"
    and "calm w"
  shows "\<exists>w' r'. alone (reconcile_one X M now stale_after r) w = (Inr True, w') \<and> get_card rid w' = Some r' \<and>
    has_status ''committed'' r' \<and> wired w' = wired w @ [(wire_text path ''committed'', ''committed'')]"
proof -
  let ?b = "old @ separated (break_before old) content"
  have "snd (walk (disk_of w) [] [] (map Comp (path_of M path)))" using there(1) by (auto simp: reaches_def split: prod.splits if_splits)
  then have v: "inspect_target M op (Inr (JStr content)) path w = Inr Present"
    using there written_block_held [of op content old] by (simp add: inspect_target_def Let_def stat_def)
  have nu: "\<not> unreadable w rid" using card(2) by (simp add: get_card_def split: if_splits)
  define ex where "ex = [(''resolved_by'', JStr ''reconcile'')]"
  have m: "mark rid ''committed'' (Some ''committing'') ex w = (Inr True, note_event (Marked rid ''committed'') (put_card rid (marked ''committed'' ex r) w))"
    using mark_takes [OF card(2), of "Some ''committing''"] card(3) \<open>calm w\<close> by (simp add: calm_def)
  have st: "has_status ''committed'' (marked ''committed'' ex r)"
    by (simp add: has_status_def field_def dget_or_def dget_marked ex_def)
  have "\<not> (case claim_age r now of None \<Rightarrow> False | Some a \<Rightarrow> a \<le> stale_after)" using stale by (auto split: option.splits)
  then show ?thesis
    using typed_items(2) [OF card(1)] fields v m st \<open>calm w\<close> nu
    by (auto simp: reconcile_one_def item_def alone_andok by_verdict_def settle_def ex_def [symmetric] open_store_def alone_andthen
        audit_row_def calm_def audit_def wire_memory_def note_event_def put_card_def get_card_def update_conv' split: option.splits)
qed

section \<open>Proposals\<close>

lemma fresh_after_update:
  "length (filter P (map snd (filter U (AList.update rid r cs)))) \<le> Suc (length (filter P (map snd (filter U cs))))"
  by (induction cs) auto

definition same_cards :: "files \<Rightarrow> files \<Rightarrow> bool" where
  "same_cards w w' \<longleftrightarrow> cards w' = cards w \<and> unreadable w' = unreadable w"

lemma same_cards_count: "same_cards w w' \<Longrightarrow> count_pending now w' = count_pending now w"
  by (simp add: same_cards_def count_pending_def list_pending_def all_cards_def)

lemma audit_same_cards [simp]: "same_cards w (snd (audit ev i op path sha outcome err w))" "same_cards w w"
  by (simp_all add: same_cards_def audit_def)

lemma count_after_create:
  "count_pending now (snd (create_card X op path content t making w)) \<le> Suc (count_pending now w)"
proof (cases "save_fails w")
  case False
  then show ?thesis
    using fresh_after_update [of "fresh_pending now" "\<lambda>(i, _). \<not> unreadable w i"]
    by (simp only: count_pending_def list_pending_def all_cards_def create_card_def note_event_def put_card_def Let_def)
      simp
qed (simp add: create_card_def Let_def)

lemma alone_propose:
  assumes "notes_folder w = None"
  shows "same_cards w (snd (alone (propose_write X M works pd path content op making) w)) \<or>
    (\<exists>c p. alone (propose_write X M works pd path content op making) w = alone (stage_card X op c making p) w)"
proof -
  have "same_cards w (snd (alone (propose_text X M pd path c op making) w)) \<or>
      (\<exists>t p. alone (propose_text X M pd path c op making) w = alone (stage_card X op t making p) w)" for c
  proof (cases "check_write_target X M (disk_of w) pd path op")
    case (Inr p)
    show ?thesis
    proof (cases "check_size (disk_of w) c op p")
      case (Inr q)
      then have "alone (propose_text X M pd path c op making) w = alone (stage_card X op c making p) w"
        using \<open>check_write_target X M (disk_of w) pd path op = Inr p\<close> assms
        by (simp add: propose_text_def alone_andthen is_within_authorized_def)
      then show ?thesis by blast
    qed (simp add: Inr propose_text_def alone_andthen audit_row_def split_beta)
  qed (simp add: propose_text_def alone_andthen audit_row_def split_beta)
  note staged = this
  have "(\<exists>c. propose_write X M works pd path content op making = propose_text X M pd path c op making) \<or>
      (\<exists>x. propose_write X M works pd path content op making = Done x)"
    by (auto simp: propose_write_def split: option.split)
  then show ?thesis
  proof (elim disjE exE)
    fix c assume "propose_write X M works pd path content op making = propose_text X M pd path c op making"
    then show ?thesis using staged [of c] by simp
  qed simp
qed

text \<open>
  Proposals alone cannot flood the user: with no notes folder a proposal leaves at most ten cards
  waiting, whatever it proposes, if there were at most ten.
\<close>

theorem proposals_bounded:
  assumes "count_pending (clock w) w \<le> MAX_PENDING" "notes_folder w = None"
  shows "count_pending (clock w) (snd (alone (propose_write X M works persona_dir path content op making) w)) \<le> MAX_PENDING"
proof -
  have "count_pending (clock w) (snd (alone (stage_card X op c making p) w)) \<le> MAX_PENDING" for c p
  proof (cases "find_duplicate op (show_path p) (content_sha X c) (clock w) w")
    case (Inl e)
    then show ?thesis using assms(1) by (simp add: stage_card_def alone_andthen alone_andok)
  next
    case (Inr x)
    then show ?thesis using assms(1) count_after_create [of "clock w" X op "show_path p" c "clock w" making w]
        same_cards_count [OF audit_same_cards(1)]
      by (cases x; cases "create_card X op (show_path p) c (clock w) making w"; cases "MAX_PENDING \<le> count_pending (clock w) w")
        (auto simp: stage_card_def alone_andthen alone_andok audit_row_def split_beta split: sum.split)
  qed
  note staged = this
  from alone_propose [OF assms(2), of X M works persona_dir path content op making] show ?thesis
  proof (elim disjE exE)
    fix c p
    assume "alone (propose_write X M works persona_dir path content op making) w = alone (stage_card X op c making p) w"
    then show ?thesis using staged [of c p] by simp
  qed (use assms(1) same_cards_count in fastforce)
qed

lemma set_update_subset: "set (AList.update k v al) \<subseteq> insert (k, v) (set al)"
  by (induction al) auto

text \<open>
  The same write is not staged twice. After a proposal that staged a card, the same proposal within the
  day, with the card still waiting, answers that it is already staged and leaves the cards as they are.
\<close>

theorem proposing_again:
  assumes first: "alone (propose_write X M works persona_dir path (Some content) op making) w = (Inr (JObj reply), w1)"
      "field ''status'' reply = JStr ''proposed''"
    and calm: "notes_folder w = None" "\<forall>(rid, r) \<in> set (cards w). well_typed rid r" "\<forall>rid. \<not> unreadable w rid"
    and now: "valid_time (clock w)" "clock w \<le> t" "t \<le> clock w + TTL"
  shows "\<exists>reply' w2. alone (propose_write X M works persona_dir path (Some content) op making) (w1\<lparr>clock := t\<rparr>) = (Inr (JObj reply'), w2) \<and>
    field ''status'' reply' = JStr ''already_proposed'' \<and> cards w2 = cards w1"
proof -
  let ?sha = "content_sha X content"
  obtain p q where g: "check_write_target X M (disk_of w) persona_dir path op = Inr p" "check_size (disk_of w) content op p = Inr q"
    and st: "alone (stage_card X op content making p) w = (Inr (JObj reply), w1)"
    using first calm(1)
    by (auto simp: propose_write_def propose_text_def alone_andthen audit_row_def is_within_authorized_def tool_error_def
        field_def dget_or_def split: sum.splits prod.splits)
  define rid where "rid = new_id X (show_path p) content (clock w)"
  define r where "r = new_card X rid op (show_path p) content (clock w) making"
  have w1: "cards w1 = AList.update rid r (cards w)" "disk_of w1 = disk_of w" "notes_folder w1 = None" "unreadable w1 = unreadable w"
    using st first(2) calm(1)
    by (auto simp: stage_card_def alone_andthen alone_andok audit_row_def audit_def create_card_def Let_def note_event_def put_card_def
        tool_error_def field_def dget_or_def rid_def r_def split: sum.splits option.splits prod.splits if_splits)
  let ?w = "w1\<lparr>clock := t\<rparr>"
  have r: "same_write op (show_path p) ?sha r" "fresh_pending t r" "well_typed rid r"
    using now
    by (simp_all add: same_write_def fresh_pending_def r_def new_card_def field_def dget_or_def has_status_def card_age_def stamp_of_def
        fromisoformat_isoformat well_typed_def STATUSES_def)
  have "map_of (cards w1) rid = Some r" by (simp add: w1(1) update_conv')
  then have "r \<in> set (list_pending t ?w)"
    using r(2) calm(3) by (force simp: list_pending_def all_cards_def w1(4) dest: map_of_SomeD)
  then have "find (same_write op (show_path p) ?sha) (list_pending t ?w) \<noteq> None"
    using r(1) by (auto simp: find_None_iff)
  then obtain r' where r': "find (same_write op (show_path p) ?sha) (list_pending t ?w) = Some r'" by blast
  have "set (cards w1) \<subseteq> insert (rid, r) (set (cards w))"
    unfolding w1(1) by (rule set_update_subset)
  moreover have "r' \<in> snd ` set (cards w1)" using find_mem [OF r'] by (force simp: list_pending_def all_cards_def)
  ultimately obtain i where "well_typed i r'" using calm(2) r(3) by fastforce
  then have dup: "find_duplicate op (show_path p) ?sha t ?w = Inr (Some (JStr i))"
    using r' typed_items(1) by (simp add: find_duplicate_def)
  have stage: "\<exists>reply'. alone (stage_card X op content making p) ?w =
      (Inr (JObj reply'), snd (audit ''propose_deduped'' (JStr i) op (JStr (show_path p)) (JStr ?sha) [] None ?w)) \<and>
      field ''status'' reply' = JStr ''already_proposed''"
    using dup by (simp add: stage_card_def alone_andthen alone_andok field_def dget_or_def split: prod.split)
  then show ?thesis
    using g w1(2,3)
    by (auto simp: propose_write_def propose_text_def alone_andthen is_within_authorized_def audit_def)
qed

end
