(* ===== verification/Commit_Runs.thy ===== *)
theory Commit_Runs
  imports Commit_Laws Protocol
begin

text \<open>
  Concrete runs of the consent protocol: the witnesses of its properties, and how a race between the
  guard and the write ends.
\<close>

section \<open>A proposal\<close>

definition noon :: time where
  "noon = day * 700000 + hour * 12"

text \<open>Nothing staged, nothing failing.\<close>

definition quiet_files :: files where
  "quiet_files = \<lparr>disk_of = home_disk, cards = [], file_audit = [], wired = [], events = [], clock = noon, notes_folder = None,
     unreadable = (\<lambda>_. False), save_fails = False, disk_fails = False, disk_room = None, target_hidden = False,
     audit_fails = False, memory_fails = False\<rparr>"

abbreviation persona :: string where "persona \<equiv> ''/home/u/.kindled/p''"
abbreviation target :: path where "target \<equiv> [''home'', ''u'', ''notes'', ''b.txt'']"
abbreviation companions :: "(files, json res) proc set" where "companions \<equiv> members toy home_machine (\<lambda>_. None) persona"

definition hello_id :: string where
  "hello_id = new_id toy (show_path target) ''hello'' noon"

definition hello_card :: dict where
  "hello_card = new_card toy hello_id (JStr ''create'') (show_path target) ''hello'' noon None"

definition proposal :: "(files, json res) proc" where
  "proposal = propose_write toy home_machine (\<lambda>_. None) persona ''~/notes/b.txt'' (Some ''hello'') (JStr ''create'') None"

definition approval :: "(files, json res) proc" where
  "approval = commit_write toy home_machine persona hello_id"

definition staged_files :: files where
  "staged_files = snd (alone proposal quiet_files)"

lemma guard_accepts:
  "check_write_target toy home_machine home_disk persona ''~/notes/b.txt'' (JStr ''create'') = Inr target"
  "check_write_target toy home_machine home_disk persona (show_path target) (JStr ''create'') = Inr target"
  by code_simp+

lemma size_accepted: "check_size home_disk ''hello'' (JStr ''create'') target = Inr target"
  by (simp add: check_size_def utf8_enc_def MAX_WRITE_BYTES_def Let_def)

lemma quiet_fields [simp]:
  "disk_of quiet_files = home_disk" "cards quiet_files = []" "events quiet_files = []" "clock quiet_files = noon"
  "notes_folder quiet_files = None" "unreadable quiet_files = (\<lambda>_. False)" "wired quiet_files = []" "calm quiet_files"
  "target_hidden quiet_files = False"
  by (simp_all add: quiet_files_def calm_def)

lemma proposal_run:
  "alone proposal quiet_files =
     (Inr (JObj [(''status'', JStr ''proposed''), (''id'', JStr hello_id),
        (''note'', JStr (''proposed create of '' @ show_path target @ '' '' @ em_dash @ '' awaiting your confirmation in NellFace''))]),
      snd (audit ''propose'' (JStr hello_id) (JStr ''create'') (JStr (show_path target)) (JStr (content_sha toy ''hello'')) [] None
        (note_event (Staged hello_id hello_card) (put_card hello_id hello_card quiet_files))))"
proof -
  have e: "find_duplicate op p sha noon quiet_files = Inr None" "count_pending noon quiet_files = 0" for op p sha
    by (simp_all add: find_duplicate_def count_pending_def list_pending_def all_cards_def)
  have c: "create_card toy (JStr ''create'') (show_path target) ''hello'' noon None quiet_files =
      (Inr hello_id, note_event (Staged hello_id hello_card) (put_card hello_id hello_card quiet_files))"
    by (simp add: create_card_def hello_id_def [symmetric] hello_card_def [symmetric] Let_def) (simp add: quiet_files_def)
  have "alone (stage_card toy (JStr ''create'') ''hello'' None target) quiet_files = (Inr (JObj [(''status'', JStr ''proposed''), (''id'', JStr hello_id),
        (''note'', JStr (''proposed create of '' @ show_path target @ '' '' @ em_dash @ '' awaiting your confirmation in NellFace''))]),
      snd (audit ''propose'' (JStr hello_id) (JStr ''create'') (JStr (show_path target)) (JStr (content_sha toy ''hello'')) [] None
        (note_event (Staged hello_id hello_card) (put_card hello_id hello_card quiet_files))))"
    unfolding stage_card_def alone_andthen alone_andok alone_simps quiet_fields prod.case e sum.case option.case c
    by (simp add: MAX_PENDING_def alone_andthen alone_andok audit_row_def text_or_empty_def c split: prod.split)
  then show ?thesis
    by (simp add: proposal_def propose_write_def propose_text_def alone_andthen guard_accepts size_accepted is_within_authorized_def)
qed

lemma staged_facts:
  "cards staged_files = [(hello_id, hello_card)]" "events staged_files = [Staged hello_id hello_card]"
  "disk_of staged_files = home_disk" "clock staged_files = noon" "unreadable staged_files = (\<lambda>_. False)"
  "calm staged_files" "get_card hello_id staged_files = Some hello_card" "notes_folder staged_files = None"
  unfolding staged_files_def proposal_run
  by (simp_all add: audit_def note_event_def put_card_def quiet_files_def calm_def get_card_def)

lemma hello_fields:
  "dget ''op'' hello_card = Some (JStr ''create'')" "dget ''content'' hello_card = Some (JStr ''hello'')"
  "dget ''resolved_path'' hello_card = Some (JStr (show_path target))"
  "dget ''content_sha'' hello_card = Some (JStr (content_sha toy ''hello''))"
  "dget ''id'' hello_card = Some (JStr hello_id)" "dget ''status'' hello_card = Some (JStr ''pending'')"
  "dget ''proposed_at'' hello_card = Some (JStr (isoformat noon))"
  "has_status ''pending'' hello_card"
  by (simp_all add: hello_card_def new_card_def has_status_def field_def dget_or_def)

lemma hello_fresh: "\<not> is_expired hello_card noon"
proof -
  have "valid_time noon" by (simp add: valid_time_def noon_def)
  then show ?thesis
    by (simp add: is_expired_def card_age_def hello_fields field_def dget_or_def stamp_of_def fromisoformat_isoformat TTL_def)
qed

lemma proposal_in: "proposal \<in> companions" and approval_in: "approval \<in> companions"
  by (simp_all add: members_def proposal_def approval_def) blast+

lemma staged_runs: "pool_runs companions elsewhere ([], quiet_files) ([Done (fst (alone proposal quiet_files))], staged_files)"
proof -
  have run: "alone proposal quiet_files = (fst (alone proposal quiet_files), staged_files)" by (simp add: staged_files_def)
  show ?thesis using next_runs [OF pool_runs.start proposal_in run, of elsewhere "[]"] by simp
qed

section \<open>An approval\<close>

lemma folder_there: "mkdir_parents (butlast target) home_disk = Inr home_disk"
proof -
  have "filter (\<lambda>q. q \<noteq> []) (prefixes (butlast target)) = [[''home''], [''home'', ''u''], [''home'', ''u'', ''notes'']]" by simp
  moreover have "stat home_disk [''home''] = Some Folder" "stat home_disk [''home'', ''u''] = Some Folder"
    "stat home_disk [''home'', ''u'', ''notes''] = Some Folder"
    by (simp_all add: stat_def reaches_def home_disk_def node_at_def ino_at_def)
  ultimately show ?thesis by (simp add: mkdir_parents_def)
qed

lemma target_opens: "\<exists>i d'. open_file (JStr ''create'' \<noteq> JStr ''create'') target home_disk = Inr (i, d')"
  by (simp add: open_file_def home_disk_def node_at_def ino_at_def)

lemma approval_happens:
  obtains w' where "pool_runs companions elsewhere ([], quiet_files)
      ([Done (fst (alone proposal quiet_files)), Done (fst (alone approval staged_files))], w')"
    "events w' = [Staged hello_id hello_card, Marked hello_id ''committing'',
       Landed hello_id target (JStr ''create'') (utf8_enc ''hello''), Marked hello_id ''committed'']"
proof -
  obtain i d' where o': "open_file (JStr ''create'' \<noteq> JStr ''create'') target home_disk = Inr (i, d')" using target_opens by blast
  have "\<exists>w' old. alone approval staged_files = (Inr (JObj [(''ok'', JBool True), (''path'', JStr (show_path target))]), w') \<and>
     (JStr ''create'' = JStr ''create'' \<longrightarrow> old = []) \<and>
     events w' = events staged_files @ [Marked hello_id ''committing'', Landed hello_id target (JStr ''create'') (separated (break_before old) ''hello''),
       Marked hello_id ''committed'']"
    using approval_run [of hello_id staged_files hello_card "JStr ''create''" "''hello''" "show_path target" _ toy home_machine persona target target home_disk i d']
      staged_facts hello_fields hello_fresh guard_accepts(2) size_accepted folder_there o'
    unfolding approval_def by fastforce
  then obtain w' where w': "alone approval staged_files = (Inr (JObj [(''ok'', JBool True), (''path'', JStr (show_path target))]), w')"
      "events w' = [Staged hello_id hello_card, Marked hello_id ''committing'',
         Landed hello_id target (JStr ''create'') (utf8_enc ''hello''), Marked hello_id ''committed'']"
    by (auto simp: staged_facts separated_def break_before_def)
  show thesis
    by (rule that [of w']) (use next_runs [OF staged_runs approval_in w'(1)] w' in simp_all)
qed

lemma writes_use_up_consent_witness:
  "\<exists>c. pool_runs companions elsewhere ([], quiet_files) c \<and> landings hello_id (snd c) = 1 \<and> claims hello_id (snd c) \<le> stagings hello_id (snd c)"
proof -
  obtain w' where w: "pool_runs companions elsewhere ([], quiet_files)
      ([Done (fst (alone proposal quiet_files)), Done (fst (alone approval staged_files))], w')"
    "events w' = [Staged hello_id hello_card, Marked hello_id ''committing'',
       Landed hello_id target (JStr ''create'') (utf8_enc ''hello''), Marked hello_id ''committed'']"
    by (rule approval_happens)
  have "landings hello_id w' = 1" using w(2) by (simp add: landings_def)
  then show ?thesis using writes_use_up_consent [OF w(1), of hello_id] w(1) by fastforce
qed

lemma writes_are_as_staged_witness:
  "\<exists>w. (\<exists>path content sep d. staged_as toy w hello_id (JStr ''create'') path content \<and> utf8_enc ''hello'' = separated sep content \<and>
     check_write_target toy home_machine d persona path (JStr ''create'') = Inr target)"
proof -
  obtain w' where w: "pool_runs companions elsewhere ([], quiet_files)
      ([Done (fst (alone proposal quiet_files)), Done (fst (alone approval staged_files))], w')"
    "events w' = [Staged hello_id hello_card, Marked hello_id ''committing'',
       Landed hello_id target (JStr ''create'') (utf8_enc ''hello''), Marked hello_id ''committed'']"
    by (rule approval_happens)
  show ?thesis using writes_are_as_staged [OF w(1), of hello_id target "JStr ''create''" "utf8_enc ''hello''"] w(2) by auto
qed

lemma cards_keep_types_witness: "well_typed hello_id hello_card"
  using cards_keep_types [OF staged_runs] by (simp add: staged_facts)

lemma approval_writes_witness:
  "\<exists>w'. alone (commit_write toy home_machine persona hello_id) staged_files
     = (Inr (JObj [(''ok'', JBool True), (''path'', JStr (show_path target))]), w')"
proof -
  obtain i d' where o': "open_file (JStr ''create'' \<noteq> JStr ''create'') target home_disk = Inr (i, d')" using target_opens by blast
  show ?thesis
    using approval_writes [of hello_id staged_files hello_card "JStr ''create''" "''hello''" "show_path target" _ toy home_machine persona target target home_disk i d']
      staged_facts hello_fields hello_fresh guard_accepts(2) size_accepted folder_there o'
    by fastforce
qed

lemma proposals_bounded_witness:
  "count_pending noon (snd (alone proposal quiet_files)) \<le> MAX_PENDING"
proof -
  have "count_pending (clock quiet_files) quiet_files \<le> MAX_PENDING"
    by (simp add: count_pending_def list_pending_def all_cards_def)
  from proposals_bounded [OF this quiet_fields(5)] show ?thesis by (simp add: proposal_def)
qed

lemma proposing_again_witness:
  "\<exists>reply' w2. alone proposal (staged_files\<lparr>clock := noon + hour\<rparr>) = (Inr (JObj reply'), w2) \<and>
     field ''status'' reply' = JStr ''already_proposed'' \<and> cards w2 = cards staged_files"
proof -
  have run: "alone proposal quiet_files = (Inr (JObj [(''status'', JStr ''proposed''), (''id'', JStr hello_id),
        (''note'', JStr (''proposed create of '' @ show_path target @ '' '' @ em_dash @ '' awaiting your confirmation in NellFace''))]), staged_files)"
    unfolding staged_files_def proposal_run by simp
  show ?thesis unfolding proposal_def
    by (rule proposing_again [OF run [unfolded proposal_def]])
      (simp_all add: field_def dget_or_def valid_time_def noon_def TTL_def)
qed

section \<open>A race\<close>

text \<open>The home with the target made, holding the given bytes.\<close>

definition made :: "bytes \<Rightarrow> disk" where
  "made bs = \<lparr>names = (target, 7) # names home_disk, inodes = (inodes home_disk)(7 := Regular bs)\<rparr>"

abbreviation taken_disk :: disk where
  "taken_disk \<equiv> made [66]"

definition taken_files :: files where
  "taken_files = staged_files\<lparr>disk_of := taken_disk\<rparr>"

lemma approval_guarded:
  "advance 4 (approval, staged_files) = (claim_and_write hello_id hello_card (JStr ''create'') (JStr (show_path target)) ''hello'' target, staged_files)"
  by (simp add: approval_def commit_write_def andthen_simps staged_facts hello_fields hello_fresh with_fields_def item_def
      recheck_and_write_def guard_accepts size_accepted numeral_eq_Suc)

lemma taken_opens:
  "node_at taken_disk target = Some (Regular [66])" "mkdir_parents (butlast target) taken_disk = Inr taken_disk"
  "open_file (JStr ''create'' \<noteq> JStr ''create'') target taken_disk = Inr (7, made [])"
proof -
  have p: "filter (\<lambda>q. q \<noteq> []) (prefixes (butlast target)) = [[''home''], [''home'', ''u''], [''home'', ''u'', ''notes'']]" by simp
  have "stat taken_disk [''home''] = Some Folder" "stat taken_disk [''home'', ''u''] = Some Folder"
    "stat taken_disk [''home'', ''u'', ''notes''] = Some Folder"
    by (simp_all add: stat_def reaches_def made_def home_disk_def node_at_def ino_at_def)
  then show "mkdir_parents (butlast target) taken_disk = Inr taken_disk" unfolding mkdir_parents_def p by simp
  show "node_at taken_disk target = Some (Regular [66])"
    "open_file (JStr ''create'' \<noteq> JStr ''create'') target taken_disk = Inr (7, made [])"
    by (simp_all add: open_file_def made_def home_disk_def node_at_def ino_at_def)
qed

text \<open>
  A create can overwrite. The guard refuses a target that exists, but the file is opened for writing
  only later: when another process makes the file after the guard has looked, the approval empties it and
  puts the staged text in its place, and reports success.
\<close>

theorem create_overwrites_late_file:
  "\<exists>c c'. pool_runs companions elsewhere ([], quiet_files) c \<and> node_at (disk_of (snd c)) target = Some (Regular [66]) \<and>
     pool_runs companions elsewhere c c' \<and> node_at (disk_of (snd c')) target = Some (Regular (utf8_enc ''hello'')) \<and>
     last (fst c') = Done (Inr (JObj [(''ok'', JBool True), (''path'', JStr (show_path target))]))"
proof -
  let ?done = "Done (fst (alone proposal quiet_files))"
  let ?rest = "claim_and_write hello_id hello_card (JStr ''create'') (JStr (show_path target)) ''hello'' target"
  have "pool_runs companions elsewhere ([], quiet_files) ([?done] @ [approval], staged_files)"
    using pool_runs.more [OF staged_runs joins [OF approval_in]] by simp
  then have "pool_runs companions elsewhere ([], quiet_files) ([?done] @ [?rest], staged_files)"
    using advance_runs [of companions elsewhere _ "[?done]" approval staged_files 4] approval_guarded by simp
  moreover have "elsewhere staged_files taken_files" by (simp add: elsewhere_def taken_files_def)
  ultimately have c: "pool_runs companions elsewhere ([], quiet_files) ([?done] @ [?rest], taken_files)"
    by (rule pool_runs.more [OF _ outside])
  have f: "get_card hello_id taken_files = Some hello_card" "calm taken_files" "disk_of taken_files = taken_disk"
    by (simp_all add: taken_files_def staged_facts)
  have m: "mkdir_parents (butlast target) (disk_of taken_files) = Inr taken_disk" by (simp only: f(3) taken_opens(2))
  obtain w' old where "alone ?rest taken_files = (Inr (JObj [(''ok'', JBool True), (''path'', JStr (show_path target))]), w')"
    and "JStr ''create'' = JStr ''create'' \<longrightarrow> old = []"
      "inodes (disk_of w') 7 = Regular (old @ (if break_before old then [10] else []) @ utf8_enc ''hello'')"
      "names (disk_of w') = names (made [])"
    using claim_run [OF f(1) hello_fields(8,4) m taken_opens(3) f(2), of "JStr (show_path target)" "''hello''"]
    by (elim exE conjE) (rule that)
  then have w': "alone ?rest taken_files = (Inr (JObj [(''ok'', JBool True), (''path'', JStr (show_path target))]), w')"
      "inodes (disk_of w') 7 = Regular (utf8_enc ''hello'')" "names (disk_of w') = names taken_disk"
    by (simp_all add: break_before_def made_def)
  have "pool_runs companions elsewhere ([?done] @ [?rest], taken_files) ([?done] @ [Done (Inr (JObj [(''ok'', JBool True), (''path'', JStr (show_path target))]))], w')"
    by (rule alone_runs [OF w'(1) pool_runs.start])
  moreover have "node_at (disk_of w') target = Some (Regular (utf8_enc ''hello''))"
    using w'(2,3) by (simp add: node_at_def ino_at_def made_def)
  ultimately show ?thesis using c f(3) taken_opens(1) by fastforce
qed

section \<open>A recovery\<close>

definition claimed_card :: dict where
  "claimed_card = marked ''committing'' [] hello_card"

text \<open>The approval crashed after its write.\<close>

definition crashed_files :: files where
  "crashed_files = (put_card hello_id claimed_card staged_files)\<lparr>disk_of := made (utf8_enc ''hello'')\<rparr>"

lemma recovery_is_truthful_witness:
  "disk_of (snd (alone (reconcile_one toy home_machine noon COMMIT_STALE claimed_card) crashed_files)) = disk_of crashed_files"
  using recovery_is_truthful [OF surjective_pairing] by blast

lemma recovery_recognises_write_witness:
  "\<exists>w' r'. alone (reconcile_one toy home_machine (noon + hour) COMMIT_STALE claimed_card) crashed_files = (Inr True, w') \<and>
     get_card hello_id w' = Some r' \<and> has_status ''committed'' r' \<and>
     wired w' = wired crashed_files @ [(wire_text (show_path target) ''committed'', ''committed'')]"
proof -
  have fields: "dget ''op'' claimed_card = Some (JStr ''create'')" "dget ''content'' claimed_card = Some (JStr ''hello'')"
    "dget ''resolved_path'' claimed_card = Some (JStr (show_path target))" "dget ''id'' claimed_card = Some (JStr hello_id)"
    "dget ''status'' claimed_card = Some (JStr ''committing'')" "dget ''proposed_at'' claimed_card = Some (JStr (isoformat noon))"
    "dget ''content_sha'' claimed_card = Some (JStr (content_sha toy ''hello''))" "dget ''claimed_at'' claimed_card = None"
    by (simp_all add: claimed_card_def dget_marked hello_fields) (simp add: hello_card_def new_card_def)
  have typed: "well_typed hello_id claimed_card" by (simp add: well_typed_def fields STATUSES_def)
  have "valid_time noon" by (simp add: valid_time_def noon_def)
  then have age: "claim_age claimed_card (noon + hour) = Some hour"
    by (simp add: claim_age_def field_def dget_or_def fields stamp_of_def fromisoformat_isoformat)
  have p: "path_of home_machine (show_path target) = target" by code_simp
  have d: "disk_of crashed_files = made (utf8_enc ''hello'')" by (simp add: crashed_files_def)
  have there: "reaches (made bs) target = Some 7" "inodes (made bs) 7 = Regular bs" for bs
    by (simp_all add: reaches_def node_at_def ino_at_def made_def home_disk_def)
  have c: "get_card hello_id crashed_files = Some claimed_card" "calm crashed_files" "\<not> target_hidden crashed_files"
    unfolding crashed_files_def staged_files_def proposal_run
    by (simp_all add: audit_def note_event_def put_card_def quiet_files_def calm_def get_card_def update_conv')
  show ?thesis
    by (rule recovery_recognises_write [OF typed c(1) _ _ fields(1,2,3), of _ _ _ 7 "[]"])
      (use age c there p d in \<open>simp_all add: has_status_def field_def dget_or_def fields COMMIT_STALE_def separated_def break_before_def
         MAX_RESULT_FILE_BYTES_def utf8_enc_def\<close>)
qed

section \<open>A listing\<close>

lemma listing_hides_denied_witness:
  "\<exists>l. list_directory toy home_machine home_disk persona ''~/n'' = Inr l \<and> sorted (map fst (l_entries l)) \<and> l_entries l \<noteq> []"
proof -
  have l: "list_directory toy home_machine home_disk persona ''~/n'' =
      Inr \<lparr>l_path = ''/home/u/notes'', l_entries = [(''a.txt'', False, Some 2)]\<rparr>"
    by code_simp
  show ?thesis using listing_hides_denied [OF l] l by auto
qed

end
