(* ===== verification/Hebbian.thy ===== *)
theory Hebbian
  imports Pytime
begin

text \<open>
  The graph of memories that were active together (\<open>memory/hebbian.py\<close>): weighted edges without a
  direction, each one row of a table whose key is the pair of its ends in order, and the spreading of
  activation from a set of seeds. A weight is a real number; that a failed write is rolled back makes
  every operation one step. Python iterates a set in an order of its own, so the spreading takes the
  order as an argument.
\<close>

section \<open>Edges\<close>

record edge =
  memory_a :: string
  memory_b :: string
  edge_weight :: real
  last_strengthened :: time

definition MAX_WEIGHT :: real where
  "MAX_WEIGHT = 10"

definition canonical :: "string \<Rightarrow> string \<Rightarrow> string \<times> string" where
  "canonical a b = (if a \<le> b then (a, b) else (b, a))"

definition ends :: "edge \<Rightarrow> string \<times> string" where
  "ends e = (memory_a e, memory_b e)"

text \<open>\<open>INSERT ... ON CONFLICT DO UPDATE\<close>: a fresh pair gets \<open>w\<close>, a present one \<open>f\<close> of its weight.\<close>

definition upsert :: "string \<times> string \<Rightarrow> real \<Rightarrow> (real \<Rightarrow> real) \<Rightarrow> time \<Rightarrow> edge list \<Rightarrow> edge list" where
  "upsert k w f now G =
     (if tget ends k G = None
      then G @ [\<lparr>memory_a = fst k, memory_b = snd k, edge_weight = w, last_strengthened = now\<rparr>]
      else tupd ends k (\<lambda>e. e\<lparr>edge_weight := f (edge_weight e), last_strengthened := now\<rparr>) G)"

definition strengthen :: "string \<Rightarrow> string \<Rightarrow> real \<Rightarrow> time \<Rightarrow> edge list \<Rightarrow> edge list res" where
  "strengthen a b delta now G =
     (if a = b then Inr G
      else if delta \<le> 0 then Inl ValueError
      else Inr (upsert (canonical a b) (min delta MAX_WEIGHT) (\<lambda>w. min (w + min delta MAX_WEIGHT) MAX_WEIGHT) now G))"

definition edge_weight_of :: "string \<Rightarrow> string \<Rightarrow> edge list \<Rightarrow> real" where
  "edge_weight_of a b G =
     (if a = b then 0 else (case tget ends (canonical a b) G of None \<Rightarrow> 0 | Some e \<Rightarrow> edge_weight e))"

definition neighbors :: "string \<Rightarrow> edge list \<Rightarrow> (string \<times> real) list" where
  "neighbors m G =
     map (\<lambda>e. (memory_b e, edge_weight e)) (filter (\<lambda>e. memory_a e = m) G) @
     map (\<lambda>e. (memory_a e, edge_weight e)) (filter (\<lambda>e. memory_b e = m) G)"

definition decay_all :: "real \<Rightarrow> edge list \<Rightarrow> edge list res" where
  "decay_all rate G =
     (if rate < 0 then Inl ValueError
      else Inr (map (\<lambda>e. e\<lparr>edge_weight := max (edge_weight e - rate) 0\<rparr>) G))"

definition garbage_collect :: "real \<Rightarrow> edge list \<Rightarrow> nat \<times> edge list" where
  "garbage_collect threshold G =
     (length (filter (\<lambda>e. edge_weight e < threshold) G), filter (\<lambda>e. \<not> edge_weight e < threshold) G)"

definition incident :: "string \<Rightarrow> edge \<Rightarrow> bool" where
  "incident m e \<longleftrightarrow> memory_a e = m \<or> memory_b e = m"

definition remove_memory :: "string \<Rightarrow> edge list \<Rightarrow> nat \<times> edge list" where
  "remove_memory m G = (length (filter (incident m) G), filter (\<lambda>e. \<not> incident m e) G)"

definition ensure_edge :: "string \<Rightarrow> string \<Rightarrow> real \<Rightarrow> time \<Rightarrow> edge list \<Rightarrow> bool \<times> edge list" where
  "ensure_edge a b w now G =
     (if a = b then (False, G)
      else (tget ends (canonical a b) G = None,
            tins ends \<lparr>memory_a = fst (canonical a b), memory_b = snd (canonical a b), edge_weight = w,
                       last_strengthened = now\<rparr> G))"

definition set_edge_weight :: "string \<Rightarrow> string \<Rightarrow> real \<Rightarrow> time \<Rightarrow> edge list \<Rightarrow> edge list res" where
  "set_edge_weight a b w now G =
     (if a = b then Inr G
      else if w \<le> 0 then Inl ValueError
      else Inr (upsert (canonical a b) (min w MAX_WEIGHT) (\<lambda>v. max v (min w MAX_WEIGHT)) now G))"

definition activation_count :: "string \<Rightarrow> edge list \<Rightarrow> nat" where
  "activation_count m G = length (filter (incident m) G)"

section \<open>Spreading activation\<close>

type_synonym activation = "string \<rightharpoonup> real"

definition level :: "activation \<Rightarrow> string \<Rightarrow> real" where
  "level act n = (case act n of None \<Rightarrow> 0 | Some x \<Rightarrow> x)"

text \<open>One neighbour of a node of the frontier; then all of them; then one round over the frontier.\<close>

fun push_along :: "real \<Rightarrow> string \<Rightarrow> string \<times> real \<Rightarrow> activation \<times> string list \<Rightarrow> activation \<times> string list" where
  "push_along decay node (nb, w) (act, nxt) =
     (let propagated = level act node * w * decay in
      if level act nb < propagated then (act(nb \<mapsto> propagated), List.insert nb nxt) else (act, nxt))"

definition relax :: "edge list \<Rightarrow> real \<Rightarrow> string \<Rightarrow> activation \<times> string list \<Rightarrow> activation \<times> string list" where
  "relax G decay node = fold (push_along decay node) (neighbors node G)"

definition hop :: "(string list \<Rightarrow> string list) \<Rightarrow> edge list \<Rightarrow> real \<Rightarrow> activation \<times> string list \<Rightarrow> activation \<times> string list" where
  "hop order G decay s = fold (relax G decay) (order (snd s)) (fst s, [])"

primrec hops :: "(string list \<Rightarrow> string list) \<Rightarrow> edge list \<Rightarrow> real \<Rightarrow> nat \<Rightarrow> activation \<times> string list \<Rightarrow> activation \<times> string list" where
  "hops order G decay 0 s = s"
| "hops order G decay (Suc n) s =
     (let s' = hop order G decay s in if snd s' = [] then s' else hops order G decay n s')"

definition seeded :: "string list \<Rightarrow> activation" where
  "seeded seeds = (\<lambda>n. if n \<in> set seeds then Some 1 else None)"

definition spreading_activation :: "(string list \<Rightarrow> string list) \<Rightarrow> edge list \<Rightarrow> string list \<Rightarrow> nat \<Rightarrow> real \<Rightarrow> activation" where
  "spreading_activation order G seeds depth decay = fst (hops order G decay depth (seeded seeds, remdups seeds))"

section \<open>The graph as a map from pairs\<close>

text \<open>
  What the table promises: a weight for some pairs of different memories, whichever way round they are named.
\<close>

type_synonym pairs = "string set \<rightharpoonup> real"

definition pair_of :: "edge \<Rightarrow> string set" where
  "pair_of e = {memory_a e, memory_b e}"

definition between :: "edge list \<Rightarrow> pairs" where
  "between G P = map_option edge_weight (tget pair_of P G)"

datatype graph_op =
    Strengthen string string real | Decay real | Collect real | Remove string
  | Ensure string string real | SetWeight string string real

text \<open>A call that raises leaves the graph alone.\<close>

definition unless_raised :: "'a \<Rightarrow> 'a res \<Rightarrow> 'a" where
  "unless_raised x r = (case r of Inl _ \<Rightarrow> x | Inr y \<Rightarrow> y)"

fun graph_call :: "time \<Rightarrow> graph_op \<Rightarrow> edge list \<Rightarrow> edge list" where
  "graph_call now (Strengthen a b d) G = unless_raised G (strengthen a b d now G)"
| "graph_call now (Decay r) G = unless_raised G (decay_all r G)"
| "graph_call now (Collect t) G = snd (garbage_collect t G)"
| "graph_call now (Remove m) G = snd (remove_memory m G)"
| "graph_call now (Ensure a b w) G = snd (ensure_edge a b w now G)"
| "graph_call now (SetWeight a b w) G = unless_raised G (set_edge_weight a b w now G)"

fun pair_call :: "graph_op \<Rightarrow> pairs \<Rightarrow> pairs" where
  "pair_call (Strengthen a b d) M =
     (if a \<noteq> b \<and> 0 < d then M({a, b} \<mapsto> min (case_option 0 (\<lambda>w. w) (M {a, b}) + d) MAX_WEIGHT) else M)"
| "pair_call (Decay r) M = (if r < 0 then M else (\<lambda>P. map_option (\<lambda>w. max (w - r) 0) (M P)))"
| "pair_call (Collect t) M = (\<lambda>P. case M P of None \<Rightarrow> None | Some w \<Rightarrow> if w < t then None else Some w)"
| "pair_call (Remove m) M = (\<lambda>P. if m \<in> P then None else M P)"
| "pair_call (Ensure a b w) M = (if a \<noteq> b \<and> M {a, b} = None then M({a, b} \<mapsto> w) else M)"
| "pair_call (SetWeight a b w) M =
     (if a \<noteq> b \<and> 0 < w then M({a, b} \<mapsto> max (case_option 0 (\<lambda>v. v) (M {a, b})) (min w MAX_WEIGHT)) else M)"

fun in_scale :: "graph_op \<Rightarrow> bool" where
  "in_scale (Ensure a b w) \<longleftrightarrow> 0 \<le> w \<and> w \<le> MAX_WEIGHT"
| "in_scale _ \<longleftrightarrow> True"

definition edges_wf :: "edge list \<Rightarrow> bool" where
  "edges_wf G \<longleftrightarrow> distinct (map ends G) \<and> (\<forall>e \<in> set G. memory_a e < memory_b e \<and> 0 \<le> edge_weight e \<and> edge_weight e \<le> MAX_WEIGHT)"

lemma canonical_less: "a \<noteq> b \<Longrightarrow> fst (canonical a b) < snd (canonical a b)"
  by (auto simp: canonical_def)

lemma set_canonical [simp]: "{fst (canonical a b), snd (canonical a b)} = {a, b}"
  by (auto simp: canonical_def)

lemma pair_of_canonical: "memory_a e < memory_b e \<Longrightarrow> a \<noteq> b \<Longrightarrow> pair_of e = {a, b} \<longleftrightarrow> ends e = canonical a b"
  by (auto simp: pair_of_def ends_def canonical_def doubleton_eq_iff)

lemma tget_pair:
  "\<forall>e \<in> set G. memory_a e < memory_b e \<Longrightarrow> a \<noteq> b \<Longrightarrow> tget pair_of {a, b} G = tget ends (canonical a b) G"
  by (induction G) (auto simp: pair_of_canonical)

lemma between_pair:
  "edges_wf G \<Longrightarrow> a \<noteq> b \<Longrightarrow> between G {a, b} = map_option edge_weight (tget ends (canonical a b) G)"
  by (simp add: between_def tget_pair edges_wf_def)

lemma between_dom:
  assumes "edges_wf G" "between G P = Some w"
  obtains a b where "a \<noteq> b" "P = {a, b}"
proof -
  from assms(2) obtain e where e: "tget pair_of P G = Some e" by (auto simp: between_def)
  have "pair_of e = P" "e \<in> set G" using tget_key [OF e] tget_mem [OF e] by auto
  then show ?thesis using assms(1) by (intro that [of "memory_a e" "memory_b e"]) (auto simp: edges_wf_def pair_of_def)
qed

lemma pair_dom: "edges_wf G \<Longrightarrow> between G P = Some w \<Longrightarrow> \<exists>a b. a \<noteq> b \<and> P = {a, b}"
  by (rule between_dom) blast+

lemma pair_upd_dom:
  assumes "edges_wf G" "a \<noteq> b" "((between G)({a, b} \<mapsto> x)) P = Some v"
  shows "\<exists>c d. c \<noteq> d \<and> P = {c, d}"
proof (cases "P = {a, b}")
  case False
  with assms(3) have "between G P = Some v" by simp
  then show ?thesis by (rule between_dom [OF assms(1)]) blast
qed (use assms(2) in blast)

lemma pairs_eqI:
  assumes "edges_wf G" "\<And>P w. M P = Some w \<Longrightarrow> \<exists>a b. a \<noteq> b \<and> P = {a, b}"
    and "\<And>a b. a \<noteq> b \<Longrightarrow> between G {a, b} = M {a, b}"
  shows "between G = M"
proof
  fix P
  show "between G P = M P"
  proof (cases "\<exists>a b. a \<noteq> b \<and> P = {a, b}")
    case False
    have "between G P = None" using False pair_dom [OF assms(1)] by (cases "between G P") auto
    moreover have "M P = None" using False assms(2) by (cases "M P") auto
    ultimately show ?thesis by simp
  qed (use assms(3) in auto)
qed

subsection \<open>Each operation\<close>

lemma edge_keys [simp]:
  "ends (e\<lparr>edge_weight := w, last_strengthened := t\<rparr>) = ends e"
  "ends \<lparr>memory_a = a, memory_b = b, edge_weight = w, last_strengthened = t\<rparr> = (a, b)"
  by (simp_all add: ends_def)

lemma upsert_wf:
  assumes wf: "edges_wf G" and ab: "a \<noteq> b" and w: "0 \<le> w" "w \<le> MAX_WEIGHT"
    and f: "\<And>v. 0 \<le> v \<Longrightarrow> v \<le> MAX_WEIGHT \<Longrightarrow> 0 \<le> f v \<and> f v \<le> MAX_WEIGHT"
  shows "edges_wf (upsert (canonical a b) w f now G)"
proof (cases "tget ends (canonical a b) G = None")
  case True
  then show ?thesis using wf canonical_less [OF ab] w by (auto simp: upsert_def edges_wf_def tget_None_iff)
next
  case False
  have "map ends (upsert (canonical a b) w f now G) = map ends G"
    using False by (auto simp: upsert_def intro!: map_key_tupd)
  moreover have "e \<in> set (upsert (canonical a b) w f now G) \<Longrightarrow>
      memory_a e < memory_b e \<and> 0 \<le> edge_weight e \<and> edge_weight e \<le> MAX_WEIGHT" for e
    using wf f False by (auto simp: edges_wf_def upsert_def tupd_def)
  ultimately show ?thesis using wf by (simp add: edges_wf_def)
qed

lemma tget_upsert_edge:
  "map_option edge_weight (tget ends k (upsert k' w f now G)) =
     (if k = k' then Some (case map_option edge_weight (tget ends k G) of None \<Rightarrow> w | Some v \<Rightarrow> f v)
      else map_option edge_weight (tget ends k G))"
proof (cases "tget ends k' G")
  case None
  then show ?thesis by (auto simp: upsert_def split: option.split)
next
  case (Some e)
  then show ?thesis by (auto simp: upsert_def tget_tupd option.map_comp o_def)
qed

lemma between_upsert:
  assumes wf: "edges_wf G" and ab: "a \<noteq> b" and ok: "edges_wf (upsert (canonical a b) w f now G)"
  shows "between (upsert (canonical a b) w f now G) =
    (between G)({a, b} \<mapsto> (case between G {a, b} of None \<Rightarrow> w | Some v \<Rightarrow> f v))"
proof (rule pairs_eqI [OF ok])
  fix P v
  assume "((between G)({a, b} \<mapsto> (case between G {a, b} of None \<Rightarrow> w | Some v \<Rightarrow> f v))) P = Some v"
  then show "\<exists>c d. c \<noteq> d \<and> P = {c, d}" by (rule pair_upd_dom [OF wf ab])
next
  fix c d :: string
  assume cd: "c \<noteq> d"
  have "canonical c d = canonical a b \<longleftrightarrow> {c, d} = {a, b}"
    using ab cd by (auto simp: canonical_def doubleton_eq_iff)
  then show "between (upsert (canonical a b) w f now G) {c, d} =
      ((between G)({a, b} \<mapsto> (case between G {a, b} of None \<Rightarrow> w | Some v \<Rightarrow> f v))) {c, d}"
    using between_pair [OF wf ab] by (auto simp: between_pair [OF ok cd] between_pair [OF wf cd] tget_upsert_edge)
qed

lemma between_mapped:
  "(\<And>e. pair_of (f e) = pair_of e) \<Longrightarrow> (\<And>e. edge_weight (f e) = g (edge_weight e)) \<Longrightarrow>
   between (map f G) P = map_option g (between G P)"
  by (induction G) (auto simp: between_def)

lemma between_Cons: "between (e # G) P = (if pair_of e = P then Some (edge_weight e) else between G P)"
  by (simp add: between_def)

lemma between_None_iff: "between G P = None \<longleftrightarrow> P \<notin> pair_of ` set G"
  by (simp add: between_def tget_None_iff)

lemma edges_wf_Cons:
  "edges_wf (e # G) \<longleftrightarrow> ends e \<notin> ends ` set G \<and> memory_a e < memory_b e \<and> 0 \<le> edge_weight e \<and> edge_weight e \<le> MAX_WEIGHT \<and> edges_wf G"
  by (auto simp: edges_wf_def)

lemma pair_of_fresh:
  "edges_wf (e # G) \<Longrightarrow> pair_of e \<notin> pair_of ` set G"
proof
  assume wf: "edges_wf (e # G)" and "pair_of e \<in> pair_of ` set G"
  then obtain e' where e': "e' \<in> set G" "pair_of e' = pair_of e" by auto
  then have "ends e' = ends e" using wf by (auto simp: edges_wf_def pair_of_def ends_def doubleton_eq_iff)
  with wf e' show False by (auto simp: edges_wf_Cons dest: sym)
qed

lemma between_filter:
  "edges_wf G \<Longrightarrow> between (filter q G) P = (case tget pair_of P G of None \<Rightarrow> None | Some e \<Rightarrow> if q e then Some (edge_weight e) else None)"
proof (induction G)
  case (Cons e G)
  have "between (filter q G) (pair_of e) = None"
    using pair_of_fresh [OF Cons.prems] by (auto simp: between_None_iff)
  with Cons show ?case by (auto simp: edges_wf_Cons between_Cons)
qed (simp add: between_def)

lemma filter_wf: "edges_wf G \<Longrightarrow> edges_wf (filter q G)"
  by (auto simp: edges_wf_def distinct_map_filter)

lemma ensure_wf:
  "edges_wf G \<Longrightarrow> a \<noteq> b \<Longrightarrow> 0 \<le> w \<Longrightarrow> w \<le> MAX_WEIGHT \<Longrightarrow>
   edges_wf (tins ends \<lparr>memory_a = fst (canonical a b), memory_b = snd (canonical a b), edge_weight = w, last_strengthened = now\<rparr> G)"
  using canonical_less [of a b] by (auto simp: tins_def edges_wf_def tget_None_iff)

text \<open>Ensuring an edge is an upsert that keeps a present weight, but for the time of a present one.\<close>

lemma ensure_upsert:
  "map_option edge_weight (tget ends k (tins ends \<lparr>memory_a = fst c, memory_b = snd c, edge_weight = w, last_strengthened = now\<rparr> G)) =
   (if k = c \<and> tget ends k G = None then Some w else map_option edge_weight (tget ends k G))"
  by (auto simp: tins_def split: option.split)

lemma between_ensure:
  assumes wf: "edges_wf G" and ab: "a \<noteq> b" and w: "0 \<le> w" "w \<le> MAX_WEIGHT"
  shows "between (snd (ensure_edge a b w now G)) = (if between G {a, b} = None then (between G)({a, b} \<mapsto> w) else between G)"
proof -
  define H where "H = tins ends \<lparr>memory_a = fst (canonical a b), memory_b = snd (canonical a b), edge_weight = w, last_strengthened = now\<rparr> G"
  have ok: "edges_wf H" unfolding H_def by (rule ensure_wf [OF wf ab w])
  have "between H = (if between G {a, b} = None then (between G)({a, b} \<mapsto> w) else between G)"
  proof (rule pairs_eqI [OF ok])
    fix P v
    assume "(if between G {a, b} = None then (between G)({a, b} \<mapsto> w) else between G) P = Some v"
    then have "((between G)({a, b} \<mapsto> w)) P = Some v \<or> between G P = Some v" by (auto split: if_splits simp del: fun_upd_apply)
    then show "\<exists>c d. c \<noteq> d \<and> P = {c, d}" using pair_upd_dom [OF wf ab] pair_dom [OF wf] by blast
  next
    fix c d :: string
    assume cd: "c \<noteq> d"
    have "canonical c d = canonical a b \<longleftrightarrow> {c, d} = {a, b}"
      using ab cd by (auto simp: canonical_def doubleton_eq_iff)
    then show "between H {c, d} = (if between G {a, b} = None then (between G)({a, b} \<mapsto> w) else between G) {c, d}"
      using between_pair [OF wf ab] between_pair [OF ok cd] between_pair [OF wf cd]
      by (auto simp: H_def ensure_upsert)
  qed
  then show ?thesis using ab by (simp add: ensure_edge_def H_def)
qed

lemma tget_by_pair: "edges_wf G \<Longrightarrow> P = {a, b} \<Longrightarrow> a \<noteq> b \<Longrightarrow> tget pair_of P G = tget ends (canonical a b) G"
  by (simp add: tget_pair edges_wf_def)

lemma between_kept:
  "edges_wf G \<Longrightarrow> (\<And>e. e \<in> set G \<Longrightarrow> q e \<longleftrightarrow> p (pair_of e) (edge_weight e)) \<Longrightarrow>
   between (filter q G) P = (case between G P of None \<Rightarrow> None | Some w \<Rightarrow> if p P w then Some w else None)"
  using tget_key [of pair_of P G] tget_mem [of pair_of P G]
  by (auto simp: between_filter between_def [of G] split: option.split)

lemma graph_call_wf: "edges_wf G \<Longrightarrow> in_scale op \<Longrightarrow> edges_wf (graph_call now op G)"
proof (cases op)
  case (Strengthen a b d)
  assume "edges_wf G"
  then show ?thesis using Strengthen
    by (auto simp: strengthen_def unless_raised_def MAX_WEIGHT_def intro!: upsert_wf)
next
  case (Decay r)
  assume wf: "edges_wf G"
  have "map ends (map (\<lambda>e. e\<lparr>edge_weight := max (edge_weight e - r) 0\<rparr>) G) = map ends G" by (simp add: ends_def)
  with wf have "distinct (map ends (map (\<lambda>e. e\<lparr>edge_weight := max (edge_weight e - r) 0\<rparr>) G))" by (metis edges_wf_def)
  with wf show ?thesis using Decay by (auto simp: decay_all_def unless_raised_def edges_wf_def MAX_WEIGHT_def)
next
  case (SetWeight a b w)
  assume "edges_wf G"
  then show ?thesis using SetWeight
    by (auto simp: set_edge_weight_def unless_raised_def MAX_WEIGHT_def intro!: upsert_wf)
qed (auto simp: garbage_collect_def remove_memory_def filter_wf ensure_edge_def ensure_wf)

lemma graph_call_refines:
  assumes wf: "edges_wf G" and ok: "in_scale op"
  shows "between (graph_call now op G) = pair_call op (between G)"
proof (cases op)
  case (Strengthen a b d)
  show ?thesis
  proof (cases "a \<noteq> b \<and> 0 < d")
    case True
    then have "edges_wf (graph_call now op G)" by (intro graph_call_wf wf ok)
    moreover have "0 \<le> w" if "between G {a, b} = Some w" for w
      using that wf by (auto simp: between_def edges_wf_def dest: tget_mem)
    ultimately show ?thesis using True Strengthen wf
      by (auto simp: strengthen_def unless_raised_def between_upsert min_def split: option.split)
  qed (auto simp: Strengthen strengthen_def unless_raised_def)
next
  case (Decay r)
  then show ?thesis
    by (auto simp: decay_all_def unless_raised_def pair_of_def fun_eq_iff intro!: between_mapped)
next
  case (Collect t)
  show ?thesis
    by (rule ext) (simp add: Collect garbage_collect_def between_kept [OF wf, of _ "\<lambda>P w. \<not> w < t"] split: option.split)
next
  case (Remove m)
  show ?thesis
    by (rule ext) (simp add: Remove remove_memory_def between_kept [OF wf, of _ "\<lambda>P w. m \<notin> P"] incident_def pair_of_def eq_commute split: option.split)
next
  case (Ensure a b w)
  then show ?thesis using ok between_ensure [OF wf, of a b w now] by (auto simp: ensure_edge_def)
next
  case (SetWeight a b w)
  show ?thesis
  proof (cases "a \<noteq> b \<and> 0 < w")
    case True
    then have "edges_wf (graph_call now op G)" by (intro graph_call_wf wf ok)
    then show ?thesis using True SetWeight wf
      by (auto simp: set_edge_weight_def unless_raised_def between_upsert MAX_WEIGHT_def split: option.split)
  qed (auto simp: SetWeight set_edge_weight_def unless_raised_def)
qed



end
