(* ===== verification/Spreading.thy ===== *)
theory Spreading
  imports Hebbian
begin

text \<open>
  What spreading activation computes, against walks in the graph: its levels are those of walks from a seed,
  at least as high as every walk within the depth; and that the order in which a set is iterated shows.
\<close>

section \<open>Walks\<close>

inductive walk :: "edge list \<Rightarrow> real \<Rightarrow> string set \<Rightarrow> nat \<Rightarrow> string \<Rightarrow> real \<Rightarrow> bool"
  for G :: "edge list" and decay :: real and S :: "string set" where
  at_seed: "n \<in> S \<Longrightarrow> walk G decay S 0 n 1"
| along: "walk G decay S k u v \<Longrightarrow> (n, w) \<in> set (neighbors u G) \<Longrightarrow> walk G decay S (Suc k) n (v * w * decay)"

inductive_cases walk_ZeroE: "walk G decay S 0 n v"
inductive_cases walk_SucE: "walk G decay S (Suc k) n v"

text \<open>A node is settled when no neighbour can be raised from it.\<close>

definition settled :: "edge list \<Rightarrow> real \<Rightarrow> activation \<Rightarrow> string \<Rightarrow> bool" where
  "settled G decay act u \<longleftrightarrow> (\<forall>(n, w) \<in> set (neighbors u G). level act u * w * decay \<le> level act n)"

definition below :: "activation \<Rightarrow> activation \<Rightarrow> bool" where
  "below a b \<longleftrightarrow> (\<forall>n. level a n \<le> level b n) \<and> dom a \<subseteq> dom b"

lemma below_refl: "below a a" and below_trans: "below a b \<Longrightarrow> below b c \<Longrightarrow> below a c"
  unfolding below_def by (blast, meson order_trans subset_trans)

lemma level_upd [simp]: "level (act(n \<mapsto> x)) m = (if m = n then x else level act m)"
  by (simp add: level_def)

subsection \<open>One neighbour\<close>

lemma push_below: "below act (fst (push_along decay node nb (act, nxt)))"
  by (cases nb) (auto simp: Let_def below_def level_def domIff split: option.split)

lemma push_reaches: "level act node * w * decay \<le> level (fst (push_along decay node (nb, w) (act, nxt))) nb"
  by (simp add: Let_def)

lemma push_changed:
  "n \<notin> set (snd (push_along decay node nb (act, nxt))) \<Longrightarrow> level (fst (push_along decay node nb (act, nxt))) n = level act n"
  by (cases nb) (auto simp: Let_def split: if_splits)

lemma push_nxt: "set nxt \<subseteq> set (snd (push_along decay node nb (act, nxt)))"
  by (cases nb) (auto simp: Let_def)

lemma settled_mono: "settled G decay act u \<Longrightarrow> below act act' \<Longrightarrow> level act' u = level act u \<Longrightarrow> settled G decay act' u"
  by (fastforce simp: settled_def below_def intro: order_trans)

subsection \<open>All neighbours of a node\<close>

lemma pushes:
  "below (fst s) (fst (fold (push_along decay node) nbs s)) \<and>
   set (snd s) \<subseteq> set (snd (fold (push_along decay node) nbs s)) \<and>
   (\<forall>n. n \<notin> set (snd (fold (push_along decay node) nbs s)) \<longrightarrow> level (fst (fold (push_along decay node) nbs s)) n = level (fst s) n) \<and>
   (0 \<le> decay \<longrightarrow> (\<forall>(n, w) \<in> set nbs. 0 \<le> w) \<longrightarrow>
     (\<forall>(n, w) \<in> set nbs. level (fst s) node * w * decay \<le> level (fst (fold (push_along decay node) nbs s)) n))"
proof (induction nbs arbitrary: s)
  case (Cons nb nbs)
  obtain act nxt where s: "s = (act, nxt)" by (cases s)
  define t where "t = push_along decay node nb s"
  note IH = Cons.IH [of t]
  have b: "below act (fst t)" and c: "set nxt \<subseteq> set (snd t)" by (simp_all only: t_def s push_below push_nxt)
  have d: "level (fst t) n = level act n" if "n \<notin> set (snd t)" for n
    using that push_changed unfolding t_def s by blast
  have "level act node * w * decay \<le> level (fst (fold (push_along decay node) nbs t)) n"
    if pos: "0 \<le> decay" "\<forall>(n, w) \<in> set (nb # nbs). 0 \<le> w" and mem: "(n, w) \<in> set (nb # nbs)" for n w
  proof (cases "(n, w) = nb")
    case True
    then have "level act node * w * decay \<le> level (fst t) n" using push_reaches unfolding t_def s by blast
    also have "\<dots> \<le> level (fst (fold (push_along decay node) nbs t)) n" using IH by (simp add: below_def)
    finally show ?thesis .
  next
    case False
    then have "level (fst t) node * w * decay \<le> level (fst (fold (push_along decay node) nbs t)) n"
      using IH pos mem by auto
    moreover have "0 \<le> w" using pos(2) mem by auto
    then have "level act node * w * decay \<le> level (fst t) node * w * decay"
      using b pos(1) by (intro mult_right_mono) (auto simp: below_def)
    ultimately show ?thesis by simp
  qed
  moreover have "below act (fst (fold (push_along decay node) nbs t))" using IH b below_trans by blast
  moreover have f: "fold (push_along decay node) (nb # nbs) s = fold (push_along decay node) nbs t" by (simp add: t_def)
  ultimately show ?case using IH c d unfolding f by (simp add: s case_prod_unfold) blast
qed (simp add: below_refl)

subsection \<open>A round over the frontier\<close>

lemma neighbors_nonneg: "edges_wf G \<Longrightarrow> \<forall>(n, w) \<in> set (neighbors u G). 0 \<le> w"
  by (auto simp: neighbors_def edges_wf_def)

lemma relaxed_settled:
  assumes "0 \<le> decay" "edges_wf G"
  shows "node \<notin> set (snd (relax G decay node s)) \<Longrightarrow> settled G decay (fst (relax G decay node s)) node"
proof -
  note p = pushes [of s decay node "neighbors node G", folded relax_def]
  assume "node \<notin> set (snd (relax G decay node s))"
  then have "level (fst (relax G decay node s)) node = level (fst s) node" using p by blast
  moreover have "\<forall>(n, w) \<in> set (neighbors node G). level (fst s) node * w * decay \<le> level (fst (relax G decay node s)) n"
    using p assms(1) neighbors_nonneg [OF assms(2)] by blast
  ultimately show ?thesis by (simp add: settled_def)
qed

definition unsettled_in :: "edge list \<Rightarrow> real \<Rightarrow> string list \<Rightarrow> activation \<times> string list \<Rightarrow> bool" where
  "unsettled_in G decay rest s \<longleftrightarrow> (\<forall>u. u \<notin> set rest \<union> set (snd s) \<longrightarrow> settled G decay (fst s) u)"

lemma relax_unsettled:
  assumes "0 \<le> decay" "edges_wf G" "unsettled_in G decay (node # rest) s"
  shows "unsettled_in G decay rest (relax G decay node s)"
  unfolding unsettled_in_def
proof (intro allI impI)
  fix u
  assume u: "u \<notin> set rest \<union> set (snd (relax G decay node s))"
  note p = pushes [of s decay node "neighbors node G", folded relax_def]
  show "settled G decay (fst (relax G decay node s)) u"
  proof (cases "u = node")
    case True
    then show ?thesis using u relaxed_settled [OF assms(1,2)] by blast
  next
    case False
    then have "settled G decay (fst s) u" using u p assms(3) by (auto simp: unsettled_in_def)
    then show ?thesis using p u by (blast intro: settled_mono)
  qed
qed

lemma round_lemma:
  assumes "0 \<le> decay" "edges_wf G"
  shows "below (fst s) (fst (fold (relax G decay) fs s)) \<and>
    (unsettled_in G decay fs s \<longrightarrow> unsettled_in G decay [] (fold (relax G decay) fs s)) \<and>
    (\<forall>u \<in> set fs. \<forall>(n, w) \<in> set (neighbors u G). level (fst s) u * w * decay \<le> level (fst (fold (relax G decay) fs s)) n)"
proof (induction fs arbitrary: s)
  case (Cons f fs)
  define t where "t = relax G decay f s"
  note p = pushes [of s decay f "neighbors f G", folded relax_def, folded t_def]
  note IH = Cons.IH [of t]
  have "level (fst s) u * w * decay \<le> level (fst (fold (relax G decay) fs t)) n"
    if u: "u \<in> set (f # fs)" and nw: "(n, w) \<in> set (neighbors u G)" for u n w
  proof (cases "u = f")
    case True
    then have "level (fst s) u * w * decay \<le> level (fst t) n"
      using p nw assms(1) neighbors_nonneg [OF assms(2)] by blast
    also have "\<dots> \<le> level (fst (fold (relax G decay) fs t)) n" using IH by (simp add: below_def)
    finally show ?thesis .
  next
    case False
    then have "level (fst t) u * w * decay \<le> level (fst (fold (relax G decay) fs t)) n" using IH u nw by auto
    moreover have "0 \<le> w" using neighbors_nonneg [OF assms(2)] nw by auto
    then have "level (fst s) u * w * decay \<le> level (fst t) u * w * decay"
      using p assms(1) by (intro mult_right_mono) (auto simp: below_def)
    ultimately show ?thesis by simp
  qed
  moreover have "below (fst s) (fst (fold (relax G decay) fs t))" using p IH below_trans by blast
  moreover have "unsettled_in G decay (f # fs) s \<longrightarrow> unsettled_in G decay [] (fold (relax G decay) fs t)"
    using IH relax_unsettled [OF assms] unfolding t_def by blast
  moreover have f: "fold (relax G decay) (f # fs) s = fold (relax G decay) fs t" by (simp add: t_def)
  ultimately show ?case unfolding f by blast
qed (simp add: below_refl)

text \<open>What is found are levels of walks, and a frontier is a set of activated nodes.\<close>

definition grounded :: "edge list \<Rightarrow> real \<Rightarrow> string set \<Rightarrow> activation \<Rightarrow> bool" where
  "grounded G decay S act \<longleftrightarrow> (\<forall>n x. act n = Some x \<longrightarrow> (\<exists>k. walk G decay S k n x))"

lemma push_grounded:
  assumes "grounded G decay S (fst s)" "node \<in> dom (fst s)" "nb \<in> set (neighbors node G)" "set (snd s) \<subseteq> dom (fst s)"
  shows "grounded G decay S (fst (push_along decay node nb s)) \<and> set (snd (push_along decay node nb s)) \<subseteq> dom (fst (push_along decay node nb s))"
proof -
  obtain n w where nb: "nb = (n, w)" by (cases nb)
  obtain act nxt where s: "s = (act, nxt)" by (cases s)
  from assms(2) obtain v where v: "act node = Some v" by (auto simp: s)
  with assms(1) obtain k where "walk G decay S k node v" by (auto simp: grounded_def s)
  then have "walk G decay S (Suc k) n (v * w * decay)" using assms(3) nb by (auto intro: along)
  moreover have "level act node = v" by (simp add: level_def v)
  ultimately show ?thesis using assms(1,4) by (auto simp: nb s grounded_def Let_def)
qed

lemma relax_grounded:
  assumes "grounded G decay S (fst s)" "node \<in> dom (fst s)" "set (snd s) \<subseteq> dom (fst s)" "set nbs \<subseteq> set (neighbors node G)"
  shows "grounded G decay S (fst (fold (push_along decay node) nbs s)) \<and> set (snd (fold (push_along decay node) nbs s)) \<subseteq> dom (fst (fold (push_along decay node) nbs s))"
  using assms
proof (induction nbs arbitrary: s)
  case (Cons nb nbs)
  have "below (fst s) (fst (push_along decay node nb s))" using push_below by (cases s) auto
  then have "node \<in> dom (fst (push_along decay node nb s))" using Cons.prems(2) by (auto simp: below_def)
  then show ?case using Cons.IH push_grounded [OF Cons.prems(1,2) _ Cons.prems(3)] Cons.prems(4) by simp
qed simp

lemma round_grounded:
  assumes "grounded G decay S (fst s)" "set fs \<subseteq> dom (fst s)" "set (snd s) \<subseteq> dom (fst s)"
  shows "grounded G decay S (fst (fold (relax G decay) fs s)) \<and> set (snd (fold (relax G decay) fs s)) \<subseteq> dom (fst (fold (relax G decay) fs s))"
  using assms
proof (induction fs arbitrary: s)
  case (Cons f fs)
  have "below (fst s) (fst (relax G decay f s))" using pushes unfolding relax_def by blast
  then have "set fs \<subseteq> dom (fst (relax G decay f s))" using Cons.prems(2) unfolding below_def by fastforce
  then show ?case
    using Cons.IH [of "relax G decay f s"] relax_grounded [of G decay S s f "neighbors f G", folded relax_def] Cons.prems by simp
qed simp

section \<open>All rounds\<close>

definition covers :: "edge list \<Rightarrow> real \<Rightarrow> string set \<Rightarrow> nat \<Rightarrow> activation \<Rightarrow> bool" where
  "covers G decay S k act \<longleftrightarrow> (\<forall>j n v. j \<le> k \<longrightarrow> walk G decay S j n v \<longrightarrow> v \<le> level act n)"

lemma one_further:
  assumes pos: "0 \<le> decay" "edges_wf G" and cov: "covers G decay S k act" and up: "below act act'"
    and reach: "\<And>u n w. (n, w) \<in> set (neighbors u G) \<Longrightarrow> level act u * w * decay \<le> level act' n"
  shows "covers G decay S (Suc k) act'"
  unfolding covers_def
proof (intro allI impI)
  fix j n v
  assume j: "j \<le> Suc k" and w: "walk G decay S j n v"
  show "v \<le> level act' n"
  proof (cases "j \<le> k")
    case True
    then have "v \<le> level act n" using cov w by (auto simp: covers_def)
    also have "\<dots> \<le> level act' n" using up by (simp add: below_def)
    finally show ?thesis .
  next
    case False
    with j w have "walk G decay S (Suc k) n v" by (simp add: le_Suc_eq)
    then obtain u x y where v: "v = x * y * decay" and x: "walk G decay S k u x" and y: "(n, y) \<in> set (neighbors u G)"
      by (rule walk_SucE)
    have "0 \<le> y" using neighbors_nonneg [OF pos(2)] y by auto
    moreover have "x \<le> level act u" using cov x by (auto simp: covers_def)
    ultimately have "v \<le> level act u * y * decay" unfolding v using pos(1) by (intro mult_right_mono) auto
    also have "\<dots> \<le> level act' n" by (rule reach [OF y])
    finally show ?thesis .
  qed
qed

lemma all_settled_covers:
  assumes pos: "0 \<le> decay" "edges_wf G" and base: "covers G decay S k act" and all: "\<And>u. settled G decay act u"
  shows "covers G decay S (k + m) act"
proof (induction m)
  case (Suc m)
  have "covers G decay S (Suc (k + m)) act"
    by (rule one_further [OF pos Suc below_refl]) (use all in \<open>auto simp: settled_def\<close>)
  then show ?case by simp
qed (use base in simp)

text \<open>The state between two rounds: the frontier holds every node that can still raise another.\<close>

definition round_inv :: "edge list \<Rightarrow> real \<Rightarrow> string set \<Rightarrow> nat \<Rightarrow> activation \<times> string list \<Rightarrow> bool" where
  "round_inv G decay S k s \<longleftrightarrow> covers G decay S k (fst s) \<and> grounded G decay S (fst s) \<and> set (snd s) \<subseteq> dom (fst s) \<and>
     (\<forall>u. u \<notin> set (snd s) \<longrightarrow> settled G decay (fst s) u)"

lemma hop_inv:
  assumes pos: "0 \<le> decay" "edges_wf G" and order: "\<And>xs. set (order xs) = set xs" and inv: "round_inv G decay S k s"
  shows "round_inv G decay S (Suc k) (hop order G decay s)"
proof -
  define s' where "s' = hop order G decay s"
  have hop: "s' = fold (relax G decay) (order (snd s)) (fst s, [])" by (simp add: s'_def hop_def)
  note r = round_lemma [OF pos, of "(fst s, [])" "order (snd s)", folded hop, simplified order fst_conv snd_conv]
  have g: "grounded G decay S (fst s') \<and> set (snd s') \<subseteq> dom (fst s')"
    unfolding hop by (rule round_grounded) (use inv order in \<open>auto simp: round_inv_def\<close>)
  have "unsettled_in G decay (order (snd s)) (fst s, [])" using inv order by (auto simp: unsettled_in_def round_inv_def)
  with r have u: "\<forall>u. u \<notin> set (snd s') \<longrightarrow> settled G decay (fst s') u" by (auto simp: unsettled_in_def)
  have up: "below (fst s) (fst s')" using r by blast
  have "level (fst s) u * w * decay \<le> level (fst s') n" if "(n, w) \<in> set (neighbors u G)" for u n w
  proof (cases "u \<in> set (snd s)")
    case True
    then show ?thesis using r that by blast
  next
    case False
    then have "level (fst s) u * w * decay \<le> level (fst s) n" using inv that by (auto simp: round_inv_def settled_def)
    also have "\<dots> \<le> level (fst s') n" using up by (simp add: below_def)
    finally show ?thesis .
  qed
  then have "covers G decay S (Suc k) (fst s')" using inv up by (intro one_further [OF pos, where act = "fst s"]) (auto simp: round_inv_def)
  then show ?thesis using g u by (simp add: round_inv_def s'_def)
qed

lemma hops_inv:
  assumes pos: "0 \<le> decay" "edges_wf G" and order: "\<And>xs. set (order xs) = set xs" and inv: "round_inv G decay S k s"
  shows "round_inv G decay S (k + m) (hops order G decay m s)"
  using inv
proof (induction m arbitrary: k s)
  case (Suc m)
  have h: "round_inv G decay S (Suc k) (hop order G decay s)" by (rule hop_inv [OF pos order Suc.prems])
  show ?case
  proof (cases "snd (hop order G decay s) = []")
    case True
    then have "covers G decay S (Suc k + m) (fst (hop order G decay s))"
      using h by (intro all_settled_covers [OF pos]) (auto simp: round_inv_def)
    then show ?thesis using h True by (simp add: round_inv_def)
  next
    case False
    then show ?thesis using Suc.IH [OF h] by simp
  qed
qed simp

text \<open>
  C33: On a well-formed graph, in whatever order sets are iterated: every walk of at most \<open>depth\<close> edges from a seed
  leaves its end activated at least as much as the walk's product, and no node is activated but by some walk.
\<close>

theorem spreading_covers_walks:
  assumes "edges_wf G" "0 \<le> decay" "\<And>xs. set (order xs) = set xs"
  shows "(\<forall>k n v. k \<le> depth \<and> walk G decay (set seeds) k n v \<longrightarrow> v \<le> level (spreading_activation order G seeds depth decay) n) \<and>
         (\<forall>n x. spreading_activation order G seeds depth decay n = Some x \<longrightarrow> (\<exists>k. walk G decay (set seeds) k n x))"
proof -
  have "settled G decay (seeded seeds) u" if "u \<notin> set seeds" for u
    using that by (auto simp: settled_def seeded_def level_def)
  then have "round_inv G decay (set seeds) 0 (seeded seeds, remdups seeds)"
    by (auto simp: round_inv_def covers_def grounded_def seeded_def level_def domIff intro: walk.intros elim: walk_ZeroE split: if_splits)
  from hops_inv [OF assms(2,1,3) this, of depth] show ?thesis
    by (auto simp: spreading_activation_def round_inv_def covers_def grounded_def)
qed

section \<open>Examples\<close>

abbreviation link :: "string \<Rightarrow> string \<Rightarrow> real \<Rightarrow> edge" where
  "link a b w \<equiv> \<lparr>memory_a = a, memory_b = b, edge_weight = w, last_strengthened = 0\<rparr>"

definition square :: "edge list" where
  "square = [link ''a'' ''s'' 1, link ''b'' ''s'' (1 / 10), link ''a'' ''b'' 1, link ''b'' ''c'' 1]"

lemma square_neighbors:
  "neighbors ''s'' square = [(''a'', 1), (''b'', 1 / 10)]"
  "neighbors ''a'' square = [(''s'', 1), (''b'', 1)]"
  "neighbors ''b'' square = [(''s'', 1 / 10), (''c'', 1), (''a'', 1)]"
  by (simp_all add: neighbors_def square_def)

lemma spreading_covers_walks_witness:
  "1 / 4 \<le> level (spreading_activation (\<lambda>xs. xs) square [''s''] 2 (1 / 2)) ''b''"
proof -
  have wf: "edges_wf square" by (simp add: edges_wf_def square_def ends_def MAX_WEIGHT_def)
  have "walk square (1 / 2) (set [''s'']) (Suc 0) ''a'' (1 * 1 * (1 / 2))"
    by (rule along [where u = "''s''"]) (simp_all add: square_neighbors at_seed)
  then have "walk square (1 / 2) (set [''s'']) (Suc (Suc 0)) ''b'' (1 * 1 * (1 / 2) * 1 * (1 / 2))"
    by (rule along) (simp add: square_neighbors)
  then have "1 * 1 * (1 / 2) * 1 * (1 / 2) \<le> level (spreading_activation (\<lambda>xs. xs) square [''s''] 2 (1 / 2)) ''b''"
    using spreading_covers_walks [OF wf, of "1 / 2" "\<lambda>xs. xs" 2 "[''s'']"]
    by (simp only: numeral_2_eq_2) (blast intro: le_refl zero_le_divide_1_iff [THEN iffD2] zero_le_numeral)
  then show ?thesis by simp
qed

text \<open>
  The result depends on the order in which Python iterates a set: with two rounds, the activation of a memory three
  edges away is 1/8 or 1/40, since a node raised in a round passes the raised level on if its own turn comes
  later in the same round. The higher level belongs to a walk longer than the depth.
\<close>

theorem spreading_order_shows:
  "level (spreading_activation (\<lambda>xs. rev xs) square [''s''] 2 (1 / 2)) ''c'' = 1 / 8 \<and>
   level (spreading_activation (\<lambda>xs. xs) square [''s''] 2 (1 / 2)) ''c'' = 1 / 40"
  by (simp add: spreading_activation_def seeded_def hop_def relax_def square_neighbors Let_def level_def numeral_2_eq_2)

text \<open>An edge of weight 10 amplifies: after two rounds a seed has 25 times the level it started with.\<close>

lemma spreading_amplifies:
  "level (spreading_activation (\<lambda>xs. xs) [link ''a'' ''s'' 10] [''s''] 2 (1 / 2)) ''s'' = 25"
  by (simp add: spreading_activation_def seeded_def hop_def relax_def neighbors_def Let_def level_def numeral_2_eq_2)

end
