(* ===== verification/Memories.thy ===== *)
theory Memories
  imports Hebbian Json Proc
begin

text \<open>
  The table of memories (\<open>memory/store.py\<close>, the operations that forgetting and recall use), the text a fading
  memory keeps (\<open>forgetting/tombstone.py\<close>), the grief that a lost one leaves (\<open>grief/\<close>), and the memories the
  soul holds on to (\<open>soul/candidates.py\<close>). The state \<open>brain\<close> is what lies in the persona's folder; every
  statement that commits or saves is one atomic step, so a program may stop between any two. An embedding
  is a vector that a model computed from a text; the text and the name of the model stand in its place.
\<close>

section \<open>State\<close>

record memory =
  mem_id :: string
  content :: string
  memory_type :: string
  mem_domain :: string
  emotions :: "(string \<times> real) list"
  tags :: "string list"
  importance :: real
  mem_score :: real
  created_at :: time
  last_accessed_at :: "time option"
  active_flag :: bool
  protected_flag :: bool
  metadata :: dict
  mem_state :: string
  content_snapshot :: "string option"
  recall_count :: real
  peak_emotion :: real
  embedding :: "(string \<times> string) option"
  row_no :: int

record salience_inputs =
  in_emotion :: real
  in_hebbian :: real
  in_recall :: real
  in_soul :: real
  in_freshness :: real

record grave =
  g_memory_id :: string
  g_forgotten_at :: time
  g_lived_age :: real
  g_domain :: string
  g_type :: string
  g_created_at :: time
  g_summary :: string
  g_emotions :: "(string \<times> real) list"
  g_salience :: real
  g_inputs :: salience_inputs
  g_reason :: string
  g_neighbors :: "(string \<times> real) list"

record crystal =
  cr_id :: string
  cr_revoked :: bool
  cr_sources :: "string list"

record felt_time =
  felt_lived_age :: real
  felt_first_tick :: "stamp option"

record pass_summary =
  faded :: nat
  unfaded :: nat
  lost :: nat
  exempt :: nat
  total :: nat
  exemptions_unavailable :: bool

text \<open>
  \<open>low_passes\<close>, \<open>cursor\<close> and \<open>manifest\<close> are the objects their files hold, empty for a missing or corrupt file;
  \<open>embedder\<close> is the name of the embedding model in use, \<open>legacy_files\<close> what is left of the old embedding cache.
  \<open>fails\<close> says which resources cannot be used at the moment.
\<close>

record brain =
  memories :: "memory list option"
  hebbian :: "edge list option"
  graves :: "grave list"
  low_passes :: dict
  cursor :: dict
  felt_state :: felt_time
  candidates :: "dict list"
  archive :: "dict list"
  crystals :: "crystal list option"
  manifest :: dict
  now_utc :: time
  fails :: "string \<Rightarrow> bool"
  new_ids :: "nat \<Rightarrow> string"
  ids_drawn :: nat
  embedder :: string
  backfill_cursor :: "dict option"
  legacy_files :: "string list"
  published :: "pass_summary list"

type_synonym 'a act = "(brain, 'a res) proc"

definition rows :: "brain \<Rightarrow> memory list" where
  "rows s = (case memories s of None \<Rightarrow> [] | Some t \<Rightarrow> t)"

definition row :: "string \<Rightarrow> brain \<Rightarrow> memory option" where
  "row mid s = tget mem_id mid (rows s)"

definition on_rows :: "(memory list \<Rightarrow> memory list) \<Rightarrow> brain \<Rightarrow> brain" where
  "on_rows f s = s\<lparr>memories := map_option f (memories s)\<rparr>"

text \<open>A statement that uses a resource, and raises with nothing done when that fails.\<close>

definition using_file :: "string \<Rightarrow> (brain \<Rightarrow> brain) \<Rightarrow> unit act" where
  "using_file r f = atomic (\<lambda>s. if fails s r then (Inl (OtherError ''OSError''), s) else (Inr (), f s))"

abbreviation memories_db :: string where "memories_db \<equiv> ''memories.db''"

definition find_row :: "string \<Rightarrow> memory act" where
  "find_row mid = look (\<lambda>s. case row mid s of None \<Rightarrow> Inl KeyError | Some r \<Rightarrow> Inr r)"

text \<open>\<open>try: p except Exception: log\<close>\<close>

definition attempt :: "unit act \<Rightarrow> unit act" where
  "attempt p = andthen p (\<lambda>_. Done (Inr ()))"

section \<open>The embedding of a row\<close>

definition write_embedding :: "string \<Rightarrow> string \<times> string \<Rightarrow> unit act" where
  "write_embedding mid vec = using_file memories_db (on_rows (tupd mem_id mid (\<lambda>r. r\<lparr>embedding := Some vec\<rparr>)))"

definition embed_row :: "string \<Rightarrow> string \<Rightarrow> unit act" where
  "embed_row mid text =
     andok (look (\<lambda>s. if fails s ''embedder'' \<or> fails s (''embed '' @ text) then Inl (OtherError ''embedder'') else Inr (text, embedder s)))
       (\<lambda>vec. write_embedding mid vec)"

definition reembed_or_clear :: "string \<Rightarrow> string \<Rightarrow> unit act" where
  "reembed_or_clear mid text =
     andthen (embed_row mid text) (\<lambda>r. case r of
       Inr _ \<Rightarrow> Done (Inr ())
     | Inl _ \<Rightarrow> attempt (using_file memories_db (on_rows (tupd mem_id mid (\<lambda>r. r\<lparr>embedding := None\<rparr>)))))"

section \<open>Reading, fading, deleting\<close>

text \<open>\<open>bump\<close>: \<open>Inl\<close> of a flag, \<open>Inr\<close> of an amount.\<close>

definition bump_amount :: "bool + real \<Rightarrow> real option" where
  "bump_amount bump =
     (case bump of Inl b \<Rightarrow> if b then Some 1 else None | Inr x \<Rightarrow> if x \<noteq> 0 then Some x else None)"

definition bumped :: "real \<Rightarrow> memory \<Rightarrow> memory" where
  "bumped amount r = r\<lparr>recall_count := recall_count r + amount\<rparr>"

definition get_memory :: "string \<Rightarrow> bool + real \<Rightarrow> memory option act" where
  "get_memory mid bump =
     andthen (look (row mid)) (\<lambda>found. case found of
       None \<Rightarrow> Done (Inr None)
     | Some r \<Rightarrow> (case bump_amount bump of
           None \<Rightarrow> Done (Inr (Some r))
         | Some amount \<Rightarrow>
             andthen (look now_utc) (\<lambda>now.
             andok (using_file memories_db (on_rows (tupd mem_id mid (\<lambda>r. bumped amount r\<lparr>last_accessed_at := Some now\<rparr>)))) (\<lambda>_.
             Done (Inr (Some r))))))"

definition bump_recall :: "string \<Rightarrow> real \<Rightarrow> unit act" where
  "bump_recall mid amount = using_file memories_db (on_rows (tupd mem_id mid (bumped amount)))"

definition deactivate :: "string \<Rightarrow> unit act" where
  "deactivate mid = andok (find_row mid) (\<lambda>_. using_file memories_db (on_rows (tupd mem_id mid (\<lambda>r. r\<lparr>active_flag := False\<rparr>))))"

definition fade :: "string \<Rightarrow> string \<Rightarrow> unit act" where
  "fade mid summary =
     andok (find_row mid) (\<lambda>r.
     if mem_state r = ''fading'' then Done (Inr ())
     else
       andok (using_file memories_db (on_rows (tupd mem_id mid (\<lambda>r.
         r\<lparr>content_snapshot := Some (content r), content := summary, mem_state := ''fading'', embedding := None\<rparr>)))) (\<lambda>_.
       reembed_or_clear mid summary))"

text \<open>The column of the text is not allowed to become empty.\<close>

definition restore_snapshot :: "string \<Rightarrow> unit act" where
  "restore_snapshot mid = atomic (\<lambda>s.
     if fails s memories_db then (Inl (OtherError ''OSError''), s)
     else (case row mid s of
             None \<Rightarrow> (Inr (), s)
           | Some r \<Rightarrow> (case content_snapshot r of
               None \<Rightarrow> (Inl IntegrityError, s)
             | Some text \<Rightarrow> (Inr (), on_rows (tupd mem_id mid (\<lambda>r.
                 r\<lparr>content := text, content_snapshot := None, mem_state := ''active'', embedding := None\<rparr>)) s))))"

definition unfade :: "string \<Rightarrow> unit act" where
  "unfade mid =
     andok (find_row mid) (\<lambda>_. andok (find_row mid) (\<lambda>r.
     case content_snapshot r of
       None \<Rightarrow> Done (Inr ())
     | Some restored \<Rightarrow>
         andok (restore_snapshot mid) (\<lambda>_. reembed_or_clear mid restored)))"

definition set_active_clear_snapshot :: "string \<Rightarrow> unit act" where
  "set_active_clear_snapshot mid =
     using_file memories_db (on_rows (tupd mem_id mid (\<lambda>r. r\<lparr>mem_state := ''active'', content_snapshot := None\<rparr>)))"

definition hard_delete :: "string \<Rightarrow> unit act" where
  "hard_delete mid = andok (find_row mid) (\<lambda>_. using_file memories_db (on_rows (tdel mem_id mid)))"

section \<open>Creating\<close>

definition clamp_importance :: "real \<Rightarrow> real" where
  "clamp_importance x = min 10 (max 0 x)"

definition max_value :: "real \<Rightarrow> (string \<times> real) list \<Rightarrow> real" where
  "max_value d es = (case map snd es of [] \<Rightarrow> d | v # vs \<Rightarrow> fold max vs v)"

definition create_new ::
    "string \<Rightarrow> time \<Rightarrow> string \<Rightarrow> string \<Rightarrow> string \<Rightarrow> (string \<times> real) list \<Rightarrow> real option \<Rightarrow> dict \<Rightarrow> memory" where
  "create_new uuid now text mtype domain es imp meta =
     (let score = sum_list (map snd es) in
      \<lparr>mem_id = uuid, content = text, memory_type = mtype, mem_domain = domain, emotions = es, tags = [],
       importance = clamp_importance (case imp of None \<Rightarrow> score / 10 | Some i \<Rightarrow> i), mem_score = score, created_at = now,
       last_accessed_at = None, active_flag = True, protected_flag = False, metadata = meta, mem_state = ''active'',
       content_snapshot = None, recall_count = 0, peak_emotion = max_value 0 es, embedding = None, row_no = 0\<rparr>)"

text \<open>
  The columns the \<open>INSERT\<close> leaves out take their defaults, and SQLite numbers the row above the highest one.
\<close>

definition next_row_no :: "memory list \<Rightarrow> int" where
  "next_row_no t = 1 + fold max (map row_no t) 0"

definition insert_memory_row :: "memory \<Rightarrow> memory list \<Rightarrow> memory list res" where
  "insert_memory_row m t =
     (if tget mem_id (mem_id m) t \<noteq> None then Inl IntegrityError
      else Inr (t @ [m\<lparr>mem_state := ''active'', content_snapshot := None, recall_count := 0, embedding := None,
                       row_no := next_row_no t,
                       peak_emotion := fold max (map snd (emotions m)) (peak_emotion m)\<rparr>]))"

definition create :: "memory \<Rightarrow> string act" where
  "create m = atomic (\<lambda>s.
     if fails s memories_db then (Inl (OtherError ''OSError''), s)
     else (case insert_memory_row m (rows s) of
             Inl e \<Rightarrow> (Inl e, s)
           | Inr t \<Rightarrow> (Inr (mem_id m), s\<lparr>memories := Some t\<rparr>)))"

definition draw_id :: "string act" where
  "draw_id = atomic (\<lambda>s. (Inr (new_ids s (ids_drawn s)), s\<lparr>ids_drawn := Suc (ids_drawn s)\<rparr>))"

section \<open>Updating\<close>

datatype assignment =
    SetContent string | SetType string | SetDomain string | SetEmotions "(string \<times> real) list" | SetTags "string list"
  | SetMetadata dict | SetImportance real | SetScore real | SetLastAccessed "time option" | SetActive bool | SetProtected bool
  | UnknownField string

text \<open>The peak only rises.\<close>

fun assigned :: "assignment \<Rightarrow> memory \<Rightarrow> memory" where
  "assigned (SetContent x) r = r\<lparr>content := x, embedding := None\<rparr>"
| "assigned (SetType x) r = r\<lparr>memory_type := x\<rparr>"
| "assigned (SetDomain x) r = r\<lparr>mem_domain := x\<rparr>"
| "assigned (SetEmotions x) r = r\<lparr>emotions := x, peak_emotion := max (peak_emotion r) (max_value 0 x)\<rparr>"
| "assigned (SetTags x) r = r\<lparr>tags := x\<rparr>"
| "assigned (SetMetadata x) r = r\<lparr>metadata := x\<rparr>"
| "assigned (SetImportance x) r = r\<lparr>importance := x\<rparr>"
| "assigned (SetScore x) r = r\<lparr>mem_score := x\<rparr>"
| "assigned (SetLastAccessed x) r = r\<lparr>last_accessed_at := x\<rparr>"
| "assigned (SetActive x) r = r\<lparr>active_flag := x\<rparr>"
| "assigned (SetProtected x) r = r\<lparr>protected_flag := x\<rparr>"
| "assigned (UnknownField x) r = r"

fun new_content :: "assignment list \<Rightarrow> string option" where
  "new_content [] = None"
| "new_content (SetContent x # fs) = (case new_content fs of None \<Rightarrow> Some x | Some y \<Rightarrow> Some y)"
| "new_content (f # fs) = new_content fs"

definition is_unknown :: "assignment \<Rightarrow> bool" where
  "is_unknown f = (case f of UnknownField _ \<Rightarrow> True | _ \<Rightarrow> False)"

text \<open>The fields are keyword arguments, so no field comes twice.\<close>

definition update :: "string \<Rightarrow> assignment list \<Rightarrow> unit act" where
  "update mid fs =
     andok (get_memory mid (Inl False)) (\<lambda>before. case before of
       None \<Rightarrow> Done (Inl KeyError)
     | Some _ \<Rightarrow>
         if list_ex is_unknown fs then Done (Inl ValueError)
         else if fs = [] then Done (Inr ())
         else
           andok (using_file memories_db (on_rows (tupd mem_id mid (fold assigned fs)))) (\<lambda>_.
           case new_content fs of None \<Rightarrow> Done (Inr ()) | Some text \<Rightarrow> reembed_or_clear mid text))"

section \<open>The text of a fading memory\<close>

fun first_sentence :: "char \<Rightarrow> string \<Rightarrow> string" where
  "first_sentence prev [] = []"
| "first_sentence prev (c # s) = (if is_space c \<and> prev \<in> set ''.!?'' then [] else c # first_sentence c s)"

text \<open>\<open>s[:s.rfind(" ")]\<close>, and \<open>s\<close> itself when the last blank is its first character or missing.\<close>

definition before_last_blank :: "string \<Rightarrow> string" where
  "before_last_blank s =
     (let cut = rev (drop 1 (dropWhile (\<lambda>c. c \<noteq> CHR '' '') (rev s))) in if cut = [] then s else cut)"

definition ellipsis :: string where
  "ellipsis = [CHR 0xE2, CHR 0x80, CHR 0xA6]"

definition SUMMARY_CHARS :: nat where
  "SUMMARY_CHARS = 240"

definition summarise :: "string \<Rightarrow> string" where
  "summarise body =
     (let collapsed = py_strip (collapse False body) in
      if length collapsed \<le> SUMMARY_CHARS then collapsed
      else let sentence = first_sentence (CHR 0x00) collapsed in
        if length sentence \<le> SUMMARY_CHARS then sentence
        else rev (dropWhile is_space (rev (before_last_blank (take (SUMMARY_CHARS - 1) collapsed)))) @ ellipsis)"

section \<open>Grief for a lost memory\<close>

fun words :: "string \<Rightarrow> string \<Rightarrow> string list" where
  "words w [] = (if w = [] then [] else [w])"
| "words w (c # s) = (if is_space c then (if w = [] then words [] s else w # words [] s) else words (w @ [c]) s)"

definition first_n_words :: "string \<Rightarrow> nat \<Rightarrow> string" where
  "first_n_words text n = join '' '' (take n (words [] text))"

definition drop_phrase :: "string \<Rightarrow> string" where
  "drop_phrase summary =
     (let head = first_n_words summary 6 in
      if head \<noteq> [] then ''the memory of '' @ head @ '' is gone'' else ''a memory is gone'')"

definition clamp :: "real \<Rightarrow> real \<Rightarrow> real \<Rightarrow> real" where
  "clamp lo hi x = max lo (min hi x)"

definition DROP_SCALE :: real where "DROP_SCALE = 7"
definition GRIEF_THRESHOLD :: real where "GRIEF_THRESHOLD = 3"
definition RESIDUE_FACTOR :: real where "RESIDUE_FACTOR = 1 / 2"

definition compute_drop_intensity :: "real \<Rightarrow> real" where
  "compute_drop_intensity e = clamp 0 10 (e * DROP_SCALE)"

text \<open>\<open>max\<close> by the value: the first of the largest.\<close>

fun strongest :: "(string \<times> real) list \<Rightarrow> (string \<times> real) option" where
  "strongest [] = None"
| "strongest (e # es) = (case strongest es of None \<Rightarrow> Some e | Some b \<Rightarrow> Some (if snd e < snd b then b else e))"

definition dominant_non_grief_emotion :: "(string \<times> real) list \<Rightarrow> (string \<times> real) option" where
  "dominant_non_grief_emotion es = strongest (filter (\<lambda>(n, v). n \<noteq> ''memory_grief'' \<and> 0 < v) es)"

definition build_breadcrumb ::
    "string \<Rightarrow> time \<Rightarrow> real \<Rightarrow> string \<Rightarrow> string \<Rightarrow> string \<Rightarrow> string \<Rightarrow> (string \<times> real) option \<Rightarrow> memory" where
  "build_breadcrumb uuid now intensity subtype ref_type ref_id text residue =
     create_new uuid now text ''grief_event'' ''grief''
       ((''memory_grief'', intensity) #
        (case residue of None \<Rightarrow> []
         | Some (n, v) \<Rightarrow> if n \<noteq> ''memory_grief'' \<and> 0 < v then [(n, v * RESIDUE_FACTOR)] else []))
       (Some (clamp 0 10 intensity))
       [(''grief_referent_type'', JStr ref_type), (''grief_referent_id'', JStr ref_id), (''grief_subtype'', JStr subtype),
        (''triggering_arc_id'', JNull)]"

definition grief_intensity :: "memory \<Rightarrow> real" where
  "grief_intensity m = compute_drop_intensity (max 0 (min 1 (if emotions m = [] then 0 else max_value 0 (emotions m) / 10)))"

definition handle_drop :: "memory \<Rightarrow> unit act" where
  "handle_drop m =
     (if grief_intensity m < GRIEF_THRESHOLD then Done (Inr ())
      else attempt (
        andok draw_id (\<lambda>uuid.
        andthen (look now_utc) (\<lambda>now.
        andok (create (build_breadcrumb uuid now (grief_intensity m) ''drop'' ''memory'' (mem_id m) (drop_phrase (content m))
                 (dominant_non_grief_emotion (emotions m)))) (\<lambda>_.
        Done (Inr ()))))))"

section \<open>What the soul holds on to\<close>

text \<open>\<open>str(r.get(k) or "")\<close>\<close>

definition text_field :: "ext \<Rightarrow> string \<Rightarrow> dict \<Rightarrow> string" where
  "text_field X k r = (case dget k r of None \<Rightarrow> [] | Some j \<Rightarrow> if truthy j then py_str X j else [])"

definition memory_ids :: "ext \<Rightarrow> dict list \<Rightarrow> string list" where
  "memory_ids X rs = filter (\<lambda>mid. mid \<noteq> []) (map (\<lambda>r. py_strip (text_field X ''memory_id'' r)) rs)"

text \<open>A status that cannot be hashed raises when it is looked up in a set.\<close>

definition status_of :: "dict \<Rightarrow> json" where
  "status_of r = dget_or ''status'' (JStr ''auto_pending'') r"

definition unhashable :: "json \<Rightarrow> bool" where
  "unhashable j = (case j of JList _ \<Rightarrow> True | JObj _ \<Rightarrow> True | _ \<Rightarrow> False)"

definition list_under_review_memory_ids :: "ext \<Rightarrow> dict list \<Rightarrow> string list res" where
  "list_under_review_memory_ids X rs =
     (if list_ex (\<lambda>r. unhashable (status_of r)) rs then Inl TypeError
      else Inr (memory_ids X (filter (\<lambda>r. status_of r = JStr ''pending'' \<or> status_of r = JStr ''auto_pending'') rs)))"

definition accepted_candidate_ids :: "ext \<Rightarrow> dict list \<Rightarrow> crystal list option \<Rightarrow> string list" where
  "accepted_candidate_ids X rs db =
     memory_ids X (filter (\<lambda>r. dget ''status'' r = Some (JStr ''accepted'') \<and>
       \<not> list_ex (\<lambda>c. cr_revoked c \<and> cr_id c = text_field X ''crystallization_id'' r) (case db of None \<Rightarrow> [] | Some cs \<Rightarrow> cs)) rs)"

definition list_active_source_memory_ids :: "crystal list \<Rightarrow> string list" where
  "list_active_source_memory_ids cs = sort (remdups (concat (map cr_sources (filter (\<lambda>c. \<not> cr_revoked c) cs))))"

definition list_crystallised_memory_ids :: "ext \<Rightarrow> dict list \<Rightarrow> crystal list option \<Rightarrow> string list" where
  "list_crystallised_memory_ids X rs db =
     (let ids = accepted_candidate_ids X rs db;
          linked = (case db of None \<Rightarrow> [] | Some cs \<Rightarrow> list_active_source_memory_ids cs)
      in ids @ filter (\<lambda>mid. mid \<notin> set ids) linked)"

text \<open>The pairs of a merged-away id and the row it was merged into.\<close>

definition merge_pair :: "dict \<Rightarrow> (string \<times> string) option" where
  "merge_pair r =
     (if dget ''reason'' r = Some (JStr ''consolidation_merge'')
      then (case (dget ''merged_from_candidate'' r, dget ''target'' r) of
              (Some (JStr source), Some (JObj target)) \<Rightarrow>
                (case dget ''id'' target of
                   Some (JStr t) \<Rightarrow> if source \<noteq> [] \<and> t \<noteq> [] then Some (source, t) else None
                 | _ \<Rightarrow> None)
            | _ \<Rightarrow> None)
      else None)"

definition merge_target_map :: "dict list \<Rightarrow> (string \<times> string) list" where
  "merge_target_map rs = List.map_filter merge_pair rs"

definition with_targets :: "(string \<times> string) list \<Rightarrow> string list \<Rightarrow> string list" where
  "with_targets targets ids = ids @ map snd (filter (\<lambda>(source, t). source \<in> set ids) targets)"

end
