(* ===== verification/Forgetting.thy ===== *)
theory Forgetting
  imports Memories "HOL-Library.AList"
begin

text \<open>
  The forgetting pass (\<open>forgetting/\<close>): the salience of a memory, the policy that moves it from active to
  fading to lost or back, and the pass over all memories with its cursor and its counters. The clock is
  read once per memory.
\<close>

section \<open>Importance\<close>

definition HORIZON_IMPORTANCE_GAIN :: real where "HORIZON_IMPORTANCE_GAIN = 52"

definition importance_ratio :: "real \<Rightarrow> real" where
  "importance_ratio i = min 1 (max 0 (i / 10))"

definition importance_stretch :: "real \<Rightarrow> real" where
  "importance_stretch i = 1 + HORIZON_IMPORTANCE_GAIN * importance_ratio i"

section \<open>Salience\<close>

definition EMOTION_DENOMINATOR :: real where "EMOTION_DENOMINATOR = 10"
definition HEBBIAN_DENOMINATOR :: real where "HEBBIAN_DENOMINATOR = 20"
definition RECALL_DENOMINATOR :: real where "RECALL_DENOMINATOR = 10"
definition FRESHNESS_HORIZON :: real where "FRESHNESS_HORIZON = 2160"
definition PEAK_LAMBDA :: real where "PEAK_LAMBDA = 3 / 2"
definition PEAK_LINGER_HORIZON :: real where "PEAK_LINGER_HORIZON = 4320"
definition MAX_LIVED_RATE :: real where "MAX_LIVED_RATE = 27 / 10"

definition log1p :: "real \<Rightarrow> real" where
  "log1p x = ln (1 + x)"

definition PEAK_LOG_DENOMINATOR :: real where "PEAK_LOG_DENOMINATOR = log1p 10"

definition clamp1 :: "real \<Rightarrow> real" where
  "clamp1 x = clamp 0 1 x"

definition hours :: "int \<Rightarrow> real" where
  "hours t = real_of_int t / real_of_int hour"

definition emotion_input :: "memory \<Rightarrow> real" where
  "emotion_input m = (if emotions m = [] then 0 else clamp1 (max_value 0 (emotions m) / EMOTION_DENOMINATOR))"

definition hebbian_input :: "memory \<Rightarrow> edge list \<Rightarrow> real" where
  "hebbian_input m G = clamp1 (real (activation_count (mem_id m) G) / HEBBIAN_DENOMINATOR)"

definition recall_input :: "memory \<Rightarrow> real" where
  "recall_input m = clamp1 (recall_count m / RECALL_DENOMINATOR)"

definition soul_input :: "memory \<Rightarrow> string list \<Rightarrow> real" where
  "soul_input m linked = (if mem_id m \<in> set linked then 1 else 0)"

text \<open>\<open>None\<close>: no age yet, so everything is fresh.\<close>

definition lived_hours_since :: "time \<Rightarrow> felt_time \<Rightarrow> time \<Rightarrow> real option res" where
  "lived_hours_since anchor felt now =
     (if felt_lived_age felt \<le> 0 then Inr None
      else (case felt_first_tick felt of
              None \<Rightarrow> Inr (Some (hours (now - anchor) * 1))
            | Some t \<Rightarrow> (case since now t of
                Inl e \<Rightarrow> Inl e
              | Inr wall \<Rightarrow>
                  let rate = (if wall \<le> 0 then 1 else clamp 1 MAX_LIVED_RATE (felt_lived_age felt / hours wall))
                  in Inr (Some (hours (now - anchor) * rate)))))"

definition anchor_of :: "memory \<Rightarrow> time" where
  "anchor_of m = (case last_accessed_at m of None \<Rightarrow> created_at m | Some t \<Rightarrow> t)"

definition freshness_of :: "memory \<Rightarrow> real option \<Rightarrow> real" where
  "freshness_of m l =
     (case l of None \<Rightarrow> 1 | Some l \<Rightarrow> 1 - clamp1 (l / (FRESHNESS_HORIZON * importance_stretch (importance m))))"

definition freshness_input :: "memory \<Rightarrow> felt_time \<Rightarrow> time \<Rightarrow> real res" where
  "freshness_input m felt now = bind_res (lived_hours_since (anchor_of m) felt now) (\<lambda>l. Inr (freshness_of m l))"

definition peak_of :: "memory \<Rightarrow> real option \<Rightarrow> real" where
  "peak_of m l =
     (let linger = (case l of None \<Rightarrow> 1 | Some l \<Rightarrow> 1 - clamp1 (l / PEAK_LINGER_HORIZON))
      in clamp1 (PEAK_LAMBDA * log1p (peak_emotion m) / PEAK_LOG_DENOMINATOR * linger))"

definition peak_input :: "memory \<Rightarrow> felt_time \<Rightarrow> time \<Rightarrow> real res" where
  "peak_input m felt now =
     (if peak_emotion m \<le> 0 then Inr 0
      else bind_res (lived_hours_since (anchor_of m) felt now) (\<lambda>l. Inr (peak_of m l)))"

definition compute_inputs :: "memory \<Rightarrow> edge list \<Rightarrow> felt_time \<Rightarrow> string list \<Rightarrow> time \<Rightarrow> salience_inputs res" where
  "compute_inputs m G felt linked now =
     bind_res (peak_input m felt now) (\<lambda>peak.
     bind_res (freshness_input m felt now) (\<lambda>fresh.
     Inr \<lparr>in_emotion = max (emotion_input m) peak, in_hebbian = hebbian_input m G, in_recall = recall_input m,
          in_soul = soul_input m linked, in_freshness = fresh\<rparr>))"

definition weighted :: "salience_inputs \<Rightarrow> real" where
  "weighted i = clamp1 (3 / 10 * in_emotion i + 2 / 10 * in_hebbian i + 2 / 10 * in_recall i + 2 / 10 * in_soul i + 1 / 10 * in_freshness i)"

definition score :: "memory \<Rightarrow> edge list \<Rightarrow> felt_time \<Rightarrow> string list \<Rightarrow> time \<Rightarrow> real res" where
  "score m G felt linked now = bind_res (compute_inputs m G felt linked now) (\<lambda>i. Inr (weighted i))"

section \<open>Policy\<close>

definition FADE_THRESHOLD :: real where "FADE_THRESHOLD = 1 / 4"
definition LOST_THRESHOLD :: real where "LOST_THRESHOLD = 1 / 10"
definition LOST_PASS_COUNT :: int where "LOST_PASS_COUNT = 2"
definition RECENT_LIVED_HOURS :: real where "RECENT_LIVED_HOURS = 720"
definition FADE_IMPORTANCE_GAIN :: real where "FADE_IMPORTANCE_GAIN = 2"
definition IMPORT_GRACE_LIVED_HOURS :: real where "IMPORT_GRACE_LIVED_HOURS = 168"

datatype transition = Stay | Fade | Unfade | Lose

definition effective_fade :: "memory \<Rightarrow> real \<Rightarrow> real" where
  "effective_fade m narrative_weight =
     FADE_THRESHOLD / (1 + narrative_weight + FADE_IMPORTANCE_GAIN * importance_ratio (importance m))"

definition next_state :: "memory \<Rightarrow> real \<Rightarrow> int \<Rightarrow> real \<Rightarrow> transition" where
  "next_state m salience consecutive_low_passes narrative_weight =
     (let gate = effective_fade m narrative_weight in
      if mem_state m = ''active'' then (if salience < gate then Fade else Stay)
      else if mem_state m = ''fading'' then
        (if gate \<le> salience then Unfade
         else if salience < LOST_THRESHOLD \<and> LOST_PASS_COUNT \<le> consecutive_low_passes then Lose else Stay)
      else Stay)"

definition is_exempt :: "memory \<Rightarrow> string list \<Rightarrow> string list \<Rightarrow> real \<Rightarrow> time \<Rightarrow> bool" where
  "is_exempt m crystallised under_review lived now \<longleftrightarrow>
     mem_id m \<in> set crystallised \<or> mem_id m \<in> set under_review \<or> lived \<le> 0 \<or> hours (now - created_at m) \<le> RECENT_LIVED_HOURS"

text \<open>\<open>max(0.0, now - then) < 168.0\<close>, where \<open>max\<close> keeps 0.0 against a NaN.\<close>

definition settling :: "real \<Rightarrow> pyfloat \<Rightarrow> bool" where
  "settling lived at_migration =
     (case at_migration of Fin q \<Rightarrow> max 0 (lived - of_rat q) < IMPORT_GRACE_LIVED_HOURS | PInf \<Rightarrow> True | NaN \<Rightarrow> True | NInf \<Rightarrow> False)"

definition is_within_import_grace :: "memory \<Rightarrow> stamp option \<Rightarrow> pyfloat \<Rightarrow> real \<Rightarrow> bool res" where
  "is_within_import_grace m migrated at_migration lived =
     (case migrated of
        Some (At t) \<Rightarrow> Inr (created_at m < t \<and> settling lived at_migration)
      | Some (AtNaive t) \<Rightarrow> Inl TypeError
      | _ \<Rightarrow> Inr False)"

section \<open>The files of a pass\<close>

type_synonym counters = "(string \<times> int) list"

definition numeric :: "json \<Rightarrow> bool" where
  "numeric j = (case j of JBool _ \<Rightarrow> True | JInt _ \<Rightarrow> True | JFloat _ \<Rightarrow> True | _ \<Rightarrow> False)"

primrec counts_of :: "dict \<Rightarrow> counters res" where
  "counts_of [] = Inr []"
| "counts_of (p # d) =
     (if numeric (snd p)
      then bind_res (py_int (snd p)) (\<lambda>n. bind_res (counts_of d) (\<lambda>cs. Inr ((fst p, n) # cs)))
      else counts_of d)"

definition load_forgetting_state :: "dict \<Rightarrow> counters res" where
  "load_forgetting_state d =
     (case counts_of d of
        Inr cs \<Rightarrow> Inr cs
      | Inl e \<Rightarrow> if e = TypeError \<or> e = ValueError then Inr [] else Inl e)"

definition persist_forgetting_state :: "counters \<Rightarrow> unit act" where
  "persist_forgetting_state cs =
     using_file ''forgetting_state.json'' (\<lambda>w. w\<lparr>low_passes := map (\<lambda>(k, n). (k, JInt n)) cs\<rparr>)"

text \<open>A cursor that cannot be saved or removed is only logged.\<close>

definition set_cursor :: "dict \<Rightarrow> (brain, unit) proc" where
  "set_cursor d = atomic (\<lambda>w. ((), if fails w ''forgetting_progress.json'' then w else w\<lparr>cursor := d\<rparr>))"

definition save_progress :: "string \<Rightarrow> (brain, unit) proc" where
  "save_progress last_id = set_cursor [(''last_id'', JStr last_id)]"

definition clear_progress :: "(brain, unit) proc" where
  "clear_progress = set_cursor []"

definition not_done :: "dict \<Rightarrow> memory list \<Rightarrow> memory list" where
  "not_done c ms = (case dget ''last_id'' c of Some (JStr last_id) \<Rightarrow> dropWhile (\<lambda>m. \<not> last_id < mem_id m) ms | _ \<Rightarrow> ms)"

text \<open>The three legs of the exemptions, each read though another failed.\<close>

definition crystallised_leg :: "ext \<Rightarrow> brain \<Rightarrow> string list res" where
  "crystallised_leg X w =
     (if fails w ''soul_candidates.jsonl'' \<or> crystals w \<noteq> None \<and> fails w ''crystallizations.db'' then Inl (OtherError ''OSError'')
      else Inr (list_crystallised_memory_ids X (candidates w) (crystals w)))"

definition review_leg :: "ext \<Rightarrow> brain \<Rightarrow> string list res" where
  "review_leg X w =
     (if fails w ''soul_candidates.jsonl'' then Inl (OtherError ''OSError'')
      else list_under_review_memory_ids X (candidates w))"

definition merge_leg :: "brain \<Rightarrow> (string \<times> string) list res" where
  "merge_leg w =
     (if fails w ''consolidation_archive.jsonl'' then Inl (OtherError ''OSError'') else Inr (merge_target_map (archive w)))"

definition with_merged :: "string list res \<Rightarrow> string list res \<Rightarrow> (string \<times> string) list res \<Rightarrow> (string list \<times> string list) option" where
  "with_merged a b c =
     (case (a, b, c) of (Inr cr, Inr ur, Inr targets) \<Rightarrow> Some (with_targets targets cr, with_targets targets ur) | _ \<Rightarrow> None)"

definition load_soul_linked_ids :: "ext \<Rightarrow> (brain, (string list \<times> string list) option) proc" where
  "load_soul_linked_ids X =
     andthen (look (crystallised_leg X)) (\<lambda>a. andthen (look (review_leg X)) (\<lambda>b. andthen (look merge_leg) (\<lambda>c.
     Done (with_merged a b c))))"

definition replace_z :: "string \<Rightarrow> string" where
  "replace_z s = concat (map (\<lambda>c. if c = CHR ''Z'' then ''+00:00'' else [c]) s)"

definition load_migration_grace :: "dict \<Rightarrow> (stamp option \<times> pyfloat) res" where
  "load_migration_grace d =
     (let raw = (case dget ''migrated_at_utc'' d of Some j \<Rightarrow> if truthy j then Some j else dget ''generated_at_utc'' d
                 | None \<Rightarrow> dget ''generated_at_utc'' d);
          mig = (case raw of
                   Some (JStr t) \<Rightarrow> (case fromisoformat (replace_z t) of NotIso \<Rightarrow> None | st \<Rightarrow> Some st)
                 | _ \<Rightarrow> None)
      in case py_float (dget_or ''lived_age_hours_at_migration'' (JFloat (Fin 0)) d) of
           Inr f \<Rightarrow> Inr (mig, f)
         | Inl e \<Rightarrow> if e = TypeError \<or> e = ValueError then Inr (mig, Fin 0) else Inl e)"

section \<open>The pass\<close>

text \<open>What a pass reads once: the exemptions, the grace, the age, the graph it opened, the weight of the open arcs.\<close>

record pass_env =
  pe_crystallised :: "string list"
  pe_under_review :: "string list"
  pe_migrated :: "stamp option"
  pe_at_migration :: pyfloat
  pe_felt :: felt_time
  pe_graph :: bool
  pe_narrative :: real

definition pe_linked :: "pass_env \<Rightarrow> string list" where
  "pe_linked E = pe_crystallised E @ pe_under_review E"

definition graph_of :: "pass_env \<Rightarrow> brain \<Rightarrow> edge list" where
  "graph_of E w = (case hebbian w of Some G \<Rightarrow> if pe_graph E then G else [] | None \<Rightarrow> [])"

datatype verdict = Exempt | Scored real int transition

definition judge :: "pass_env \<Rightarrow> memory \<Rightarrow> edge list \<Rightarrow> int \<Rightarrow> time \<Rightarrow> verdict res" where
  "judge E m G prev_low now =
     (if is_exempt m (pe_crystallised E) (pe_under_review E) (felt_lived_age (pe_felt E)) now then Inr Exempt
      else bind_res (is_within_import_grace m (pe_migrated E) (pe_at_migration E) (felt_lived_age (pe_felt E))) (\<lambda>grace.
        if grace then Inr Exempt
        else bind_res (score m G (pe_felt E) (pe_linked E) now) (\<lambda>s.
          let next_low = (if s < LOST_THRESHOLD then prev_low + 1 else 0)
          in Inr (Scored s next_low (next_state m s next_low (pe_narrative E))))))"

definition append_grave :: "pass_env \<Rightarrow> memory \<Rightarrow> real \<Rightarrow> salience_inputs \<Rightarrow> int \<Rightarrow> (string \<times> real) list \<Rightarrow> unit act" where
  "append_grave E m s inputs low nbs =
     using_file ''forgotten_memories.jsonl'' (\<lambda>w. w\<lparr>graves := graves w @
       [\<lparr>g_memory_id = mem_id m, g_forgotten_at = now_utc w, g_lived_age = felt_lived_age (pe_felt E), g_domain = mem_domain m,
         g_type = memory_type m, g_created_at = created_at m, g_summary = content m, g_emotions = emotions m, g_salience = s,
         g_inputs = inputs, g_reason = ''salience<0.1 for '' @ dec_int low @ '' consecutive passes'', g_neighbors = nbs\<rparr>]\<rparr>)"

definition remove_edges :: "pass_env \<Rightarrow> string \<Rightarrow> unit act" where
  "remove_edges E mid =
     (if pe_graph E then using_file ''hebbian.db'' (\<lambda>w. w\<lparr>hebbian := map_option (\<lambda>G. snd (remove_memory mid G)) (hebbian w)\<rparr>)
      else Done (Inr ()))"

definition lose :: "pass_env \<Rightarrow> memory \<Rightarrow> real \<Rightarrow> int \<Rightarrow> unit act" where
  "lose E m s low =
     andok (look (\<lambda>w. compute_inputs m (graph_of E w) (pe_felt E) (pe_linked E) (now_utc w))) (\<lambda>inputs.
     andthen (look (\<lambda>w. neighbors (mem_id m) (graph_of E w))) (\<lambda>nbs.
     andok (append_grave E m s inputs low nbs) (\<lambda>_.
     andok (hard_delete (mem_id m)) (\<lambda>_.
     andok (remove_edges E (mem_id m)) (\<lambda>_.
     handle_drop m)))))"

definition carry_out :: "pass_env \<Rightarrow> memory \<Rightarrow> real \<Rightarrow> int \<Rightarrow> transition \<Rightarrow> unit act" where
  "carry_out E m s low t =
     (case t of
        Stay \<Rightarrow> Done (Inr ())
      | Fade \<Rightarrow> fade (mem_id m) (summarise (content m))
      | Unfade \<Rightarrow> unfade (mem_id m)
      | Lose \<Rightarrow> lose E m s low)"

definition low_after :: "transition \<Rightarrow> int \<Rightarrow> int" where
  "low_after t low = (if t = Unfade \<or> t = Lose then 0 else low)"

definition count_low :: "string \<Rightarrow> int \<Rightarrow> counters \<Rightarrow> counters" where
  "count_low mid low cs = (if 0 < low then AList.update mid low cs else AList.delete mid cs)"

definition previous_low :: "string \<Rightarrow> counters \<Rightarrow> int" where
  "previous_low mid cs = (case map_of cs mid of None \<Rightarrow> 0 | Some n \<Rightarrow> n)"

definition tallied :: "transition \<Rightarrow> pass_summary \<Rightarrow> pass_summary" where
  "tallied t sm =
     (case t of Stay \<Rightarrow> sm | Fade \<Rightarrow> sm\<lparr>faded := Suc (faded sm)\<rparr> | Unfade \<Rightarrow> sm\<lparr>unfaded := Suc (unfaded sm)\<rparr>
      | Lose \<Rightarrow> sm\<lparr>lost := Suc (lost sm)\<rparr>)"

text \<open>The result says whether the pass was paused; \<open>should_pause\<close> is the answer to the question after a memory.\<close>

primrec pass_loop ::
    "pass_env \<Rightarrow> (string \<Rightarrow> bool) \<Rightarrow> memory list \<Rightarrow> counters \<Rightarrow> pass_summary \<Rightarrow> (bool \<times> counters \<times> pass_summary) act" where
  "pass_loop E should_pause [] = (\<lambda>cs sm. Done (Inr (False, cs, sm)))"
| "pass_loop E should_pause (m # ms) = (\<lambda>cs sm.
     andok (look (\<lambda>w. judge E m (graph_of E w) (previous_low (mem_id m) cs) (now_utc w))) (\<lambda>v.
     case v of
       Exempt \<Rightarrow> pass_loop E should_pause ms cs (sm\<lparr>exempt := Suc (exempt sm)\<rparr>)
     | Scored s low t \<Rightarrow>
         andok (carry_out E m s low t) (\<lambda>_.
         let cs' = count_low (mem_id m) (low_after t low) cs in
         andthen (save_progress (mem_id m)) (\<lambda>_.
         andok (persist_forgetting_state cs') (\<lambda>_.
         if ms \<noteq> [] \<and> should_pause (mem_id m) then Done (Inr (True, cs', tallied t sm))
         else pass_loop E should_pause ms cs' (tallied t sm))))))"

text \<open>The result of a pass with what \<open>progress_out\<close> is told.\<close>

definition publish :: "bool \<Rightarrow> pass_summary \<Rightarrow> (pass_summary \<times> bool) act" where
  "publish paused sm = atomic (\<lambda>w. (Inr (sm, paused), w\<lparr>published := published w @ [sm]\<rparr>))"

definition no_summary :: pass_summary where
  "no_summary = \<lparr>faded = 0, unfaded = 0, lost = 0, exempt = 0, total = 0, exemptions_unavailable = False\<rparr>"

definition select_memories :: "brain \<Rightarrow> memory list" where
  "select_memories w = sort_key mem_id (filter (\<lambda>m. mem_state m = ''active'' \<or> mem_state m = ''fading'') (rows w))"

definition finish :: "bool \<times> counters \<times> pass_summary \<Rightarrow> (pass_summary \<times> bool) act" where
  "finish r = (case r of (paused, cs, sm) \<Rightarrow>
     if paused then publish True sm
     else andthen clear_progress (\<lambda>_. andok (persist_forgetting_state cs) (\<lambda>_. publish False sm)))"

definition run_pass :: "ext \<Rightarrow> real \<Rightarrow> (string \<Rightarrow> bool) \<Rightarrow> (pass_summary \<times> bool) act" where
  "run_pass X narrative should_pause =
     andok (look (\<lambda>w. load_forgetting_state (low_passes w))) (\<lambda>cs.
     andthen (look felt_state) (\<lambda>felt.
     andthen (load_soul_linked_ids X) (\<lambda>ids. case ids of
       None \<Rightarrow> publish False (no_summary\<lparr>exemptions_unavailable := True\<rparr>)
     | Some (crystallised, under_review) \<Rightarrow>
         andok (look (\<lambda>w. load_migration_grace (manifest w))) (\<lambda>(migrated, at_migration).
         andthen (look (\<lambda>w. memories w \<noteq> None)) (\<lambda>there.
         if \<not> there then publish False no_summary
         else
           andthen (look (\<lambda>w. hebbian w \<noteq> None)) (\<lambda>graph.
           andthen (look select_memories) (\<lambda>ms.
           andthen (look cursor) (\<lambda>c.
           andok (pass_loop \<lparr>pe_crystallised = crystallised, pe_under_review = under_review, pe_migrated = migrated,
                             pe_at_migration = at_migration, pe_felt = felt, pe_graph = graph, pe_narrative = narrative\<rparr>
                    should_pause (not_done c ms) cs (no_summary\<lparr>total := length ms\<rparr>)) (\<lambda>r.
           finish r)))))))))"

end
