(* ===== verification/Forgetting_Laws.thy ===== *)
theory Forgetting_Laws
  imports Forgetting
begin

text \<open>
  What forgetting guarantees while other programs use the folder, and wherever it stops: nothing is deleted
  without a grave, and nothing the soul holds on to is touched.
\<close>

section \<open>Nothing is deleted without a grave\<close>

definition buried :: "string \<Rightarrow> brain \<Rightarrow> bool" where
  "buried mid s \<longleftrightarrow> (\<exists>g \<in> set (graves s). g_memory_id g = mid)"

definition burying :: "brain \<Rightarrow> brain \<Rightarrow> bool" where
  "burying s t \<longleftrightarrow> set (graves s) \<subseteq> set (graves t) \<and> (\<forall>mid. row mid s \<noteq> None \<longrightarrow> row mid t \<noteq> None \<or> buried mid t)"

lemma burying_buried: "burying s t \<Longrightarrow> buried mid s \<Longrightarrow> buried mid t"
  by (auto simp: burying_def buried_def)

lemma burying_trans: "burying s t \<Longrightarrow> burying t u \<Longrightarrow> burying s u"
  using burying_buried [of t u] unfolding burying_def by blast

text \<open>
  The soul's memories, by what its files say; all of them when the files cannot be understood.
\<close>

definition soul_ids :: "ext \<Rightarrow> brain \<Rightarrow> string set" where
  "soul_ids X w =
     (case with_merged (Inr (list_crystallised_memory_ids X (candidates w) (crystals w)))
             (list_under_review_memory_ids X (candidates w)) (Inr (merge_target_map (archive w))) of
        None \<Rightarrow> UNIV | Some (a, b) \<Rightarrow> set a \<union> set b)"

definition same_souls :: "brain \<Rightarrow> brain \<Rightarrow> bool" where
  "same_souls s t \<longleftrightarrow> candidates t = candidates s \<and> crystals t = crystals s \<and> archive t = archive s"

definition text_of :: "memory \<Rightarrow> string \<times> string option \<times> string" where
  "text_of r = (content r, content_snapshot r, mem_state r)"

definition keeping :: "ext \<Rightarrow> brain \<Rightarrow> brain \<Rightarrow> bool" where
  "keeping X s t \<longleftrightarrow> same_souls s t \<and> set (graves s) \<subseteq> set (graves t) \<and>
     (\<forall>mid \<in> soul_ids X s. \<forall>r. row mid s = Some r \<longrightarrow> (\<exists>r'. row mid t = Some r' \<and> text_of r' = text_of r))"

lemma same_souls_ids: "same_souls s t \<Longrightarrow> soul_ids X t = soul_ids X s"
  by (simp add: same_souls_def soul_ids_def)

lemma keeping_trans: "keeping X s t \<Longrightarrow> keeping X t u \<Longrightarrow> keeping X s u"
  unfolding keeping_def using same_souls_ids [of s t X] by (auto simp: same_souls_def) metis

section \<open>What a pass relies on\<close>

locale keeper = guarantee I R for I :: "brain \<Rightarrow> bool" and R :: "brain \<Rightarrow> brain \<Rightarrow> bool" +
  fixes X :: ext and spare :: "string \<Rightarrow> bool"
  assumes edit: "I s \<Longrightarrow> \<not> spare mid \<Longrightarrow> (\<And>r. mem_id (f r) = mem_id r) \<Longrightarrow> allowed s (on_rows (tupd mem_id mid f) s)"
    and added: "I s \<Longrightarrow> insert_memory_row m (rows s) = Inr ms \<Longrightarrow> allowed s (s\<lparr>memories := Some ms\<rparr>)"
    and elsewhere_ok: "I s \<Longrightarrow> memories t = memories s \<Longrightarrow> same_souls s t \<Longrightarrow> set (graves s) \<subseteq> set (graves t) \<Longrightarrow> allowed s t"
    and deleted: "I s \<Longrightarrow> \<not> spare mid \<Longrightarrow> buried mid s \<Longrightarrow> allowed s (on_rows (tdel mem_id mid) s)"
    and buried_stays: "stable (buried mid)"
    and exempts: "I t1 \<Longrightarrow> I t2 \<Longrightarrow> I t3 \<Longrightarrow> with_merged (crystallised_leg X t1) (review_leg X t2) (merge_leg t3) = Some (a, b) \<Longrightarrow>
        spare mid \<Longrightarrow> mid \<in> set a \<union> set b"
begin

lemma allowed_same: "I s \<Longrightarrow> allowed s s"
  by (simp add: allowed_def refl)

lemma safe_using: "stable F \<Longrightarrow> (\<And>t. I t \<Longrightarrow> F t \<Longrightarrow> allowed t (f t)) \<Longrightarrow> safe F (using_file r f)"
  unfolding using_file_def by (rule safe_atomic) (auto intro: allowed_same)

lemma safe_edit:
  "stable F \<Longrightarrow> \<not> spare mid \<Longrightarrow> (\<And>r. mem_id (f r) = mem_id r) \<Longrightarrow> safe F (using_file r (on_rows (tupd mem_id mid f)))"
  by (rule safe_using) (auto intro: edit)

lemma safe_attempt: "stable F \<Longrightarrow> safe F p \<Longrightarrow> safe F (attempt p)"
  unfolding attempt_def by (rule safe_andthen) simp_all

lemma safe_find_row: "safe F (find_row mid)"
  unfolding find_row_def by (rule safe_look)

lemma safe_reembed: "stable F \<Longrightarrow> \<not> spare mid \<Longrightarrow> safe F (reembed_or_clear mid text)"
  unfolding reembed_or_clear_def embed_row_def write_embedding_def
  by (intro safe_intros safe_edit) (auto split: sum.split intro!: safe_attempt safe_edit)

lemma safe_fade: "stable F \<Longrightarrow> \<not> spare mid \<Longrightarrow> safe F (fade mid summary)"
  unfolding fade_def by (intro safe_andok safe_find_row) (auto intro!: safe_andok safe_edit safe_reembed)

lemma safe_restore: "stable F \<Longrightarrow> \<not> spare mid \<Longrightarrow> safe F (restore_snapshot mid)"
  unfolding restore_snapshot_def
  by (rule safe_atomic) (auto split: option.split intro: allowed_same edit)

lemma safe_unfade: "stable F \<Longrightarrow> \<not> spare mid \<Longrightarrow> safe F (unfade mid)"
  unfolding unfade_def by (intro safe_andok safe_find_row) (auto split: option.split intro!: safe_andok safe_restore safe_reembed)

lemma safe_create: "stable F \<Longrightarrow> safe F (create m)"
  unfolding create_def by (rule safe_atomic) (auto intro: allowed_same added split: sum.split)

lemma safe_draw_id: "stable F \<Longrightarrow> safe F draw_id"
  unfolding draw_id_def by (rule safe_atomic) (auto intro: elsewhere_ok simp: same_souls_def)

lemma safe_handle_drop: "stable F \<Longrightarrow> safe F (handle_drop m)"
  unfolding handle_drop_def by (auto intro!: safe_attempt safe_andok safe_andthen safe_look safe_create safe_draw_id)

lemma safe_lose:
  assumes "\<not> spare (mem_id m)"
  shows "safe (\<lambda>_. True) (lose E m s low)"
  unfolding lose_def
proof (rule safe_andok [OF stable_True safe_look], rule safe_andthen [OF stable_True safe_look])
  fix inputs nbs
  let ?F = "buried (mem_id m)"
  have rest: "safe ?F (andok (hard_delete (mem_id m)) (\<lambda>_. andok (remove_edges E (mem_id m)) (\<lambda>_. handle_drop m)))"
    unfolding hard_delete_def remove_edges_def
    by (intro safe_andok buried_stays safe_find_row safe_using safe_handle_drop deleted assms)
       (auto intro!: safe_using elsewhere_ok buried_stays simp: same_souls_def)
  show "safe (\<lambda>_. True) (andok (append_grave E m s inputs low nbs) (\<lambda>_. andok (hard_delete (mem_id m)) (\<lambda>_. andok (remove_edges E (mem_id m)) (\<lambda>_. handle_drop m))))"
    unfolding append_grave_def using_file_def
    by (rule safe_establish [where G = ?F]) (use rest in \<open>auto intro: allowed_same intro!: elsewhere_ok simp: same_souls_def buried_def\<close>)
qed

lemma safe_carry_out: "\<not> spare (mem_id m) \<Longrightarrow> safe (\<lambda>_. True) (carry_out E m s low t)"
  unfolding carry_out_def by (auto split: transition.split intro: safe_fade safe_unfade safe_lose)

lemma safe_files:
  "safe (\<lambda>_. True) (set_cursor d)" "safe (\<lambda>_. True) (persist_forgetting_state cs)" "safe (\<lambda>_. True) (publish paused sm)"
  unfolding set_cursor_def persist_forgetting_state_def publish_def
  by (auto intro!: safe_atomic safe_using elsewhere_ok allowed_same simp: same_souls_def)

lemma judged: "judge E m G p now = Inr (Scored s low t) \<Longrightarrow> mem_id m \<notin> set (pe_linked E)"
  by (auto simp: judge_def is_exempt_def pe_linked_def split: if_splits)

lemma safe_loop:
  assumes "\<And>mid. spare mid \<Longrightarrow> mid \<in> set (pe_linked E)"
  shows "safe (\<lambda>_. True) (pass_loop E should_pause ms cs sm)"
proof (induction ms arbitrary: cs sm)
  case (Cons m ms)
  have "safe (\<lambda>_. True) (case v of Exempt \<Rightarrow> pass_loop E should_pause ms cs (sm\<lparr>exempt := Suc (exempt sm)\<rparr>)
     | Scored s low t \<Rightarrow>
         andok (carry_out E m s low t) (\<lambda>_.
         let cs' = count_low (mem_id m) (low_after t low) cs in
         andthen (save_progress (mem_id m)) (\<lambda>_.
         andok (persist_forgetting_state cs') (\<lambda>_.
         if ms \<noteq> [] \<and> should_pause (mem_id m) then Done (Inr (True, cs', tallied t sm))
         else pass_loop E should_pause ms cs' (tallied t sm)))))"
    if v: "judge E m (graph_of E w) (previous_low (mem_id m) cs) (now_utc w) = Inr v" for v w
  proof (cases v)
    case (Scored s low t)
    then have "\<not> spare (mem_id m)" using judged v assms by blast
    then show ?thesis unfolding Scored Let_def save_progress_def
      by (auto intro!: safe_andok safe_andthen safe_carry_out safe_files Cons.IH)
  qed (use Cons.IH in simp)
  then show ?case unfolding pass_loop.simps by (intro safe_andok_look_value) auto
qed simp

lemma safe_pass: "safe (\<lambda>_. True) (run_pass X narrative should_pause)"
proof -
  have "safe (\<lambda>_. True) (andthen (load_soul_linked_ids X) k)"
    if "\<And>ids. (\<And>mid a b. ids = Some (a, b) \<Longrightarrow> spare mid \<Longrightarrow> mid \<in> set a \<union> set b) \<Longrightarrow> safe (\<lambda>_. True) (k ids)"
    for k :: "(string list \<times> string list) option \<Rightarrow> (pass_summary \<times> bool) act"
    unfolding load_soul_linked_ids_def andthen_assoc andthen.simps(1)
    by (intro safe_look_value stable_True that) (use exempts in blast)
  note loaded = this
  have finished: "safe (\<lambda>_. True) (finish r)" for r
    unfolding finish_def clear_progress_def by (auto intro!: safe_andok safe_andthen safe_files split: prod.split)
  show ?thesis unfolding run_pass_def
  proof (rule safe_andok [OF stable_True safe_look], rule safe_andthen [OF stable_True safe_look], rule loaded)
    fix cs felt ids
    assume "\<And>mid a b. ids = Some (a, b) \<Longrightarrow> spare mid \<Longrightarrow> mid \<in> set a \<union> set b"
    then show "safe (\<lambda>_. True) (case ids of
       None \<Rightarrow> publish False (no_summary\<lparr>exemptions_unavailable := True\<rparr>)
     | Some (crystallised, under_review) \<Rightarrow>
         andok (look (\<lambda>w. load_migration_grace (manifest w))) (\<lambda>(migrated, at_migration).
         andthen (look (\<lambda>w. memories w \<noteq> None)) (\<lambda>there.
         if \<not> there then publish False no_summary
         else
           andthen (look (\<lambda>w. hebbian w \<noteq> None)) (\<lambda>graph.
           andthen (look select_memories) (\<lambda>ms.
           andthen (look cursor) (\<lambda>c.
           andok (pass_loop \<lparr>pe_crystallised = crystallised, pe_under_review = under_review, pe_migrated = migrated,
                             pe_at_migration = at_migration, pe_felt = felt, pe_graph = graph, pe_narrative = narrative\<rparr>
                    should_pause (not_done c ms) cs (no_summary\<lparr>total := length ms\<rparr>)) (\<lambda>r.
           finish r)))))))"
      by (cases ids) (auto intro!: safe_andok safe_andthen safe_look safe_files safe_loop finished simp: pe_linked_def)
  qed
qed

end

section \<open>The two guarantees\<close>

lemma row_tupd [simp]:
  "(\<And>r. mem_id (f r) = mem_id r) \<Longrightarrow> row mid (on_rows (tupd mem_id k f) s) = (if mid = k then map_option f (row mid s) else row mid s)"
  by (cases "memories s") (auto simp: row_def rows_def on_rows_def tget_tupd)

lemma row_tdel [simp]: "row mid (on_rows (tdel mem_id k) s) = (if mid = k then None else row mid s)"
  by (cases "memories s") (auto simp: row_def rows_def on_rows_def tget_tdel)

lemma row_added:
  "insert_memory_row m (rows s) = Inr ms \<Longrightarrow> row mid s \<noteq> None \<Longrightarrow> row mid (s\<lparr>memories := Some ms\<rparr>) = row mid s"
  by (auto simp: insert_memory_row_def row_def rows_def split: if_splits option.splits)

lemma row_same: "memories t = memories s \<Longrightarrow> row mid t = row mid s"
  by (simp add: row_def rows_def)

lemma on_rows_frame [simp]:
  "graves (on_rows f s) = graves s" "candidates (on_rows f s) = candidates s" "crystals (on_rows f s) = crystals s"
  "archive (on_rows f s) = archive s" "memories (on_rows f s) = map_option f (memories s)"
  by (simp_all add: on_rows_def)

lemma merged_souls:
  assumes "same_souls s t1" "same_souls s t2" "same_souls s t3"
    and "with_merged (crystallised_leg X t1) (review_leg X t2) (merge_leg t3) = Some (a, b)"
  shows "soul_ids X s = set a \<union> set b"
  using assms
  by (auto simp: soul_ids_def with_merged_def crystallised_leg_def review_leg_def merge_leg_def same_souls_def split: if_splits sum.splits)

lemma burying_refl: "burying s s" and keeping_refl: "keeping X s s"
  by (simp_all add: burying_def keeping_def same_souls_def)

interpretation graveyard: guarantee "burying s0" burying for s0
  by unfold_locales (fact burying_refl, fact burying_trans)

interpretation hold: guarantee "keeping X s0" "keeping X" for X s0
  by unfold_locales (fact keeping_refl, fact keeping_trans)

lemma burying_allowed: "burying s0 s \<Longrightarrow> burying s t \<Longrightarrow> graveyard.allowed s0 s t"
  using burying_trans by (auto simp: graveyard.allowed_def)

lemma keeping_allowed: "keeping X s0 s \<Longrightarrow> keeping X s t \<Longrightarrow> hold.allowed X s0 s t"
  using keeping_trans by (auto simp: hold.allowed_def)

lemma keeping_ids: "keeping X s0 s \<Longrightarrow> soul_ids X s = soul_ids X s0"
  using same_souls_ids by (auto simp: keeping_def)

interpretation cemetery: keeper "burying s0" burying X "\<lambda>_. False" for s0 X
proof
  fix s mid and f :: "memory \<Rightarrow> memory"
  assume "burying s0 s" "\<And>r. mem_id (f r) = mem_id r"
  then show "graveyard.allowed s0 s (on_rows (tupd mem_id mid f) s)" by (intro burying_allowed) (auto simp: burying_def)
next
  fix s m ms
  assume "burying s0 s" "insert_memory_row m (rows s) = Inr ms"
  then show "graveyard.allowed s0 s (s\<lparr>memories := Some ms\<rparr>)" by (intro burying_allowed) (auto simp: burying_def row_added)
next
  fix s t :: brain
  assume "burying s0 s" "memories t = memories s" "set (graves s) \<subseteq> set (graves t)"
  then have "burying s t" using row_same [of t s] by (simp add: burying_def)
  with \<open>burying s0 s\<close> show "graveyard.allowed s0 s t" by (rule burying_allowed)
next
  fix s mid
  assume "burying s0 s" "buried mid s"
  then show "graveyard.allowed s0 s (on_rows (tdel mem_id mid) s)" by (intro burying_allowed) (auto simp: burying_def buried_def)
qed (auto simp: graveyard.stable_def intro: burying_buried)

interpretation souls: keeper "keeping X s0" "keeping X" X "\<lambda>mid. mid \<in> soul_ids X s0" for X s0
proof
  fix s mid and f :: "memory \<Rightarrow> memory"
  assume "keeping X s0 s" "mid \<notin> soul_ids X s0" "\<And>r. mem_id (f r) = mem_id r"
  then show "hold.allowed X s0 s (on_rows (tupd mem_id mid f) s)"
    using keeping_ids [of X s0 s] by (intro keeping_allowed) (auto simp: keeping_def same_souls_def)
next
  fix s m ms
  assume "keeping X s0 s" "insert_memory_row m (rows s) = Inr ms"
  then show "hold.allowed X s0 s (s\<lparr>memories := Some ms\<rparr>)"
    by (intro keeping_allowed) (auto simp: keeping_def row_added same_souls_def)
next
  fix s t :: brain
  assume "keeping X s0 s" "memories t = memories s" "same_souls s t" "set (graves s) \<subseteq> set (graves t)"
  then have "keeping X s t" using row_same [of t s] by (simp add: keeping_def)
  with \<open>keeping X s0 s\<close> show "hold.allowed X s0 s t" by (rule keeping_allowed)
next
  fix s mid
  assume "keeping X s0 s" "mid \<notin> soul_ids X s0" "buried mid s"
  then show "hold.allowed X s0 s (on_rows (tdel mem_id mid) s)"
    using keeping_ids [of X s0 s] by (intro keeping_allowed) (auto simp: keeping_def same_souls_def)
next
  fix mid
  show "hold.stable X (buried mid)" by (auto simp: hold.stable_def buried_def keeping_def)
next
  fix t1 t2 t3 a b mid
  assume "keeping X s0 t1" "keeping X s0 t2" "keeping X s0 t3" "mid \<in> soul_ids X s0"
    and "with_merged (crystallised_leg X t1) (review_leg X t2) (merge_leg t3) = Some (a, b)"
  then show "mid \<in> set a \<union> set b" using merged_souls [of s0 t1 t2 t3] by (auto simp: keeping_def)
qed

definition passes :: "ext \<Rightarrow> (brain, (pass_summary \<times> bool) res) proc set" where
  "passes X = {p. \<exists>narrative should_pause. p = run_pass X narrative should_pause}"

text \<open>
  C8: Whatever forgetting passes run, at once or after one another, wherever they stop, and whatever goes wrong:
  a memory that is gone has its entry in the graveyard, as long as the other programs on the folder delete none
  and keep the graveyard.
\<close>

theorem lost_are_buried:
  assumes "pool_runs (passes X) env ([], s0) (ps, s)" and "\<And>s t. env s t \<Longrightarrow> burying s t" and "row mid s0 \<noteq> None"
  shows "row mid s \<noteq> None \<or> buried mid s"
proof -
  have "burying s0 (snd (ps, s))"
    by (rule graveyard.safe_pool [OF assms(1) burying_refl])
       (auto simp: passes_def intro: cemetery.safe_pass burying_allowed assms(2))
  with assms(3) show ?thesis by (auto simp: burying_def)
qed

text \<open>
  C9: However the passes interleave and whatever fails: a memory the soul holds on to (crystallised, under review, or
  the row into which such a one was merged) keeps its text, its snapshot and its state, as long as the other
  programs leave it and the soul's files alone. A file that cannot be read holds on to everything.
\<close>

theorem forgetting_spares_souls:
  assumes "pool_runs (passes X) env ([], s0) (ps, s)" and "\<And>s t. env s t \<Longrightarrow> keeping X s t"
    and "mid \<in> soul_ids X s0" and "row mid s0 = Some r"
  shows "\<exists>r'. row mid s = Some r' \<and> text_of r' = text_of r"
proof -
  have "keeping X s0 (snd (ps, s))"
    by (rule hold.safe_pool [OF assms(1) keeping_refl])
       (auto simp: passes_def intro: souls.safe_pass keeping_allowed assms(2))
  with assms(3,4) show ?thesis by (auto simp: keeping_def)
qed

end
