(* ===== verification/Forgetting_Runs.thy ===== *)
theory Forgetting_Runs
  imports Forgetting_Laws
begin

text \<open>
  A forgetting pass with nobody else at work: what each memory's turn does to the folder, when a memory is lost,
  and that a pause is invisible in the result.
\<close>

section \<open>What one turn does\<close>

definition intact :: "brain \<Rightarrow> bool" where
  "intact w \<longleftrightarrow> (\<forall>r. \<not> fails w r) \<and> memories w \<noteq> None"

definition faded_row :: "string \<Rightarrow> string \<Rightarrow> memory \<Rightarrow> memory" where
  "faded_row model summary r = r\<lparr>content_snapshot := Some (content r), content := summary, mem_state := ''fading'', embedding := Some (summary, model)\<rparr>"

definition unfaded_row :: "string \<Rightarrow> memory \<Rightarrow> memory" where
  "unfaded_row model r = (case content_snapshot r of None \<Rightarrow> r
     | Some text \<Rightarrow> r\<lparr>content := text, content_snapshot := None, mem_state := ''active'', embedding := Some (text, model)\<rparr>)"

lemma alone_using [simp]: "\<not> fails w r \<Longrightarrow> alone (using_file r f) w = (Inr (), f w)"
  by (simp add: using_file_def)

lemma alone_find_row [simp]: "alone (find_row mid) w = (case row mid w of None \<Rightarrow> Inl KeyError | Some r \<Rightarrow> Inr r, w)"
  by (simp add: find_row_def)

lemma fails_on_rows [simp]: "fails (on_rows f w) = fails w" "now_utc (on_rows f w) = now_utc w" "embedder (on_rows f w) = embedder w"
  by (simp_all add: on_rows_def)

lemma on_rows_twice [simp]: "on_rows f (on_rows g w) = on_rows (f \<circ> g) w"
  by (simp add: on_rows_def option.map_comp)

lemma tupd_twice: "(\<And>r. mem_id (g r) = mem_id r) \<Longrightarrow> tupd mem_id k f \<circ> tupd mem_id k g = tupd mem_id k (\<lambda>r. f (g r))"
  by (simp add: tupd_def fun_eq_iff)

lemma alone_reembed:
  "\<forall>r. \<not> fails w r \<Longrightarrow> alone (reembed_or_clear mid text) w = (Inr (), on_rows (tupd mem_id mid (\<lambda>r. r\<lparr>embedding := Some (text, embedder w)\<rparr>)) w)"
  by (simp add: reembed_or_clear_def embed_row_def write_embedding_def alone_andthen alone_andok)

lemma alone_fade:
  "\<forall>r. \<not> fails w r \<Longrightarrow> row mid w = Some r \<Longrightarrow> mem_state r \<noteq> ''fading'' \<Longrightarrow>
   alone (fade mid summary) w = (Inr (), on_rows (tupd mem_id mid (faded_row (embedder w) summary)) w)"
  by (simp add: fade_def alone_andok alone_reembed tupd_twice faded_row_def [abs_def])

lemma tupd_row_cong:
  "distinct (map mem_id t) \<Longrightarrow> tget mem_id k t = Some r \<Longrightarrow> f r = g r \<Longrightarrow> tupd mem_id k f t = tupd mem_id k g t"
  using tget_distinct [of mem_id t] by (fastforce simp: tupd_def)

lemma on_rows_cong: "f (rows w) = g (rows w) \<Longrightarrow> on_rows f w = on_rows g w"
  by (cases "memories w") (simp_all add: on_rows_def rows_def)

lemma tupd_id: "distinct (map mem_id t) \<Longrightarrow> tget mem_id k t = Some r \<Longrightarrow> f r = r \<Longrightarrow> tupd mem_id k f t = t"
  using tupd_row_cong [of t k r f "\<lambda>r. r"] by (simp add: tupd_def)

lemma on_rows_id: "f (rows w) = rows w \<Longrightarrow> on_rows f w = w"
  by (cases "memories w") (simp_all add: on_rows_def rows_def)

lemma alone_unfade:
  assumes "\<forall>r. \<not> fails w r" "row mid w = Some r" "distinct (map mem_id (rows w))"
  shows "alone (unfade mid) w = (Inr (), on_rows (tupd mem_id mid (unfaded_row (embedder w))) w)"
proof (cases "content_snapshot r")
  case None
  then have "on_rows (tupd mem_id mid (unfaded_row (embedder w))) w = w"
    using assms(2,3) by (intro on_rows_id tupd_id [of _ _ r]) (simp_all add: unfaded_row_def row_def)
  with None assms show ?thesis by (simp add: unfade_def alone_andok)
next
  case (Some old)
  define g :: "memory \<Rightarrow> memory" where "g = (\<lambda>r. r\<lparr>content := old, content_snapshot := None, mem_state := ''active'', embedding := None\<rparr>)"
  have "on_rows (tupd mem_id mid (\<lambda>r. (g r)\<lparr>embedding := Some (old, embedder w)\<rparr>)) w = on_rows (tupd mem_id mid (unfaded_row (embedder w))) w"
    using assms(2,3) Some by (intro on_rows_cong tupd_row_cong [of _ _ r]) (simp_all add: row_def unfaded_row_def g_def)
  moreover have "alone (unfade mid) w = (Inr (), on_rows (tupd mem_id mid (\<lambda>r. (g r)\<lparr>embedding := Some (old, embedder w)\<rparr>)) w)"
    using assms Some
    by (simp add: unfade_def restore_snapshot_def alone_andok alone_reembed tupd_twice g_def)
  ultimately show ?thesis by simp
qed

text \<open>Grief: a row is added, unless the memory left no grief or the new id is taken.\<close>

definition grieved :: "memory \<Rightarrow> brain \<Rightarrow> brain" where
  "grieved m w =
     (if grief_intensity m < GRIEF_THRESHOLD then w
      else let w' = w\<lparr>ids_drawn := Suc (ids_drawn w)\<rparr>;
               b = build_breadcrumb (new_ids w (ids_drawn w)) (now_utc w) (grief_intensity m) ''drop'' ''memory'' (mem_id m)
                     (drop_phrase (content m)) (dominant_non_grief_emotion (emotions m))
           in case insert_memory_row b (rows w) of Inl e \<Rightarrow> w' | Inr t \<Rightarrow> w'\<lparr>memories := Some t\<rparr>)"

lemma rows_ids [simp]: "rows (w\<lparr>ids_drawn := n\<rparr>) = rows w"
  by (simp add: rows_def)

lemma alone_handle_drop: "\<forall>r. \<not> fails w r \<Longrightarrow> alone (handle_drop m) w = (Inr (), grieved m w)"
  by (auto simp: handle_drop_def grieved_def attempt_def draw_id_def create_def alone_andthen alone_andok Let_def split: sum.split)

definition buried_as :: "pass_env \<Rightarrow> memory \<Rightarrow> real \<Rightarrow> salience_inputs \<Rightarrow> int \<Rightarrow> brain \<Rightarrow> grave" where
  "buried_as E m s inputs low w =
     \<lparr>g_memory_id = mem_id m, g_forgotten_at = now_utc w, g_lived_age = felt_lived_age (pe_felt E), g_domain = mem_domain m,
      g_type = memory_type m, g_created_at = created_at m, g_summary = content m, g_emotions = emotions m, g_salience = s,
      g_inputs = inputs, g_reason = ''salience<0.1 for '' @ dec_int low @ '' consecutive passes'',
      g_neighbors = neighbors (mem_id m) (graph_of E w)\<rparr>"

definition without_edges :: "pass_env \<Rightarrow> string \<Rightarrow> brain \<Rightarrow> brain" where
  "without_edges E mid w = (if pe_graph E then w\<lparr>hebbian := map_option (\<lambda>G. snd (remove_memory mid G)) (hebbian w)\<rparr> else w)"

definition entombed :: "grave \<Rightarrow> brain \<Rightarrow> brain" where
  "entombed g w = w\<lparr>graves := graves w @ [g]\<rparr>"

definition effect :: "pass_env \<Rightarrow> memory \<Rightarrow> real \<Rightarrow> int \<Rightarrow> transition \<Rightarrow> brain \<Rightarrow> brain" where
  "effect E m s low t w =
     (case t of
        Stay \<Rightarrow> w
      | Fade \<Rightarrow> on_rows (tupd mem_id (mem_id m) (faded_row (embedder w) (summarise (content m)))) w
      | Unfade \<Rightarrow> on_rows (tupd mem_id (mem_id m) (unfaded_row (embedder w))) w
      | Lose \<Rightarrow> (case compute_inputs m (graph_of E w) (pe_felt E) (pe_linked E) (now_utc w) of
          Inl e \<Rightarrow> w
        | Inr inputs \<Rightarrow>
            grieved m (without_edges E (mem_id m)
              (on_rows (tdel mem_id (mem_id m)) (entombed (buried_as E m s inputs low w) w)))))"

lemma row_graves [simp]: "row mid (w\<lparr>graves := g\<rparr>) = row mid w"
  by (simp add: row_def rows_def)

lemma fails_without [simp]: "fails (without_edges E mid w) = fails w"
  by (simp add: without_edges_def)

lemma alone_lose:
  assumes "\<forall>r. \<not> fails w r" "row (mem_id m) w = Some m"
    and "compute_inputs m (graph_of E w) (pe_felt E) (pe_linked E) (now_utc w) = Inr inputs"
  shows "alone (lose E m s low) w = (Inr (), effect E m s low Lose w)"
  using assms
  by (simp add: lose_def alone_andok alone_andthen append_grave_def hard_delete_def remove_edges_def effect_def buried_as_def entombed_def
        without_edges_def alone_handle_drop)

lemma alone_carry_out:
  assumes "\<forall>r. \<not> fails w r" "row (mem_id m) w = Some m" "distinct (map mem_id (rows w))"
    and "judge E m (graph_of E w) p (now_utc w) = Inr (Scored s low t)"
  shows "alone (carry_out E m s low t) w = (Inr (), effect E m s low t w)"
proof -
  from assms(4) obtain inputs where i: "compute_inputs m (graph_of E w) (pe_felt E) (pe_linked E) (now_utc w) = Inr inputs"
    by (auto simp: judge_def score_def bind_res_def split: if_splits sum.splits)
  have t: "t = Fade \<Longrightarrow> mem_state m \<noteq> ''fading''"
    using assms(4) by (auto simp: judge_def next_state_def bind_res_def Let_def split: if_splits sum.splits)
  show ?thesis
    by (cases t) (use assms(1-3) t i in \<open>simp_all add: carry_out_def alone_lose alone_fade alone_unfade effect_def\<close>)
qed

section \<open>What a turn leaves alone\<close>

text \<open>
  \<open>beside A w w'\<close>: outside \<open>A\<close> the rows of \<open>w\<close> are still there, and a row of \<open>w'\<close> is as old as the one in its
  place or was made just now.
\<close>

definition beside :: "string set \<Rightarrow> brain \<Rightarrow> brain \<Rightarrow> bool" where
  "beside A w w' \<longleftrightarrow>
     fails w' = fails w \<and> now_utc w' = now_utc w \<and> felt_state w' = felt_state w \<and> manifest w' = manifest w \<and> same_souls w w' \<and>
     (memories w' = None \<longleftrightarrow> memories w = None) \<and> (hebbian w' = None \<longleftrightarrow> hebbian w = None) \<and>
     (distinct (map mem_id (rows w)) \<longrightarrow> distinct (map mem_id (rows w'))) \<and>
     (\<forall>mid r. mid \<notin> A \<longrightarrow> row mid w = Some r \<longrightarrow> row mid w' = Some r) \<and>
     (\<forall>mid r'. row mid w' = Some r' \<longrightarrow> created_at r' = now_utc w \<or> (\<exists>r. row mid w = Some r \<and> created_at r' = created_at r))"

lemma beside_refl: "beside A w w"
  by (simp add: beside_def same_souls_def)

lemma beside_row: "beside A w w' \<Longrightarrow> mid \<notin> A \<Longrightarrow> row mid w = Some r \<Longrightarrow> row mid w' = Some r"
  by (simp add: beside_def)

lemma beside_age: "beside A w w' \<Longrightarrow> row mid w' = Some r \<Longrightarrow> created_at r = now_utc w \<or> row mid w \<noteq> None"
  unfolding beside_def by fastforce

lemma beside_mono: "beside A w w' \<Longrightarrow> A \<subseteq> B \<Longrightarrow> beside B w w'"
  by (auto simp: beside_def)

lemma beside_trans:
  assumes "beside A w w'" "beside A w' w''"
  shows "beside A w w''"
proof -
  have "created_at r = now_utc w \<or> (\<exists>r0. row mid w = Some r0 \<and> created_at r = created_at r0)" if "row mid w'' = Some r" for mid r
    using assms that unfolding beside_def by metis
  then show ?thesis using assms by (auto simp: beside_def same_souls_def)
qed

lemma rows_on_rows: "rows (on_rows f w) = (if memories w = None then [] else f (rows w))"
  by (auto simp: rows_def on_rows_def)

lemma on_rows_rest [simp]:
  "felt_state (on_rows f w) = felt_state w" "manifest (on_rows f w) = manifest w" "hebbian (on_rows f w) = hebbian w"
  "published (on_rows f w) = published w"
  by (simp_all add: on_rows_def)

lemma beside_edit:
  assumes "\<And>r. mem_id (f r) = mem_id r" "\<And>r. created_at (f r) = created_at r"
  shows "beside {k} w (on_rows (tupd mem_id k f) w)"
proof -
  have "map mem_id (tupd mem_id k f t) = map mem_id t" for t by (rule map_key_tupd) (simp add: assms(1))
  then show ?thesis using assms by (auto simp: beside_def same_souls_def rows_on_rows)
qed

lemma beside_delete: "beside {k} w (on_rows (tdel mem_id k) w)"
  by (auto simp: beside_def same_souls_def rows_on_rows distinct_tdel split: if_splits)

lemma beside_rest:
  "memories w' = memories w \<Longrightarrow> fails w' = fails w \<Longrightarrow> now_utc w' = now_utc w \<Longrightarrow> felt_state w' = felt_state w \<Longrightarrow>
   manifest w' = manifest w \<Longrightarrow> same_souls w w' \<Longrightarrow> (hebbian w' = None \<longleftrightarrow> hebbian w = None) \<Longrightarrow> beside A w w'"
  using row_same [of w' w] by (simp add: beside_def rows_def)

lemma created_breadcrumb [simp]: "created_at (build_breadcrumb u now i st rt rid txt' res) = now"
  by (simp add: build_breadcrumb_def create_new_def Let_def)

lemma beside_insert:
  assumes "insert_memory_row b (rows w) = Inr t" "created_at b = now_utc w" "memories w \<noteq> None"
  shows "beside A w (w\<lparr>memories := Some t\<rparr>)"
proof -
  obtain m where t: "t = rows w @ [m]" "mem_id m = mem_id b" "created_at m = now_utc w" "tget mem_id (mem_id b) (rows w) = None"
    using assms(1,2) by (auto simp: insert_memory_row_def split: if_splits)
  have "row mid (w\<lparr>memories := Some t\<rparr>) = (if mid = mem_id b then Some m else row mid w)" for mid
    using t by (auto simp: row_def rows_def split: option.split)
  moreover have "rows (w\<lparr>memories := Some t\<rparr>) = t" by (simp add: rows_def)
  ultimately show ?thesis using t assms(3) by (auto simp: beside_def same_souls_def row_def tget_None_iff)
qed

lemma beside_grieved: "memories w \<noteq> None \<Longrightarrow> beside A w (grieved m w)"
proof -
  assume m: "memories w \<noteq> None"
  let ?w = "w\<lparr>ids_drawn := Suc (ids_drawn w)\<rparr>"
  have a: "beside A w ?w" by (rule beside_rest) (simp_all add: same_souls_def)
  have b: "beside A w (?w\<lparr>memories := Some t\<rparr>)"
    if "insert_memory_row b (rows w) = Inr t" "created_at b = now_utc w" for b t
    by (rule beside_trans [OF a], rule beside_insert) (use that m in simp_all)
  show ?thesis
    using a b by (auto simp: grieved_def Let_def beside_refl split: sum.split)
qed

lemma beside_effect: "memories w \<noteq> None \<Longrightarrow> beside {mem_id m} w (effect E m s low t w)"
proof (cases t)
  case Lose
  assume some: "memories w \<noteq> None"
  show ?thesis
  proof (cases "compute_inputs m (graph_of E w) (pe_felt E) (pe_linked E) (now_utc w)")
    case (Inr inputs)
    define w1 where "w1 = entombed (buried_as E m s inputs low w) w"
    define w2 where "w2 = on_rows (tdel mem_id (mem_id m)) w1"
    define w3 where "w3 = without_edges E (mem_id m) w2"
    have "beside {mem_id m} w w1" unfolding w1_def entombed_def by (rule beside_rest) (simp_all add: same_souls_def)
    moreover have "beside {mem_id m} w1 w2" unfolding w2_def by (rule beside_delete)
    moreover have "beside {mem_id m} w2 w3" unfolding w3_def without_edges_def
      by (auto intro!: beside_refl beside_rest simp: same_souls_def)
    moreover have "memories w3 \<noteq> None" using some by (simp add: w3_def w2_def w1_def without_edges_def entombed_def)
    then have "beside {mem_id m} w3 (grieved m w3)" by (rule beside_grieved)
    ultimately have "beside {mem_id m} w (grieved m w3)" by (blast intro: beside_trans)
    then show ?thesis using Lose Inr by (simp add: effect_def w3_def w2_def w1_def)
  qed (simp add: Lose effect_def beside_refl)
qed (auto simp: effect_def beside_refl faded_row_def unfaded_row_def split: option.split intro!: beside_edit)

section \<open>The loop\<close>

text \<open>The stamps the pass reads can be compared with the clock.\<close>

definition calm :: "pass_env \<Rightarrow> bool" where
  "calm E \<longleftrightarrow> (\<forall>t. pe_migrated E \<noteq> Some (AtNaive t)) \<and> (\<forall>st. felt_first_tick (pe_felt E) = Some st \<longrightarrow> (\<exists>t. st = At t))"

lemma judge_total: "calm E \<Longrightarrow> \<exists>v. judge E m G p now = Inr v"
proof -
  assume c: "calm E"
  have "\<exists>g. is_within_import_grace m (pe_migrated E) (pe_at_migration E) (felt_lived_age (pe_felt E)) = Inr g"
    using c by (auto simp: is_within_import_grace_def calm_def split: option.split stamp.split)
  then obtain g where g: "is_within_import_grace m (pe_migrated E) (pe_at_migration E) (felt_lived_age (pe_felt E)) = Inr g"
    by blast
  have l: "\<exists>x. lived_hours_since a (pe_felt E) now = Inr x" for a
    using c by (auto simp: lived_hours_since_def calm_def since_def Let_def split: option.split)
  then obtain x where "lived_hours_since (anchor_of m) (pe_felt E) now = Inr x" by blast
  then show ?thesis
    by (auto simp: judge_def g bind_res_def score_def compute_inputs_def peak_input_def freshness_input_def Let_def)
qed

definition stored :: "counters \<Rightarrow> dict" where
  "stored cs = map (\<lambda>(k, n). (k, JInt n)) cs"

fun turn_of :: "pass_env \<Rightarrow> memory \<Rightarrow> brain \<times> counters \<Rightarrow> brain \<times> counters" where
  "turn_of E m (w, cs) =
     (case judge E m (graph_of E w) (previous_low (mem_id m) cs) (now_utc w) of
        Inr (Scored s low t) \<Rightarrow>
          (let cs' = count_low (mem_id m) (low_after t low) cs
           in ((effect E m s low t w)\<lparr>cursor := [(''last_id'', JStr (mem_id m))], low_passes := stored cs'\<rparr>, cs'))
      | _ \<Rightarrow> (w, cs))"

lemma beside_turn: "memories w \<noteq> None \<Longrightarrow> beside {mem_id m} w (fst (turn_of E m (w, cs)))"
proof -
  assume m: "memories w \<noteq> None"
  have "beside {mem_id m} w ((effect E m s low t w)\<lparr>cursor := c, low_passes := l\<rparr>)" for s low t c l
    by (rule beside_trans [OF beside_effect [OF m]], rule beside_rest) (simp_all add: same_souls_def)
  then show ?thesis by (auto simp: beside_refl Let_def split: sum.split verdict.split)
qed

lemma beside_turns:
  "memories (fst s) \<noteq> None \<Longrightarrow> beside (mem_id ` set ms) (fst s) (fst (fold (turn_of E) ms s))"
proof (induction ms arbitrary: s)
  case (Cons m ms)
  obtain w cs where s: "s = (w, cs)" by (cases s)
  have b: "beside {mem_id m} w (fst (turn_of E m s))" using beside_turn Cons.prems by (simp add: s del: turn_of.simps)
  then have "memories (fst (turn_of E m s)) \<noteq> None" using Cons.prems by (simp add: beside_def s)
  from Cons.IH [OF this] have "beside (mem_id ` set (m # ms)) (fst (turn_of E m s)) (fst (fold (turn_of E) (m # ms) s))"
    by (auto elim: beside_mono)
  moreover have "beside (mem_id ` set (m # ms)) w (fst (turn_of E m s))" using b by (rule beside_mono) simp
  ultimately show ?case unfolding s by (auto intro: beside_trans)
qed (simp add: beside_refl)

lemma fails_effect: "memories w \<noteq> None \<Longrightarrow> fails (effect E m s low t w) = fails w"
  using beside_effect by (simp add: beside_def)

text \<open>The loop handles a first part of the memories; when it stops before the end, the cursor names the last of them.\<close>

lemma alone_loop:
  assumes "calm E" "intact w" "distinct (map mem_id (rows w))" "distinct (map mem_id ms)"
    and "\<forall>m \<in> set ms. row (mem_id m) w = Some m"
  shows "\<exists>ms1 ms2 p sm'. ms = ms1 @ ms2 \<and>
     alone (pass_loop E should_pause ms cs sm) w =
       (Inr (p, snd (fold (turn_of E) ms1 (w, cs)), sm'), fst (fold (turn_of E) ms1 (w, cs))) \<and>
     (if p then ms1 \<noteq> [] \<and> ms2 \<noteq> [] \<and> cursor (fst (fold (turn_of E) ms1 (w, cs))) = [(''last_id'', JStr (mem_id (last ms1)))] \<and>
             low_passes (fst (fold (turn_of E) ms1 (w, cs))) = stored (snd (fold (turn_of E) ms1 (w, cs))) \<and> (\<exists>m. should_pause m)
      else ms2 = [])"
  using assms(2-)
proof (induction ms arbitrary: w cs sm)
  case (Cons m ms)
  from judge_total [OF assms(1)] obtain v where
    v: "judge E m (graph_of E w) (previous_low (mem_id m) cs) (now_utc w) = Inr v" by blast
  obtain w' cs' where wcs: "turn_of E m (w, cs) = (w', cs')" by (cases "turn_of E m (w, cs)")
  have some: "memories w \<noteq> None" "\<forall>r. \<not> fails w r" using Cons.prems(1) by (simp_all add: intact_def)
  have b: "beside {mem_id m} w w'" using beside_turn [OF some(1), of m E cs] by (simp add: wcs del: turn_of.simps)
  have after: "intact w'" "distinct (map mem_id (rows w'))" "distinct (map mem_id ms)"
    using b Cons.prems(1-3) by (auto simp: intact_def beside_def)
  have still: "\<forall>x \<in> set ms. row (mem_id x) w' = Some x"
    by (intro ballI, rule beside_row [OF b]) (use Cons.prems(3,4) in \<open>auto simp: image_iff\<close>)
  show ?case
  proof (cases v)
    case Exempt
    then have same: "w' = w" "cs' = cs" using wcs v by simp_all
    from Cons.IH [OF after still, of cs "sm\<lparr>exempt := Suc (exempt sm)\<rparr>", unfolded same] obtain ms1 ms2 p sm' where
      r: "ms = ms1 @ ms2" "alone (pass_loop E should_pause ms cs (sm\<lparr>exempt := Suc (exempt sm)\<rparr>)) w =
       (Inr (p, snd (fold (turn_of E) ms1 (w, cs)), sm'), fst (fold (turn_of E) ms1 (w, cs)))"
      "if p then ms1 \<noteq> [] \<and> ms2 \<noteq> [] \<and> cursor (fst (fold (turn_of E) ms1 (w, cs))) = [(''last_id'', JStr (mem_id (last ms1)))] \<and>
             low_passes (fst (fold (turn_of E) ms1 (w, cs))) = stored (snd (fold (turn_of E) ms1 (w, cs))) \<and> (\<exists>m. should_pause m)
      else ms2 = []" by blast
    have f: "fold (turn_of E) (m # ms1) (w, cs) = fold (turn_of E) ms1 (w, cs)" using wcs same by (simp del: turn_of.simps)
    show ?thesis
      by (rule exI [of _ "m # ms1"], rule exI [of _ ms2], rule exI [of _ p], rule exI [of _ sm'])
         (use r v Exempt f in \<open>auto simp: alone_andok simp del: fold_simps(2)\<close>)
  next
    case (Scored s low t)
    define cs1 where "cs1 = count_low (mem_id m) (low_after t low) cs"
    have w': "w' = (effect E m s low t w)\<lparr>cursor := [(''last_id'', JStr (mem_id m))], low_passes := stored cs1\<rparr>" "cs' = cs1"
      using wcs v Scored by (auto simp: Let_def cs1_def)
    have run: "alone (pass_loop E should_pause (m # ms) cs sm) w =
        (if ms \<noteq> [] \<and> should_pause (mem_id m) then (Inr (True, cs', tallied t sm), w')
         else alone (pass_loop E should_pause ms cs' (tallied t sm)) w')"
      using v Scored some Cons.prems(2,4) fails_effect [OF some(1)]
      by (simp add: alone_andok alone_andthen alone_carry_out Let_def save_progress_def set_cursor_def
            persist_forgetting_state_def stored_def cs1_def [symmetric] w')
    show ?thesis
    proof (cases "ms \<noteq> [] \<and> should_pause (mem_id m)")
      case True
      then show ?thesis using run wcs w'
        by (intro exI [of _ "[m]"] exI [of _ ms] exI [of _ True] exI [of _ "tallied t sm"]) (auto simp del: turn_of.simps)
    next
      case False
      from Cons.IH [OF after still, of cs' "tallied t sm"] obtain ms1 ms2 p sm' where
        r: "ms = ms1 @ ms2" "alone (pass_loop E should_pause ms cs' (tallied t sm)) w' =
         (Inr (p, snd (fold (turn_of E) ms1 (w', cs')), sm'), fst (fold (turn_of E) ms1 (w', cs')))"
        "if p then ms1 \<noteq> [] \<and> ms2 \<noteq> [] \<and> cursor (fst (fold (turn_of E) ms1 (w', cs'))) = [(''last_id'', JStr (mem_id (last ms1)))] \<and>
             low_passes (fst (fold (turn_of E) ms1 (w', cs'))) = stored (snd (fold (turn_of E) ms1 (w', cs'))) \<and> (\<exists>m. should_pause m)
        else ms2 = []" by blast
      have f: "fold (turn_of E) (m # ms1) (w, cs) = fold (turn_of E) ms1 (w', cs')" using wcs by (simp del: turn_of.simps)
      show ?thesis
        by (rule exI [of _ "m # ms1"], rule exI [of _ ms2], rule exI [of _ p], rule exI [of _ sm'])
           (use r run False f in \<open>auto simp del: fold_simps(2) pass_loop.simps\<close>)
    qed
  qed
qed (auto intro: exI [of _ "[]"])

section \<open>The whole pass\<close>

text \<open>\<open>ready X narrative w E cs\<close>: everything can be read; \<open>E\<close> and \<open>cs\<close> are what a pass on \<open>w\<close> works with.\<close>

definition ready :: "ext \<Rightarrow> real \<Rightarrow> brain \<Rightarrow> pass_env \<Rightarrow> counters \<Rightarrow> bool" where
  "ready X narrative w E cs \<longleftrightarrow>
     intact w \<and> distinct (map mem_id (rows w)) \<and> calm E \<and> load_forgetting_state (low_passes w) = Inr cs \<and>
     with_merged (crystallised_leg X w) (review_leg X w) (merge_leg w) = Some (pe_crystallised E, pe_under_review E) \<and>
     load_migration_grace (manifest w) = Inr (pe_migrated E, pe_at_migration E) \<and> pe_felt E = felt_state w \<and>
     pe_graph E = (hebbian w \<noteq> None) \<and> pe_narrative E = narrative"

lemma alone_run:
  assumes "ready X narrative w E cs"
  shows "alone (run_pass X narrative should_pause) w =
    (case alone (pass_loop E should_pause (not_done (cursor w) (select_memories w)) cs
            (no_summary\<lparr>total := length (select_memories w)\<rparr>)) w of
       (Inl e, w') \<Rightarrow> (Inl e, w') | (Inr r, w') \<Rightarrow> alone (finish r) w')"
proof (cases E)
  case (fields crystallised under_review migrated at_migration felt graph weight)
  with assms show ?thesis unfolding ready_def intact_def
    by (auto simp: run_pass_def load_soul_linked_ids_def alone_andok alone_andthen split: prod.split sum.split)
qed

lemma set_not_done: "set (not_done c ms) \<subseteq> set ms"
  by (auto simp: not_done_def split: option.split json.split dest: set_dropWhileD)

lemma distinct_select: "distinct (map mem_id (rows w)) \<Longrightarrow> distinct (map mem_id (select_memories w))"
  by (auto simp: select_memories_def distinct_map intro: inj_on_subset)

lemma distinct_not_done: "distinct (map mem_id ms) \<Longrightarrow> distinct (map mem_id (not_done c ms))"
  by (auto simp: not_done_def distinct_map dest: set_dropWhileD intro: inj_on_subset split: option.split json.split)

lemma selected_row:
  assumes "distinct (map mem_id (rows w))" "m \<in> set (not_done c (select_memories w))"
  shows "row (mem_id m) w = Some m" "mem_state m = ''active'' \<or> mem_state m = ''fading''"
  using subsetD [OF set_not_done assms(2)] assms(1) by (auto simp: select_memories_def row_def tget_distinct)

text \<open>What a pass that runs alone comes to.\<close>

definition ended :: "bool \<Rightarrow> counters \<Rightarrow> pass_summary \<Rightarrow> brain \<Rightarrow> brain" where
  "ended paused cs sm w =
     (if paused then w\<lparr>published := published w @ [sm]\<rparr>
      else w\<lparr>cursor := [], low_passes := stored cs, published := published w @ [sm]\<rparr>)"

lemma alone_finish: "\<forall>r. \<not> fails w r \<Longrightarrow> alone (finish (p, cs, sm)) w = (Inr (sm, p), ended p cs sm w)"
  by (simp add: finish_def publish_def clear_progress_def set_cursor_def persist_forgetting_state_def alone_andok alone_andthen
        ended_def stored_def)

lemma alone_pass:
  assumes "ready X narrative w E cs"
  shows "\<exists>ms1 ms2 p sm. not_done (cursor w) (select_memories w) = ms1 @ ms2 \<and>
     alone (run_pass X narrative should_pause) w =
       (Inr (sm, p), ended p (snd (fold (turn_of E) ms1 (w, cs))) sm (fst (fold (turn_of E) ms1 (w, cs)))) \<and>
     (if p then ms1 \<noteq> [] \<and> ms2 \<noteq> [] \<and> cursor (fst (fold (turn_of E) ms1 (w, cs))) = [(''last_id'', JStr (mem_id (last ms1)))] \<and>
             low_passes (fst (fold (turn_of E) ms1 (w, cs))) = stored (snd (fold (turn_of E) ms1 (w, cs))) \<and> (\<exists>m. should_pause m)
      else ms2 = [])"
proof -
  let ?ms = "not_done (cursor w) (select_memories w)" and ?sm = "no_summary\<lparr>total := length (select_memories w)\<rparr>"
  have r: "intact w" "distinct (map mem_id (rows w))" "calm E" using assms by (simp_all add: ready_def)
  have d: "distinct (map mem_id ?ms)" by (rule distinct_not_done [OF distinct_select [OF r(2)]])
  have there: "\<forall>m \<in> set ?ms. row (mem_id m) w = Some m" using selected_row(1) [OF r(2)] by blast
  from alone_loop [OF r(3,1,2) d there, where should_pause = should_pause and cs = cs and sm = ?sm]
  obtain ms1 ms2 p sm' where l: "?ms = ms1 @ ms2"
    "alone (pass_loop E should_pause ?ms cs ?sm) w = (Inr (p, snd (fold (turn_of E) ms1 (w, cs)), sm'), fst (fold (turn_of E) ms1 (w, cs)))"
    "if p then ms1 \<noteq> [] \<and> ms2 \<noteq> [] \<and> cursor (fst (fold (turn_of E) ms1 (w, cs))) = [(''last_id'', JStr (mem_id (last ms1)))] \<and>
             low_passes (fst (fold (turn_of E) ms1 (w, cs))) = stored (snd (fold (turn_of E) ms1 (w, cs))) \<and> (\<exists>m. should_pause m)
      else ms2 = []" by (elim exE conjE) (rule that)
  have ok: "\<forall>r. \<not> fails (fst (fold (turn_of E) ms1 (w, cs))) r"
    using beside_turns [of "(w, cs)" ms1 E] r(1) by (auto simp: intact_def beside_def)
  have "alone (run_pass X narrative should_pause) w =
      (Inr (sm', p), ended p (snd (fold (turn_of E) ms1 (w, cs))) sm' (fst (fold (turn_of E) ms1 (w, cs))))"
    unfolding alone_run [OF assms] l(2) by (simp add: alone_finish [OF ok])
  with l(1,3) show ?thesis by (intro exI conjI)
qed

section \<open>When a memory is lost\<close>

lemma row_ended [simp]: "row mid (ended p cs sm w) = row mid w" "graves (ended p cs sm w) = graves w"
  by (simp_all add: ended_def row_def rows_def)

lemma turn_loses:
  assumes "memories w \<noteq> None" "row (mem_id m) w = Some m" "row (mem_id m) (fst (turn_of E m (w, cs))) = None"
  obtains s G where "score m G (pe_felt E) (pe_linked E) (now_utc w) = Inr s" "s < LOST_THRESHOLD" "mem_state m = ''fading''"
    "LOST_PASS_COUNT \<le> previous_low (mem_id m) cs + 1" "\<not> is_exempt m (pe_crystallised E) (pe_under_review E) (felt_lived_age (pe_felt E)) (now_utc w)"
proof -
  have keep: "row mid (w\<lparr>cursor := c, low_passes := l\<rparr>) = row mid w" for mid w c l by (simp add: row_def rows_def)
  obtain s low t where v: "judge E m (graph_of E w) (previous_low (mem_id m) cs) (now_utc w) = Inr (Scored s low t)"
    using assms(2,3) by (auto split: sum.splits verdict.splits)
  then have "row (mem_id m) (effect E m s low t w) = None" using assms(3) by (simp add: Let_def keep)
  then have "t = Lose" using assms(2) by (cases t) (simp_all add: effect_def faded_row_def unfaded_row_def split: option.split)
  then show thesis using v
    by (intro that [of "graph_of E w" s]) (auto simp: judge_def bind_res_def next_state_def Let_def LOST_PASS_COUNT_def split: if_splits sum.splits)
qed

text \<open>Counters of other memories are left alone.\<close>

lemma previous_low_turn: "mid \<noteq> mem_id m \<Longrightarrow> previous_low mid (snd (turn_of E m (w, cs))) = previous_low mid cs"
  by (auto simp: previous_low_def count_low_def Let_def update_conv' delete_conv' split: sum.split verdict.split)

lemma fold_loses:
  assumes "memories w \<noteq> None" "row mid w = Some m" "row mid (fst (fold (turn_of E) ms (w, cs))) = None"
    and "distinct (map mem_id ms)" "\<forall>x \<in> set ms. row (mem_id x) w = Some x"
  shows "\<exists>s G. score m G (pe_felt E) (pe_linked E) (now_utc w) = Inr s \<and> s < LOST_THRESHOLD \<and> mem_state m = ''fading'' \<and>
    LOST_PASS_COUNT \<le> previous_low mid cs + 1 \<and>
    \<not> is_exempt m (pe_crystallised E) (pe_under_review E) (felt_lived_age (pe_felt E)) (now_utc w)"
  using assms
proof (induction ms arbitrary: w cs)
  case (Cons x ms)
  obtain w' cs' where t: "turn_of E x (w, cs) = (w', cs')" by (cases "turn_of E x (w, cs)")
  have b: "beside {mem_id x} w w'" using beside_turn [OF Cons.prems(1), of x E cs] by (simp add: t del: turn_of.simps)
  have some: "memories w' \<noteq> None" "now_utc w' = now_utc w" using b Cons.prems(1) by (simp_all add: beside_def)
  have gone: "row mid (fst (fold (turn_of E) ms (w', cs'))) = None" using Cons.prems(3) t by (simp del: turn_of.simps)
  show ?case
  proof (cases "mem_id x = mid")
    case True
    then have x: "x = m" using Cons.prems(2,5) by simp
    have "row mid w' = None"
    proof (rule ccontr)
      assume "row mid w' \<noteq> None"
      then obtain r where "row mid w' = Some r" by blast
      moreover have "mid \<notin> mem_id ` set ms" using Cons.prems(4) True by auto
      ultimately have "row mid (fst (fold (turn_of E) ms (w', cs'))) = Some r"
        using beside_row [OF beside_turns [of "(w', cs')" ms E]] some(1) by simp
      with gone show False by simp
    qed
    then have g: "row (mem_id m) (fst (turn_of E m (w, cs))) = None" using t x True by (simp del: turn_of.simps)
    show ?thesis
      by (rule turn_loses [OF Cons.prems(1) _ g]) (use Cons.prems(2) x True in auto)
  next
    case False
    then have "row mid w' = Some m" using beside_row [OF b] Cons.prems(2) by simp
    moreover have "\<forall>y \<in> set ms. row (mem_id y) w' = Some y"
      by (intro ballI, rule beside_row [OF b]) (use Cons.prems(4,5) in \<open>auto simp: image_iff\<close>)
    moreover have "previous_low mid cs' = previous_low mid cs"
      using previous_low_turn [of mid x E w cs] False by (simp add: t del: turn_of.simps)
    ultimately show ?thesis using Cons.IH [OF some(1) _ gone] Cons.prems(4) some(2) by simp
  qed
qed simp

lemma ready_souls: "ready X narrative w E cs \<Longrightarrow> soul_ids X w = set (pe_linked E)"
  using merged_souls [of w w w w X] by (auto simp: ready_def same_souls_def pe_linked_def)


section \<open>A pause is invisible\<close>

lemma with_published [simp]:
  "on_rows f (w\<lparr>published := p\<rparr>) = (on_rows f w)\<lparr>published := p\<rparr>" "graph_of E (w\<lparr>published := p\<rparr>) = graph_of E w"
  "without_edges E mid (w\<lparr>published := p\<rparr>) = (without_edges E mid w)\<lparr>published := p\<rparr>" "rows (w\<lparr>published := p\<rparr>) = rows w"
  "buried_as E m s i low (w\<lparr>published := p\<rparr>) = buried_as E m s i low w"
  "entombed g (w\<lparr>published := p\<rparr>) = (entombed g w)\<lparr>published := p\<rparr>"
  by (simp_all add: entombed_def on_rows_def graph_of_def without_edges_def rows_def buried_as_def)

lemma grieved_published [simp]: "grieved m (w\<lparr>published := p\<rparr>) = (grieved m w)\<lparr>published := p\<rparr>"
  by (simp add: grieved_def Let_def split: sum.split)

lemma effect_published: "effect E m s low t (w\<lparr>published := p\<rparr>) = (effect E m s low t w)\<lparr>published := p\<rparr>"
  by (cases t) (simp_all add: effect_def split: sum.split)

lemma turns_published:
  "fold (turn_of E) ms (w\<lparr>published := p\<rparr>, cs) =
     ((fst (fold (turn_of E) ms (w, cs)))\<lparr>published := p\<rparr>, snd (fold (turn_of E) ms (w, cs)))"
proof (induction ms arbitrary: w cs)
  case (Cons m ms)
  have "turn_of E m (w\<lparr>published := p\<rparr>, cs) = ((fst (turn_of E m (w, cs)))\<lparr>published := p\<rparr>, snd (turn_of E m (w, cs)))"
    by (simp add: effect_published Let_def split: sum.split verdict.split)
  then show ?case using Cons.IH [of "fst (turn_of E m (w, cs))" "snd (turn_of E m (w, cs))"] by (simp del: turn_of.simps)
qed simp

lemma load_stored: "load_forgetting_state (stored cs) = Inr cs"
proof -
  have "counts_of (stored cs) = Inr cs" by (induction cs) (auto simp: stored_def numeric_def bind_res_def)
  then show ?thesis by (simp add: load_forgetting_state_def)
qed

lemma turn_of_new: "created_at m = now_utc w \<Longrightarrow> turn_of E m (w, cs) = (w, cs)"
  by (simp add: judge_def is_exempt_def hours_def RECENT_LIVED_HOURS_def)

lemma turns_without_new:
  assumes "memories (fst s) \<noteq> None" "\<forall>m \<in> set ms. P m \<or> created_at m = now_utc (fst s)"
  shows "fold (turn_of E) ms s = fold (turn_of E) (filter P ms) s"
  using assms
proof (induction ms arbitrary: s)
  case (Cons m ms)
  obtain w cs where s: "s = (w, cs)" by (cases s)
  have "beside {mem_id m} w (fst (turn_of E m s))" using beside_turn Cons.prems(1) by (simp add: s del: turn_of.simps)
  then have "memories (fst (turn_of E m s)) \<noteq> None" "now_utc (fst (turn_of E m s)) = now_utc w"
    using Cons.prems(1) by (simp_all add: beside_def s del: turn_of.simps)
  then show ?case using Cons.IH Cons.prems turn_of_new [of m w E cs] by (cases "P m") (simp_all add: s del: turn_of.simps)
qed simp

lemma dropWhile_sorted: "sorted (map mem_id ms) \<Longrightarrow> dropWhile (\<lambda>m. \<not> l < mem_id m) ms = filter (\<lambda>m. l < mem_id m) ms"
proof (induction ms)
  case (Cons m ms)
  then show ?case by (cases "l < mem_id m") (auto intro!: filter_True [symmetric] dest: less_le_trans)
qed simp

lemma sorted_select: "sorted (map mem_id (select_memories w))"
  by (simp add: select_memories_def)

lemma sorted_last: "sorted (map f xs) \<Longrightarrow> x \<in> set xs \<Longrightarrow> f x \<le> (f (last xs) :: 'b :: linorder)"
  by (induction xs) auto

lemma selection_from:
  assumes "not_done c (select_memories w) = ms1 @ ms2" "ms1 \<noteq> []" "distinct (map mem_id (rows w))"
  shows "ms2 = filter (\<lambda>m. mem_id (last ms1) < mem_id m) (select_memories w)"
    and "\<forall>m \<in> set ms1. mem_id m \<le> mem_id (last ms1)"
proof -
  let ?all = "select_memories w" and ?l = "mem_id (last ms1)"
  obtain from_here where split: "?all = from_here @ ms1 @ ms2"
  proof (cases "dget ''last_id'' c")
    case None
    then show thesis using assms(1) by (intro that [of "[]"]) (simp add: not_done_def)
  next
    case (Some j)
    show thesis
    proof (cases j)
      case (JStr l)
      then show thesis using assms(1) Some takeWhile_dropWhile_id [of "\<lambda>m. \<not> l < mem_id m" ?all]
        by (intro that [of "takeWhile (\<lambda>m. \<not> l < mem_id m) ?all"]) (simp add: not_done_def)
    qed (use assms(1) Some in \<open>auto simp: not_done_def intro!: that [of "[]"]\<close>)
  qed
  have ord: "sorted (map mem_id from_here @ map mem_id ms1 @ map mem_id ms2)"
      "distinct (map mem_id from_here @ map mem_id ms1 @ map mem_id ms2)"
    using sorted_select [of w] distinct_select [OF assms(3)] unfolding split by simp_all
  have l: "last ms1 \<in> set ms1" using assms(2) by simp
  have ms1: "mem_id m \<le> ?l" if "m \<in> set ms1" for m
    by (rule sorted_last) (use that ord(1) in \<open>auto simp: sorted_append\<close>)
  have "\<not> ?l < mem_id m" if "m \<in> set from_here" for m
    using ord(1) l that by (auto simp: sorted_append not_less)
  moreover have "?l < mem_id m" if "m \<in> set ms2" for m
  proof -
    have "?l \<le> mem_id m" using ord(1) l that by (simp add: sorted_append)
    moreover have "?l \<noteq> mem_id m" using ord(2) l that by (auto simp: disjoint_iff)
    ultimately show ?thesis by simp
  qed
  ultimately show "ms2 = filter (\<lambda>m. ?l < mem_id m) ?all" "\<forall>m \<in> set ms1. mem_id m \<le> ?l"
    unfolding split using ms1 by (auto simp: filter_empty_conv leD intro!: filter_True [symmetric])
qed

lemma ready_again:
  assumes "ready X narrative w E cs" "beside A w w'" "low_passes w' = stored cs'"
  shows "ready X narrative w' E cs'"
proof -
  have "crystallised_leg X w' = crystallised_leg X w" "review_leg X w' = review_leg X w" "merge_leg w' = merge_leg w"
    using assms(2) by (simp_all add: beside_def same_souls_def crystallised_leg_def review_leg_def merge_leg_def)
  then show ?thesis using assms by (auto simp: ready_def beside_def intact_def load_stored)
qed

lemma beside_published: "beside A w (w'\<lparr>published := p\<rparr>) \<longleftrightarrow> beside A w w'"
  by (simp add: beside_def same_souls_def row_def)

text \<open>What a pass that starts behind \<open>ms1\<close> in the folder \<open>wa\<close> finds: the old rest, and what is new.\<close>

lemma selection_after:
  assumes "not_done (cursor w) (select_memories w) = ms1 @ ms2" "ms1 \<noteq> []" "distinct (map mem_id (rows w))"
    and b: "beside (mem_id ` set ms1) w wa"
  defines "rest \<equiv> filter (\<lambda>m. mem_id (last ms1) < mem_id m) (select_memories wa)"
  shows "filter (\<lambda>m. row (mem_id m) w \<noteq> None) rest = ms2"
    and "\<forall>m \<in> set rest. row (mem_id m) w \<noteq> None \<or> created_at m = now_utc w"
proof -
  let ?l = "mem_id (last ms1)" and ?old = "\<lambda>m. row (mem_id m) w \<noteq> None"
  have dwa: "distinct (map mem_id (rows wa))" using b assms(3) by (simp add: beside_def)
  note sel = selection_from [OF assms(1-3)]
  have same: "x \<in> set (select_memories wa) \<longleftrightarrow> x \<in> set (select_memories w)" if l: "?l < mem_id x" and old: "row (mem_id x) w = Some r" for x r
  proof -
    have "mem_id x \<notin> mem_id ` set ms1" using sel(2) l by (auto simp: not_le [symmetric])
    then have "row (mem_id x) wa = Some r" by (rule beside_row [OF b _ old])
    then have "x \<in> set (rows wa) \<longleftrightarrow> r = x" "x \<in> set (rows w) \<longleftrightarrow> r = x"
      using old tget_distinct [OF dwa, of x] tget_distinct [OF assms(3), of x] by (auto simp: row_def dest: tget_mem)
    then show ?thesis by (simp add: select_memories_def)
  qed
  show "filter ?old rest = ms2"
  proof (rule map_sorted_distinct_set_unique [of mem_id])
    have ms2: "m \<in> set ms2 \<Longrightarrow> ?old m" for m
      using selected_row(1) [OF assms(3), of m "cursor w"] assms(1) by simp
    have "x \<in> set (filter ?old rest) \<longleftrightarrow> x \<in> set ms2" for x
      using same [of x] ms2 [of x] unfolding sel(1) rest_def by auto
    then show "set (filter ?old rest) = set ms2" by blast
    show "sorted (map mem_id (filter ?old rest))" "sorted (map mem_id ms2)"
      unfolding rest_def sel(1) by (intro sorted_filter sorted_select)+
    show "distinct (map mem_id (filter ?old rest))" "distinct (map mem_id ms2)"
      unfolding rest_def sel(1) using distinct_select [OF dwa] distinct_select [OF assms(3)] by (simp_all add: distinct_map_filter)
    have "inj_on mem_id (set (select_memories w))" using distinct_select [OF assms(3)] by (simp add: distinct_map)
    then show "inj_on mem_id (set (filter ?old rest) \<union> set ms2)"
      using \<open>set (filter ?old rest) = set ms2\<close> unfolding sel(1) by (auto intro: inj_on_subset)
  qed
  show "\<forall>m \<in> set rest. ?old m \<or> created_at m = now_utc w"
  proof
    fix m assume "m \<in> set rest"
    then have "row (mem_id m) wa = Some m" using dwa by (auto simp: rest_def select_memories_def row_def tget_distinct)
    from beside_age [OF b this] show "?old m \<or> created_at m = now_utc w" using b by (auto simp: beside_def)
  qed
qed

text \<open>
  C21: Pausing a pass is invisible: the paused pass and the next one, run to its end, leave the memories, the graph, the
  graveyard, the counters and the cursor as one pass without a pause would, if the clock stands and nobody
  else writes.
\<close>

theorem pause_is_invisible:
  assumes "ready X narrative w E cs" and "alone (run_pass X narrative should_pause) w = (Inr (sm1, True), w1)"
  shows "\<exists>sm sm2. fst (alone (run_pass X narrative (\<lambda>_. False)) w1) = Inr (sm2, False) \<and>
    fst (alone (run_pass X narrative (\<lambda>_. False)) w) = Inr (sm, False) \<and>
    (snd (alone (run_pass X narrative (\<lambda>_. False)) w1))\<lparr>published := []\<rparr> =
    (snd (alone (run_pass X narrative (\<lambda>_. False)) w))\<lparr>published := []\<rparr>"
proof -
  have w: "distinct (map mem_id (rows w))" "memories w \<noteq> None" using assms(1) by (simp_all add: ready_def intact_def)
  obtain ms1 ms2 where first: "not_done (cursor w) (select_memories w) = ms1 @ ms2" "ms1 \<noteq> []"
    "w1 = ended True (snd (fold (turn_of E) ms1 (w, cs))) sm1 (fst (fold (turn_of E) ms1 (w, cs)))"
    "cursor (fst (fold (turn_of E) ms1 (w, cs))) = [(''last_id'', JStr (mem_id (last ms1)))]"
    "low_passes (fst (fold (turn_of E) ms1 (w, cs))) = stored (snd (fold (turn_of E) ms1 (w, cs)))"
    using alone_pass [OF assms(1), of should_pause] assms(2) by auto
  define wa where "wa = fst (fold (turn_of E) ms1 (w, cs))"
  define ca where "ca = snd (fold (turn_of E) ms1 (w, cs))"
  have w1: "w1 = wa\<lparr>published := published wa @ [sm1]\<rparr>" using first(3) by (simp add: ended_def wa_def)
  have b: "beside (mem_id ` set ms1) w wa" using beside_turns [of "(w, cs)" ms1 E] w(2) by (simp add: wa_def)
  then have b1: "beside (mem_id ` set ms1) w w1" by (simp add: w1 beside_published)
  have again: "ready X narrative w1 E ca" by (rule ready_again [OF assms(1) b1]) (use first(5) in \<open>simp add: w1 wa_def ca_def\<close>)
  define rest where "rest = filter (\<lambda>m. mem_id (last ms1) < mem_id m) (select_memories wa)"
  note after = selection_after [OF first(1,2) w(1) b, folded rest_def]
  have "now_utc w1 = now_utc w" using b1 by (simp add: beside_def)
  have rest: "not_done (cursor w1) (select_memories w1) = rest"
    using first(4) dropWhile_sorted [OF sorted_select] by (simp add: w1 rest_def wa_def [symmetric] not_done_def select_memories_def dget_def)
  have "memories w1 \<noteq> None" using again by (simp add: ready_def intact_def)
  then have turns: "fold (turn_of E) rest (w1, ca) = fold (turn_of E) ms2 (w1, ca)"
    using turns_without_new [of "(w1, ca)" rest "\<lambda>m. row (mem_id m) w \<noteq> None" E] after \<open>now_utc w1 = now_utc w\<close> by simp
  obtain sm2 where second: "alone (run_pass X narrative (\<lambda>_. False)) w1 =
      (Inr (sm2, False), ended False (snd (fold (turn_of E) ms2 (w1, ca))) sm2 (fst (fold (turn_of E) ms2 (w1, ca))))"
    using alone_pass [OF again, of "\<lambda>_. False"] unfolding rest by (auto simp: turns split: if_splits)
  obtain sm where whole: "alone (run_pass X narrative (\<lambda>_. False)) w =
      (Inr (sm, False), ended False (snd (fold (turn_of E) (ms1 @ ms2) (w, cs))) sm (fst (fold (turn_of E) (ms1 @ ms2) (w, cs))))"
    using alone_pass [OF assms(1), of "\<lambda>_. False"] unfolding first(1) by (auto split: if_splits)
  have "fold (turn_of E) (ms1 @ ms2) (w, cs) = fold (turn_of E) ms2 (wa, ca)" by (simp add: wa_def ca_def)
  then show ?thesis unfolding second whole by (simp add: ended_def w1 turns_published)
qed

section \<open>A concrete pass\<close>

text \<open>Two memories nearly six years old: one fading and low in the last pass, one whose candidate is under review.\<close>

definition old_memory :: "string \<Rightarrow> string \<Rightarrow> string option \<Rightarrow> memory" where
  "old_memory mid st snapshot =
     \<lparr>mem_id = mid, content = ''walk'', memory_type = ''conversation'', mem_domain = ''us'', emotions = [], tags = [], importance = 0,
      mem_score = 0, created_at = 0, last_accessed_at = None, active_flag = True, protected_flag = False, metadata = [],
      mem_state = st, content_snapshot = snapshot, recall_count = 0, peak_emotion = 0, embedding = None, row_no = 0\<rparr>"

definition attic :: brain where
  "attic =
     \<lparr>memories = Some [old_memory ''b'' ''active'' None, old_memory ''a'' ''fading'' (Some ''a long walk'')], hebbian = None, graves = [],
      low_passes = [(''a'', JInt 1)], cursor = [], felt_state = \<lparr>felt_lived_age = 1000, felt_first_tick = None\<rparr>,
      candidates = [[(''memory_id'', JStr ''b''), (''status'', JStr ''pending'')]], archive = [], crystals = None, manifest = [],
      now_utc = 2000 * day, fails = (\<lambda>_. False), new_ids = (\<lambda>_. ''n''), ids_drawn = 0,
      embedder = ''m'', backfill_cursor = None, legacy_files = [], published = []\<rparr>"

definition attic_env :: pass_env where
  "attic_env =
     \<lparr>pe_crystallised = [], pe_under_review = [''b''], pe_migrated = None, pe_at_migration = Fin 0,
      pe_felt = \<lparr>felt_lived_age = 1000, felt_first_tick = None\<rparr>, pe_graph = False, pe_narrative = 0\<rparr>"

lemma attic_ready: "ready X 0 attic attic_env [(''a'', 1)]"
  by (simp add: ready_def attic_def attic_env_def old_memory_def intact_def rows_def calm_def load_forgetting_state_def numeric_def
      bind_res_def with_merged_def crystallised_leg_def review_leg_def merge_leg_def list_crystallised_memory_ids_def
      accepted_candidate_ids_def memory_ids_def list_under_review_memory_ids_def status_of_def unhashable_def dget_or_def dget_def
      text_field_def py_strip_def is_space_def merge_target_map_def with_targets_def load_migration_grace_def Let_def)

lemma attic_selected:
  "not_done (cursor attic) (select_memories attic) = [old_memory ''a'' ''fading'' (Some ''a long walk''), old_memory ''b'' ''active'' None]"
  by (simp add: not_done_def attic_def old_memory_def select_memories_def rows_def dget_def)

lemma attic_judged:
  "judge attic_env (old_memory ''a'' ''fading'' (Some ''a long walk'')) [] 1 (2000 * day) = Inr (Scored 0 2 Lose)"
  by (simp add: judge_def attic_env_def old_memory_def is_exempt_def hours_def RECENT_LIVED_HOURS_def is_within_import_grace_def bind_res_def
      score_def compute_inputs_def peak_input_def freshness_input_def lived_hours_since_def anchor_of_def freshness_of_def
      FRESHNESS_HORIZON_def importance_stretch_def importance_ratio_def clamp1_def clamp_def weighted_def emotion_input_def
      hebbian_input_def recall_input_def soul_input_def activation_count_def pe_linked_def LOST_THRESHOLD_def next_state_def
      effective_fade_def FADE_THRESHOLD_def FADE_IMPORTANCE_GAIN_def LOST_PASS_COUNT_def Let_def)

lemma attic_spared:
  "judge attic_env (old_memory ''b'' ''active'' None) G n now = Inr Exempt"
  by (simp add: judge_def attic_env_def old_memory_def is_exempt_def)

lemma attic_loses:
  "\<exists>w'. effect attic_env (old_memory ''a'' ''fading'' (Some ''a long walk'')) 0 2 Lose attic = w' \<and> row ''a'' w' = None \<and> fails w' = (\<lambda>_. False)"
proof -
  let ?m = "old_memory ''a'' ''fading'' (Some ''a long walk'')"
  obtain i where i: "compute_inputs ?m (graph_of attic_env attic) (pe_felt attic_env) (pe_linked attic_env) (now_utc attic) = Inr i"
    by (simp add: compute_inputs_def peak_input_def freshness_input_def lived_hours_since_def old_memory_def attic_env_def bind_res_def)
  have "grieved ?m w = w" for w
    by (simp add: grieved_def grief_intensity_def old_memory_def compute_drop_intensity_def clamp_def GRIEF_THRESHOLD_def)
  moreover have "mem_id ?m = ''a''" "pe_graph attic_env = False" by (simp_all add: old_memory_def attic_env_def)
  ultimately show ?thesis using i by (simp add: effect_def without_edges_def entombed_def) (simp add: attic_def)
qed

lemma attic_run:
  "\<exists>sm w'. alone (run_pass X 0 should_pause) attic = (Inr (sm, should_pause ''a''), w') \<and> row ''a'' w' = None"
proof -
  let ?a = "old_memory ''a'' ''fading'' (Some ''a long walk'')" and ?b = "old_memory ''b'' ''active'' None"
  obtain w' where e: "effect attic_env ?a 0 2 Lose attic = w'" "row ''a'' w' = None" "fails w' = (\<lambda>_. False)"
    using attic_loses by blast
  have facts: "graph_of attic_env attic = []" "now_utc attic = 2000 * day" "fails attic = (\<lambda>_. False)" "mem_id ?a = ''a''" "mem_id ?b = ''b''"
    "row ''a'' attic = Some ?a" "distinct (map mem_id (rows attic))"
    by (simp_all add: graph_of_def attic_def attic_env_def old_memory_def row_def rows_def)
  have "alone (carry_out attic_env ?a 0 2 Lose) attic = (Inr (), w')"
    using alone_carry_out [of attic ?a attic_env 1 0 2 Lose] attic_judged by (simp add: facts e(1))
  moreover have "row ''a'' (w'\<lparr>cursor := c, low_passes := l\<rparr>) = None" for c l using e(2) by (simp add: row_def rows_def)
  ultimately show ?thesis
    unfolding alone_run [OF attic_ready] attic_selected pass_loop.simps
    by (cases "should_pause ''a''")
       (simp_all add: alone_andok alone_andthen facts previous_low_def attic_judged [simplified] attic_spared save_progress_def set_cursor_def
          persist_forgetting_state_def e(3) Let_def alone_finish)
qed


lemma pause_is_invisible_witness:
  "\<forall>X. \<exists>sm. fst (alone (run_pass X 0 (\<lambda>_. False)) (snd (alone (run_pass X 0 (\<lambda>mid. mid = ''a'')) attic))) = Inr (sm, False)"
proof
  fix X
  obtain sm w' where "alone (run_pass X 0 (\<lambda>mid. mid = ''a'')) attic = (Inr (sm, True), w')"
    using attic_run [of X "\<lambda>mid. mid = ''a''"] by auto
  with pause_is_invisible [OF attic_ready this]
  show "\<exists>sm. fst (alone (run_pass X 0 (\<lambda>_. False)) (snd (alone (run_pass X 0 (\<lambda>mid. mid = ''a'')) attic))) = Inr (sm, False)"
    by auto
qed

lemma attic_pool:
  obtains r w' where "pool_runs (passes X) (\<lambda>_ _. False) ([], attic) ([Done r], w')" "row ''a'' w' = None"
proof -
  obtain sm w' where "alone (run_pass X 0 (\<lambda>_. False)) attic = (Inr (sm, False), w')" "row ''a'' w' = None"
    using attic_run [of X "\<lambda>_. False"] by blast
  moreover from this(1)
  have "pool_runs (passes X) (\<lambda>_ _. False) ([], attic) ([] @ [Done (Inr (sm, False))], w')"
    by (intro next_runs [OF pool_runs.start]) (auto simp: passes_def)
  ultimately show thesis using that [of "Inr (sm, False)" w'] by simp
qed

lemma lost_are_buried_witness: "\<forall>X. \<exists>w'. row ''a'' w' = None \<and> buried ''a'' w'"
proof
  fix X
  obtain r w' where run: "pool_runs (passes X) (\<lambda>_ _. False) ([], attic) ([Done r], w')" "row ''a'' w' = None" by (rule attic_pool)
  have "row ''a'' attic \<noteq> None" by (simp add: attic_def old_memory_def row_def rows_def)
  with lost_are_buried [OF run(1)] run(2) have "buried ''a'' w'" by blast
  with run(2) show "\<exists>w'. row ''a'' w' = None \<and> buried ''a'' w'" by blast
qed

lemma forgetting_spares_souls_witness:
  "\<forall>X. \<exists>w' r'. row ''a'' w' = None \<and> row ''b'' w' = Some r' \<and> text_of r' = (''walk'', None, ''active'')"
proof
  fix X
  obtain r w' where run: "pool_runs (passes X) (\<lambda>_ _. False) ([], attic) ([Done r], w')" "row ''a'' w' = None" by (rule attic_pool)
  have "row ''b'' attic = Some (old_memory ''b'' ''active'' None)" by (simp add: attic_def old_memory_def row_def rows_def)
  moreover have "''b'' \<in> soul_ids X attic" using ready_souls [OF attic_ready] by (simp add: pe_linked_def attic_env_def)
  ultimately have "\<exists>r'. row ''b'' w' = Some r' \<and> text_of r' = text_of (old_memory ''b'' ''active'' None)"
    using forgetting_spares_souls [OF run(1)] by blast
  with run(2) show "\<exists>w' r'. row ''a'' w' = None \<and> row ''b'' w' = Some r' \<and> text_of r' = (''walk'', None, ''active'')"
    by (auto simp: text_of_def old_memory_def)
qed

end
