(* ===== verification/Retention.thy ===== *)
theory Retention
  imports Forgetting
begin

text \<open>
  The levers that keep memories: salience is a fraction, and a higher importance or a heavier open arc can only
  delay what the policy does to a memory.
\<close>

lemma clamp1_bounds: "0 \<le> clamp1 x" "clamp1 x \<le> 1"
  by (simp_all add: clamp1_def clamp_def)

lemma clamp1_mono: "x \<le> y \<Longrightarrow> clamp1 x \<le> clamp1 y"
  by (auto simp: clamp1_def clamp_def)

lemma ratio_bounds: "0 \<le> importance_ratio i" "importance_ratio i \<le> 1"
  by (simp_all add: importance_ratio_def)

lemma ratio_mono: "i \<le> j \<Longrightarrow> importance_ratio i \<le> importance_ratio j"
  unfolding importance_ratio_def by (intro min.mono max.mono divide_right_mono) simp_all

lemma stretch_bounds: "1 \<le> importance_stretch i" "i \<le> j \<Longrightarrow> importance_stretch i \<le> importance_stretch j"
  using ratio_bounds [of i] ratio_mono [of i j] by (simp_all add: importance_stretch_def HORIZON_IMPORTANCE_GAIN_def)

text \<open>What differs between two readings of one memory: the importance is higher in the second.\<close>

definition more_important :: "memory \<Rightarrow> memory \<Rightarrow> bool" where
  "more_important m m' \<longleftrightarrow> (\<exists>i. m' = m\<lparr>importance := i\<rparr> \<and> importance m \<le> i)"

lemma freshness_mono:
  assumes "more_important m m'"
  shows "freshness_of m l \<le> freshness_of m' l"
proof (cases l)
  case (Some x)
  obtain i where i: "m' = m\<lparr>importance := i\<rparr>" "importance m \<le> i" using assms by (auto simp: more_important_def)
  let ?h = "FRESHNESS_HORIZON * importance_stretch (importance m)" and ?h' = "FRESHNESS_HORIZON * importance_stretch i"
  have h: "0 < ?h" "?h \<le> ?h'" using stretch_bounds [of "importance m"] stretch_bounds(2) [OF i(2)] by (simp_all add: FRESHNESS_HORIZON_def)
  have "clamp1 (x / ?h') \<le> clamp1 (x / ?h)"
  proof (cases "0 \<le> x")
    case True
    then show ?thesis using h by (intro clamp1_mono divide_left_mono) simp_all
  next
    case False
    then have "x / ?h' \<le> 0" "x / ?h \<le> 0" using h by (simp_all add: divide_nonpos_pos)
    then show ?thesis by (simp add: clamp1_def clamp_def)
  qed
  then show ?thesis using Some i by (simp add: freshness_of_def)
qed (simp add: freshness_of_def)

lemma inputs_mono:
  assumes "more_important m m'" "compute_inputs m G felt linked now = Inr i"
  shows "\<exists>x. compute_inputs m' G felt linked now = Inr (i\<lparr>in_freshness := x\<rparr>) \<and> in_freshness i \<le> x"
proof -
  obtain j where m': "m' = m\<lparr>importance := j\<rparr>" using assms(1) by (auto simp: more_important_def)
  have anchor: "anchor_of m' = anchor_of m" by (simp add: m' anchor_of_def split: option.split)
  have peak: "peak_of m' = peak_of m" by (simp add: m' peak_of_def fun_eq_iff)
  have same: "anchor_of m' = anchor_of m" "emotion_input m' = emotion_input m" "hebbian_input m' = hebbian_input m"
      "recall_input m' = recall_input m" "soul_input m' = soul_input m" "peak_input m' = peak_input m"
    using anchor peak by (simp_all add: m' emotion_input_def hebbian_input_def recall_input_def soul_input_def peak_input_def fun_eq_iff)
  then show ?thesis using assms(2) freshness_mono [OF assms(1)]
    by (auto simp: compute_inputs_def freshness_input_def bind_res_def split: sum.splits)
qed

lemma weighted_mono: "in_freshness i \<le> x \<Longrightarrow> weighted i \<le> weighted (i\<lparr>in_freshness := x\<rparr>)"
  unfolding weighted_def by (intro clamp1_mono) simp

lemma fade_gate_mono:
  assumes "more_important m m'" "0 \<le> nw" "nw \<le> nw'"
  shows "effective_fade m' nw' \<le> effective_fade m nw"
proof -
  obtain i where i: "m' = m\<lparr>importance := i\<rparr>" "importance m \<le> i" using assms(1) by (auto simp: more_important_def)
  have "importance_ratio (importance m) \<le> importance_ratio i" "0 \<le> importance_ratio (importance m)"
    using ratio_mono [OF i(2)] ratio_bounds by simp_all
  then show ?thesis using assms(2,3) i(1)
    by (auto simp: effective_fade_def FADE_THRESHOLD_def FADE_IMPORTANCE_GAIN_def intro!: divide_left_mono mult_pos_pos add_pos_nonneg)
qed

text \<open>
  A higher importance of a memory, or a heavier open arc, only ever delays: its salience is no lower, it fades
  or is lost only where it would have been otherwise, and it comes back wherever it would have come back.
\<close>

theorem importance_delays:
  assumes "more_important m m'" "0 \<le> pe_narrative E" "pe_narrative E \<le> nw"
    and "judge E m G p now = Inr (Scored s low t)" "judge (E\<lparr>pe_narrative := nw\<rparr>) m' G p now = Inr (Scored s' low' t')"
  shows "0 \<le> s \<and> s \<le> s' \<and> s' \<le> 1 \<and> (t' = Fade \<longrightarrow> t = Fade) \<and> (t' = Lose \<longrightarrow> t = Lose) \<and> (t = Unfade \<longrightarrow> t' = Unfade)"
proof -
  obtain j where m': "m' = m\<lparr>importance := j\<rparr>" using assms(1) by (auto simp: more_important_def)
  obtain i where i: "compute_inputs m G (pe_felt E) (pe_linked E) now = Inr i" "s = weighted i"
    using assms(4) by (auto simp: judge_def score_def bind_res_def Let_def split: if_splits sum.splits)
  obtain x where x: "compute_inputs m' G (pe_felt E) (pe_linked E) now = Inr (i\<lparr>in_freshness := x\<rparr>)" "in_freshness i \<le> x"
    using inputs_mono [OF assms(1) i(1)] by blast
  have linked: "pe_linked (E\<lparr>pe_narrative := nw\<rparr>) = pe_linked E" by (simp add: pe_linked_def)
  have s': "s' = weighted (i\<lparr>in_freshness := x\<rparr>)"
    using assms(5) x(1) by (auto simp: judge_def score_def bind_res_def Let_def linked split: if_splits sum.splits)
  have s: "0 \<le> s" "s \<le> s'" "s' \<le> 1" using weighted_mono [OF x(2)] by (simp_all add: i(2) s' weighted_def clamp1_bounds)
  have t: "t = next_state m s low (pe_narrative E)" "low = (if s < LOST_THRESHOLD then p + 1 else 0)"
    using assms(4) by (auto simp: judge_def bind_res_def Let_def split: if_splits sum.splits)
  have t': "t' = next_state m' s' low' nw" "low' = (if s' < LOST_THRESHOLD then p + 1 else 0)"
    using assms(5) by (auto simp: judge_def bind_res_def Let_def split: if_splits sum.splits)
  have gate: "effective_fade m' nw \<le> effective_fade m (pe_narrative E)" by (rule fade_gate_mono [OF assms(1-3)])
  show ?thesis using s gate by (auto simp: t t' next_state_def Let_def m' LOST_PASS_COUNT_def split: if_splits)
qed

definition dull :: "real \<Rightarrow> memory" where
  "dull i =
     \<lparr>mem_id = ''a'', content = ''walk'', memory_type = ''conversation'', mem_domain = ''us'', emotions = [], tags = [], importance = i,
      mem_score = 0, created_at = 0, last_accessed_at = None, active_flag = True, protected_flag = False, metadata = [],
      mem_state = ''active'', content_snapshot = None, recall_count = 0, peak_emotion = 0, embedding = None, row_no = 1\<rparr>"

definition plain_env :: "real \<Rightarrow> pass_env" where
  "plain_env nw =
     \<lparr>pe_crystallised = [], pe_under_review = [], pe_migrated = None, pe_at_migration = Fin 0,
      pe_felt = \<lparr>felt_lived_age = 1000, felt_first_tick = None\<rparr>, pe_graph = False, pe_narrative = nw\<rparr>"

lemma judge_dull:
  "\<exists>s t. judge (plain_env nw) (dull i) [] 0 (1000 * day) = Inr (Scored s (if s < LOST_THRESHOLD then 1 else 0) t)"
  by (simp add: judge_def plain_env_def dull_def is_exempt_def hours_def RECENT_LIVED_HOURS_def is_within_import_grace_def bind_res_def
      score_def compute_inputs_def peak_input_def freshness_input_def lived_hours_since_def anchor_of_def Let_def)

lemma importance_delays_witness:
  "\<exists>s t s' t' low low'. judge (plain_env 0) (dull 0) [] 0 (1000 * day) = Inr (Scored s low t) \<and>
     judge (plain_env 1) (dull 10) [] 0 (1000 * day) = Inr (Scored s' low' t') \<and> s \<le> s' \<and> (t' = Fade \<longrightarrow> t = Fade)"
proof -
  obtain s t s' t' low low' where j: "judge (plain_env 0) (dull 0) [] 0 (1000 * day) = Inr (Scored s low t)"
      "judge (plain_env 1) (dull 10) [] 0 (1000 * day) = Inr (Scored s' low' t')"
    using judge_dull [of 0 0] judge_dull [of 1 10] by blast
  have "more_important (dull 0) (dull 10)" "pe_narrative (plain_env 0) = 0" "(plain_env 0)\<lparr>pe_narrative := 1\<rparr> = plain_env 1"
    by (auto simp: more_important_def dull_def plain_env_def)
  with importance_delays [of "dull 0" "dull 10" "plain_env 0" 1] j show ?thesis by fastforce
qed

end
