(* ===== verification/Backfill.thy ===== *)
theory Backfill
  imports Memories
begin

text \<open>
  The embedding backfill (\<open>memory/embedding_backfill.py\<close>): a tick embeds some of the rows that have no vector of
  the model in use, in the order of their row numbers, and leaves a cursor for the next tick; the drain of the
  command line repeats ticks until nothing is left to try. The drain is a loop without a bound of its own, so it
  takes fuel here and answers \<open>None\<close> when that runs out.
\<close>

section \<open>The backlog\<close>

definition MIN_CHARS_TO_EMBED :: nat where "MIN_CHARS_TO_EMBED = 20"
definition SQLITE_MAX_ROWID :: int where "SQLITE_MAX_ROWID = 2 ^ 63 - 1"
definition DEFAULT_SCAN_CAP :: int where "DEFAULT_SCAN_CAP = 500"

definition in_backlog :: "string \<Rightarrow> memory \<Rightarrow> bool" where
  "in_backlog model r \<longleftrightarrow>
     active_flag r \<and> (case embedding r of None \<Rightarrow> True | Some (text, m) \<Rightarrow> m \<noteq> model) \<and> MIN_CHARS_TO_EMBED \<le> length (content r)"

text \<open>SQLite reads a negative limit as none.\<close>

definition limited :: "int \<Rightarrow> 'a list \<Rightarrow> 'a list" where
  "limited n xs = (if n < 0 then xs else take (nat n) xs)"

definition after_cursor :: "int option \<Rightarrow> memory \<Rightarrow> bool" where
  "after_cursor cur r \<longleftrightarrow> (case cur of None \<Rightarrow> True | Some c \<Rightarrow> c < row_no r)"

definition list_unembedded_since :: "int option \<Rightarrow> int \<Rightarrow> string \<Rightarrow> memory list \<Rightarrow> memory list" where
  "list_unembedded_since cur limit model t =
     limited limit (sort_key row_no (filter (\<lambda>r. in_backlog model r \<and> after_cursor cur r) t))"

definition count_unembedded :: "string \<Rightarrow> memory list \<Rightarrow> nat" where
  "count_unembedded model t = length (filter (in_backlog model) t)"

definition has_embedding_backfill_work :: "brain \<Rightarrow> bool" where
  "has_embedding_backfill_work w = (list_unembedded_since None 1 (embedder w) (rows w) \<noteq> [])"

section \<open>The size of a batch\<close>

definition FALLBACK_BATCH_SIZE :: int where "FALLBACK_BATCH_SIZE = 25"
definition MIN_BATCH_SIZE :: int where "MIN_BATCH_SIZE = 1"

definition derive_batch_size :: "real \<Rightarrow> real \<Rightarrow> int \<Rightarrow> int" where
  "derive_batch_size budget per_embed_seconds scan_cap =
     (if per_embed_seconds \<le> 0 then max MIN_BATCH_SIZE (min FALLBACK_BATCH_SIZE scan_cap)
      else max MIN_BATCH_SIZE (min \<lfloor>budget / per_embed_seconds\<rfloor> scan_cap))"

section \<open>The cursor\<close>

abbreviation cursor_file :: string where "cursor_file \<equiv> ''embedding_backfill_cursor.json''"

definition load_cursor :: "string \<Rightarrow> dict option \<Rightarrow> int option" where
  "load_cursor model file =
     (case file of
        None \<Rightarrow> None
      | Some d \<Rightarrow>
          if dget ''model_id'' d \<noteq> Some (JStr model) then None
          else (case dget ''cursor'' d of
                  Some (JObj c) \<Rightarrow> (case dget ''rowid'' c of
                      Some (JInt n) \<Rightarrow> if 0 \<le> n \<and> n \<le> SQLITE_MAX_ROWID then Some n else None
                    | _ \<Rightarrow> None)
                | _ \<Rightarrow> None))"

definition cursor_payload :: "string \<Rightarrow> int option \<Rightarrow> dict" where
  "cursor_payload model cur =
     [(''model_id'', JStr model), (''cursor'', case cur of None \<Rightarrow> JNull | Some n \<Rightarrow> JObj [(''rowid'', JInt n)])]"

text \<open>A cursor that cannot be saved is only logged.\<close>

definition save_cursor :: "string \<Rightarrow> int option \<Rightarrow> (brain, unit) proc" where
  "save_cursor model cur =
     atomic (\<lambda>w. ((), if fails w cursor_file then w else w\<lparr>backfill_cursor := Some (cursor_payload model cur)\<rparr>))"

section \<open>A tick\<close>

record tick_state =
  scanned :: nat
  embedded :: nat
  skipped_short :: nat
  errors :: nat
  resolved_up_to :: "int option"
  hit_batch_limit :: bool

definition tick_start :: "int option \<Rightarrow> tick_state" where
  "tick_start cur = \<lparr>scanned = 0, embedded = 0, skipped_short = 0, errors = 0, resolved_up_to = cur, hit_batch_limit = False\<rparr>"

primrec embed_rows :: "int \<Rightarrow> memory list \<Rightarrow> tick_state \<Rightarrow> (brain, tick_state) proc" where
  "embed_rows batch [] = (\<lambda>st. Done st)"
| "embed_rows batch (m # ms) = (\<lambda>st0.
     let st = st0\<lparr>scanned := Suc (scanned st0)\<rparr> in
     if length (content m) < MIN_CHARS_TO_EMBED
     then embed_rows batch ms (st\<lparr>skipped_short := Suc (skipped_short st), resolved_up_to := Some (row_no m)\<rparr>)
     else if batch \<le> int (embedded st) then Done (st\<lparr>hit_batch_limit := True\<rparr>)
     else
       andthen (embed_row (mem_id m) (content m)) (\<lambda>r. case r of
         Inl _ \<Rightarrow> embed_rows batch ms (st\<lparr>errors := Suc (errors st), resolved_up_to := Some (row_no m)\<rparr>)
       | Inr _ \<Rightarrow> embed_rows batch ms (st\<lparr>embedded := Suc (embedded st), resolved_up_to := Some (row_no m)\<rparr>)))"

definition cursor_to_persist :: "int \<Rightarrow> memory list \<Rightarrow> tick_state \<Rightarrow> int option" where
  "cursor_to_persist scan_cap window st =
     (if \<not> hit_batch_limit st \<and> int (length window) < scan_cap then None else resolved_up_to st)"

definition run_embedding_backfill_tick :: "int \<Rightarrow> int \<Rightarrow> tick_state act" where
  "run_embedding_backfill_tick batch scan_cap =
     andok (look (\<lambda>w. if fails w ''embedder'' then Inl (OtherError ''embedder'') else Inr (embedder w))) (\<lambda>model.
     andthen (look (\<lambda>w. load_cursor model (backfill_cursor w))) (\<lambda>cur.
     andok (look (\<lambda>w. if fails w memories_db then Inl (OtherError ''OSError'')
                      else Inr (list_unembedded_since cur scan_cap model (rows w)))) (\<lambda>window.
     andthen (embed_rows batch window (tick_start cur)) (\<lambda>st.
     andthen (save_cursor model (cursor_to_persist scan_cap window st)) (\<lambda>_.
     Done (Inr st))))))"

section \<open>The drain\<close>

record drain_result =
  d_embedded :: nat
  d_failed :: nat
  d_scanned :: nat
  d_ticks :: nat
  d_reason :: string

definition finish_drain :: "nat \<Rightarrow> nat \<Rightarrow> nat \<Rightarrow> string \<Rightarrow> (brain, drain_result res option) proc" where
  "finish_drain e s n reason =
     andthen (look (\<lambda>w. if fails w memories_db then Inl (OtherError ''OSError'') else Inr (count_unembedded (embedder w) (rows w)))) (\<lambda>r.
     Done (Some (case r of Inl x \<Rightarrow> Inl x
       | Inr failed \<Rightarrow> Inr \<lparr>d_embedded = e, d_failed = failed, d_scanned = s, d_ticks = n, d_reason = reason\<rparr>)))"

text \<open>The totals are of the rows embedded, of the rows scanned and of the ticks.\<close>

primrec drain :: "nat \<Rightarrow> int \<Rightarrow> int \<Rightarrow> nat \<Rightarrow> nat \<Rightarrow> nat \<Rightarrow> (brain, drain_result res option) proc" where
  "drain 0 batch scan_cap e s n = Done None"
| "drain (Suc fuel) batch scan_cap e s n =
     andthen (run_embedding_backfill_tick batch scan_cap) (\<lambda>r. case r of
       Inl x \<Rightarrow> Done (Some (Inl x))
     | Inr t \<Rightarrow>
         if scanned t = 0 then finish_drain (e + embedded t) (s + scanned t) (Suc n) ''no_more_candidates''
         else if embedded t = 0 \<and> int (scanned t) < scan_cap
         then finish_drain (e + embedded t) (s + scanned t) (Suc n) ''stalled_no_progress''
         else drain fuel batch scan_cap (e + embedded t) (s + scanned t) (Suc n))"

definition run_embedding_backfill_to_completion :: "nat \<Rightarrow> int \<Rightarrow> int \<Rightarrow> (brain, drain_result res option) proc" where
  "run_embedding_backfill_to_completion fuel batch scan_cap = drain fuel batch scan_cap 0 0 0"

section \<open>The old cache\<close>

definition unlink :: "string \<Rightarrow> (brain, bool) proc" where
  "unlink name = atomic (\<lambda>w. if fails w name \<or> name \<notin> set (legacy_files w) then (False, w) else (True, w\<lparr>legacy_files := removeAll name (legacy_files w)\<rparr>))"

definition delete_legacy_embeddings_db :: "bool act" where
  "delete_legacy_embeddings_db =
     andthen (look (\<lambda>w. ''embeddings.db'' \<in> set (legacy_files w))) (\<lambda>there.
     if \<not> there then Done (Inr False)
     else
       andok (look (\<lambda>w. if fails w memories_db then Inl (OtherError ''OSError'') else Inr (count_unembedded (embedder w) (rows w)))) (\<lambda>backlog.
       if 0 < backlog then Done (Inr False)
       else
         andthen (unlink ''embeddings.db'') (\<lambda>deleted_main.
         andthen (unlink ''embeddings.db-wal'') (\<lambda>_.
         andthen (unlink ''embeddings.db-shm'') (\<lambda>_.
         Done (Inr deleted_main))))))"

end
