(* ===== verification/Backfill_Laws.thy ===== *)
theory Backfill_Laws
  imports Backfill
begin

text \<open>
  The drain of the backfill with nobody else at work: what a tick does to the table, that the drain ends, and that
  it leaves no row behind that could have been embedded.
\<close>

section \<open>The rows of a tick\<close>

definition able :: "brain \<Rightarrow> memory \<Rightarrow> bool" where
  "able w r \<longleftrightarrow> \<not> fails w (''embed '' @ content r)"

definition vectored :: "string set \<Rightarrow> string \<Rightarrow> memory \<Rightarrow> memory" where
  "vectored S model r = (if mem_id r \<in> S then r\<lparr>embedding := Some (content r, model)\<rparr> else r)"

definition with_vectors :: "string set \<Rightarrow> brain \<Rightarrow> brain" where
  "with_vectors S w = on_rows (map (vectored S (embedder w))) w"

lemma vectored_simps [simp]:
  "mem_id (vectored S model r) = mem_id r" "content (vectored S model r) = content r" "row_no (vectored S model r) = row_no r"
  "active_flag (vectored S model r) = active_flag r" "vectored {} model = (\<lambda>r. r)"
  "vectored S model (vectored T model r) = vectored (S \<union> T) model r"
  by (auto simp: vectored_def)

lemma with_vectors_simps [simp]:
  "fails (with_vectors S w) = fails w" "embedder (with_vectors S w) = embedder w" "backfill_cursor (with_vectors S w) = backfill_cursor w"
  "with_vectors S (w\<lparr>backfill_cursor := c\<rparr>) = (with_vectors S w)\<lparr>backfill_cursor := c\<rparr>"
  "rows (with_vectors S w) = map (vectored S (embedder w)) (rows w)" "rows (w\<lparr>backfill_cursor := c\<rparr>) = rows w"
  by (simp_all add: with_vectors_def on_rows_def rows_def split: option.split)

lemma with_vectors_empty [simp]: "with_vectors {} w = w"
  by (cases "memories w") (simp_all add: with_vectors_def on_rows_def)

lemma with_vectors_twice [simp]: "with_vectors S (with_vectors T w) = with_vectors (S \<union> T) w"
  by (simp add: with_vectors_def on_rows_def option.map_comp o_def)

lemma able_with [simp]: "able (with_vectors S w) = able w" "able (w\<lparr>backfill_cursor := c\<rparr>) = able w"
  by (simp_all add: able_def fun_eq_iff)

lemma vectored_backlog:
  "in_backlog model (vectored S model r) \<longleftrightarrow> in_backlog model r \<and> mem_id r \<notin> S"
  by (auto simp: in_backlog_def vectored_def)

lemma embed_one:
  assumes "\<forall>r \<in> set (rows w). mem_id r = mid \<longrightarrow> content r = text"
  shows "on_rows (tupd mem_id mid (\<lambda>r. r\<lparr>embedding := Some (text, embedder w)\<rparr>)) w = with_vectors {mid} w"
  using assms by (cases "memories w") (auto simp: with_vectors_def on_rows_def tupd_def vectored_def rows_def)

lemma alone_embed_row:
  assumes "\<not> fails w ''embedder''" "\<not> fails w memories_db" "\<forall>r \<in> set (rows w). mem_id r = mem_id m \<longrightarrow> content r = content m"
  shows "alone (embed_row (mem_id m) (content m)) w =
    (if able w m then (Inr (), with_vectors {mem_id m} w) else (Inl (OtherError ''embedder''), w))"
  using assms by (simp add: embed_row_def write_embedding_def using_file_def alone_andok able_def embed_one)

text \<open>A tick goes through a part of its window from the front; it stops before the rest when the batch is full.\<close>

definition worked :: "brain \<Rightarrow> memory list \<Rightarrow> memory list \<Rightarrow> tick_state \<Rightarrow> tick_state \<Rightarrow> bool" where
  "worked w ps qs st st' \<longleftrightarrow>
     hit_batch_limit st' = (hit_batch_limit st \<or> qs \<noteq> []) \<and> scanned st' = scanned st + length ps + (if qs = [] then 0 else 1) \<and>
     embedded st' = embedded st + length (filter (able w) ps) \<and>
     resolved_up_to st' = (if ps = [] then resolved_up_to st else Some (row_no (last ps)))"

definition embedded_ids :: "brain \<Rightarrow> memory list \<Rightarrow> string set" where
  "embedded_ids w ps = mem_id ` {r \<in> set ps. able w r}"

lemma embed_rows_run:
  assumes "\<not> fails w ''embedder''" "\<not> fails w memories_db" "\<forall>m \<in> set ms. MIN_CHARS_TO_EMBED \<le> length (content m)"
    and "\<forall>m \<in> set ms. \<forall>r \<in> set (rows w). mem_id r = mem_id m \<longrightarrow> content r = content m"
  shows "\<exists>ps qs st'. ms = ps @ qs \<and> alone (embed_rows batch ms st) w = (st', with_vectors (embedded_ids w ps) w) \<and>
           worked w ps qs st st' \<and> (qs \<noteq> [] \<longrightarrow> batch \<le> int (embedded st'))"
  using assms
proof (induction ms arbitrary: st w)
  case Nil
  show ?case by (intro exI [of _ "[]"] exI [of _ st]) (simp add: worked_def embedded_ids_def)
next
  case (Cons m ms)
  show ?case
  proof (cases "batch \<le> int (embedded st)")
    case True
    then show ?thesis using Cons.prems(3)
      by (intro exI [of _ "[]"] exI [of _ "m # ms"] exI [of _ "st\<lparr>scanned := Suc (scanned st), hit_batch_limit := True\<rparr>"])
         (simp add: worked_def embedded_ids_def Let_def)
  next
    case False
    define w1 where "w1 = (if able w m then with_vectors {mem_id m} w else w)"
    define st1 where "st1 = (if able w m
      then st\<lparr>scanned := Suc (scanned st), embedded := Suc (embedded st), resolved_up_to := Some (row_no m)\<rparr>
      else st\<lparr>scanned := Suc (scanned st), errors := Suc (errors st), resolved_up_to := Some (row_no m)\<rparr>)"
    have "\<forall>r \<in> set (rows w). mem_id r = mem_id m \<longrightarrow> content r = content m" using Cons.prems(4) by simp
    note step = alone_embed_row [OF Cons.prems(1,2) this]
    have run: "alone (embed_rows batch (m # ms) st) w = alone (embed_rows batch ms st1) w1"
      using False Cons.prems(3) by (simp add: step alone_andthen w1_def st1_def Let_def)
    have w1: "fails w1 = fails w" "able w1 = able w" "embedder w1 = embedder w" by (simp_all add: w1_def)
    have texts: "\<forall>m' \<in> set ms. \<forall>r \<in> set (rows w1). mem_id r = mem_id m' \<longrightarrow> content r = content m'"
    proof (intro ballI impI)
      fix m' r' assume m': "m' \<in> set ms" "r' \<in> set (rows w1)" "mem_id r' = mem_id m'"
      from m'(2) obtain r where "r \<in> set (rows w)" "mem_id r = mem_id r'" "content r = content r'"
        by (auto simp: w1_def split: if_splits)
      then show "content r' = content m'" using Cons.prems(4) m'(1,3) by (metis list.set_intros(2))
    qed
    have env: "\<not> fails w1 ''embedder''" "\<not> fails w1 memories_db" "\<forall>m \<in> set ms. MIN_CHARS_TO_EMBED \<le> length (content m)"
      using Cons.prems(1-3) by (simp_all add: w1)
    obtain ps qs st' where IH: "ms = ps @ qs" "alone (embed_rows batch ms st1) w1 = (st', with_vectors (embedded_ids w1 ps) w1)"
        "worked w1 ps qs st1 st'" "qs \<noteq> [] \<longrightarrow> batch \<le> int (embedded st')"
      using Cons.IH [OF env texts, of st1] by blast
    have "with_vectors (embedded_ids w1 ps) w1 = with_vectors (embedded_ids w (m # ps)) w"
      by (auto simp: w1_def embedded_ids_def intro!: arg_cong [of _ _ "\<lambda>S. with_vectors S w"])
    moreover have "worked w (m # ps) qs st st'" using IH(3) by (auto simp: worked_def st1_def w1)
    ultimately show ?thesis using IH run
      by (intro exI [of _ "m # ps"] exI [of _ qs] exI [of _ st']) simp
  qed
qed


section \<open>One tick\<close>

definition workable :: "brain \<Rightarrow> bool" where
  "workable w \<longleftrightarrow> \<not> fails w ''embedder'' \<and> \<not> fails w memories_db \<and> \<not> fails w cursor_file \<and>
     distinct (map mem_id (rows w)) \<and> distinct (map row_no (rows w)) \<and>
     (\<forall>r \<in> set (rows w). 0 \<le> row_no r \<and> row_no r \<le> SQLITE_MAX_ROWID)"

definition position :: "brain \<Rightarrow> int option" where
  "position w = load_cursor (embedder w) (backfill_cursor w)"

definition pending :: "brain \<Rightarrow> memory list" where
  "pending w = filter (in_backlog (embedder w)) (rows w)"

definition ahead :: "brain \<Rightarrow> memory list" where
  "ahead w = filter (\<lambda>r. in_backlog (embedder w) r \<and> after_cursor (position w) r) (rows w)"

definition window_of :: "int \<Rightarrow> brain \<Rightarrow> memory list" where
  "window_of scan_cap w = list_unembedded_since (position w) scan_cap (embedder w) (rows w)"

definition advanced :: "memory list \<Rightarrow> int option \<Rightarrow> brain \<Rightarrow> brain" where
  "advanced ps c w = (with_vectors (embedded_ids w ps) w)\<lparr>backfill_cursor := Some (cursor_payload (embedder w) c)\<rparr>"

lemma load_payload: "(\<forall>n. c = Some n \<longrightarrow> 0 \<le> n \<and> n \<le> SQLITE_MAX_ROWID) \<Longrightarrow> load_cursor model (Some (cursor_payload model c)) = c"
  by (cases c) (simp_all add: load_cursor_def cursor_payload_def dget_def)

lemma load_in_range: "load_cursor model file = Some n \<Longrightarrow> 0 \<le> n \<and> n \<le> SQLITE_MAX_ROWID"
  by (auto simp: load_cursor_def split: option.splits json.splits if_splits)

lemma window_take: "1 \<le> scan_cap \<Longrightarrow> window_of scan_cap w = take (nat scan_cap) (sort_key row_no (ahead w))"
  by (simp add: window_of_def list_unembedded_since_def limited_def ahead_def)

lemma window_mem: "1 \<le> scan_cap \<Longrightarrow> m \<in> set (window_of scan_cap w) \<Longrightarrow> m \<in> set (ahead w)"
  by (auto simp: window_take dest: in_set_takeD)

lemma ahead_pending: "set (ahead w) \<subseteq> set (pending w)" "set (pending w) \<subseteq> set (rows w)"
  by (auto simp: ahead_def pending_def)

lemma window_row:
  assumes "workable w" "1 \<le> scan_cap" "m \<in> set (window_of scan_cap w)"
  shows "MIN_CHARS_TO_EMBED \<le> length (content m)" "\<forall>r \<in> set (rows w). mem_id r = mem_id m \<longrightarrow> content r = content m"
    "m \<in> set (rows w)"
proof -
  have m: "m \<in> set (ahead w)" using window_mem assms(2,3) by blast
  then show "MIN_CHARS_TO_EMBED \<le> length (content m)" "m \<in> set (rows w)" by (auto simp: ahead_def in_backlog_def)
  then show "\<forall>r \<in> set (rows w). mem_id r = mem_id m \<longrightarrow> content r = content m"
    using assms(1) by (auto simp: workable_def distinct_map dest: inj_onD)
qed

text \<open>A part at the front of the window holds every row ahead up to its last one.\<close>

lemma window_front:
  assumes "workable w" "1 \<le> scan_cap" "window_of scan_cap w = ps @ qs" "ps \<noteq> []" "r \<in> set (ahead w)" "row_no r \<le> row_no (last ps)"
  shows "r \<in> set ps"
proof (rule ccontr)
  assume "r \<notin> set ps"
  let ?xs = "sort_key row_no (ahead w)"
  obtain rest where xs: "?xs = ps @ rest"
    using assms(2,3) by (metis append.assoc append_take_drop_id window_take)
  have "r \<in> set rest" using assms(5) \<open>r \<notin> set ps\<close> xs by (metis Un_iff set_append set_sort)
  moreover have "sorted (map row_no (ps @ rest))" using xs sorted_sort_key by metis
  moreover have "last ps \<in> set ps" using assms(4) by simp
  ultimately have "row_no (last ps) \<le> row_no r" by (auto simp: sorted_append)
  then have "row_no r = row_no (last ps)" using assms(6) by simp
  moreover have "last ps \<in> set (rows w)" "r \<in> set (rows w)"
    using window_row(3) [OF assms(1,2), of "last ps"] assms(3,4,5) by (auto simp: ahead_def)
  ultimately have "r = last ps" using assms(1) by (auto simp: workable_def distinct_map dest: inj_onD)
  then show False using \<open>r \<notin> set ps\<close> \<open>last ps \<in> set ps\<close> by simp
qed

lemma tick_run:
  assumes "workable w" "1 \<le> scan_cap"
  shows "\<exists>ps qs st. window_of scan_cap w = ps @ qs \<and> worked w ps qs (tick_start (position w)) st \<and> (qs \<noteq> [] \<longrightarrow> batch \<le> int (embedded st)) \<and>
     alone (run_embedding_backfill_tick batch scan_cap) w = (Inr st, advanced ps (cursor_to_persist scan_cap (window_of scan_cap w) st) w)"
proof -
  have f: "\<not> fails w ''embedder''" "\<not> fails w memories_db" "\<not> fails w cursor_file" using assms(1) by (simp_all add: workable_def)
  obtain ps qs st where run: "window_of scan_cap w = ps @ qs" "worked w ps qs (tick_start (position w)) st" "qs \<noteq> [] \<longrightarrow> batch \<le> int (embedded st)"
    "alone (embed_rows batch (window_of scan_cap w) (tick_start (position w))) w = (st, with_vectors (embedded_ids w ps) w)"
    using embed_rows_run [OF f(1,2), of "window_of scan_cap w" batch "tick_start (position w)"] window_row [OF assms] by blast
  have "alone (run_embedding_backfill_tick batch scan_cap) w = (Inr st, advanced ps (cursor_to_persist scan_cap (window_of scan_cap w) st) w)"
    using f run(4) by (simp add: run_embedding_backfill_tick_def alone_andok alone_andthen save_cursor_def advanced_def position_def window_of_def)
  with run show ?thesis by blast
qed

lemma advanced_simps [simp]:
  "fails (advanced ps c w) = fails w" "embedder (advanced ps c w) = embedder w" "able (advanced ps c w) = able w"
  "rows (advanced ps c w) = map (vectored (embedded_ids w ps) (embedder w)) (rows w)"
  by (simp_all add: advanced_def)

lemma workable_advanced: "workable w \<Longrightarrow> workable (advanced ps c w)"
  by (simp add: workable_def o_def)

lemma new_position:
  assumes "workable w" "1 \<le> scan_cap" "window_of scan_cap w = ps @ qs" "worked w ps qs (tick_start (position w)) st"
  shows "position (advanced ps (cursor_to_persist scan_cap (window_of scan_cap w) st) w) = cursor_to_persist scan_cap (window_of scan_cap w) st"
proof -
  have "0 \<le> n \<and> n \<le> SQLITE_MAX_ROWID" if n: "resolved_up_to st = Some n" for n
  proof (cases "ps = []")
    case True
    then show ?thesis using n assms(4) load_in_range by (simp add: worked_def tick_start_def position_def)
  next
    case False
    then have "last ps \<in> set (rows w)" using window_row(3) [OF assms(1,2), of "last ps"] assms(3) by simp
    then show ?thesis using n False assms(1,4) by (auto simp: worked_def workable_def)
  qed
  then show ?thesis by (simp add: position_def advanced_def load_payload cursor_to_persist_def)
qed


section \<open>What is left after a tick\<close>

lemma pending_advanced:
  "pending (advanced ps c w) = map (vectored (embedded_ids w ps) (embedder w)) (filter (\<lambda>r. mem_id r \<notin> embedded_ids w ps) (pending w))"
  by (simp add: pending_def filter_map o_def vectored_backlog conj_commute)

lemma length_filter_card: "distinct xs \<Longrightarrow> length (filter P xs) = card {x \<in> set xs. P x}"
  by (metis distinct_card distinct_filter set_filter)

lemma length_filter_less_if: "(\<And>x. P x \<Longrightarrow> Q x) \<Longrightarrow> x \<in> set xs \<Longrightarrow> Q x \<Longrightarrow> \<not> P x \<Longrightarrow> length (filter P xs) < length (filter Q xs)"
proof (induction xs)
  case (Cons y ys)
  have le: "length (filter P zs) \<le> length (filter Q zs)" for zs
    using Cons.prems(1) by (induction zs) auto
  show ?case using Cons le [of ys] by (cases "x = y") (auto simp: less_Suc_eq_le)
qed simp

lemma window_distinct: "workable w \<Longrightarrow> 1 \<le> scan_cap \<Longrightarrow> distinct (window_of scan_cap w)"
  by (auto simp: window_take ahead_def workable_def distinct_map intro!: distinct_take)

lemma pending_count:
  assumes "workable w" "1 \<le> scan_cap" "window_of scan_cap w = ps @ qs"
  shows "length (pending (advanced ps c w)) + length (filter (able w) ps) = length (pending w)"
proof -
  let ?S = "embedded_ids w ps"
  have sub: "set ps \<subseteq> set (pending w)" using window_mem assms(2,3) ahead_pending(1) by fastforce
  have inj: "inj_on mem_id (set (rows w))" "distinct (rows w)" using assms(1) by (auto simp: workable_def distinct_map)
  have "{r \<in> set (pending w). mem_id r \<in> ?S} = {r \<in> set ps. able w r}"
    using sub inj(1) ahead_pending(2) [of w] by (fastforce simp: embedded_ids_def dest: inj_onD)
  moreover have "distinct (pending w)" using inj(2) by (simp add: pending_def)
  moreover have "distinct ps" using window_distinct [OF assms(1,2)] assms(3) by simp
  ultimately have "length (filter (\<lambda>r. mem_id r \<in> ?S) (pending w)) = length (filter (able w) ps)" by (simp add: length_filter_card)
  then show ?thesis using sum_length_filter_compl [of "\<lambda>r. mem_id r \<in> ?S" "pending w"] by (simp add: pending_advanced)
qed

lemma ahead_le: "length (ahead w) \<le> length (pending w)"
proof -
  have "ahead w = filter (after_cursor (position w)) (pending w)" by (simp add: ahead_def pending_def conj_commute)
  then show ?thesis by simp
qed

text \<open>A tick after which the drain goes on has embedded a row, or it has moved the cursor over rows that fail.\<close>

definition fuel_for :: "brain \<Rightarrow> nat" where
  "fuel_for w = length (pending w) * (length (pending w) + 1) + length (ahead w)"

lemma fuel_decreases:
  assumes "workable w" "1 \<le> batch" "1 \<le> scan_cap" "window_of scan_cap w = ps @ qs" "worked w ps qs (tick_start (position w)) st"
    and "qs \<noteq> [] \<longrightarrow> batch \<le> int (embedded st)" "\<not> (embedded st = 0 \<and> int (scanned st) < scan_cap)"
  shows "fuel_for (advanced ps (cursor_to_persist scan_cap (window_of scan_cap w) st) w) < fuel_for w"
proof -
  let ?c = "cursor_to_persist scan_cap (window_of scan_cap w) st"
  let ?w = "advanced ps ?c w"
  have count: "length (pending ?w) + embedded st = length (pending w)"
    using pending_count [OF assms(1,3,4), of ?c] assms(5) by (simp add: worked_def tick_start_def)
  show ?thesis
  proof (cases "embedded st = 0")
    case False
    define b where "b = length (pending ?w)"
    define d where "d = embedded st"
    have b: "length (pending w) = b + d" "0 < d" using count False by (simp_all add: b_def d_def)
    have "length (ahead ?w) \<le> b" using ahead_le by (simp add: b_def)
    moreover have "b * (b + 1) + b < (b + d) * (b + d + 1)"
    proof -
      have "(b + 1) * (b + 2) \<le> (b + d) * (b + d + 1)" using b(2) by (intro mult_le_mono) simp_all
      then show ?thesis by (simp add: algebra_simps)
    qed
    ultimately have "b * (b + 1) + length (ahead ?w) < (b + d) * (b + d + 1) + length (ahead w)" by linarith
    then show ?thesis by (simp add: fuel_for_def b(1) flip: b_def)
  next
    case True
    then have qs: "qs = []" using assms(2,6) by simp
    have "scan_cap \<le> int (length ps)" using True assms(5,7) qs by (simp add: worked_def tick_start_def)
    then have c: "?c = Some (row_no (last ps))" and ps: "ps \<noteq> []"
      using assms(3,4,5) qs by (auto simp: cursor_to_persist_def worked_def tick_start_def)
    have none: "embedded_ids w ps = {}" using True assms(5) by (auto simp: worked_def tick_start_def embedded_ids_def filter_empty_conv)
    have pos: "position ?w = Some (row_no (last ps))" using new_position [OF assms(1,3,4,5)] c by simp
    have last: "last ps \<in> set (ahead w)" using window_mem [OF assms(3)] assms(4) ps by simp
    have "length (ahead ?w) < length (ahead w)"
      unfolding ahead_def
    proof (simp add: none pos, rule length_filter_less_if [of _ _ "last ps"])
      fix r assume "in_backlog (embedder w) r \<and> after_cursor (Some (row_no (last ps))) r"
      then show "in_backlog (embedder w) r \<and> after_cursor (position w) r"
        using last by (auto simp: ahead_def after_cursor_def split: option.splits)
    qed (use last in \<open>auto simp: ahead_def after_cursor_def\<close>)
    then show ?thesis using count True by (simp add: fuel_for_def)
  qed
qed

text \<open>\<open>c0\<close> is where the drain began: whatever the cursor has passed since can no longer be embedded.\<close>

definition swept :: "int option \<Rightarrow> brain \<Rightarrow> bool" where
  "swept c0 w \<longleftrightarrow> (\<forall>r \<in> set (pending w). able w r \<longrightarrow> \<not> after_cursor (position w) r \<longrightarrow> \<not> after_cursor c0 r)"

lemma able_vectored [simp]: "able w (vectored S model r) = able w r" "after_cursor c (vectored S model r) = after_cursor c r"
  by (simp_all add: able_def after_cursor_def split: option.split)

lemma swept_advanced:
  assumes "workable w" "1 \<le> scan_cap" "window_of scan_cap w = ps @ qs" "worked w ps qs (tick_start (position w)) st" "swept c0 w"
  shows "swept c0 (advanced ps (cursor_to_persist scan_cap (window_of scan_cap w) st) w)"
  unfolding swept_def
proof (intro ballI impI)
  let ?c = "cursor_to_persist scan_cap (window_of scan_cap w) st"
  fix r' assume r': "r' \<in> set (pending (advanced ps ?c w))" "able (advanced ps ?c w) r'" "\<not> after_cursor (position (advanced ps ?c w)) r'"
  then obtain r where r: "r' = vectored (embedded_ids w ps) (embedder w) r" "r \<in> set (pending w)" "mem_id r \<notin> embedded_ids w ps" "able w r"
    by (auto simp: pending_advanced)
  have nac: "\<not> after_cursor ?c r" using r'(3) r(1) by (simp add: new_position [OF assms(1-4)])
  have "\<not> after_cursor (position w) r"
  proof
    assume "after_cursor (position w) r"
    then have ahead: "r \<in> set (ahead w)" using r(2) by (auto simp: ahead_def pending_def)
    have c: "?c = resolved_up_to st" using nac by (auto simp: cursor_to_persist_def after_cursor_def split: if_splits)
    show False
    proof (cases "ps = []")
      case True
      then show ?thesis using nac c assms(4) \<open>after_cursor (position w) r\<close> by (simp add: worked_def tick_start_def)
    next
      case False
      then have "row_no r \<le> row_no (last ps)" using nac c assms(4) by (simp add: worked_def after_cursor_def)
      then have "r \<in> set ps" using window_front [OF assms(1-3) False ahead] by simp
      then show ?thesis using r(3,4) by (simp add: embedded_ids_def)
    qed
  qed
  then show "\<not> after_cursor c0 r'" using assms(5) r by (simp add: swept_def)
qed


section \<open>The drain\<close>

lemma stopped_tick:
  assumes "workable w" "1 \<le> batch" "1 \<le> scan_cap" "window_of scan_cap w = ps @ qs" "worked w ps qs (tick_start (position w)) st"
    and "qs \<noteq> [] \<longrightarrow> batch \<le> int (embedded st)" "scanned st = 0 \<or> embedded st = 0 \<and> int (scanned st) < scan_cap" "r \<in> set (ahead w)"
  shows "\<not> able w r"
proof -
  have emb: "embedded st = 0" using assms(5,7) by (auto simp: worked_def tick_start_def split: if_splits)
  then have qs: "qs = []" using assms(2,6) by simp
  have len: "scan_cap \<noteq> int (length ps)" using assms(3,5,7) qs by (auto simp: worked_def tick_start_def)
  have "take (nat scan_cap) (sort_key row_no (ahead w)) = ps" using assms(3,4) qs by (simp add: window_take)
  then have "length ps = min (nat scan_cap) (length (ahead w))" using length_sort length_take by (metis min.commute)
  then have "nat scan_cap \<ge> length (ahead w)" using len assms(3) by linarith
  then have "ps = sort_key row_no (ahead w)" using assms(3,4) qs by (simp add: window_take)
  then have "set ps = set (ahead w)" by (metis set_sort)
  then show ?thesis using emb assms(5,8) by (auto simp: worked_def tick_start_def filter_empty_conv)
qed

lemma alone_finish_drain:
  "workable w \<Longrightarrow> alone (finish_drain e s n reason) w =
     (Some (Inr \<lparr>d_embedded = e, d_failed = length (pending w), d_scanned = s, d_ticks = n, d_reason = reason\<rparr>), w)"
  by (simp add: finish_drain_def alone_andthen workable_def count_unembedded_def pending_def)

definition drained :: "int option \<Rightarrow> nat \<Rightarrow> brain \<Rightarrow> drain_result \<Rightarrow> brain \<Rightarrow> bool" where
  "drained c0 e w res w' \<longleftrightarrow> embedder w' = embedder w \<and>
     (\<exists>S. rows w' = map (vectored S (embedder w)) (rows w) \<and> S \<subseteq> embedded_ids w (pending w)) \<and>
     (\<forall>r \<in> set (pending w'). able w r \<longrightarrow> \<not> after_cursor c0 r) \<and>
     d_failed res = length (pending w') \<and> d_embedded res + d_failed res = e + length (pending w)"

lemma embedded_pending:
  assumes "1 \<le> scan_cap" "window_of scan_cap w = ps @ qs"
  shows "embedded_ids w ps \<subseteq> embedded_ids w (pending w)"
  using window_mem [OF assms(1)] assms(2) ahead_pending(1) by (fastforce simp: embedded_ids_def)

lemma drained_stop:
  assumes "workable w" "1 \<le> batch" "1 \<le> scan_cap" "window_of scan_cap w = ps @ qs" "worked w ps qs (tick_start (position w)) st"
    and "qs \<noteq> [] \<longrightarrow> batch \<le> int (embedded st)" "scanned st = 0 \<or> embedded st = 0 \<and> int (scanned st) < scan_cap" "swept c0 w"
    and "d_failed res = length (pending (advanced ps c w))" "d_embedded res = e + embedded st"
  shows "drained c0 e w res (advanced ps c w)"
proof -
  have "\<not> after_cursor c0 r'" if r': "r' \<in> set (pending (advanced ps c w))" "able w r'" for r'
  proof -
    obtain r where r: "r \<in> set (pending w)" "r' = vectored (embedded_ids w ps) (embedder w) r"
      using r'(1) by (auto simp: pending_advanced)
    have "r \<notin> set (ahead w)" using stopped_tick [OF assms(1-7)] r' r by auto
    then have "\<not> after_cursor (position w) r" using r(1) by (auto simp: ahead_def pending_def)
    then show ?thesis using assms(8) r r'(2) by (simp add: swept_def)
  qed
  moreover have "\<exists>S. rows (advanced ps c w) = map (vectored S (embedder w)) (rows w) \<and> S \<subseteq> embedded_ids w (pending w)"
    using embedded_pending [OF assms(3,4)] by (intro exI [of _ "embedded_ids w ps"]) simp
  ultimately show ?thesis
    using pending_count [OF assms(1,3,4), of c] assms(5,9,10) by (simp add: drained_def worked_def tick_start_def)
qed

lemma drained_more:
  assumes "workable w" "1 \<le> scan_cap" "window_of scan_cap w = ps @ qs" "worked w ps qs (tick_start (position w)) st"
    and "drained c0 (e + embedded st) (advanced ps c w) res w'"
  shows "drained c0 e w res w'"
proof -
  obtain S where S: "rows w' = map (vectored S (embedder w)) (rows (advanced ps c w))" "S \<subseteq> embedded_ids (advanced ps c w) (pending (advanced ps c w))"
    using assms(5) by (auto simp: drained_def)
  have "embedded_ids (advanced ps c w) (pending (advanced ps c w)) \<subseteq> embedded_ids w (pending w)"
    by (auto simp: embedded_ids_def pending_advanced)
  then have "S \<union> embedded_ids w ps \<subseteq> embedded_ids w (pending w)" using S(2) embedded_pending [OF assms(2,3)] by blast
  moreover have "rows w' = map (vectored (S \<union> embedded_ids w ps) (embedder w)) (rows w)" using S(1) by (simp add: o_def)
  ultimately show ?thesis
    using assms(5) pending_count [OF assms(1-3), of c] assms(4) by (auto simp: drained_def worked_def tick_start_def)
qed

lemma drain_run:
  assumes "workable w" "1 \<le> batch" "1 \<le> scan_cap" "fuel_for w < fuel" "swept c0 w"
  shows "\<exists>res w'. alone (drain fuel batch scan_cap e s n) w = (Some (Inr res), w') \<and> drained c0 e w res w'"
  using assms(1,4,5)
proof (induction fuel arbitrary: w e s n)
  case (Suc fuel)
  obtain ps qs st where t: "window_of scan_cap w = ps @ qs" "worked w ps qs (tick_start (position w)) st" "qs \<noteq> [] \<longrightarrow> batch \<le> int (embedded st)"
    "alone (run_embedding_backfill_tick batch scan_cap) w = (Inr st, advanced ps (cursor_to_persist scan_cap (window_of scan_cap w) st) w)"
    using tick_run [OF Suc.prems(1) assms(3), of batch] by blast
  define c where "c = cursor_to_persist scan_cap (window_of scan_cap w) st"
  have w: "workable (advanced ps c w)" by (rule workable_advanced [OF Suc.prems(1)])
  show ?case
  proof (cases "scanned st = 0 \<or> embedded st = 0 \<and> int (scanned st) < scan_cap")
    case True
    define reason where "reason = (if scanned st = 0 then ''no_more_candidates'' else ''stalled_no_progress'')"
    define res where "res = \<lparr>d_embedded = e + embedded st, d_failed = length (pending (advanced ps c w)), d_scanned = s + scanned st,
      d_ticks = Suc n, d_reason = reason\<rparr>"
    have "alone (drain (Suc fuel) batch scan_cap e s n) w = (Some (Inr res), advanced ps c w)"
      using True t(4) by (cases "scanned st = 0") (simp_all add: alone_andthen alone_finish_drain [OF w] res_def reason_def flip: c_def)
    moreover have "drained c0 e w res (advanced ps c w)"
      by (rule drained_stop [OF Suc.prems(1) assms(2,3) t(1,2,3) True Suc.prems(3)]) (simp_all add: res_def)
    ultimately show ?thesis by blast
  next
    case False
    have "fuel_for (advanced ps c w) < fuel"
      using fuel_decreases [OF Suc.prems(1) assms(2,3) t(1,2,3)] False Suc.prems(2) unfolding c_def by force
    moreover have "swept c0 (advanced ps c w)" unfolding c_def by (rule swept_advanced [OF Suc.prems(1) assms(3) t(1,2) Suc.prems(3)])
    ultimately obtain res w' where "alone (drain fuel batch scan_cap (e + embedded st) (s + scanned st) (Suc n)) (advanced ps c w) = (Some (Inr res), w')"
        "drained c0 (e + embedded st) (advanced ps c w) res w'"
      using Suc.IH [OF w] by blast
    moreover have "alone (drain (Suc fuel) batch scan_cap e s n) w =
        alone (drain fuel batch scan_cap (e + embedded st) (s + scanned st) (Suc n)) (advanced ps c w)"
      using False t(4) by (auto simp add: alone_andthen simp flip: c_def)
    ultimately show ?thesis using drained_more [OF Suc.prems(1) assms(3) t(1,2)] by fastforce
  qed
qed simp

text \<open>
  C19: Draining the backfill ends, whatever rows fail to be embedded, with fuel for every pair of a backlog row and a
  start. Every backlog row ahead of the cursor it starts from whose text can be embedded then has a vector of its own text by
  the model in use, nothing else of any row has changed, and the reported number of failures is the backlog that is left.
\<close>

theorem drain_completes:
  assumes "workable w" "1 \<le> batch" "1 \<le> scan_cap" "fuel_for w < fuel"
  shows "\<exists>res w'. alone (run_embedding_backfill_to_completion fuel batch scan_cap) w = (Some (Inr res), w') \<and>
     (\<forall>r \<in> set (rows w). \<exists>r'. row (mem_id r) w' = Some r' \<and>
        (r' = r \<or> in_backlog (embedder w) r \<and> r' = r\<lparr>embedding := Some (content r, embedder w)\<rparr>) \<and>
        (in_backlog (embedder w) r \<and> able w r \<and> after_cursor (position w) r \<longrightarrow> embedding r' = Some (content r, embedder w))) \<and>
     d_failed res = count_unembedded (embedder w) (rows w') \<and>
     d_embedded res + d_failed res = count_unembedded (embedder w) (rows w)"
proof -
  obtain res w' where run: "alone (run_embedding_backfill_to_completion fuel batch scan_cap) w = (Some (Inr res), w')"
      and d: "drained (position w) 0 w res w'"
    using drain_run [OF assms, of "position w" 0 0 0] by (auto simp: run_embedding_backfill_to_completion_def swept_def)
  obtain S where S: "rows w' = map (vectored S (embedder w)) (rows w)" "S \<subseteq> embedded_ids w (pending w)"
    using d by (auto simp: drained_def)
  have inj: "inj_on mem_id (set (rows w))" using assms(1) by (simp add: workable_def distinct_map)
  have rows: "row (mem_id r) w' = Some (vectored S (embedder w) r)" if "r \<in> set (rows w)" for r
  proof -
    have "distinct (map mem_id (rows w'))" using assms(1) S(1) by (simp add: workable_def o_def)
    then show ?thesis using tget_distinct [of mem_id "rows w'" "vectored S (embedder w) r"] that S(1) by (simp add: row_def)
  qed
  have backlog: "in_backlog (embedder w) r" if "r \<in> set (rows w)" "mem_id r \<in> S" for r
    using S(2) that inj by (auto simp: embedded_ids_def pending_def dest: inj_onD)
  have all: "mem_id r \<in> S" if "r \<in> set (rows w)" "in_backlog (embedder w) r" "able w r" "after_cursor (position w) r" for r
  proof (rule ccontr)
    assume "mem_id r \<notin> S"
    then have "vectored S (embedder w) r \<in> set (pending w')"
      using that d S(1) by (simp add: pending_def drained_def vectored_backlog)
    then show False using d that(3,4) by (auto simp: drained_def)
  qed
  have "\<exists>r'. row (mem_id r) w' = Some r' \<and>
        (r' = r \<or> in_backlog (embedder w) r \<and> r' = r\<lparr>embedding := Some (content r, embedder w)\<rparr>) \<and>
        (in_backlog (embedder w) r \<and> able w r \<and> after_cursor (position w) r \<longrightarrow> embedding r' = Some (content r, embedder w))"
    if "r \<in> set (rows w)" for r
    using rows [OF that] backlog [OF that] all [OF that] by (auto simp: vectored_def)
  then show ?thesis using run d by (auto simp: drained_def count_unembedded_def pending_def)
qed


section \<open>When the cursor cannot be saved\<close>

abbreviation with_cursor_file :: "brain \<Rightarrow> brain" where
  "with_cursor_file w \<equiv> w\<lparr>fails := (fails w)(cursor_file := False)\<rparr>"

lemma futile_tick:
  assumes "workable (with_cursor_file w)" "fails w cursor_file" "1 \<le> batch" "1 \<le> scan_cap"
    and "scan_cap \<le> int (length (ahead w))" "\<forall>r \<in> set (window_of scan_cap w). \<not> able w r"
  shows "\<exists>st. alone (run_embedding_backfill_tick batch scan_cap) w = (Inr st, w) \<and> embedded st = 0 \<and> int (scanned st) = scan_cap"
proof -
  let ?m = "window_of scan_cap w"
  have f: "\<not> fails w ''embedder''" "\<not> fails w memories_db" using assms(1) by (simp_all add: workable_def)
  have same: "window_of scan_cap (with_cursor_file w) = ?m" "rows (with_cursor_file w) = rows w"
    by (simp_all add: window_of_def position_def rows_def)
  obtain ps qs st where run: "?m = ps @ qs" "alone (embed_rows batch ?m (tick_start (position w))) w = (st, with_vectors (embedded_ids w ps) w)"
      "worked w ps qs (tick_start (position w)) st" "qs \<noteq> [] \<longrightarrow> batch \<le> int (embedded st)"
    using embed_rows_run [OF f, of ?m batch "tick_start (position w)"] window_row [OF assms(1,4)] unfolding same by blast
  have none: "filter (able w) ps = []" using assms(6) run(1) by (auto simp: filter_empty_conv)
  then have "embedded st = 0" "embedded_ids w ps = {}" using run(3) by (auto simp: worked_def tick_start_def embedded_ids_def filter_empty_conv)
  moreover from this have qs: "qs = []" using run(4) assms(3) by simp
  moreover have "length ?m = nat scan_cap" using assms(4,5) by (simp add: window_take)
  then have "int (scanned st) = scan_cap" using run(1,3) qs assms(4) by (simp add: worked_def tick_start_def)
  moreover have "alone (run_embedding_backfill_tick batch scan_cap) w = (Inr st, w)"
    using f assms(2) run(2) \<open>embedded_ids w ps = {}\<close>
    by (simp add: run_embedding_backfill_tick_def alone_andok alone_andthen save_cursor_def position_def window_of_def)
  ultimately show ?thesis by blast
qed

text \<open>
  The drain has no end when the file of the cursor cannot be written and the first \<open>scan_cap\<close> rows of the
  backlog cannot be embedded: every tick goes over the same rows again.
\<close>

theorem drain_spins:
  assumes "workable (with_cursor_file w)" "fails w cursor_file" "1 \<le> batch" "1 \<le> scan_cap"
    and "scan_cap \<le> int (length (ahead w))" "\<forall>r \<in> set (window_of scan_cap w). \<not> able w r"
  shows "alone (run_embedding_backfill_to_completion fuel batch scan_cap) w = (None, w)"
proof -
  obtain st where st: "alone (run_embedding_backfill_tick batch scan_cap) w = (Inr st, w)" "embedded st = 0" "int (scanned st) = scan_cap"
    using futile_tick [OF assms] by blast
  then have "scanned st \<noteq> 0" using assms(4) by auto
  then have "alone (drain fuel batch scan_cap e s n) w = (None, w)" for e s n
    using st by (induction fuel arbitrary: e s n) (simp_all add: alone_andthen)
  then show ?thesis by (simp add: run_embedding_backfill_to_completion_def)
qed

section \<open>A folder\<close>

definition note_row :: "string \<Rightarrow> string \<Rightarrow> int \<Rightarrow> memory" where
  "note_row mid text n =
     \<lparr>mem_id = mid, content = text, memory_type = ''conversation'', mem_domain = ''us'', emotions = [], tags = [], importance = 0,
      mem_score = 0, created_at = 0, last_accessed_at = None, active_flag = True, protected_flag = False, metadata = [],
      mem_state = ''active'', content_snapshot = None, recall_count = 0, peak_emotion = 0, embedding = None, row_no = n\<rparr>"

definition shelf :: "string list \<Rightarrow> brain" where
  "shelf broken =
     \<lparr>memories = Some [note_row ''a'' ''the walk along the river'' 1, note_row ''b'' ''the name of the blue boat'' 2], hebbian = None,
      graves = [], low_passes = [], cursor = [], felt_state = \<lparr>felt_lived_age = 0, felt_first_tick = None\<rparr>, candidates = [], archive = [],
      crystals = None, manifest = [], now_utc = 0, fails = (\<lambda>r. r \<in> set broken), new_ids = (\<lambda>_. ''n''), ids_drawn = 0,
      embedder = ''m'', backfill_cursor = None, legacy_files = [], published = []\<rparr>"

abbreviation embed_a :: string where "embed_a \<equiv> ''embed the walk along the river''"
abbreviation embed_b :: string where "embed_b \<equiv> ''embed the name of the blue boat''"

lemma rows_shelf [simp]: "rows (shelf b) = [note_row ''a'' ''the walk along the river'' 1, note_row ''b'' ''the name of the blue boat'' 2]"
  by (simp add: shelf_def rows_def)

lemma shelf_simps [simp]: "fails (shelf b) = (\<lambda>r. r \<in> set b)" "embedder (shelf b) = ''m''" "position (shelf b) = None"
  by (simp_all add: shelf_def position_def load_cursor_def)

lemma shelf_pending [simp]: "pending (shelf b) = rows (shelf b)" "ahead (shelf b) = rows (shelf b)"
  by (simp_all add: pending_def ahead_def in_backlog_def after_cursor_def note_row_def MIN_CHARS_TO_EMBED_def)

lemma drain_completes_witness:
  "\<exists>res w'. alone (run_embedding_backfill_to_completion 9 1 1) (shelf [embed_b]) = (Some (Inr res), w') \<and>
     (\<exists>r. row ''a'' w' = Some r \<and> embedding r = Some (''the walk along the river'', ''m'')) \<and> d_embedded res + d_failed res = 2"
proof -
  have "workable (shelf [embed_b])" by (simp add: workable_def note_row_def SQLITE_MAX_ROWID_def)
  moreover have "fuel_for (shelf [embed_b]) < 9" by (simp add: fuel_for_def)
  ultimately obtain res w' where d: "alone (run_embedding_backfill_to_completion 9 1 1) (shelf [embed_b]) = (Some (Inr res), w')"
    "\<forall>r \<in> set (rows (shelf [embed_b])). \<exists>r'. row (mem_id r) w' = Some r' \<and>
        (r' = r \<or> in_backlog ''m'' r \<and> r' = r\<lparr>embedding := Some (content r, ''m'')\<rparr>) \<and>
        (in_backlog ''m'' r \<and> able (shelf [embed_b]) r \<and> after_cursor None r \<longrightarrow> embedding r' = Some (content r, ''m''))"
    "d_embedded res + d_failed res = count_unembedded ''m'' (rows (shelf [embed_b]))"
    using drain_completes [of "shelf [embed_b]" 1 1 9] by auto
  have "\<exists>r. row ''a'' w' = Some r \<and> embedding r = Some (''the walk along the river'', ''m'')"
    using bspec [OF d(2), of "note_row ''a'' ''the walk along the river'' 1"]
    by (auto simp: note_row_def in_backlog_def able_def after_cursor_def MIN_CHARS_TO_EMBED_def)
  moreover have "count_unembedded ''m'' (rows (shelf [embed_b])) = 2"
    by (simp add: count_unembedded_def in_backlog_def note_row_def MIN_CHARS_TO_EMBED_def)
  ultimately show ?thesis using d(1,3) by auto
qed

lemma drain_spins_witness:
  "\<forall>fuel. alone (run_embedding_backfill_to_completion fuel 2 2) (shelf [embed_a, embed_b, cursor_file]) = (None, shelf [embed_a, embed_b, cursor_file])"
proof
  fix fuel
  let ?w = "shelf [embed_a, embed_b, cursor_file]"
  have "rows (with_cursor_file ?w) = rows ?w" by (simp add: rows_def)
  then have "workable (with_cursor_file ?w)" by (simp add: workable_def note_row_def SQLITE_MAX_ROWID_def)
  moreover have "\<not> able ?w r" if "r \<in> set (window_of 2 ?w)" for r
    using window_mem [OF _ that] by (auto simp: able_def note_row_def)
  ultimately show "alone (run_embedding_backfill_to_completion fuel 2 2) ?w = (None, ?w)"
    by (intro drain_spins ballI) simp_all
qed

end
