(* ===== verification/Embeddings.thy ===== *)
theory Embeddings
  imports Backfill_Laws
begin

text \<open>
  That a row never carries the vector of another text: it holds at every moment of every operation on the table,
  as long as one of them runs at a time, and a crash does not harm it; two that overlap break it.
\<close>

section \<open>One writer at a time\<close>

definition fits :: "memory \<Rightarrow> bool" where
  "fits r \<longleftrightarrow> (case embedding r of None \<Rightarrow> True | Some v \<Rightarrow> fst v = content r)"

definition coherent :: "brain \<Rightarrow> bool" where
  "coherent w \<longleftrightarrow> (\<forall>r \<in> set (rows w). fits r)"

definition holds_text :: "string \<Rightarrow> string \<Rightarrow> brain \<Rightarrow> bool" where
  "holds_text mid text w \<longleftrightarrow> (\<forall>r \<in> set (rows w). mem_id r = mid \<longrightarrow> content r = text)"

lemma rows_on: "set (rows (on_rows f w)) \<subseteq> set (f (rows w)) \<or> rows (on_rows f w) = []"
  by (cases "memories w") (simp_all add: on_rows_def rows_def)

lemma fits_simps [simp]:
  "embedding r = None \<Longrightarrow> fits r" "fits (r\<lparr>embedding := None\<rparr>)" "fits (r\<lparr>embedding := Some v\<rparr>) \<longleftrightarrow> fst v = content r"
  "fits (r\<lparr>mem_state := st, content_snapshot := c\<rparr>) = fits r"
  by (simp_all add: fits_def split: option.split)

lemma coherent_edit:
  assumes "coherent w" "\<And>r. r \<in> set (rows w) \<Longrightarrow> mem_id r = mid \<Longrightarrow> fits r \<Longrightarrow> fits (f r)"
  shows "coherent (on_rows (tupd mem_id mid f) w)"
  using assms rows_on [of "tupd mem_id mid f" w] unfolding coherent_def tupd_def by fastforce

lemma coherent_delete: "coherent w \<Longrightarrow> coherent (on_rows (tdel mem_id mid) w)"
  using rows_on [of "tdel mem_id mid" w] by (fastforce simp: coherent_def tdel_def)

lemma holds_text_edit: "(\<And>r. mem_id (f r) = mem_id r) \<Longrightarrow> (\<And>r. r \<in> set (rows w) \<Longrightarrow> content (f r) = text) \<Longrightarrow>
    holds_text mid text (on_rows (tupd mem_id mid f) w)"
  using rows_on [of "tupd mem_id mid f" w] unfolding holds_text_def tupd_def by fastforce

lemma always_using: "coherent w \<Longrightarrow> coherent (f w) \<Longrightarrow> always coherent (using_file r f) w"
  by (simp add: using_file_def)

lemma always_embed_row: "coherent w \<Longrightarrow> holds_text mid text w \<Longrightarrow> always coherent (embed_row mid text) w"
  unfolding embed_row_def write_embedding_def
  by (intro always_andok always_using coherent_edit) (auto simp: holds_text_def split: if_splits)

lemma ends_coherent: "always coherent p w \<Longrightarrow> alone p w = (x, w') \<Longrightarrow> coherent w'"
  by (rule always_ends)

lemma always_reembed: "coherent w \<Longrightarrow> holds_text mid text w \<Longrightarrow> always coherent (reembed_or_clear mid text) w"
  unfolding reembed_or_clear_def attempt_def
  by (intro always_andthen always_embed_row) (auto split: sum.split intro!: always_andthen always_using coherent_edit)

lemma always_find_row: "coherent w \<Longrightarrow> always coherent (find_row mid) w"
  by (simp add: find_row_def)

lemma using_result: "alone (using_file r f) w = (Inr x, w') \<Longrightarrow> w' = f w"
  by (simp add: using_file_def split: if_splits)

lemma always_fade: "coherent w \<Longrightarrow> always coherent (fade mid summary) w"
  unfolding fade_def
  by (intro always_andok always_find_row)
     (auto dest!: using_result intro!: always_andok always_using always_reembed coherent_edit holds_text_edit)

lemma alone_find: "alone (find_row mid) w = (Inr r, w') \<Longrightarrow> w' = w \<and> row mid w = Some r"
  by (auto simp: find_row_def split: option.splits)

lemma restore_ends:
  assumes "alone (restore_snapshot mid) w = (Inr x, w')" "row mid w = Some r" "content_snapshot r = Some text"
  shows "holds_text mid text w'"
  using assms by (auto simp: restore_snapshot_def split: if_splits option.splits intro!: holds_text_edit)

lemma always_restore: "coherent w \<Longrightarrow> always coherent (restore_snapshot mid) w"
  by (auto simp: restore_snapshot_def split: option.split intro!: coherent_edit)

lemma always_unfade: "coherent w \<Longrightarrow> always coherent (unfade mid) w"
  unfolding unfade_def
  by (intro always_andok always_find_row)
     (auto dest!: alone_find split: option.split intro!: always_andok always_restore always_reembed dest: restore_ends)

lemma assigned_id [simp]: "mem_id (assigned f r) = mem_id r" "mem_id (fold assigned fs r) = mem_id r"
proof -
  show one: "mem_id (assigned f r) = mem_id r" for f r by (cases f) simp_all
  show "mem_id (fold assigned fs r) = mem_id r" by (induction fs arbitrary: r) (simp_all add: one)
qed

lemma assigned_content:
  "content (fold assigned fs r) = (case new_content fs of None \<Rightarrow> content r | Some text \<Rightarrow> text)"
proof (induction fs arbitrary: r)
  case (Cons f fs)
  then show ?case by (cases f) (simp_all split: option.split)
qed simp

lemma assigned_embedding:
  "embedding (fold assigned fs r) = (case new_content fs of None \<Rightarrow> embedding r | Some text \<Rightarrow> None)"
proof (induction fs arbitrary: r)
  case (Cons f fs)
  then show ?case by (cases f) (simp_all split: option.split)
qed simp

lemma always_get: "coherent w \<Longrightarrow> always coherent (get_memory mid (Inl False)) w"
  unfolding get_memory_def by (intro always_andthen) (auto simp: bump_amount_def split: option.split)

lemma always_update:
  assumes "coherent w"
  shows "always coherent (update mid fs) w"
proof -
  have edit: "coherent (on_rows (tupd mem_id mid (fold assigned fs)) w)" if "coherent w" for w
    by (rule coherent_edit [OF that]) (auto simp: fits_def assigned_content assigned_embedding split: option.splits)
  have "holds_text mid new (on_rows (tupd mem_id mid (fold assigned fs)) w)" if "new_content fs = Some new" for new w
    using that by (intro holds_text_edit) (simp_all add: assigned_content)
  with edit assms show ?thesis unfolding update_def
    by (intro always_andok always_get)
       (auto dest!: using_result split: option.split intro!: always_andok always_using always_reembed)
qed

lemma always_delete: "coherent w \<Longrightarrow> always coherent (hard_delete mid) w"
  unfolding hard_delete_def by (intro always_andok always_find_row always_using coherent_delete)

lemma always_reactivate: "coherent w \<Longrightarrow> always coherent (set_active_clear_snapshot mid) w"
  unfolding set_active_clear_snapshot_def
  by (intro always_using coherent_edit) simp_all

lemma always_create: "coherent w \<Longrightarrow> always coherent (create m) w"
  by (auto simp: create_def coherent_def insert_memory_row_def rows_def split: sum.split)

text \<open>The backfill: what it read of a row stays true while it works.\<close>

lemma always_embed_rows:
  assumes "coherent w" "\<forall>m \<in> set ms. holds_text (mem_id m) (content m) w"
  shows "always coherent (embed_rows batch ms st) w"
  using assms
proof (induction ms arbitrary: w st)
  case (Cons m ms)
  have m: "holds_text (mem_id m) (content m) w" using Cons.prems(2) by simp
  have rest: "\<forall>m' \<in> set ms. holds_text (mem_id m') (content m') w'" if "alone (embed_row (mem_id m) (content m)) w = (x, w')" for x w'
    using Cons.prems(2) that rows_on [of "tupd mem_id (mem_id m) (\<lambda>r. r\<lparr>embedding := Some (content m, embedder w)\<rparr>)" w]
    by (fastforce simp: embed_row_def write_embedding_def using_file_def alone_andok holds_text_def tupd_def split: if_splits)
  show ?case using Cons m
    by (auto simp: Let_def split: sum.split intro!: always_andthen always_embed_row dest: rest)
qed simp

lemma coherent_cursor: "coherent (w\<lparr>backfill_cursor := c\<rparr>) = coherent w"
  by (simp add: coherent_def)

lemma always_tick:
  assumes "coherent w" "distinct (map mem_id (rows w))"
  shows "always coherent (run_embedding_backfill_tick batch scan_cap) w"
proof -
  have "holds_text (mem_id m) (content m) w" if "m \<in> set (rows w)" for m
    using assms(2) that by (auto simp: holds_text_def distinct_map dest: inj_onD)
  moreover have "set (list_unembedded_since cur scan_cap model (rows w)) \<subseteq> set (rows w)" for cur model
    by (auto simp: list_unembedded_since_def limited_def dest: in_set_takeD)
  ultimately have "always coherent (embed_rows batch (list_unembedded_since cur scan_cap model (rows w)) st) w" for cur model st
    by (intro always_embed_rows assms(1)) blast
  then show ?thesis using assms(1) unfolding run_embedding_backfill_tick_def
    by (auto simp: save_cursor_def coherent_cursor intro!: always_andok always_andthen split: if_splits)
qed

text \<open>The operations that write a text or a vector, their results put aside.\<close>

definition to_unit :: "'a act \<Rightarrow> unit act" where
  "to_unit p = andok p (\<lambda>_. Done (Inr ()))"

definition text_writers :: "unit act set" where
  "text_writers =
     {fade mid summary | mid summary. True} \<union> {unfade mid | mid. True} \<union> {update mid fs | mid fs. True} \<union>
     {hard_delete mid | mid. True} \<union> {set_active_clear_snapshot mid | mid. True} \<union> {to_unit (create m) | m. True} \<union>
     {to_unit (run_embedding_backfill_tick batch scan_cap) | batch scan_cap. True}"

lemma always_to_unit: "always coherent p w \<Longrightarrow> always coherent (to_unit p) w"
  unfolding to_unit_def by (rule always_andok) simp_all



section \<open>Two writers\<close>

lemmas tick_and_update =
  schedule_def turn_def andthen_simps andok_def to_unit_def run_embedding_backfill_tick_def list_unembedded_since_def limited_def in_backlog_def
  after_cursor_def MIN_CHARS_TO_EMBED_def load_cursor_def save_cursor_def tick_start_def update_def get_memory_def bump_amount_def is_unknown_def
  reembed_or_clear_def embed_row_def write_embedding_def using_file_def on_rows_def row_def rows_def shelf_def note_row_def Let_def


end
