(* ===== verification/Jsonl.thy ===== *)
theory Jsonl
  imports Disk
begin

text \<open>
  Files of one JSON object per line (\<open>health/jsonl_reader.py\<close> and the JSONL half of \<open>health/json_io.py\<close>): judging a
  line, reading all lines, the lines from a position on or the last ones, and appending. A file is its bytes.
  The parser of \<open>Json\<close> knows code points below 256; what \<open>json.loads\<close> makes of a text with others, and which texts
  it cannot load at all (integers too long, nesting too deep), is a parameter.
\<close>

section \<open>Lines\<close>

fun split_nl :: "bytes \<Rightarrow> bytes list" where
  "split_nl [] = [[]]"
| "split_nl (b # bs) = (if b = 10 then [] # split_nl bs else (b # hd (split_nl bs)) # tl (split_nl bs))"

text \<open>What iterating over the open file yields: every line with its end, and a last one without.\<close>

definition raw_lines :: "bytes \<Rightarrow> bytes list" where
  "raw_lines bs =
     (let ls = split_nl bs in map (\<lambda>l. l @ [10]) (butlast ls) @ (if last ls = [] then [] else [last ls]))"

definition BOM :: bytes where
  "BOM = [0xEF, 0xBB, 0xBF]"

definition without_bom :: "bytes \<Rightarrow> bytes" where
  "without_bom bs = (if take 3 bs = BOM then drop 3 bs else bs)"

section \<open>Judging a line\<close>

record json_lib =
  wide :: "nat list \<Rightarrow> json option"
  unloadable :: "nat list \<Rightarrow> bool"

definition loads_points :: "json_lib \<Rightarrow> nat list \<Rightarrow> json option" where
  "loads_points L ps = (if list_all (\<lambda>p. p < 256) ps then json_loads (map char_of ps) else wide L ps)"

definition point_space :: "nat \<Rightarrow> bool" where
  "point_space p \<longleftrightarrow> p < 256 \<and> is_space (char_of p) \<or> p = 0x1680 \<or> 0x2000 \<le> p \<and> p \<le> 0x200A \<or> p \<in> {0x2028, 0x2029, 0x202F, 0x205F, 0x3000}"

datatype line_verdict = Usable dict | Blank | BadUtf8 | BadJson | Unloadable | NotObject

definition without_end :: "nat list \<Rightarrow> nat list" where
  "without_end ps = rev (dropWhile (\<lambda>p. p = 13 \<or> p = 10) (rev ps))"

definition classify_line :: "json_lib \<Rightarrow> bytes \<Rightarrow> line_verdict" where
  "classify_line L raw =
     (case decode_strict raw of
        None \<Rightarrow> BadUtf8
      | Some ps \<Rightarrow>
          let text' = without_end ps in
          if list_all point_space text' then Blank
          else if unloadable L text' then Unloadable
          else (case loads_points L text' of None \<Rightarrow> BadJson | Some (JObj d) \<Rightarrow> Usable d | Some _ \<Rightarrow> NotObject))"

section \<open>Reading\<close>

text \<open>The records a read yields, and how it ends: \<open>None\<close> at the end of the file, or an exception.\<close>

type_synonym records = "dict list \<times> exn option"

definition bad_line :: exn where "bad_line = OtherError ''JsonFileError: line''"
definition unloadable_line :: exn where "unloadable_line = OtherError ''UnloadableJsonlLineError''"
definition io_fault :: exn where "io_fault = OtherError ''JsonFileError: io''"

primrec parse_lines :: "json_lib \<Rightarrow> bool \<Rightarrow> bytes list \<Rightarrow> records" where
  "parse_lines L strict [] = ([], None)"
| "parse_lines L strict (raw # ls) =
     (case classify_line L raw of
        Usable d \<Rightarrow> (d # fst (parse_lines L strict ls), snd (parse_lines L strict ls))
      | Blank \<Rightarrow> parse_lines L strict ls
      | Unloadable \<Rightarrow> ([], Some unloadable_line)
      | _ \<Rightarrow> if strict then ([], Some bad_line) else parse_lines L strict ls)"

definition parse_jsonl :: "json_lib \<Rightarrow> bool \<Rightarrow> bytes \<Rightarrow> records" where
  "parse_jsonl L strict bs = parse_lines L strict (raw_lines (without_bom bs))"

datatype on_disk = Missing | Unreadable | Content bytes

text \<open>\<open>fail_closed\<close> is \<open>Recovery.RAISE\<close>.\<close>

definition read_jsonl :: "json_lib \<Rightarrow> bool \<Rightarrow> bool \<Rightarrow> on_disk \<Rightarrow> records" where
  "read_jsonl L strict fail_closed f =
     (case f of
        Missing \<Rightarrow> ([], None)
      | Unreadable \<Rightarrow> ([], if fail_closed then Some io_fault else None)
      | Content bs \<Rightarrow> parse_jsonl L strict bs)"

text \<open>The complete lines after the first \<open>start\<close> ones, with their numbers; \<open>None\<close> for a bad one.\<close>

definition numbered_record :: "json_lib \<Rightarrow> nat \<Rightarrow> nat \<times> bytes \<Rightarrow> (nat \<times> dict option) option" where
  "numbered_record L start p =
     (if fst p \<le> start then None
      else (case classify_line L (snd p) of Usable d \<Rightarrow> Some (fst p, Some d) | Blank \<Rightarrow> None | _ \<Rightarrow> Some (fst p, None)))"

definition read_jsonl_from :: "json_lib \<Rightarrow> nat \<Rightarrow> on_disk \<Rightarrow> ((nat \<times> dict option) list \<times> nat) res" where
  "read_jsonl_from L start f =
     (case f of
        Missing \<Rightarrow> Inr ([], 0)
      | Unreadable \<Rightarrow> Inl OSError
      | Content bs \<Rightarrow>
          let ls = map (\<lambda>l. l @ [10]) (butlast (split_nl (without_bom bs)))
          in Inr (List.map_filter (numbered_record L start) (zip [1..<Suc (length ls)] ls), length ls))"

section \<open>The last lines\<close>

definition TAIL_CHUNK :: nat where "TAIL_CHUNK = 8192"

definition blank_bytes :: "bytes \<Rightarrow> bool" where
  "blank_bytes bs \<longleftrightarrow> list_all (\<lambda>b. b = 32 \<or> 9 \<le> unat b \<and> unat b \<le> 13) bs"

definition rstrip_cr :: "bytes \<Rightarrow> bytes" where
  "rstrip_cr bs = rev (dropWhile (\<lambda>b. b = 13) (rev bs))"

text \<open>The complete lines of a chunk, the rightmost first, until \<open>n\<close> are found.\<close>

primrec find_lines :: "nat \<Rightarrow> bytes list \<Rightarrow> bytes list \<Rightarrow> bytes list" where
  "find_lines n [] found = found"
| "find_lines n (line # ls) found =
     (if blank_bytes line then find_lines n ls found
      else let found' = found @ [rstrip_cr line] in if n \<le> length found' then found' else find_lines n ls found')"

text \<open>\<open>head\<close> holds the pieces of the line that reaches further to the left.\<close>

function tail_loop :: "nat \<Rightarrow> nat \<Rightarrow> bytes \<Rightarrow> nat \<Rightarrow> bytes list \<Rightarrow> bytes list \<Rightarrow> nat \<times> bytes list \<times> bytes list" where
  "tail_loop c n file remaining head found =
     (if remaining = 0 \<or> n \<le> length found then (remaining, head, found)
      else
        let size' = min (Suc c) remaining;
            left = remaining - size';
            chunk = take size' (drop left file)
        in if 10 \<notin> set chunk then tail_loop c n file left (chunk # head) found
           else
             let parts = split_nl chunk
             in tail_loop c n file left [hd parts] (find_lines n ((last parts @ concat head) # rev (butlast (tl parts))) found))"
  by pat_completeness auto
termination by (relation "measure (\<lambda>(c, n, file, remaining, head, found). remaining)") auto

declare tail_loop.simps [simp del]

definition tail_lines :: "nat \<Rightarrow> nat \<Rightarrow> bytes \<Rightarrow> bytes list" where
  "tail_lines c n file =
     (case tail_loop c n file (length file) [] [] of (remaining, head, found) \<Rightarrow>
        if remaining = 0 \<and> length found < n
        then let first = without_bom (concat head) in rev (if blank_bytes first then found else found @ [rstrip_cr first])
        else rev found)"

definition join_nl :: "bytes list \<Rightarrow> bytes" where
  "join_nl ls = (case ls of [] \<Rightarrow> [] | l # ls' \<Rightarrow> l @ concat (map (\<lambda>x. 10 # x) ls'))"

definition read_jsonl_tail :: "json_lib \<Rightarrow> int \<Rightarrow> bool \<Rightarrow> bool \<Rightarrow> on_disk \<Rightarrow> records" where
  "read_jsonl_tail L n strict fail_closed f =
     (if n \<le> 0 then ([], None)
      else (case f of
              Missing \<Rightarrow> ([], None)
            | Unreadable \<Rightarrow> ([], if fail_closed then Some io_fault else None)
            | Content [] \<Rightarrow> ([], None)
            | Content bs \<Rightarrow> parse_jsonl L strict (join_nl (tail_lines (TAIL_CHUNK - 1) (nat n) bs))))"

section \<open>Appending\<close>

fun finite_json :: "json \<Rightarrow> bool" where
  "finite_json (JFloat f) = (case f of Fin _ \<Rightarrow> True | _ \<Rightarrow> False)"
| "finite_json (JList xs) = list_all finite_json xs"
| "finite_json (JObj d) = list_all (\<lambda>(k, v). finite_json v) d"
| "finite_json j = True"

fun null_nonfinite :: "json \<Rightarrow> json" where
  "null_nonfinite (JFloat f) = (case f of Fin _ \<Rightarrow> JFloat f | _ \<Rightarrow> JNull)"
| "null_nonfinite (JList xs) = JList (map null_nonfinite xs)"
| "null_nonfinite (JObj d) = JObj (map (\<lambda>(k, v). (k, null_nonfinite v)) d)"
| "null_nonfinite j = j"

definition dumps_strict :: "ext \<Rightarrow> bool \<Rightarrow> json \<Rightarrow> string res" where
  "dumps_strict X nulls j =
     (if finite_json j then Inr (json_text X '', '' '': '' True j)
      else if nulls then Inr (json_text X '', '' '': '' True (null_nonfinite j)) else Inl ValueError)"

definition ascii_bytes :: "string \<Rightarrow> bytes" where
  "ascii_bytes s = map (\<lambda>c. word_of_nat (of_char c)) s"

primrec encode_jsonl :: "ext \<Rightarrow> bool \<Rightarrow> dict list \<Rightarrow> bytes res" where
  "encode_jsonl X nulls [] = Inr []"
| "encode_jsonl X nulls (r # rs) =
     bind_res (dumps_strict X nulls (JObj r)) (\<lambda>s. bind_res (encode_jsonl X nulls rs) (\<lambda>bs. Inr (ascii_bytes s @ 10 # bs)))"

text \<open>The bytes that \<open>encode_jsonl\<close> returned may be given instead of records; they must end a line.\<close>

definition payload_of :: "ext \<Rightarrow> bool \<Rightarrow> dict list + bytes \<Rightarrow> bytes res" where
  "payload_of X nulls rs =
     (case rs of Inl ds \<Rightarrow> encode_jsonl X nulls ds
      | Inr bs \<Rightarrow> if bs \<noteq> [] \<and> last bs \<noteq> 10 then Inl ValueError else Inr bs)"

definition tail_is_torn :: "bytes \<Rightarrow> bool" where
  "tail_is_torn bs \<longleftrightarrow> bs \<noteq> [] \<and> last bs \<noteq> 10"

text \<open>
  \<open>broken\<close>: how many bytes reach the disk when the write breaks off, by a fault or by the end of the process. The
  lock is held, so nothing comes between the look at the last byte and the write.
\<close>

definition written :: "nat option \<Rightarrow> bytes \<Rightarrow> bytes \<Rightarrow> bytes" where
  "written broken payload bs =
     (let out = (if tail_is_torn bs then 10 # payload else payload)
      in bs @ (case broken of None \<Rightarrow> out | Some k \<Rightarrow> take k out))"

definition append_jsonl :: "ext \<Rightarrow> bool \<Rightarrow> bool \<Rightarrow> nat option \<Rightarrow> dict list + bytes \<Rightarrow> bytes \<Rightarrow> nat option res \<times> bytes" where
  "append_jsonl X nulls raises broken rs bs =
     (case payload_of X nulls rs of
        Inl e \<Rightarrow> (Inl e, bs)
      | Inr payload \<Rightarrow>
          if payload = [] then (Inr (Some 0), bs)
          else (case broken of
                  None \<Rightarrow> (Inr (Some (length payload)), written None payload bs)
                | Some k \<Rightarrow> (if raises then Inl OSError else Inr None, written (Some k) payload bs)))"

end
