(* ===== verification/Jsonl_Laws.thy ===== *)
theory Jsonl_Laws
  imports Jsonl
begin

text \<open>
  That reading a file backwards in chunks finds its last lines, and that no append, whatever was torn before
  it, costs a record that another append has completed.
\<close>

section \<open>Splitting\<close>

lemma split_not_Nil [simp]: "split_nl bs \<noteq> []"
  by (cases bs) simp_all

lemma split_Cons_hd_tl [simp]: "hd (split_nl bs) # tl (split_nl bs) = split_nl bs"
  by (rule list.collapse) simp

lemma split_append: "split_nl (a @ b) = butlast (split_nl a) @ (last (split_nl a) @ hd (split_nl b)) # tl (split_nl b)"
proof (induction a)
  case (Cons x a)
  then show ?case by (cases "split_nl a") auto
qed simp

lemma split_one: "10 \<notin> set bs \<Longrightarrow> split_nl bs = [bs]"
  by (induction bs) auto

lemma split_length: "10 \<in> set bs \<Longrightarrow> 2 \<le> length (split_nl bs)"
proof (induction bs)
  case (Cons b bs)
  have "1 \<le> length (split_nl bs)" by (simp add: Suc_leI)
  with Cons show ?case by (cases "split_nl bs") auto
qed simp

lemma split_parts:
  assumes "10 \<in> set bs"
  shows "split_nl bs = hd (split_nl bs) # butlast (tl (split_nl bs)) @ [last (split_nl bs)]"
proof -
  have "tl (split_nl bs) \<noteq> []" using split_length [OF assms] by (cases "split_nl bs") auto
  then show ?thesis by (metis append_butlast_last_id last_tl split_Cons_hd_tl)
qed

section \<open>Reading backwards\<close>

text \<open>The lines of a file, without a mark at its start, and the last \<open>n\<close> that are not blank.\<close>

definition file_lines :: "bytes \<Rightarrow> bytes list" where
  "file_lines bs = without_bom (hd (split_nl bs)) # tl (split_nl bs)"

definition shown :: "bytes list \<Rightarrow> bytes list" where
  "shown ls = map rstrip_cr (filter (\<lambda>l. \<not> blank_bytes l) ls)"

definition last_lines :: "nat \<Rightarrow> bytes \<Rightarrow> bytes list" where
  "last_lines n bs = rev (take n (shown (rev (file_lines bs))))"

lemma shown_append [simp]: "shown (a @ b) = shown a @ shown b" "shown [] = []"
  "shown (l # ls) = (if blank_bytes l then shown ls else rstrip_cr l # shown ls)"
  by (simp_all add: shown_def)

lemma find_lines_take: "length found < n \<Longrightarrow> find_lines n ls found = take n (found @ shown ls)"
proof (induction ls arbitrary: found)
  case (Cons l ls)
  show ?case
  proof (cases "blank_bytes l \<or> n \<noteq> Suc (length found)")
    case True
    moreover have "n - length found = Suc (n - Suc (length found))" using Cons.prems by simp
    ultimately show ?thesis using Cons by (auto simp: Let_def)
  qed (use Cons.prems in \<open>simp add: Let_def\<close>)
qed simp

text \<open>What has been read to the right of \<open>remaining\<close>: a line that goes on to the left, and complete lines.\<close>

definition backwards :: "nat \<Rightarrow> bytes \<Rightarrow> nat \<Rightarrow> bytes list \<Rightarrow> bytes list \<Rightarrow> bool" where
  "backwards n file remaining head found \<longleftrightarrow> remaining \<le> length file \<and>
     (\<exists>P. split_nl (drop remaining file) = concat head # rev P \<and> found = take n (shown P))"

lemma backwards_chunk:
  assumes "backwards n file r head found" "length found < n" "chunk = take size' (drop left file)" "r = left + size'"
  shows "backwards n file left
      (if 10 \<notin> set chunk then chunk # head else [hd (split_nl chunk)])
      (if 10 \<notin> set chunk then found else find_lines n ((last (split_nl chunk) @ concat head) # rev (butlast (tl (split_nl chunk)))) found)"
proof -
  obtain P where P: "split_nl (drop r file) = concat head # rev P" "found = take n (shown P)" and r: "r \<le> length file"
    using assms(1) by (auto simp: backwards_def)
  have found: "found = shown P" using P(2) assms(2) by auto
  have "drop left file = chunk @ drop r file"
    by (metis assms(3,4) add.commute append_take_drop_id drop_drop)
  then have split: "split_nl (drop left file) = butlast (split_nl chunk) @ (last (split_nl chunk) @ concat head) # rev P"
    by (simp add: split_append P(1))
  show ?thesis
  proof (cases "10 \<in> set chunk")
    case False
    then show ?thesis using split P(2) r assms(4) by (auto simp: backwards_def split_one)
  next
    case True
    let ?p = "split_nl chunk"
    define X where "X = (last ?p @ concat head) # rev (butlast (tl ?p))"
    have "butlast ?p = hd ?p # butlast (tl ?p)" using split_parts [OF True] by (metis butlast_snoc butlast.simps(2) append_is_Nil_conv list.distinct(1))
    then have "split_nl (drop left file) = hd ?p # rev (P @ X)" by (simp add: split X_def)
    moreover have "find_lines n X found = take n (shown (P @ X))" using find_lines_take [OF assms(2)] found by simp
    ultimately show ?thesis using True r assms(4) by (auto simp: backwards_def X_def intro!: exI [of _ "P @ X"])
  qed
qed

lemma tail_loop_backwards:
  assumes "backwards n file r head found"
  shows "case tail_loop c n file r head found of (r', head', found') \<Rightarrow>
    backwards n file r' head' found' \<and> (r' = 0 \<or> n \<le> length found')"
  using assms
proof (induction c n "file" r head found rule: tail_loop.induct)
  case (1 c n bytes remaining head found)
  show ?case
  proof (cases "remaining = 0 \<or> n \<le> length found")
    case True
    then show ?thesis using "1.prems" by (simp add: tail_loop.simps)
  next
    case False
    define size' where "size' = min (Suc c) remaining"
    define left where "left = remaining - size'"
    define chunk where "chunk = take size' (drop left bytes)"
    have "remaining = left + size'" by (simp add: left_def size'_def)
    note b = backwards_chunk [OF "1.prems" _ chunk_def this]
    show ?thesis
    proof (cases "10 \<in> set chunk")
      case no: False
      have "tail_loop c n bytes remaining head found = tail_loop c n bytes left (chunk # head) found"
        using False no by (subst tail_loop.simps) (simp add: Let_def size'_def left_def chunk_def)
      then show ?thesis using "1.IH"(1) [OF False size'_def left_def chunk_def no] b no False by simp
    next
      case yes: True
      have "tail_loop c n bytes remaining head found = tail_loop c n bytes left [hd (split_nl chunk)]
          (find_lines n ((last (split_nl chunk) @ concat head) # rev (butlast (tl (split_nl chunk)))) found)"
        using False yes by (subst tail_loop.simps) (simp add: Let_def size'_def left_def chunk_def)
      then show ?thesis using "1.IH"(2) [OF False size'_def left_def chunk_def _ refl] b yes False by simp
    qed
  qed
qed

text \<open>
  C25: Reading a file backwards in chunks of any size finds what reading it from the front finds: its last \<open>n\<close> lines
  that are not blank, without carriage returns at their ends and without a mark at the start of the file.
\<close>

theorem tail_is_last_lines: "tail_lines c n file = last_lines n file"
proof -
  obtain r head found where l: "tail_loop c n file (length file) [] [] = (r, head, found)" by (metis prod_cases3)
  have "backwards n file (length file) [] []" by (auto simp: backwards_def intro: exI [of _ "[]"])
  from tail_loop_backwards [OF this, of c]
  obtain P where P: "split_nl (drop r file) = concat head # rev P" "found = take n (shown P)" and stop: "r = 0 \<or> n \<le> length found"
    by (auto simp: backwards_def l)
  show ?thesis
  proof (cases "r = 0 \<and> length found < n")
    case True
    then have "found = shown P" "file_lines file = without_bom (concat head) # rev P" using P by (auto simp: file_lines_def)
    then show ?thesis using True P by (auto simp: tail_lines_def l last_lines_def Let_def)
  next
    case False
    then have full: "n \<le> length (shown P)" using stop P(2) by auto
    have "split_nl file = butlast (split_nl (take r file)) @ (last (split_nl (take r file)) @ concat head) # rev P"
      using split_append [of "take r file" "drop r file"] by (simp add: P(1))
    then obtain x xs where "split_nl file = x # xs @ rev P" by (cases "butlast (split_nl (take r file))") auto
    then have "rev (file_lines file) = P @ rev (without_bom x # xs)" by (simp add: file_lines_def)
    then have "take n (shown (rev (file_lines file))) = take n (shown P)" using full by simp
    then show ?thesis using False P(2) by (auto simp: tail_lines_def l last_lines_def)
  qed
qed

section \<open>Appending after a torn write\<close>

text \<open>
  Appends come one after another, since each holds the lock. \<open>Whole\<close>: one that ended; \<open>Torn k\<close>: one that broke off
  after \<open>k\<close> bytes, by a fault of the disk or by the end of its process.
\<close>

datatype append = Whole "dict list" | Torn nat "dict list"

fun appended :: "ext \<Rightarrow> append \<Rightarrow> bytes \<Rightarrow> bytes" where
  "appended X (Whole ds) bs = snd (append_jsonl X False True None (Inl ds) bs)"
| "appended X (Torn k ds) bs = snd (append_jsonl X False True (Some k) (Inl ds) bs)"

fun records_of :: "append \<Rightarrow> dict list" where
  "records_of (Whole ds) = ds" | "records_of (Torn k ds) = ds"

fun completed :: "append \<Rightarrow> dict list" where
  "completed (Whole ds) = ds" | "completed (Torn k ds) = []"

definition line_of :: "ext \<Rightarrow> dict \<Rightarrow> bytes" where
  "line_of X d = ascii_bytes (json_text X '', '' '': '' True (JObj d))"

definition encoded :: "bytes list \<Rightarrow> bytes" where
  "encoded ls = concat (map (\<lambda>l. l @ [10]) ls)"

definition filled :: "bytes \<Rightarrow> bytes list" where
  "filled bs = filter (\<lambda>l. l \<noteq> []) (split_nl bs)"

lemma filled_Nil [simp]: "filled [] = []"
  by (simp add: filled_def)

lemma split_snoc: "split_nl (bs @ [10]) = split_nl bs @ [[]]"
proof -
  have "butlast (split_nl bs) @ [last (split_nl bs)] = split_nl bs" by simp
  then show ?thesis by (simp add: split_append)
qed

lemma last_split: "bs = [] \<or> last bs = 10 \<Longrightarrow> last (split_nl bs) = []"
  by (cases bs rule: rev_cases) (auto simp: split_snoc)

lemma filled_after_nl: "bs = [] \<or> last bs = 10 \<Longrightarrow> filled (bs @ cs) = filled bs @ filled cs"
proof -
  assume b: "bs = [] \<or> last bs = 10"
  have "filled bs = filter (\<lambda>l. l \<noteq> []) (butlast (split_nl bs) @ [last (split_nl bs)])" by (simp add: filled_def)
  then have "filled bs = filter (\<lambda>l. l \<noteq> []) (butlast (split_nl bs))" using last_split [OF b] by simp
  then show ?thesis using last_split [OF b] by (simp add: filled_def split_append)
qed

lemma filled_nl [simp]: "filled (10 # bs) = filled bs"
  by (simp add: filled_def)

lemma filled_torn: "filled (bs @ 10 # cs) = filled bs @ filled cs"
proof -
  have "filled (bs @ 10 # cs) = filled ((bs @ [10]) @ cs)" by simp
  also have "\<dots> = filled (bs @ [10]) @ filled cs" by (rule filled_after_nl) simp
  also have "filled (bs @ [10]) = filled bs"
    by (simp add: filled_def split_snoc)
  finally show ?thesis .
qed

lemma filled_line: "l \<noteq> [] \<Longrightarrow> 10 \<notin> set l \<Longrightarrow> filled (l @ 10 # cs) = l # filled cs"
  by (simp add: filled_torn) (simp add: filled_def split_one)

lemma filled_encoded: "list_all (\<lambda>l. l \<noteq> [] \<and> 10 \<notin> set l) ls \<Longrightarrow> filled (encoded ls) = ls"
  by (induction ls) (simp_all add: encoded_def filled_line)

lemma filled_written:
  "filled (written None p bs) = filled bs @ filled p" "\<exists>j. filled (written (Some k) p bs) = filled bs @ filled (take j p)"
proof -
  have "filled (bs @ take k p) = filled bs @ filled (take k p)" if "\<not> tail_is_torn bs"
    using that by (intro filled_after_nl) (auto simp: tail_is_torn_def)
  moreover have "filled (bs @ take k (10 # p)) = filled bs @ filled (take (k - 1) p)" if "k \<noteq> 0"
    using that by (cases k) (simp_all add: filled_torn)
  moreover have "filled bs = filled bs @ filled (take 0 p)" by simp
  ultimately show "\<exists>j. filled (written (Some k) p bs) = filled bs @ filled (take j p)"
    by (cases "k = 0") (auto simp: written_def Let_def intro: exI [of _ 0])
  show "filled (written None p bs) = filled bs @ filled p"
    by (auto simp: written_def Let_def filled_torn tail_is_torn_def intro: filled_after_nl)
qed


section \<open>The text of a record\<close>

definition printable :: "string \<Rightarrow> bool" where
  "printable s \<longleftrightarrow> list_all (\<lambda>c. 32 \<le> (of_char c :: nat) \<and> (of_char c :: nat) < 127) s"

lemma printable_simps [simp]:
  "printable []" "printable (c # s) \<longleftrightarrow> 32 \<le> (of_char c :: nat) \<and> (of_char c :: nat) < 127 \<and> printable s"
  "printable (s @ t) \<longleftrightarrow> printable s \<and> printable t"
  by (auto simp: printable_def)

lemma printable_join: "printable sep \<Longrightarrow> list_all printable xs \<Longrightarrow> printable (join sep xs)"
  by (cases xs) (auto simp: join_def printable_def list_all_iff)

lemma printable_digits: "list_all is_digit s \<Longrightarrow> printable s"
  by (induction s) (auto simp: is_digit_def Let_def)

lemma printable_hex: "n < 16 \<Longrightarrow> printable [hex_digit n]"
  by (auto simp: hex_digit_def of_char_of)

lemma printable_escape: "printable (escape_char True c)"
proof -
  have "of_char c div 16 < (16 :: nat)" using of_char_less_256 [of c] by (simp add: less_mult_imp_div_less)
  then show ?thesis using printable_hex [of "of_char c div 16"] printable_hex [of "of_char c mod 16"]
    by (auto simp: escape_char_def Let_def)
qed

lemma printable_quote: "printable (quote True s)"
  by (induction s) (use printable_escape in \<open>auto simp: quote_def\<close>)

lemma printable_text: "plain j \<Longrightarrow> separators isep ksep \<Longrightarrow> printable (json_text X isep ksep True j)"
proof (induction j)
  case (JList xs)
  then show ?case by (auto simp: separators_def list_all_iff intro!: printable_join)
next
  case (JObj d)
  have "printable (json_text X isep ksep True (snd m))" if "m \<in> set d" for m
    using JObj that by (cases m) (fastforce simp: list_all_iff)
  then show ?case using JObj.prems(2)
    by (auto simp: separators_def list_all_iff printable_quote case_prod_unfold intro!: printable_join)
qed (auto simp: dec_int_def printable_quote intro!: printable_digits dec_nat_digits)

section \<open>Judging a line that was appended\<close>

lemma ascii_bytes_byte: "printable s \<Longrightarrow> b \<in> set (ascii_bytes s) \<Longrightarrow> 32 \<le> unat b \<and> unat b < 127"
  by (auto simp: ascii_bytes_def printable_def list_all_iff unat_of_nat)

lemma decode_ascii_bytes: "printable s \<Longrightarrow> decode_strict (ascii_bytes s) = Some (map of_char s)"
proof -
  have "printable s \<Longrightarrow> utf8_units (ascii_bytes s) = map (\<lambda>c. Some (of_char c)) s"
    by (induction s) (simp_all add: ascii_bytes_def utf8_units.simps [of "[]"] utf8_units_ascii)
  then show "printable s \<Longrightarrow> decode_strict (ascii_bytes s) = Some (map of_char s)"
    by (auto simp: decode_strict_def)
qed

lemma without_end_printable: "printable s \<Longrightarrow> without_end (map of_char s) = map of_char s"
proof (cases s rule: rev_cases)
  case (snoc t c)
  assume "printable s"
  then have "(of_char c :: nat) \<noteq> 13" "(of_char c :: nat) \<noteq> 10" using snoc by auto
  then show ?thesis using snoc by (simp add: without_end_def)
qed (simp add: without_end_def)

lemma classify_printable:
  assumes "printable s" "json_loads s = Some (JObj d)" "\<not> list_all point_space (map of_char s)"
    and "classify_line L (ascii_bytes s) \<noteq> Unloadable"
  shows "classify_line L (ascii_bytes s) = Usable d"
proof -
  have "loads_points L (map of_char s) = Some (JObj d)"
    using assms(2) of_char_less_256 by (simp add: loads_points_def list_all_iff comp_def)
  then show ?thesis using assms(1,3,4)
    by (simp add: classify_line_def decode_ascii_bytes without_end_printable Let_def split: if_splits)
qed

lemma classify_line_of:
  assumes "plain (JObj d)" "classify_line L (line_of X d) \<noteq> Unloadable"
  shows "classify_line L (line_of X d) = Usable d"
proof -
  have sep: "separators '', '' '': ''" by (simp add: separators_def)
  show ?thesis unfolding line_of_def
  proof (rule classify_printable [OF printable_text [OF assms(1) sep] json_loads_text [OF assms(1) sep]])
    show "\<not> list_all point_space (map of_char (json_text X '', '' '': '' True (JObj d)))"
      by (simp add: json_text_obj point_space_def is_space_def)
  qed (use assms(2) in \<open>simp only: line_of_def not_False_eq_True\<close>)
qed

lemma line_of_proper: "plain (JObj d) \<Longrightarrow> line_of X d \<noteq> [] \<and> (\<forall>b \<in> set (line_of X d). 32 \<le> unat b \<and> unat b < 127)"
  using ascii_bytes_byte printable_text [of "JObj d" "'', ''" "'': ''" X]
  by (simp add: line_of_def separators_def) (simp add: json_text_obj ascii_bytes_def)

lemma front_nl:
  assumes "b \<noteq> []"
  shows "utf8_front (b @ [10]) = utf8_front b \<and> snd (utf8_front b) \<le> length b"
proof -
  have n: "\<not> is_cont 10" "\<not> second_ok a 10" for a by (simp_all add: is_cont_def second_ok_def)
  consider x where "b = [x]" | x y where "b = [x, y]" | x y z where "b = [x, y, z]" | x y z u v where "b = x # y # z # u # v"
    using assms by (metis neq_Nil_conv)
  then show ?thesis
    by cases (auto simp: utf8_front_def Let_def n nth_append)
qed

lemma units_nl: "utf8_units (b @ [10]) = utf8_units b @ [Some 10]"
proof (induction "length b" arbitrary: b rule: less_induct)
  case less
  show ?case
  proof (cases "b = []")
    case True
    then show ?thesis using utf8_units_ascii [of 10 "[]"] by (simp add: utf8_units.simps [of "[]"])
  next
    case False
    let ?n = "snd (utf8_front b)"
    have f: "utf8_front (b @ [10]) = utf8_front b" "?n \<le> length b" using front_nl [OF False] by auto
    have "0 < ?n" by (rule utf8_front_pos)
    then have "utf8_units (drop ?n b @ [10]) = utf8_units (drop ?n b) @ [Some 10]" using False by (intro less) simp
    moreover have "utf8_units b = fst (utf8_front b) # utf8_units (drop ?n b)" using False by (subst utf8_units.simps) simp
    moreover have "utf8_units (b @ [10]) = fst (utf8_front b) # utf8_units (drop ?n b @ [10])"
      using f by (subst utf8_units.simps) simp
    ultimately show ?thesis by simp
  qed
qed

lemma classify_nl: "classify_line L (l @ [10]) = classify_line L l"
proof -
  have "without_end (ps @ [10]) = without_end ps" for ps by (simp add: without_end_def)
  then show ?thesis by (auto simp: classify_line_def decode_strict_def units_nl Let_def)
qed

lemma classify_Nil [simp]: "classify_line L [] = Blank"
  by (simp add: classify_line_def decode_strict_def utf8_units.simps without_end_def)

section \<open>Reading what was appended\<close>

definition usable :: "json_lib \<Rightarrow> bytes \<Rightarrow> dict list" where
  "usable L l = (case classify_line L l of Usable d \<Rightarrow> [d] | _ \<Rightarrow> [])"

lemma usable_simps [simp]: "usable L [] = []" "usable L (l @ [10]) = usable L l"
  by (simp_all add: usable_def classify_nl)

lemma parse_usable:
  "\<forall>l \<in> set ls. classify_line L l \<noteq> Unloadable \<Longrightarrow> parse_lines L False ls = (concat (map (usable L) ls), None)"
  by (induction ls) (auto simp: usable_def split: line_verdict.split)

lemma concat_filled: "concat (map (usable L) (filled bs)) = concat (map (usable L) (split_nl bs))"
proof -
  have "concat (map (usable L) (filter (\<lambda>l. l \<noteq> []) ls)) = concat (map (usable L) ls)" for ls
    by (induction ls) auto
  then show ?thesis by (simp add: filled_def)
qed

lemma parse_filled:
  assumes "\<forall>l \<in> set (filled bs). classify_line L l \<noteq> Unloadable" "without_bom bs = bs"
  shows "parse_jsonl L False bs = (concat (map (usable L) (filled bs)), None)"
proof -
  have sp: "split_nl bs = butlast (split_nl bs) @ [last (split_nl bs)]" by simp
  have "\<forall>l \<in> set (split_nl bs). classify_line L l \<noteq> Unloadable"
    using assms(1) by (auto simp: filled_def)
  then have "\<forall>l \<in> set (butlast (split_nl bs)) \<union> {last (split_nl bs)}. classify_line L l \<noteq> Unloadable"
    by (auto dest: in_set_butlastD)
  then have "\<forall>l \<in> set (raw_lines bs). classify_line L l \<noteq> Unloadable"
    by (auto simp: raw_lines_def Let_def classify_nl)
  moreover have "concat (map (usable L) (raw_lines bs)) = concat (map (usable L) (split_nl bs))"
  proof -
    obtain ls l where "split_nl bs = ls @ [l]" using sp by metis
    then show ?thesis by (simp add: raw_lines_def Let_def comp_def)
  qed
  ultimately show ?thesis by (simp add: parse_jsonl_def assms(2) parse_usable concat_filled)
qed

text \<open>Records that read back as they are: no floats, and keys that occur once.\<close>

definition storable :: "dict \<Rightarrow> bool" where
  "storable d \<longleftrightarrow> plain (JObj d)"

lemma line_of_storable:
  "storable d \<Longrightarrow> line_of X d \<noteq> [] \<and> 10 \<notin> set (line_of X d)" "storable d \<Longrightarrow> b \<in> set (line_of X d) \<Longrightarrow> unat b < 128"
  using line_of_proper [of d X] by (force simp: storable_def)+

lemma encode_plain:
  "list_all storable ds \<Longrightarrow> encode_jsonl X False ds = Inr (encoded (map (line_of X) ds))"
proof (induction ds)
  case (Cons d ds)
  have "plain j \<Longrightarrow> finite_json j" for j by (induction j) (auto simp: list_all_iff)
  then have "finite_json (JObj d)" using Cons.prems by (simp only: storable_def list.pred_inject)
  then show ?case using Cons by (simp add: dumps_strict_def line_of_def encoded_def bind_res_def del: finite_json.simps)
qed (simp add: encoded_def)

lemma appended_written:
  assumes "list_all storable ds" "ds \<noteq> []"
  shows "appended X (Whole ds) bs = written None (encoded (map (line_of X) ds)) bs"
    "appended X (Torn k ds) bs = written (Some k) (encoded (map (line_of X) ds)) bs"
proof -
  have "encoded (map (line_of X) ds) \<noteq> []" using assms(2) by (cases ds) (simp_all add: encoded_def)
  then show "appended X (Whole ds) bs = written None (encoded (map (line_of X) ds)) bs"
    "appended X (Torn k ds) bs = written (Some k) (encoded (map (line_of X) ds)) bs"
    by (simp_all add: append_jsonl_def payload_of_def encode_plain [OF assms(1)])
qed

lemma filled_lines: "list_all storable ds \<Longrightarrow> filled (encoded (map (line_of X) ds)) = map (line_of X) ds"
  by (intro filled_encoded) (simp add: list_all_iff line_of_storable)

lemma filled_appended:
  assumes "list_all storable (records_of a)"
  shows "\<exists>part. filled (appended X a bs) = filled bs @ part \<and> (\<forall>ds. a = Whole ds \<longrightarrow> part = map (line_of X) ds)"
proof (cases "records_of a = []")
  case True
  then show ?thesis by (cases a) (auto simp: append_jsonl_def payload_of_def)
next
  case False
  show ?thesis
  proof (cases a)
    case (Whole ds)
    then show ?thesis using False assms by (simp add: appended_written filled_lines filled_written(1) del: appended.simps)
  next
    case (Torn k ds)
    then show ?thesis using False assms filled_written(2) [of k "encoded (map (line_of X) ds)" bs]
      by (auto simp: appended_written simp del: appended.simps)
  qed
qed

definition ascii :: "bytes \<Rightarrow> bool" where
  "ascii bs \<longleftrightarrow> (\<forall>b \<in> set bs. unat b < 128)"

lemma written_ascii: "ascii p \<Longrightarrow> ascii bs \<Longrightarrow> ascii (written k p bs)"
  by (force simp: ascii_def written_def Let_def split: option.split dest: in_set_takeD)

lemma appended_ascii:
  assumes "list_all storable (records_of a)" "ascii bs"
  shows "ascii (appended X a bs)"
proof (cases "records_of a = []")
  case True
  then show ?thesis using assms by (cases a) (auto simp: append_jsonl_def payload_of_def)
next
  case False
  have "ascii (encoded (map (line_of X) (records_of a)))"
    using assms(1) by (auto simp: ascii_def encoded_def list_all_iff intro: line_of_storable)
  from written_ascii [OF this assms(2)] show ?thesis
    using assms(1) False by (cases a) (simp_all add: appended_written del: appended.simps)
qed

lemma fold_appended:
  assumes "\<forall>a \<in> set as. list_all storable (records_of a)" "ascii bs"
  shows "ascii (fold (appended X) as bs) \<and>
    (\<exists>parts. filled (fold (appended X) as bs) = filled bs @ parts \<and> subseq (map (line_of X) (concat (map completed as))) parts)"
  using assms
proof (induction as arbitrary: bs)
  case (Cons a as)
  obtain part where part: "filled (appended X a bs) = filled bs @ part" "\<forall>ds. a = Whole ds \<longrightarrow> part = map (line_of X) ds"
    using filled_appended [of a X bs] Cons.prems by auto
  have "ascii (appended X a bs)" using appended_ascii Cons.prems by simp
  with Cons obtain parts where parts: "filled (fold (appended X) as (appended X a bs)) = filled (appended X a bs) @ parts"
      "subseq (map (line_of X) (concat (map completed as))) parts" "ascii (fold (appended X) as (appended X a bs))"
    by fastforce
  have "subseq (map (line_of X) (completed a)) part" using part(2) by (cases a) simp_all
  then have "subseq (map (line_of X) (concat (map completed (a # as)))) (part @ parts)" using parts(2) by (simp add: list_emb_append_mono)
  then show ?case using part(1) parts(1,3) by (intro conjI exI [of _ "part @ parts"]) simp_all
qed simp

text \<open>
  C24: Whatever appends to one file break off, and wherever, a read yields the records of all appends that ended, in their
  order: a torn write costs no record of another append. Provided no line is one that the parser cannot load at all.
\<close>

theorem appends_read_back:
  assumes "\<forall>a \<in> set as. list_all storable (records_of a)"
    and "\<forall>l \<in> set (filled (fold (appended X) as [])). classify_line L l \<noteq> Unloadable"
  shows "subseq (concat (map completed as)) (fst (read_jsonl L False fail_closed (Content (fold (appended X) as []))))
    \<and> snd (read_jsonl L False fail_closed (Content (fold (appended X) as []))) = None"
proof -
  let ?f = "fold (appended X) as []" and ?ds = "concat (map completed as)"
  have f: "ascii ?f" "subseq (map (line_of X) ?ds) (filled ?f)" using fold_appended [OF assms(1), of "[]"] by (auto simp: ascii_def)
  then have "(0xEF :: 8 word) \<notin> set ?f" by (auto simp: ascii_def)
  then have "without_bom ?f = ?f" by (auto simp: without_bom_def BOM_def dest: in_set_takeD) (metis in_set_takeD list.set_intros(1))
  from parse_filled [OF assms(2) this] have read: "read_jsonl L False fail_closed (Content ?f) = (concat (map (usable L) (filled ?f)), None)"
    by (simp add: read_jsonl_def)
  have "usable L (line_of X d) = [d]" if d: "d \<in> set ?ds" for d
  proof -
    obtain a where a: "a \<in> set as" "d \<in> set (completed a)" using d by auto
    have "set (completed a) \<subseteq> set (records_of a)" by (cases a) simp_all
    with a(2) have "d \<in> set (records_of a)" by blast
    then have "storable d" using assms(1) a(1) by (auto simp: list_all_iff)
    then have "plain (JObj d)" by (simp only: storable_def)
    moreover have "line_of X d \<in> set (filled ?f)" using d subseq_subset [OF f(2)] by auto
    ultimately show ?thesis using classify_line_of [of d L X] assms(2) by (simp add: usable_def)
  qed
  moreover have "\<forall>d \<in> set ds. usable L (line_of X d) = [d] \<Longrightarrow> concat (map (usable L) (map (line_of X) ds)) = ds" for ds
    by (induction ds) auto
  ultimately have "concat (map (usable L) (map (line_of X) ?ds)) = ?ds" by blast
  then show ?thesis using subseq_concat_map [OF f(2), of "usable L"] by (simp add: read)
qed

lemma appends_read_back_witness:
  "\<forall>X fail_closed. subseq [[(''a'', JInt 1)], [(''c'', JInt 3)]]
     (fst (read_jsonl \<lparr>wide = \<lambda>_. None, unloadable = \<lambda>_. False\<rparr> False fail_closed
        (Content (fold (appended X) [Whole [[(''a'', JInt 1)]], Torn 3 [[(''b'', JInt 2)]], Whole [[(''c'', JInt 3)]]] []))))"
proof (intro allI)
  fix X fail_closed
  let ?L = "\<lparr>wide = \<lambda>_. None, unloadable = \<lambda>_. False\<rparr>"
  have "classify_line ?L l \<noteq> Unloadable" for l
    by (simp add: classify_line_def Let_def split: option.split json.split)
  then show "subseq [[(''a'', JInt 1)], [(''c'', JInt 3)]] (fst (read_jsonl ?L False fail_closed
        (Content (fold (appended X) [Whole [[(''a'', JInt 1)]], Torn 3 [[(''b'', JInt 2)]], Whole [[(''c'', JInt 3)]]] []))))"
    using appends_read_back [of "[Whole [[(''a'', JInt 1)]], Torn 3 [[(''b'', JInt 2)]], Whole [[(''c'', JInt 3)]]]" X ?L fail_closed]
    by (simp add: storable_def del: appended.simps)
qed

end
