(* ===== verification/Atomic.thy ===== *)
theory Atomic
  imports Proc Jsonl
begin

text \<open>
  The atomic writers (\<open>utils/atomic_write.py\<close>, with the operations of \<open>utils/file_ops.py\<close> they use): the files
  that belong to one path, and a save of it, step by step as other threads and processes see it. An operation that
  is refused has been retried as often as the code does.
\<close>

section \<open>The files of one path\<close>

text \<open>
  The file itself, its backups, the temporary files of a save (which has a number of its own, drawn at random in
  the code), the fixed temporary names of old versions, what healing put aside under a time stamp, and the siblings a
  caller names as fallbacks.
\<close>

datatype name =
    Live | Bak nat | New nat | BakNew nat | OldNew | OldBakNew
  | Corrupt string nat | CorruptBak nat string | Fallback nat

record version =
  ino :: nat
  mtime :: int
  body :: bytes

type_synonym sig = "nat \<times> int \<times> nat"

definition stat_key :: "version \<Rightarrow> sig" where
  "stat_key v = (ino v, mtime v, length (body v))"

datatype op = Open name | Create name | Fill name | Rename name name | Link name | Unlink name | Stat name | Listing

text \<open>
  \<open>refuses\<close> says which operations the system refuses at the moment, \<open>cut\<close> how much of a payload is written before the rest,
  \<open>clock\<close> the time. \<open>owner\<close> is the process of a save, \<open>registered\<close> the saves that their process knows to be
  in flight, \<open>running\<close> the processes that live. \<open>sidecar\<close>: a heal has taken its lock once.
\<close>

record family =
  entry :: "name \<Rightarrow> version option"
  next_ino :: nat
  clock :: int
  refuses :: "op \<Rightarrow> bool"
  cut :: nat
  next_save :: nat
  owner :: "nat \<Rightarrow> nat"
  registered :: "nat set"
  running :: "nat set"
  sidecar :: bool

type_synonym 'a io = "(family, 'a res) proc"

abbreviation FileNotFoundError :: exn where "FileNotFoundError \<equiv> OtherError ''FileNotFoundError''"
abbreviation FileExistsError :: exn where "FileExistsError \<equiv> OtherError ''FileExistsError''"

definition put :: "name \<Rightarrow> version option \<Rightarrow> family \<Rightarrow> family" where
  "put n v w = w\<lparr>entry := (entry w)(n := v)\<rparr>"

text \<open>A file that is opened for writing is new or emptied; either way it is another version.\<close>

definition fresh :: "bytes \<Rightarrow> family \<Rightarrow> version" where
  "fresh bs w = \<lparr>ino = next_ino w, mtime = clock w, body = bs\<rparr>"

definition refill :: "name \<Rightarrow> bytes \<Rightarrow> family \<Rightarrow> family" where
  "refill n bs w = (case entry w n of None \<Rightarrow> w | Some v \<Rightarrow> put n (Some (v\<lparr>body := bs, mtime := clock w\<rparr>)) w)"

section \<open>Operations of the system\<close>

definition catching :: "'a io \<Rightarrow> (exn \<Rightarrow> 'a io) \<Rightarrow> 'a io" where
  "catching p h = andthen p (\<lambda>r. case r of Inl e \<Rightarrow> h e | Inr x \<Rightarrow> Done (Inr x))"

definition suppressed :: "unit io \<Rightarrow> unit io" where
  "suppressed p = catching p (\<lambda>_. Done (Inr ()))"

primrec each :: "('b \<Rightarrow> unit io) \<Rightarrow> 'b list \<Rightarrow> unit io" where
  "each f [] = Done (Inr ())"
| "each f (x # xs) = andok (f x) (\<lambda>_. each f xs)"

definition exists_file :: "name \<Rightarrow> bool io" where
  "exists_file n = look (\<lambda>w. Inr (entry w n \<noteq> None))"

text \<open>The bytes and the signature come from one open file.\<close>

definition read_bytes_stat :: "name \<Rightarrow> version io" where
  "read_bytes_stat n =
     look (\<lambda>w. case entry w n of None \<Rightarrow> Inl FileNotFoundError
       | Some v \<Rightarrow> if refuses w (Open n) then Inl OSError else Inr v)"

definition stat_path :: "name \<Rightarrow> sig option io" where
  "stat_path n = look (\<lambda>w. if refuses w (Stat n) then Inl OSError else Inr (map_option stat_key (entry w n)))"

definition replace_file :: "name \<Rightarrow> name \<Rightarrow> unit io" where
  "replace_file src dst =
     atomic (\<lambda>w. case entry w src of None \<Rightarrow> (Inl FileNotFoundError, w)
       | Some v \<Rightarrow> if refuses w (Rename src dst) then (Inl OSError, w) else (Inr (), put dst (Some v) (put src None w)))"

definition unlink_file :: "name \<Rightarrow> unit io" where
  "unlink_file n = atomic (\<lambda>w. if refuses w (Unlink n) then (Inl OSError, w) else (Inr (), put n None w))"

definition open_new :: "name \<Rightarrow> unit io" where
  "open_new n =
     atomic (\<lambda>w. if refuses w (Create n) then (Inl OSError, w) else (Inr (), put n (Some (fresh [] w)) (w\<lparr>next_ino := Suc (next_ino w)\<rparr>)))"

text \<open>
  Writing through the open file: a part, then the rest. If its name was taken away meanwhile, the bytes go to a file
  without one.
\<close>

definition write_part :: "name \<Rightarrow> bytes \<Rightarrow> unit io" where
  "write_part n bs = atomic (\<lambda>w. (Inr (), refill n (take (cut w) bs) w))"

definition write_rest :: "name \<Rightarrow> bytes \<Rightarrow> unit io" where
  "write_rest n bs =
     atomic (\<lambda>w. if refuses w (Fill n) then (Inl OSError, w) else (Inr (), refill n bs w))"

definition write_file :: "name \<Rightarrow> bytes \<Rightarrow> unit io" where
  "write_file n bs = andok (open_new n) (\<lambda>_. andok (write_part n bs) (\<lambda>_. write_rest n bs))"

text \<open>\<open>shutil.copystat\<close>: the time that the file under the first name has by now.\<close>

definition copystat :: "name \<Rightarrow> name \<Rightarrow> unit io" where
  "copystat src dst =
     atomic (\<lambda>w. case (entry w src, entry w dst) of
         (Some v, Some v') \<Rightarrow> (Inr (), put dst (Some (v'\<lparr>mtime := mtime v\<rparr>)) w)
       | _ \<Rightarrow> (Inl FileNotFoundError, w))"

section \<open>Temporary files\<close>

definition stale :: "nat \<Rightarrow> family \<Rightarrow> nat \<Rightarrow> bool" where
  "stale me w t \<longleftrightarrow> (if owner w t = me then t \<notin> registered w else owner w t \<notin> running w)"

fun save_of :: "name \<Rightarrow> nat" where
  "save_of (New t) = t" | "save_of (BakNew t) = t" | "save_of n = 0"

definition sweep_one :: "nat \<Rightarrow> name \<Rightarrow> unit io" where
  "sweep_one me n = andok (look (\<lambda>w. Inr (stale me w (save_of n)))) (\<lambda>old. if old then suppressed (unlink_file n) else Done (Inr ()))"

definition temps :: "family \<Rightarrow> name list" where
  "temps w = filter (\<lambda>n. entry w n \<noteq> None) (concat (map (\<lambda>t. [New t, BakNew t]) [0..<next_save w]))"

definition remove_stale_temps :: "nat \<Rightarrow> unit io" where
  "remove_stale_temps me =
     andok (each (\<lambda>n. suppressed (unlink_file n)) [OldNew, OldBakNew]) (\<lambda>_.
     andok (look (\<lambda>w. Inr (if refuses w Listing then [] else temps w))) (\<lambda>found. each (sweep_one me) found))"

definition draw_save :: "nat \<Rightarrow> nat io" where
  "draw_save me =
     atomic (\<lambda>w. (Inr (next_save w),
       w\<lparr>next_save := Suc (next_save w), owner := (owner w)(next_save w := me), registered := insert (next_save w) (registered w)\<rparr>))"

definition forget_save :: "nat \<Rightarrow> unit io" where
  "forget_save t = atomic (\<lambda>w. (Inr (), w\<lparr>registered := registered w - {t}\<rparr>))"

text \<open>A kill is a save that never takes its next step; every exception of a living process removes the temporary files.\<close>

definition temp_scope :: "nat \<Rightarrow> (nat \<Rightarrow> unit io) \<Rightarrow> unit io" where
  "temp_scope me use =
     andok (draw_save me) (\<lambda>t.
     andthen (catching (andok (remove_stale_temps me) (\<lambda>_. use t)) (\<lambda>e.
         andok (each (\<lambda>n. suppressed (unlink_file n)) [New t, BakNew t]) (\<lambda>_. Done (Inl e)))) (\<lambda>r.
     andthen (forget_save t) (\<lambda>_. Done r)))"

section \<open>Saving\<close>

definition copy_for_backup :: "name \<Rightarrow> name \<Rightarrow> bool io" where
  "copy_for_backup src dst =
     catching
       (andok (unlink_file dst) (\<lambda>_.
        andthen (read_bytes_stat src) (\<lambda>r. case r of
          Inl e \<Rightarrow> if e = FileNotFoundError then Done (Inr False) else Done (Inl e)
        | Inr v \<Rightarrow>
            andok (write_file dst (body v)) (\<lambda>_.
            andok (copystat src dst) (\<lambda>_. Done (Inr True))))))
       (\<lambda>e. andok (suppressed (unlink_file dst)) (\<lambda>_. Done (Inl e)))"

definition rotate_one :: "nat \<Rightarrow> unit io" where
  "rotate_one i =
     andok (exists_file (Bak i)) (\<lambda>there.
     if there then catching (replace_file (Bak i) (Bak (i + 1))) (\<lambda>e. if e = FileNotFoundError then Done (Inr ()) else Done (Inl e))
     else Done (Inr ()))"

definition rotate :: "nat \<Rightarrow> unit io" where
  "rotate backup_count = andok (unlink_file (Bak backup_count)) (\<lambda>_. each rotate_one (rev [1..<backup_count]))"

definition save_payload :: "nat \<Rightarrow> bytes \<Rightarrow> bool \<Rightarrow> nat \<Rightarrow> unit io" where
  "save_payload me text keep_backups backup_count =
     temp_scope me (\<lambda>t.
       andok (write_file (New t) text) (\<lambda>_.
       andok (if keep_backups then copy_for_backup Live (BakNew t) else Done (Inr False)) (\<lambda>backed_up.
       andok (if keep_backups then rotate backup_count else Done (Inr ())) (\<lambda>_.
       andok (if backed_up then replace_file (BakNew t) (Bak 1) else Done (Inr ())) (\<lambda>_.
       replace_file (New t) Live)))))"

definition save_with_backup_text :: "nat \<Rightarrow> bytes \<Rightarrow> nat \<Rightarrow> bool \<Rightarrow> unit io" where
  "save_with_backup_text me text backup_count keep_backups = save_payload me text keep_backups backup_count"

definition save_bytes_atomic :: "nat \<Rightarrow> bytes \<Rightarrow> unit io" where
  "save_bytes_atomic me data = save_payload me data False 3"

text \<open>A blob named by its content.\<close>

definition save_blob_once :: "nat \<Rightarrow> bytes \<Rightarrow> unit io" where
  "save_blob_once me data =
     andok (exists_file Live) (\<lambda>there.
     if there then Done (Inr ())
     else catching (save_bytes_atomic me data) (\<lambda>e.
       andok (exists_file Live) (\<lambda>there. if there then Done (Inr ()) else Done (Inl e))))"

end
