(* ===== verification/Healing.thy ===== *)
theory Healing
  imports Atomic
begin

text \<open>
  Whole JSON files (\<open>health/json_io.py\<close>): reading one under a recovery policy, healing it from its backups, and
  writing it. The lock of a heal degrades to none where the system refuses it, so nothing here relies on it: what is
  proved holds in the interleavings that it excludes, too.
\<close>

section \<open>Judging the content\<close>

definition json_file_error :: "string \<Rightarrow> exn" where
  "json_file_error kind = OtherError (''JsonFileError: '' @ kind)"

abbreviation JsonFileNotFound :: exn where "JsonFileNotFound \<equiv> OtherError ''JsonFileNotFound''"
abbreviation ChangedError :: exn where "ChangedError \<equiv> OtherError ''_ChangedError''"

text \<open>Everything that is an \<open>OSError\<close>.\<close>

definition os_error :: "exn \<Rightarrow> bool" where
  "os_error e \<longleftrightarrow> e \<in> {OSError, FileNotFoundError, FileExistsError, JsonFileNotFound} \<or> (\<exists>kind. e = json_file_error kind)"

datatype recovery = DEFAULT | CONTENT | RAISE | RESTORE | HEAL

text \<open>
  The arguments of a read: what is expected of the value, the validator (which accepts or raises \<open>ValueError\<close> or
  \<open>TypeError\<close>), the default, if there is one, the policy and the fallbacks.
\<close>

record reading =
  lib :: json_lib
  expect :: "json \<Rightarrow> bool"
  validate :: "json \<Rightarrow> bool"
  default :: "json option"
  recover :: recovery
  fallbacks :: "nat list"
  floats :: ext

text \<open>The value, or the kind of what is wrong.\<close>

definition check_json :: "reading \<Rightarrow> bytes \<Rightarrow> string + json" where
  "check_json A raw =
     (case decode_strict (without_bom raw) of
        None \<Rightarrow> Inl ''encoding''
      | Some text' \<Rightarrow>
          (case (if unloadable (lib A) text' then None else loads_points (lib A) text') of
             None \<Rightarrow> Inl (if list_all point_space text' then ''empty'' else ''malformed'')
           | Some data \<Rightarrow>
               if \<not> expect A data then Inl ''shape'' else if \<not> validate A data then Inl ''schema'' else Inr data))"

text \<open>What a read found and did; an anomaly is its kind, the action and the name of the quarantine.\<close>

record json_read =
  data :: json
  result :: string
  kind :: "string option"
  anomaly :: "(string \<times> string \<times> name option) option"

definition plain_read :: "json \<Rightarrow> string \<Rightarrow> string option \<Rightarrow> json_read" where
  "plain_read d r k = \<lparr>data = d, result = r, kind = k, anomaly = None\<rparr>"

section \<open>The text of a file\<close>

text \<open>\<open>json.dumps(j, indent=n)\<close> at a depth, and with or without sorted keys and indentation.\<close>

definition new_line :: "nat \<Rightarrow> nat \<Rightarrow> string" where
  "new_line n depth = CHR 0x0A # replicate (n * depth) CHR '' ''"

fun pretty :: "ext \<Rightarrow> nat \<Rightarrow> nat \<Rightarrow> json \<Rightarrow> string" where
  "pretty X n depth (JList xs) =
     (if xs = [] then ''[]''
      else ''['' @ new_line n (Suc depth) @ join ('','' @ new_line n (Suc depth)) (map (pretty X n (Suc depth)) xs) @ new_line n depth @ '']'')"
| "pretty X n depth (JObj d) =
     (if d = [] then ''{}''
      else ''{'' @ new_line n (Suc depth) @
        join ('','' @ new_line n (Suc depth)) (map (\<lambda>(k, v). quote True k @ '': '' @ pretty X n (Suc depth) v) d) @ new_line n depth @ ''}'')"
| "pretty X n depth j = dumps X '', '' '': '' True j"

definition layout :: "ext \<Rightarrow> nat option \<Rightarrow> bool \<Rightarrow> json \<Rightarrow> string" where
  "layout X indent sort_keys j =
     (let j' = (if sort_keys then canon j else j)
      in case indent of None \<Rightarrow> json_text X '', '' '': '' True j' | Some n \<Rightarrow> pretty X n 0 j')"

definition file_text :: "ext \<Rightarrow> nat option \<Rightarrow> bool \<Rightarrow> bool \<Rightarrow> json \<Rightarrow> bytes res" where
  "file_text X indent sort_keys nulls j =
     (if finite_json j then Inr (ascii_bytes (layout X indent sort_keys j) @ [10])
      else if nulls then Inr (ascii_bytes (layout X indent sort_keys (null_nonfinite j)) @ [10]) else Inl ValueError)"

section \<open>Looking at the copies\<close>

text \<open>\<open>Inr None\<close> for one that cannot be read, \<open>Inr (Some (valid, signature))\<close> else.\<close>

definition valid_file :: "reading \<Rightarrow> name \<Rightarrow> (bool \<times> sig) option io" where
  "valid_file A n =
     andthen (read_bytes_stat n) (\<lambda>r. Done (Inr (case r of
       Inl _ \<Rightarrow> None | Inr v \<Rightarrow> Some (case check_json A (body v) of Inl _ \<Rightarrow> False | Inr _ \<Rightarrow> True, stat_key v))))"

type_synonym walked = "(nat \<times> sig) list"

primrec pick_backup :: "reading \<Rightarrow> nat list \<Rightarrow> walked \<Rightarrow> (nat option \<times> walked) io" where
  "pick_backup A [] walked = Done (Inr (None, walked))"
| "pick_backup A (i # is) walked =
     andok (exists_file (Bak i)) (\<lambda>there.
     if \<not> there then pick_backup A is walked
     else andok (valid_file A (Bak i)) (\<lambda>r. case r of
         Some (True, _) \<Rightarrow> Done (Inr (Some i, walked))
       | Some (False, s) \<Rightarrow> pick_backup A is (walked @ [(i, s)])
       | None \<Rightarrow> pick_backup A is walked))"

definition mtime_of :: "name \<Rightarrow> int io" where
  "mtime_of n = look (\<lambda>w. case entry w n of None \<Rightarrow> Inl FileNotFoundError
     | Some v \<Rightarrow> if refuses w (Stat n) then Inl OSError else Inr (mtime v))"

primrec pick_fallback :: "reading \<Rightarrow> int option \<Rightarrow> nat list \<Rightarrow> nat option io" where
  "pick_fallback A bak_mtime [] = Done (Inr None)"
| "pick_fallback A bak_mtime (f # fs) =
     andok (exists_file (Fallback f)) (\<lambda>there.
     if \<not> there then pick_fallback A bak_mtime fs
     else andok (valid_file A (Fallback f)) (\<lambda>r. case r of
         Some (True, _) \<Rightarrow>
           (case bak_mtime of
              None \<Rightarrow> Done (Inr (Some f))
            | Some t \<Rightarrow> andok (mtime_of (Fallback f)) (\<lambda>u. if t \<le> u then Done (Inr (Some f)) else pick_fallback A bak_mtime fs))
       | _ \<Rightarrow> pick_fallback A bak_mtime fs))"

definition pick :: "reading \<Rightarrow> (nat option \<times> nat option \<times> walked) io" where
  "pick A =
     andok (pick_backup A [1, 2, 3] []) (\<lambda>(bak, walked).
     andok (case bak of None \<Rightarrow> Done (Inr None) | Some i \<Rightarrow> andok (mtime_of (Bak i)) (\<lambda>t. Done (Inr (Some t)))) (\<lambda>bak_mtime.
     andok (pick_fallback A bak_mtime (fallbacks A)) (\<lambda>fb. Done (Inr (bak, fb, walked)))))"

record json_walk =
  walk_data :: "json option"
  source :: "name option"
  problem :: "string option"
  signature :: "sig option"

primrec walk :: "reading \<Rightarrow> bool \<Rightarrow> name list \<Rightarrow> json_walk io" where
  "walk A found [] =
     Done (Inr \<lparr>walk_data = None, source = None, problem = Some (if found then ''unreadable'' else ''missing''), signature = None\<rparr>)"
| "walk A found (n # ns) =
     andthen (read_bytes_stat n) (\<lambda>r. case r of
       Inl e \<Rightarrow> walk A (found \<or> e \<noteq> FileNotFoundError) ns
     | Inr v \<Rightarrow> (case check_json A (body v) of
         Inl _ \<Rightarrow> walk A True ns
       | Inr d \<Rightarrow> Done (Inr \<lparr>walk_data = Some d, source = Some n, problem = None, signature = Some (stat_key v)\<rparr>)))"

definition read_json_walk :: "reading \<Rightarrow> json_walk io" where
  "read_json_walk A = walk A False [Live, Bak 1, Bak 2, Bak 3]"

section \<open>Healing\<close>

definition expect_unchanged :: "name \<Rightarrow> sig \<Rightarrow> unit io" where
  "expect_unchanged n s = andok (stat_path n) (\<lambda>st. if st = Some s then Done (Inr ()) else Done (Inl ChangedError))"

definition expect_absent :: "unit io" where
  "expect_absent = look (\<lambda>w. if entry w Live \<noteq> None then Inl ChangedError else Inr ())"

definition after_change :: "reading \<Rightarrow> string \<Rightarrow> json_read io" where
  "after_change A original =
     andthen (read_bytes_stat Live) (\<lambda>r. case r of
       Inl e \<Rightarrow> Done (Inl (json_file_error (if e = FileNotFoundError then original else ''io'')))
     | Inr v \<Rightarrow> (case check_json A (body v) of
         Inl bad \<Rightarrow> Done (Inl (json_file_error bad)) | Inr d \<Rightarrow> Done (Inr (plain_read d ''ok'' None))))"

text \<open>A candidate that vanished or was rewritten: someone else acted.\<close>

definition checked :: "reading \<Rightarrow> name \<Rightarrow> (json \<times> bytes) io" where
  "checked A n =
     andok (read_bytes_stat n) (\<lambda>v. case check_json A (body v) of
       Inl _ \<Rightarrow> Done (Inl ChangedError) | Inr d \<Rightarrow> Done (Inr (d, body v)))"

definition bak_action :: "nat \<Rightarrow> string" where
  "bak_action i = ''restored_from_bak'' @ dec_nat i"

definition install :: "nat \<Rightarrow> reading \<Rightarrow> nat option \<Rightarrow> nat option \<Rightarrow> (json \<times> string) io" where
  "install me A bak fb =
     catching
       (case fb of
          Some f \<Rightarrow>
            andok (checked A (Fallback f)) (\<lambda>(d, raw).
            andok (save_with_backup_text me (without_bom raw) 3 False) (\<lambda>_.
            andok (suppressed (unlink_file (Fallback f))) (\<lambda>_. Done (Inr (d, bak_action 1)))))
        | None \<Rightarrow>
            (case bak of
               None \<Rightarrow> Done (Inl TypeError)
             | Some i \<Rightarrow>
                 andok (checked A (Bak i)) (\<lambda>(d, raw).
                 andok (replace_file (Bak i) Live) (\<lambda>_. Done (Inr (d, bak_action i))))))
       (\<lambda>e. Done (Inl (if e = FileNotFoundError then ChangedError else e)))"

text \<open>The corrupt bytes under another name, by a link or, where links are refused, by a copy.\<close>

definition link_file :: "name \<Rightarrow> name \<Rightarrow> unit io" where
  "link_file src dst =
     atomic (\<lambda>w. case entry w src of
         None \<Rightarrow> (Inl FileNotFoundError, w)
       | Some v \<Rightarrow> if entry w dst \<noteq> None then (Inl FileExistsError, w)
           else if refuses w (Link dst) then (Inl OSError, w) else (Inr (), put dst (Some v) w))"

definition create_excl :: "name \<Rightarrow> unit io" where
  "create_excl n =
     atomic (\<lambda>w. if entry w n \<noteq> None then (Inl FileExistsError, w)
       else if refuses w (Create n) then (Inl OSError, w)
       else (Inr (), put n (Some (fresh [] w)) (w\<lparr>next_ino := Suc (next_ino w)\<rparr>)))"

definition copy_aside :: "name \<Rightarrow> unit io" where
  "copy_aside q =
     andok (read_bytes_stat Live) (\<lambda>v.
     andok (create_excl q) (\<lambda>_. andok (write_part q (body v)) (\<lambda>_. andok (write_rest q (body v)) (\<lambda>_. copystat Live q))))"

primrec quarantine_copy :: "string \<Rightarrow> nat list \<Rightarrow> name io" where
  "quarantine_copy stamp [] = Done (Inl OSError)"
| "quarantine_copy stamp (a # as) =
     (let q = Corrupt stamp a in
      andthen (link_file Live q) (\<lambda>r. case r of
        Inr _ \<Rightarrow> Done (Inr q)
      | Inl e \<Rightarrow>
          if e = FileExistsError then quarantine_copy stamp as
          else if e = FileNotFoundError then Done (Inl ChangedError)
          else andthen (copy_aside q) (\<lambda>r. case r of
              Inr _ \<Rightarrow> Done (Inr q)
            | Inl e \<Rightarrow>
                if e = FileExistsError then quarantine_copy stamp as
                else andok (unlink_file q) (\<lambda>_. Done (Inl (if e = FileNotFoundError then ChangedError else e))))))"

definition set_aside :: "string \<Rightarrow> nat \<times> sig \<Rightarrow> unit io" where
  "set_aside stamp c =
     suppressed (andok (expect_unchanged (Bak (fst c)) (snd c)) (\<lambda>_. replace_file (Bak (fst c)) (CorruptBak (fst c) stamp)))"

definition anomaly_kind :: "string \<Rightarrow> string" where
  "anomaly_kind bad = (if bad \<in> {''encoding'', ''empty'', ''malformed''} then ''json_parse_error'' else ''schema_mismatch'')"

definition io_error :: "'a io \<Rightarrow> 'a io" where
  "io_error p = catching p (\<lambda>e. Done (Inl (if os_error e then json_file_error ''io'' else e)))"

text \<open>\<open>default\<close> and its strict text, before anything is touched.\<close>

definition reset_text :: "reading \<Rightarrow> (json \<times> bytes) res" where
  "reset_text A =
     (case default A of
        None \<Rightarrow> Inl TypeError
      | Some d \<Rightarrow> bind_res (file_text (floats A) (Some 2) False False d) (\<lambda>t. Inr (d, t)))"

definition heal_locked :: "nat \<Rightarrow> reading \<Rightarrow> string \<Rightarrow> string \<Rightarrow> sig \<Rightarrow> json_read io" where
  "heal_locked me A stamp bad s =
     andok (pick A) (\<lambda>(bak, fb, walked).
     if bak = None \<and> fb = None \<and> recover A = RESTORE then Done (Inl (json_file_error bad))
     else
       andok (if bak = None \<and> fb = None then Done (reset_text A) else Done (Inr (JNull, []))) (\<lambda>reset.
       andok (expect_unchanged Live s) (\<lambda>_.
       andok (expect_unchanged Live s) (\<lambda>_.
       andok (io_error (quarantine_copy stamp [0..<100])) (\<lambda>q.
       andok (io_error (andok (expect_unchanged Live s) (\<lambda>_.
           if bak = None \<and> fb = None
           then andok (save_with_backup_text me (snd reset) 3 False) (\<lambda>_. Done (Inr (fst reset, ''reset_to_default'', ''reset'')))
           else andok (install me A bak fb) (\<lambda>(d, act). Done (Inr (d, act, ''restored'')))))) (\<lambda>(d, act, out).
       andok (each (set_aside stamp) walked) (\<lambda>_.
       Done (Inr \<lparr>data = d, result = out, kind = Some bad, anomaly = Some (anomaly_kind bad, act, Some q)\<rparr>))))))))"

text \<open>The restored result, or \<open>Inr (None, retry)\<close>.\<close>

definition restore_missing_locked :: "nat \<Rightarrow> reading \<Rightarrow> (json_read option \<times> bool) io" where
  "restore_missing_locked me A =
     andok (exists_file Live) (\<lambda>there.
     if there then Done (Inr (None, True))
     else
       andok (pick A) (\<lambda>(bak, fb, walked).
       if bak = None \<and> fb = None then Done (Inr (None, False))
       else
         catching
           (andok (andok expect_absent (\<lambda>_. install me A bak fb)) (\<lambda>(d, act).
            Done (Inr (Some \<lparr>data = d, result = ''restored'', kind = Some ''missing'', anomaly = Some (''json_parse_error'', act, None)\<rparr>, False))))
           (\<lambda>e. if e = ChangedError then Done (Inr (None, True))
             else Done (Inl (if os_error e then json_file_error ''io'' else e)))))"

definition take_lock :: "unit io" where
  "take_lock = atomic (\<lambda>w. (Inr (), w\<lparr>sidecar := True\<rparr>))"

definition default_read :: "reading \<Rightarrow> string \<Rightarrow> string option \<Rightarrow> json_read io" where
  "default_read A out k = Done (case default A of None \<Rightarrow> Inl TypeError | Some d \<Rightarrow> Inr (plain_read d out k))"

definition heal :: "nat \<Rightarrow> reading \<Rightarrow> string \<Rightarrow> string \<Rightarrow> json_read io" where
  "heal me A stamp bad =
     andok take_lock (\<lambda>_.
     andthen (read_bytes_stat Live) (\<lambda>r. case r of
       Inl e \<Rightarrow>
         if e = FileNotFoundError then
           andok (if recover A = RESTORE then restore_missing_locked me A else Done (Inr (None, False))) (\<lambda>(restored, retry).
           case restored of
             Some x \<Rightarrow> Done (Inr x)
           | None \<Rightarrow> if retry then after_change A bad else default_read A ''missing'' None)
         else Done (Inl (json_file_error ''io''))
     | Inr v \<Rightarrow>
         (case check_json A (body v) of
            Inr d \<Rightarrow> Done (Inr (plain_read d ''ok'' None))
          | Inl bad' \<Rightarrow>
              catching (heal_locked me A stamp bad' (stat_key v))
                (\<lambda>e. if e = ChangedError then after_change A bad' else Done (Inl e)))))"

section \<open>Reading\<close>

text \<open>
  A read that is told to look again does so as often as Python's stack allows; \<open>n\<close> is that many times. The wait for the
  lock of another heal is a step that changes nothing here.
\<close>

definition candidates_exist :: "reading \<Rightarrow> bool io" where
  "candidates_exist A = look (\<lambda>w. Inr (\<exists>n \<in> set (map Bak [1, 2, 3] @ map Fallback (fallbacks A)). entry w n \<noteq> None))"

primrec read_from :: "nat \<Rightarrow> reading \<Rightarrow> string \<Rightarrow> nat \<Rightarrow> bool \<Rightarrow> json_read io" where
  "read_from me A stamp 0 waited = Done (Inl (OtherError ''RecursionError''))"
| "read_from me A stamp (Suc n) waited =
     andthen (read_bytes_stat Live) (\<lambda>r. case r of
       Inl e \<Rightarrow>
         if e = FileNotFoundError then
           andok (look (\<lambda>w. Inr (sidecar w))) (\<lambda>lock.
           if recover A \<in> {RESTORE, HEAL} \<and> \<not> waited \<and> lock
           then andok take_lock (\<lambda>_. read_from me A stamp n True)
           else
             andok (if recover A = RESTORE
               then andok (candidates_exist A) (\<lambda>some. if some
                 then andok take_lock (\<lambda>_. restore_missing_locked me A) else Done (Inr (None, False)))
               else Done (Inr (None, False))) (\<lambda>(restored, retry).
             if retry then read_from me A stamp n True
             else (case restored of
                 Some x \<Rightarrow> Done (Inr x)
               | None \<Rightarrow> (case default A of None \<Rightarrow> Done (Inl JsonFileNotFound) | Some d \<Rightarrow> Done (Inr (plain_read d ''missing'' None))))))
         else if recover A = DEFAULT then default_read A ''defaulted'' (Some ''io'')
         else Done (Inl (json_file_error ''io''))
     | Inr v \<Rightarrow>
         (case check_json A (body v) of
            Inr d \<Rightarrow> Done (Inr (plain_read d ''ok'' None))
          | Inl bad \<Rightarrow>
              if recover A \<in> {DEFAULT, CONTENT} then default_read A ''defaulted'' (Some bad)
              else if recover A = RAISE then Done (Inl (json_file_error bad))
              else heal me A stamp bad))"

definition read_json_result :: "nat \<Rightarrow> nat \<Rightarrow> string \<Rightarrow> reading \<Rightarrow> json_read io" where
  "read_json_result stack me stamp A =
     (if recover A \<noteq> RAISE \<and> default A = None then Done (Inl TypeError) else read_from me A stamp stack False)"

section \<open>Writing\<close>

definition verify_write :: "nat \<Rightarrow> bytes \<Rightarrow> bool \<Rightarrow> sig option \<Rightarrow> bool io" where
  "verify_write me expected has_backups after =
     andthen (read_bytes_stat Live) (\<lambda>r.
     andok (case r of
         Inl _ \<Rightarrow> Done (Inr False)
       | Inr v \<Rightarrow>
           if body v = expected then Done (Inr True)
           else andthen (stat_path Live) (\<lambda>st.
             let now = (case st of Inl _ \<Rightarrow> None | Inr s \<Rightarrow> s)
             in Done (Inr (after \<noteq> None \<and> now \<noteq> None \<and> now \<noteq> after)))) (\<lambda>fine.
     if fine then Done (Inr True)
     else
       andok (exists_file (Bak 1)) (\<lambda>there.
       if has_backups \<and> there then
         andok (suppressed (andok (read_bytes_stat (Bak 1)) (\<lambda>v.
             if decode_strict (body v) = None then Done (Inl ValueError) else save_with_backup_text me (body v) 3 False))) (\<lambda>_.
         Done (Inr False))
       else Done (Inr False))))"

record saving =
  backups :: nat
  verify_after :: bool
  if_missing :: bool
  logs_errors :: bool

definition save_text :: "nat \<Rightarrow> bytes \<Rightarrow> saving \<Rightarrow> bool io" where
  "save_text me text o' =
     catching
       (andok (if 0 < backups o' \<or> if_missing o' then take_lock else Done (Inr ())) (\<lambda>_.
        andok (exists_file Live) (\<lambda>there.
        if if_missing o' \<and> there then Done (Inr False)
        else
          andok (save_with_backup_text me text (max (backups o') 1) (0 < backups o')) (\<lambda>_.
          if \<not> verify_after o' then Done (Inr True)
          else andthen (stat_path Live) (\<lambda>st.
            verify_write me text (0 < backups o') (case st of Inl _ \<Rightarrow> None | Inr s \<Rightarrow> s))))))
       (\<lambda>e. if logs_errors o' \<and> os_error e then Done (Inr False) else Done (Inl e))"

definition write_json :: "ext \<Rightarrow> nat \<Rightarrow> nat option \<Rightarrow> bool \<Rightarrow> bool \<Rightarrow> json \<Rightarrow> saving \<Rightarrow> bool io" where
  "write_json X me indent sort_keys nulls j o' =
     andok (Done (file_text X indent sort_keys nulls j)) (\<lambda>text. save_text me text o')"

end
