(* ===== verification/Healing_Laws.thy ===== *)
theory Healing_Laws
  imports Healing
begin

text \<open>
  What the writers and the healing readers guarantee to each other, in any interleaving, with crashes and refused
  operations: the file is there, and whatever all saved payloads satisfy, the file and its backups satisfy. A
  number of a save is drawn, and with it come the rights to the temporary files of that number.
\<close>

section \<open>The invariant and the rights\<close>

definition whole :: "(bytes \<Rightarrow> bool) \<Rightarrow> family \<Rightarrow> bool" where
  "whole G w \<longleftrightarrow> entry w Live \<noteq> None \<and> (\<forall>n v. n \<in> insert Live (range Bak) \<longrightarrow> entry w n = Some v \<longrightarrow> G (body v))"

definition kept :: "nat \<Rightarrow> family \<Rightarrow> family \<Rightarrow> bool" where
  "kept t w w' \<longleftrightarrow> (\<forall>n \<in> {New t, BakNew t}. entry w' n = entry w n \<or> entry w' n = None)"

interpretation saves: rights "whole G" kept next_save for G
  by unfold_locales (auto simp: kept_def)

lemma entry_put [simp]: "entry (put n v w) = (entry w)(n := v)"
  by (simp add: put_def)

lemma put_fields [simp]:
  "next_save (put n v w) = next_save w" "refuses (put n v w) = refuses w" "next_ino (put n v w) = next_ino w"
  "clock (put n v w) = clock w" "cut (put n v w) = cut w" "registered (put n v w) = registered w"
  by (simp_all add: put_def)

lemma whole_fields [simp]:
  "whole G (w\<lparr>next_ino := i\<rparr>) = whole G w" "whole G (w\<lparr>registered := R\<rparr>) = whole G w" "whole G (w\<lparr>sidecar := b\<rparr>) = whole G w"
  "whole G (w\<lparr>next_save := n, owner := f, registered := R\<rparr>) = whole G w"
  by (simp_all add: whole_def)

text \<open>Which names a member may write that owns \<open>K\<close>.\<close>

fun own :: "nat set \<Rightarrow> name \<Rightarrow> bool" where
  "own K Live = False" | "own K (Bak i) = False" | "own K (New t) = (t \<in> K)" | "own K (BakNew t) = (t \<in> K)" | "own K n = True"

lemma own_kept: "own K n \<Longrightarrow> n \<notin> insert Live (range Bak) \<and> (k \<notin> K \<longrightarrow> n \<notin> {New k, BakNew k})"
  by (cases n) auto

lemma permitted_same: "whole G w \<Longrightarrow> entry w' = entry w \<Longrightarrow> next_save w \<le> next_save w' \<Longrightarrow> saves.permitted G K w w'"
  by (simp add: saves.permitted_def kept_def whole_def)

lemma permitted_refl [simp]: "whole G w \<Longrightarrow> saves.permitted G K w w"
  by (simp add: permitted_same)

lemma permitted_put: "whole G w \<Longrightarrow> own K n \<Longrightarrow> saves.permitted G K w (put n v w)"
  using own_kept [of K n] by (auto simp: saves.permitted_def kept_def whole_def)

lemma permitted_drop: "whole G w \<Longrightarrow> n \<noteq> Live \<Longrightarrow> saves.permitted G K w (put n None w)"
  by (auto simp: saves.permitted_def kept_def whole_def)

lemma permitted_store: "whole G w \<Longrightarrow> n \<in> insert Live (range Bak) \<Longrightarrow> G (body v) \<Longrightarrow> saves.permitted G K w (put n (Some v) w)"
  by (auto simp: saves.permitted_def kept_def whole_def)

lemmas permitted_intros = permitted_put permitted_drop permitted_store

text \<open>What is known about the temporary files of a save.\<close>

definition knows :: "nat \<Rightarrow> (bytes \<Rightarrow> bool) \<Rightarrow> (bytes \<Rightarrow> bool) \<Rightarrow> family \<Rightarrow> bool" where
  "knows t P P' w \<longleftrightarrow> (\<forall>v. entry w (New t) = Some v \<longrightarrow> P (body v)) \<and> (\<forall>v. entry w (BakNew t) = Some v \<longrightarrow> P' (body v))"

lemma lasting_knows [simp]: "t \<in> K \<Longrightarrow> saves.lasting G K (knows t P P')"
  unfolding saves.lasting_def saves.relied_def kept_def knows_def by (metis insertCI option.distinct(1))

lemma lasting_True [simp]: "saves.lasting G K (\<lambda>_. True)"
  by (simp add: saves.lasting_def)

lemma knows_put:
  "knows t P P' w \<Longrightarrow> n \<notin> {New t, BakNew t} \<Longrightarrow> knows t P P' (put n v w)" "knows t P P' w \<Longrightarrow> knows t P P' (put n None w)"
  by (auto simp: knows_def)

lemma knows_same: "entry w' = entry w \<Longrightarrow> knows t P P' w' = knows t P P' w"
  by (simp add: knows_def)

lemma knows_trivial [simp]: "knows t (\<lambda>_. True) (\<lambda>_. True) = (\<lambda>_. True)"
  by (simp add: knows_def fun_eq_iff)

section \<open>Rules\<close>

text \<open>\<open>F\<close> is kept whatever the outcome; \<open>Q\<close> is reached unless an exception comes.\<close>

definition steady :: "(bytes \<Rightarrow> bool) \<Rightarrow> nat set \<Rightarrow> (family \<Rightarrow> bool) \<Rightarrow> 'a io \<Rightarrow> bool" where
  "steady G K F p \<longleftrightarrow> saves.holds G K F p (\<lambda>_. F)"

definition leads :: "(bytes \<Rightarrow> bool) \<Rightarrow> nat set \<Rightarrow> (family \<Rightarrow> bool) \<Rightarrow> 'a io \<Rightarrow> ('a \<Rightarrow> family \<Rightarrow> bool) \<Rightarrow> bool" where
  "leads G K F p Q \<longleftrightarrow> saves.holds G K F p (\<lambda>r w. \<forall>x. r = Inr x \<longrightarrow> Q x w)"

lemma leads_andok: "leads G K F p Q \<Longrightarrow> (\<And>x. leads G K (Q x) (k x) R) \<Longrightarrow> leads G K F (andok p k) R"
  unfolding leads_def by (rule saves.holds_andok) (auto intro: saves.holds_pre)

lemma steady_leads: "steady G K F p \<Longrightarrow> leads G K F p (\<lambda>_. F)"
  unfolding leads_def steady_def by (erule saves.holds_post) simp

lemma leads_post: "leads G K F p Q \<Longrightarrow> (\<And>x w. whole G w \<Longrightarrow> Q x w \<Longrightarrow> Q' x w) \<Longrightarrow> leads G K F p Q'"
  unfolding leads_def by (erule saves.holds_post) simp

lemma leads_pre: "leads G K F p Q \<Longrightarrow> (\<And>w. F' w \<Longrightarrow> F w) \<Longrightarrow> leads G K F' p Q"
  unfolding leads_def by (erule saves.holds_pre)

lemma leads_Done: "(\<And>x w. whole G w \<Longrightarrow> r = Inr x \<Longrightarrow> F w \<Longrightarrow> Q x w) \<Longrightarrow> leads G K F (Done r) Q"
  unfolding leads_def by (rule saves.holds_Done) simp

lemma leads_andthen: "leads G K F p Q \<Longrightarrow> (\<And>x. leads G K (Q x) (k (Inr x)) R) \<Longrightarrow> (\<And>e. leads G K (\<lambda>_. True) (k (Inl e)) R) \<Longrightarrow> leads G K F (andthen p k) R"
  unfolding leads_def
proof (erule saves.holds_andthen)
  fix r
  assume "\<And>x. saves.holds G K (Q x) (k (Inr x)) (\<lambda>r w. \<forall>x. r = Inr x \<longrightarrow> R x w)" "\<And>e. saves.holds G K (\<lambda>_. True) (k (Inl e)) (\<lambda>r w. \<forall>x. r = Inr x \<longrightarrow> R x w)"
  then show "saves.holds G K (\<lambda>w. \<forall>x. r = Inr x \<longrightarrow> Q x w) (k r) (\<lambda>r w. \<forall>x. r = Inr x \<longrightarrow> R x w)"
    by (cases r) (auto intro: saves.holds_pre)
qed

lemma leads_catching: "leads G K F p Q \<Longrightarrow> (\<And>e. leads G K (\<lambda>_. True) (h e) Q) \<Longrightarrow> leads G K F (catching p h) Q"
  unfolding catching_def by (rule leads_andthen [where Q = Q]) (auto intro: leads_Done)

lemma leads_look: "saves.lasting G K F \<Longrightarrow> (\<And>w x. whole G w \<Longrightarrow> F w \<Longrightarrow> g w = Inr x \<Longrightarrow> Q x w) \<Longrightarrow> leads G K F (look g) Q"
  unfolding leads_def by (rule saves.holds_look) auto

text \<open>A value that was read, with what it tells.\<close>

lemma leads_look_then:
  assumes "saves.lasting G K F" "\<And>r. leads G K (\<lambda>w. F w \<and> C r) (k r) R" "\<And>w. whole G w \<Longrightarrow> F w \<Longrightarrow> C (g w)"
  shows "leads G K F (andthen (look g) k) R"
  unfolding leads_def
  by (rule saves.holds_andthen [OF saves.holds_look [where Q = "\<lambda>r w. F w \<and> C r"]])
     (use assms in \<open>auto simp: leads_def\<close>)

lemma leads_const: "(c \<Longrightarrow> leads G K F p Q) \<Longrightarrow> leads G K (\<lambda>w. F w \<and> c) p Q"
  by (auto simp: leads_def saves.holds_def)

lemma leads_atomic:
  "saves.lasting G K F \<Longrightarrow> (\<And>w. whole G w \<Longrightarrow> F w \<Longrightarrow> saves.permitted G K w (snd (f w)) \<and> (\<forall>x. fst (f w) = Inr x \<longrightarrow> Q x (snd (f w)))) \<Longrightarrow>
   leads G K F (atomic f) Q"
  unfolding leads_def by (rule saves.holds_atomic) auto

lemma steady_Done [simp]: "steady G K F (Done r)"
  unfolding steady_def by (rule saves.holds_Done)

lemma steady_andthen: "steady G K F p \<Longrightarrow> (\<And>r. steady G K F (k r)) \<Longrightarrow> steady G K F (andthen p k)"
  unfolding steady_def by (rule saves.holds_andthen)

lemma steady_andok: "steady G K F p \<Longrightarrow> (\<And>x. steady G K F (k x)) \<Longrightarrow> steady G K F (andok p k)"
  unfolding andok_def by (rule steady_andthen) (auto split: sum.split)

lemma steady_catching: "steady G K F p \<Longrightarrow> (\<And>e. steady G K F (h e)) \<Longrightarrow> steady G K F (catching p h)"
  unfolding catching_def by (rule steady_andthen) (auto split: sum.split)

lemma steady_suppressed: "steady G K F p \<Longrightarrow> steady G K F (suppressed p)"
  unfolding suppressed_def by (intro steady_catching) auto

lemma steady_each: "(\<And>x. x \<in> set xs \<Longrightarrow> steady G K F (f x)) \<Longrightarrow> steady G K F (each f xs)"
  by (induction xs) (auto intro: steady_andok)

lemma steady_look: "saves.lasting G K F \<Longrightarrow> steady G K F (look g)"
  unfolding steady_def by (rule saves.holds_look) auto

lemma steady_atomic:
  "saves.lasting G K F \<Longrightarrow> (\<And>w. whole G w \<Longrightarrow> F w \<Longrightarrow> saves.permitted G K w (snd (f w)) \<and> F (snd (f w))) \<Longrightarrow> steady G K F (atomic f)"
  unfolding steady_def by (rule saves.holds_atomic) auto

lemmas steady_intros = steady_Done steady_andthen steady_andok steady_catching steady_suppressed steady_each steady_look

lemma steady_reads: "saves.lasting G K F \<Longrightarrow> steady G K F (read_bytes_stat n)" "saves.lasting G K F \<Longrightarrow> steady G K F (exists_file n)"
  "saves.lasting G K F \<Longrightarrow> steady G K F (stat_path n)" "saves.lasting G K F \<Longrightarrow> steady G K F (mtime_of n)"
  by (simp_all add: read_bytes_stat_def exists_file_def stat_path_def mtime_of_def steady_look)

section \<open>A save keeps the invariant\<close>

lemma steady_unlink: "t \<in> K \<Longrightarrow> n \<noteq> Live \<Longrightarrow> steady G K (knows t P P') (unlink_file n)" "n \<noteq> Live \<Longrightarrow> steady G K (\<lambda>_. True) (unlink_file n)"
  unfolding unlink_file_def by (auto intro!: steady_atomic permitted_intros knows_put)

lemma permitted_new: "whole G w \<Longrightarrow> own K n \<Longrightarrow> saves.permitted G K w (put n v (w\<lparr>next_ino := i\<rparr>))"
  using own_kept [of K n] by (auto simp: saves.permitted_def kept_def whole_def)

lemma permitted_refill: "whole G w \<Longrightarrow> own K n \<Longrightarrow> saves.permitted G K w (refill n bs w)"
  by (auto simp: refill_def intro: permitted_intros split: option.split)

lemma knows_refill:
  "knows t P P' w \<Longrightarrow> knows t (\<lambda>_. True) P' (refill (New t) bs w)" "knows t P P' w \<Longrightarrow> knows t (\<lambda>b. b = bs) P' (refill (New t) bs w)"
  "knows t P P' w \<Longrightarrow> knows t P (\<lambda>_. True) (refill (BakNew t) bs w)" "knows t P P' w \<Longrightarrow> knows t P (\<lambda>b. b = bs) (refill (BakNew t) bs w)"
  by (auto simp: refill_def knows_def split: option.split)

lemma write_new: "leads G {t} (knows t P P') (write_file (New t) bs) (\<lambda>_. knows t (\<lambda>b. b = bs) P')"
proof -
  have "leads G {t} (knows t P P') (open_new (New t)) (\<lambda>_. knows t (\<lambda>_. True) P')"
    unfolding open_new_def by (rule leads_atomic) (auto intro: permitted_new permitted_same simp: knows_def)
  moreover have "leads G {t} (knows t (\<lambda>_. True) P') (write_part (New t) bs) (\<lambda>_. knows t (\<lambda>_. True) P')"
    unfolding write_part_def by (rule leads_atomic) (auto intro: permitted_refill knows_refill)
  moreover have "leads G {t} (knows t (\<lambda>_. True) P') (write_rest (New t) bs) (\<lambda>_. knows t (\<lambda>b. b = bs) P')"
    unfolding write_rest_def by (rule leads_atomic) (auto intro: permitted_refill knows_refill permitted_same)
  ultimately show ?thesis unfolding write_file_def by (intro leads_andok)
qed

lemma write_bak_new: "leads G {t} (knows t P P') (write_file (BakNew t) bs) (\<lambda>_. knows t P (\<lambda>b. b = bs))"
proof -
  have "leads G {t} (knows t P P') (open_new (BakNew t)) (\<lambda>_. knows t P (\<lambda>_. True))"
    unfolding open_new_def by (rule leads_atomic) (auto intro: permitted_new permitted_same simp: knows_def)
  moreover have "leads G {t} (knows t P (\<lambda>_. True)) (write_part (BakNew t) bs) (\<lambda>_. knows t P (\<lambda>_. True))"
    unfolding write_part_def by (rule leads_atomic) (auto intro: permitted_refill knows_refill)
  moreover have "leads G {t} (knows t P (\<lambda>_. True)) (write_rest (BakNew t) bs) (\<lambda>_. knows t P (\<lambda>b. b = bs))"
    unfolding write_rest_def by (rule leads_atomic) (auto intro: permitted_refill knows_refill permitted_same)
  ultimately show ?thesis unfolding write_file_def by (intro leads_andok)
qed

lemma knows_mono: "knows t P P' w \<Longrightarrow> (\<And>b. P b \<Longrightarrow> R b) \<Longrightarrow> (\<And>b. P' b \<Longrightarrow> R' b) \<Longrightarrow> knows t R R' w"
  by (auto simp: knows_def)

lemma copystat_leads: "leads G {t} (knows t P P') (copystat Live (BakNew t)) (\<lambda>_. knows t P P')"
  unfolding copystat_def
  by (rule leads_atomic) (auto intro: permitted_intros simp: knows_def split: option.split)

text \<open>A backup copy is a copy of some content the file had.\<close>

lemma copy_leads:
  "leads G {t} (knows t P P') (copy_for_backup Live (BakNew t)) (\<lambda>b. knows t P (if b then G else (\<lambda>_. True)))"
  unfolding copy_for_backup_def
proof (rule leads_catching)
  show "leads G {t} (\<lambda>_. True) (andok (suppressed (unlink_file (BakNew t))) (\<lambda>_. Done (Inl e))) (\<lambda>b. knows t P (if b then G else (\<lambda>_. True)))" for e
    by (intro leads_andok [where Q = "\<lambda>_ _. True"] leads_Done leads_post [OF steady_leads] steady_suppressed steady_unlink) auto
  have start: "leads G {t} (knows t P P') (unlink_file (BakNew t)) (\<lambda>_. knows t P P')"
    by (intro steady_leads steady_unlink) auto
  have copied: "leads G {t} (\<lambda>w. knows t P P' w \<and> (\<forall>v. r = Inr v \<longrightarrow> G (body v)))
      (case r of
          Inl e \<Rightarrow> if e = FileNotFoundError then Done (Inr False) else Done (Inl e)
        | Inr v \<Rightarrow> andok (write_file (BakNew t) (body v)) (\<lambda>_. andok (copystat Live (BakNew t)) (\<lambda>_. Done (Inr True))))
      (\<lambda>b. knows t P (if b then G else (\<lambda>_. True)))" for r :: "version res"
  proof (cases r)
    case (Inl e)
    then show ?thesis by (auto intro!: leads_Done elim: knows_mono)
  next
    case (Inr v)
    have "leads G {t} (knows t P P') (andok (write_file (BakNew t) (body v)) (\<lambda>_. andok (copystat Live (BakNew t)) (\<lambda>_. Done (Inr True))))
      (\<lambda>b. knows t P (if b then G else (\<lambda>_. True)))" if "G (body v)"
      by (intro leads_andok [OF write_bak_new] leads_andok [OF copystat_leads] leads_Done) (use that in \<open>auto elim: knows_mono\<close>)
    then show ?thesis using Inr by (auto intro!: leads_const)
  qed
  show "leads G {t} (knows t P P')
      (andok (unlink_file (BakNew t)) (\<lambda>_. andthen (read_bytes_stat Live) (\<lambda>r. case r of
          Inl e \<Rightarrow> if e = FileNotFoundError then Done (Inr False) else Done (Inl e)
        | Inr v \<Rightarrow> andok (write_file (BakNew t) (body v)) (\<lambda>_. andok (copystat Live (BakNew t)) (\<lambda>_. Done (Inr True))))))
      (\<lambda>b. knows t P (if b then G else (\<lambda>_. True)))"
    unfolding read_bytes_stat_def
    by (rule leads_andok [OF start], rule leads_look_then [OF _ copied]) (auto simp: whole_def split: option.splits if_splits)
qed

lemma permitted_move:
  assumes "whole G w" "src \<noteq> Live" "dst \<in> insert Live (range Bak) \<and> G (body v) \<or> own K dst"
  shows "saves.permitted G K w (put dst (Some v) (put src None w))"
proof (rule saves.permitted_trans)
  show "saves.permitted G K w (put src None w)" using assms by (intro permitted_drop)
  moreover have "whole G (put src None w)" using calculation by (simp add: saves.permitted_def)
  ultimately show "saves.permitted G K (put src None w) (put dst (Some v) (put src None w))"
    using assms(3) by (auto intro: permitted_store permitted_put)
qed

lemma steady_rotate: "steady G {t} (knows t P P') (rotate n)"
proof -
  have "steady G {t} (knows t P P') (replace_file (Bak i) (Bak j))" for i j
    unfolding replace_file_def
    by (rule steady_atomic) (auto split: option.split intro!: permitted_move knows_put simp: whole_def)
  then have "steady G {t} (knows t P P') (rotate_one i)" for i
    unfolding rotate_one_def by (auto intro!: steady_intros steady_reads)
  then show ?thesis unfolding rotate_def by (intro steady_intros steady_unlink) auto
qed

lemma store_backup: "leads G {t} (knows t P G) (replace_file (BakNew t) (Bak 1)) (\<lambda>_. knows t P (\<lambda>_. True))"
  unfolding replace_file_def
  by (rule leads_atomic) (auto split: option.split intro!: permitted_move simp: knows_def)

lemma store_live: "leads G {t} (knows t G P') (replace_file (New t) Live) (\<lambda>_ _. True)"
  unfolding replace_file_def
  by (rule leads_atomic) (auto split: option.split intro!: permitted_move simp: knows_def)

lemma save_body:
  assumes "G text"
  shows "leads G {t} (knows t (\<lambda>_. True) (\<lambda>_. True))
    (andok (write_file (New t) text) (\<lambda>_.
     andok (if keep then copy_for_backup Live (BakNew t) else Done (Inr False)) (\<lambda>backed_up.
     andok (if keep then rotate n else Done (Inr ())) (\<lambda>_.
     andok (if backed_up then replace_file (BakNew t) (Bak 1) else Done (Inr ())) (\<lambda>_.
     replace_file (New t) Live))))) (\<lambda>_ _. True)"
proof (rule leads_andok)
  show "leads G {t} (knows t (\<lambda>_. True) (\<lambda>_. True)) (write_file (New t) text) (\<lambda>_. knows t G (\<lambda>_. True))"
    by (rule leads_post [OF write_new]) (use assms in \<open>auto elim: knows_mono\<close>)
  have copy: "leads G {t} (knows t G (\<lambda>_. True)) (if keep then copy_for_backup Live (BakNew t) else Done (Inr False))
      (\<lambda>b. knows t G (if b then G else (\<lambda>_. True)))"
    by (auto intro!: copy_leads leads_Done)
  have rotated: "leads G {t} (knows t G P') (if keep then rotate n else Done (Inr ())) (\<lambda>_. knows t G P')" for P'
    by (auto intro!: steady_leads steady_rotate leads_Done)
  have stored: "leads G {t} (knows t G (if b then G else (\<lambda>_. True))) (if b then replace_file (BakNew t) (Bak 1) else Done (Inr ()))
      (\<lambda>_. knows t G (\<lambda>_. True))" for b
    using store_backup by (cases b) (auto intro!: leads_Done simp del: One_nat_def)
  show "leads G {t} (knows t G (\<lambda>_. True))
    (andok (if keep then copy_for_backup Live (BakNew t) else Done (Inr False)) (\<lambda>backed_up.
     andok (if keep then rotate n else Done (Inr ())) (\<lambda>_.
     andok (if backed_up then replace_file (BakNew t) (Bak 1) else Done (Inr ())) (\<lambda>_.
     replace_file (New t) Live)))) (\<lambda>_ _. True)"
    by (rule leads_andok [OF copy], rule leads_andok [OF rotated], rule leads_andok [OF stored], rule store_live)
qed

text \<open>Sweeping takes nothing but temporary files.\<close>

lemma steady_sweep: "steady G {t} (knows t (\<lambda>_. True) (\<lambda>_. True)) (remove_stale_temps me)"
proof -
  have one: "steady G {t} (\<lambda>_. True) (sweep_one me n)" if "n \<noteq> Live" for n
    using that unfolding sweep_one_def by (intro steady_andok) (auto intro!: steady_look steady_intros steady_unlink)
  have listed: "saves.holds G {t} (\<lambda>_. True) (andok (look (\<lambda>w. Inr (if refuses w Listing then [] else temps w))) (each (sweep_one me))) (\<lambda>_ _. True)"
    unfolding andok_def
  proof (rule saves.holds_andthen [where Q = "\<lambda>r _. \<forall>found. r = Inr found \<longrightarrow> Live \<notin> set found"])
    show "saves.holds G {t} (\<lambda>_. True) (look (\<lambda>w. Inr (if refuses w Listing then [] else temps w))) (\<lambda>r _. \<forall>found. r = Inr found \<longrightarrow> Live \<notin> set found)"
      by (rule saves.holds_look) (auto simp: temps_def)
    fix r :: "name list res"
    have "steady G {t} (\<lambda>_. True) (each (sweep_one me) found)" if "Live \<notin> set found" for found
      using that by (intro steady_each one) auto
    then show "saves.holds G {t} (\<lambda>_. \<forall>found. r = Inr found \<longrightarrow> Live \<notin> set found) (case r of Inl e \<Rightarrow> Done (Inl e) | Inr x \<Rightarrow> each (sweep_one me) x) (\<lambda>_ _. True)"
      by (cases r) (auto simp: steady_def saves.holds_def intro: saves.owning.finished)
  qed
  have old: "steady G {t} (\<lambda>_. True) (each (\<lambda>n. suppressed (unlink_file n)) [OldNew, OldBakNew])"
    by (intro steady_each steady_suppressed steady_unlink) auto
  from steady_andok [OF old, where k = "\<lambda>_. andok (look (\<lambda>w. Inr (if refuses w Listing then [] else temps w))) (each (sweep_one me))"] listed
  show ?thesis unfolding remove_stale_temps_def by (simp add: steady_def)
qed

text \<open>A program outside a save relies on nothing and promises the invariant.\<close>

abbreviation harmless :: "(bytes \<Rightarrow> bool) \<Rightarrow> 'a io \<Rightarrow> bool" where
  "harmless G p \<equiv> steady G {} (\<lambda>_. True) p"

lemma leads_steady: "leads G K F p (\<lambda>_ _. True) \<Longrightarrow> saves.holds G K F p (\<lambda>_ _. True)"
  unfolding leads_def by (erule saves.holds_post) simp

lemma harmless_save: "G text \<Longrightarrow> harmless G (save_with_backup_text me text n keep)"
proof -
  assume G: "G text"
  have body: "saves.holds G {t} (\<lambda>_. True)
     (andthen (catching (andok (remove_stale_temps me) (\<lambda>_.
        andok (write_file (New t) text) (\<lambda>_.
        andok (if keep then copy_for_backup Live (BakNew t) else Done (Inr False)) (\<lambda>backed_up.
        andok (if keep then rotate n else Done (Inr ())) (\<lambda>_.
        andok (if backed_up then replace_file (BakNew t) (Bak 1) else Done (Inr ())) (\<lambda>_.
        replace_file (New t) Live)))))) (\<lambda>e.
          andok (each (\<lambda>n. suppressed (unlink_file n)) [New t, BakNew t]) (\<lambda>_. Done (Inl e)))) (\<lambda>r.
      andthen (forget_save t) (\<lambda>_. Done r))) (\<lambda>_ _. True)" for t
  proof (rule leads_steady, rule leads_andthen [where Q = "\<lambda>_ _. True"])
    have forget: "leads G {t} (\<lambda>_. True) (andthen (forget_save t) (\<lambda>_. Done r)) (\<lambda>_ _. True)" for r :: "unit res"
      unfolding forget_save_def by (intro leads_andthen leads_atomic leads_Done) (auto intro: permitted_same)
    show "leads G {t} (\<lambda>_. True) (andthen (forget_save t) (\<lambda>_. Done (Inr x :: unit res))) (\<lambda>_ _. True)"
      "leads G {t} (\<lambda>_. True) (andthen (forget_save t) (\<lambda>_. Done (Inl e :: unit res))) (\<lambda>_ _. True)" for x e
      by (rule forget)+
    have cleaned: "leads G {t} (\<lambda>_. True) (andok (each (\<lambda>n. suppressed (unlink_file n)) [New t, BakNew t]) (\<lambda>_. Done (Inl e :: unit res))) (\<lambda>_ _. True)" for e
      by (intro leads_post [OF steady_leads] steady_andok steady_each steady_suppressed steady_unlink) auto
    have swept: "leads G {t} (\<lambda>_. True) (remove_stale_temps me) (\<lambda>_. knows t (\<lambda>_. True) (\<lambda>_. True))"
      by (rule leads_pre, rule steady_leads, rule steady_sweep) simp
    show "leads G {t} (\<lambda>_. True) (catching (andok (remove_stale_temps me) (\<lambda>_.
        andok (write_file (New t) text) (\<lambda>_.
        andok (if keep then copy_for_backup Live (BakNew t) else Done (Inr False)) (\<lambda>backed_up.
        andok (if keep then rotate n else Done (Inr ())) (\<lambda>_.
        andok (if backed_up then replace_file (BakNew t) (Bak 1) else Done (Inr ())) (\<lambda>_.
        replace_file (New t) Live)))))) (\<lambda>e.
          andok (each (\<lambda>n. suppressed (unlink_file n)) [New t, BakNew t]) (\<lambda>_. Done (Inl e)))) (\<lambda>_ _. True)"
      by (rule leads_catching, rule leads_andok [OF swept], rule save_body, rule G, rule cleaned)
  qed
  show ?thesis
    unfolding save_with_backup_text_def save_payload_def temp_scope_def draw_save_def steady_def
  proof (rule saves.holds_draw [where F' = "\<lambda>_ _. True"], goal_cases)
    case (3 k)
    show ?case by (rule body)
  qed (auto intro: permitted_same)
qed

section \<open>Reading and healing keep the invariant\<close>

lemma harmless_value:
  assumes "leads G {} (\<lambda>_. True) p (\<lambda>x _. C x)" "\<And>x. C x \<Longrightarrow> harmless G (k x)"
  shows "harmless G (andok p k)"
  unfolding andok_def steady_def
proof (rule saves.holds_andthen)
  show "saves.holds G {} (\<lambda>_. True) p (\<lambda>r _. \<forall>x. r = Inr x \<longrightarrow> C x)" using assms(1) by (simp add: leads_def)
  show "saves.holds G {} (\<lambda>_. \<forall>x. r = Inr x \<longrightarrow> C x) (case r of Inl e \<Rightarrow> Done (Inl e) | Inr x \<Rightarrow> k x) (\<lambda>_ _. True)" for r
    using assms(2) by (cases r) (auto simp: steady_def saves.holds_def intro: saves.owning.finished)
qed

lemma harmless_atomic: "(\<And>w. whole G w \<Longrightarrow> saves.permitted G {} w (snd (f w))) \<Longrightarrow> harmless G (atomic f)"
  by (rule steady_atomic) auto

lemma harmless_basic:
  "n \<noteq> Live \<Longrightarrow> harmless G (unlink_file n)" "harmless G take_lock" "harmless G (look g)"
  "harmless G (read_bytes_stat n)" "harmless G (exists_file n)" "harmless G (stat_path n)" "harmless G (mtime_of n)"
  by (simp_all add: steady_unlink steady_reads steady_look take_lock_def)
     (auto intro!: steady_atomic permitted_same)

lemma harmless_aside:
  "own {} q \<Longrightarrow> harmless G (link_file Live q)" "own {} q \<Longrightarrow> harmless G (create_excl q)"
  "own {} q \<Longrightarrow> harmless G (write_part q bs)" "own {} q \<Longrightarrow> harmless G (write_rest q bs)" "own {} q \<Longrightarrow> harmless G (copystat src q)"
  unfolding link_file_def create_excl_def write_part_def write_rest_def copystat_def
  by (auto intro!: harmless_atomic intro: permitted_put permitted_new permitted_refill split: option.split)

lemma harmless_move: "dst = Live \<or> own {} dst \<Longrightarrow> harmless G (replace_file (Bak i) dst)"
  unfolding replace_file_def
  by (rule harmless_atomic) (auto split: option.split intro!: permitted_move simp: whole_def)

lemmas harmless_intros = steady_Done steady_andthen steady_andok steady_catching steady_suppressed steady_each harmless_basic harmless_aside harmless_move

lemma harmless_valid: "harmless G (valid_file A n)"
  unfolding valid_file_def by (intro harmless_intros)

lemma harmless_pick_backup: "harmless G (pick_backup A is walked)"
  by (induction "is" arbitrary: walked) (auto intro!: harmless_intros harmless_valid split: option.split bool.split)

lemma harmless_pick_fallback: "harmless G (pick_fallback A t fs)"
  by (induction fs) (auto intro!: harmless_intros harmless_valid split: option.split bool.split)

lemma harmless_pick: "harmless G (pick A)"
  unfolding pick_def
  by (auto intro!: harmless_intros harmless_pick_backup harmless_pick_fallback split: option.split simp del: pick_backup.simps)

lemma harmless_quarantine: "harmless G (quarantine_copy stamp as)"
  by (induction "as") (auto simp: copy_aside_def Let_def intro!: harmless_intros split: sum.split)

lemma harmless_set_aside: "harmless G (set_aside stamp c)"
  unfolding set_aside_def expect_unchanged_def by (auto intro!: harmless_intros)

lemma harmless_after: "harmless G (after_change A bad)"
  unfolding after_change_def by (auto intro!: harmless_intros split: sum.split)

text \<open>A reader whose default, should it reset the file, and whose fallbacks are as good as what is saved.\<close>

definition reader_ok :: "(bytes \<Rightarrow> bool) \<Rightarrow> reading \<Rightarrow> bool" where
  "reader_ok G A \<longleftrightarrow> (recover A = HEAL \<longrightarrow> (\<forall>t. reset_text A = Inr t \<longrightarrow> G (snd t))) \<and>
     (fallbacks A \<noteq> [] \<longrightarrow> (\<forall>b d. check_json A b = Inr d \<longrightarrow> G (without_bom b)))"

lemma checked_usable: "leads G {} (\<lambda>_. True) (checked A n) (\<lambda>x _. check_json A (snd x) = Inr (fst x))"
  unfolding checked_def
proof (rule leads_andok)
  show "leads G {} (\<lambda>_. True) (read_bytes_stat n) (\<lambda>_ _. True)" by (rule leads_post [OF steady_leads]) (auto intro: harmless_basic)
  show "leads G {} (\<lambda>_. True) (case check_json A (body v) of Inl _ \<Rightarrow> Done (Inl ChangedError) | Inr d \<Rightarrow> Done (Inr (d, body v)))
      (\<lambda>x _. check_json A (snd x) = Inr (fst x))" for v
    by (auto intro!: leads_Done split: sum.split)
qed

lemma harmless_checked: "harmless G (checked A n)"
  unfolding checked_def by (auto intro!: harmless_intros split: sum.split)

lemma harmless_install:
  assumes "fb \<noteq> None \<Longrightarrow> \<forall>b d. check_json A b = Inr d \<longrightarrow> G (without_bom b)"
  shows "harmless G (install me A bak fb)"
  unfolding install_def
proof (rule steady_catching)
  show "harmless G (case fb of
          Some f \<Rightarrow> andok (checked A (Fallback f)) (\<lambda>(d, raw). andok (save_with_backup_text me (without_bom raw) 3 False) (\<lambda>_.
            andok (suppressed (unlink_file (Fallback f))) (\<lambda>_. Done (Inr (d, bak_action 1)))))
        | None \<Rightarrow> (case bak of None \<Rightarrow> Done (Inl TypeError)
               | Some i \<Rightarrow> andok (checked A (Bak i)) (\<lambda>(d, raw). andok (replace_file (Bak i) Live) (\<lambda>_. Done (Inr (d, bak_action i))))))"
    using assms
    by (auto intro!: harmless_value [OF checked_usable] steady_Done steady_andok harmless_save harmless_basic steady_suppressed harmless_move split: option.split)
qed (auto intro: harmless_intros)

lemma harmless_install_ok: "reader_ok G A \<Longrightarrow> (fb \<noteq> None \<Longrightarrow> fallbacks A \<noteq> []) \<Longrightarrow> harmless G (install me A bak fb)"
  by (rule harmless_install) (simp add: reader_ok_def)

lemma pick_no_fallback: "leads G {} (\<lambda>_. True) (pick A) (\<lambda>x _. fst (snd x) \<noteq> None \<longrightarrow> fallbacks A \<noteq> [])"
proof (cases "fallbacks A = []")
  case True
  have any: "leads G {} (\<lambda>_. True) p (\<lambda>_ _. True)" if "harmless G p" for p :: "'a io"
    by (rule leads_post [OF steady_leads [OF that]]) simp
  have last: "leads G {} (\<lambda>_. True) (andok (pick_fallback A t (fallbacks A)) (\<lambda>fb. Done (Inr (bak, fb, walked)))) (\<lambda>x _. fst (snd x) \<noteq> None \<longrightarrow> fallbacks A \<noteq> [])"
    for t bak walked using True by (auto intro!: leads_andok [where Q = "\<lambda>x _. x = None"] leads_Done)
  have time: "harmless G (case bak of None \<Rightarrow> Done (Inr None) | Some i \<Rightarrow> andok (mtime_of (Bak i)) (\<lambda>t. Done (Inr (Some t))))" for bak
    by (auto intro!: harmless_intros split: option.split)
  show ?thesis unfolding pick_def case_prod_unfold
    by (rule leads_andok [OF any [OF harmless_pick_backup]], rule leads_andok [OF any [OF time]], rule last)
next
  case False
  then show ?thesis by (intro leads_post [OF steady_leads [OF harmless_pick]]) simp
qed

lemma harmless_heal_locked:
  assumes "reader_ok G A" "recover A \<in> {RESTORE, HEAL}"
  shows "harmless G (heal_locked me A stamp bad s)"
  unfolding heal_locked_def
proof (rule harmless_value [OF pick_no_fallback])
  fix x :: "nat option \<times> nat option \<times> walked"
  assume fb: "fst (snd x) \<noteq> None \<longrightarrow> fallbacks A \<noteq> []"
  obtain bak fb walked where x: "x = (bak, fb, walked)" by (cases x)
  have inst: "harmless G (install me A bak fb)" using assms(1) fb x by (intro harmless_install_ok) auto
  have reset: "leads G {} (\<lambda>_. True) (if bak = None \<and> fb = None then Done (reset_text A) else Done (Inr (JNull, [])))
      (\<lambda>t _. bak = None \<and> fb = None \<and> recover A \<noteq> RESTORE \<longrightarrow> G (snd t))"
    using assms by (auto intro!: leads_Done simp: reader_ok_def)
  show "harmless G (case x of (bak, fb, walked) \<Rightarrow>
     if bak = None \<and> fb = None \<and> recover A = RESTORE then Done (Inl (json_file_error bad))
     else
       andok (if bak = None \<and> fb = None then Done (reset_text A) else Done (Inr (JNull, []))) (\<lambda>reset.
       andok (expect_unchanged Live s) (\<lambda>_.
       andok (expect_unchanged Live s) (\<lambda>_.
       andok (io_error (quarantine_copy stamp [0..<100])) (\<lambda>q.
       andok (io_error (andok (expect_unchanged Live s) (\<lambda>_.
           if bak = None \<and> fb = None
           then andok (save_with_backup_text me (snd reset) 3 False) (\<lambda>_. Done (Inr (fst reset, ''reset_to_default'', ''reset'')))
           else andok (install me A bak fb) (\<lambda>(d, act). Done (Inr (d, act, ''restored'')))))) (\<lambda>(d, act, out).
       andok (each (set_aside stamp) walked) (\<lambda>_.
       Done (Inr \<lparr>data = d, result = out, kind = Some bad, anomaly = Some (anomaly_kind bad, act, Some q)\<rparr>))))))))"
  proof (cases "bak = None \<and> fb = None \<and> recover A = RESTORE")
    case False
    note steps = steady_Done steady_andok steady_catching steady_each harmless_basic harmless_set_aside harmless_quarantine
    have tail: "harmless G (andok (each (set_aside stamp) walked) (\<lambda>_. Done r))" for r :: "json_read res"
      by (intro steps)
    have act: "harmless G (io_error (andok (expect_unchanged Live s) (\<lambda>_.
           if bak = None \<and> fb = None
           then andok (save_with_backup_text me (snd reset) 3 False) (\<lambda>_. Done (Inr (fst reset, ''reset_to_default'', ''reset'')))
           else andok (install me A bak fb) (\<lambda>(d, act). Done (Inr (d, act, ''restored''))))))"
      if "bak = None \<and> fb = None \<and> recover A \<noteq> RESTORE \<longrightarrow> G (snd reset)" for reset
      using that False inst by (auto simp: expect_unchanged_def io_error_def intro!: steps harmless_save)
    have quarantined: "harmless G (io_error (quarantine_copy stamp [0..<100]))"
      unfolding io_error_def by (intro steps)
    have unchanged: "harmless G (expect_unchanged Live s)"
      by (auto simp: expect_unchanged_def intro!: steps)
    show ?thesis unfolding x prod.case if_not_P [OF False]
      by (rule harmless_value [OF reset], rule steady_andok [OF unchanged], rule steady_andok [OF unchanged],
          rule steady_andok [OF quarantined], rule steady_andok [OF act]) (auto intro: tail)
  qed (simp add: x)
qed

lemma harmless_restore:
  assumes "reader_ok G A"
  shows "harmless G (restore_missing_locked me A)"
  unfolding restore_missing_locked_def
proof (rule steady_andok [OF harmless_basic(5)], simp only: if_split, intro conjI impI steady_Done)
  show "harmless G (andok (pick A) (\<lambda>(bak, fb, walked).
       if bak = None \<and> fb = None then Done (Inr (None, False))
       else
         catching
           (andok (andok expect_absent (\<lambda>_. install me A bak fb)) (\<lambda>(d, act).
            Done (Inr (Some \<lparr>data = d, result = ''restored'', kind = Some ''missing'', anomaly = Some (''json_parse_error'', act, None)\<rparr>, False))))
           (\<lambda>e. if e = ChangedError then Done (Inr (None, True))
             else Done (Inl (if os_error e then json_file_error ''io'' else e)))))"
    by (rule harmless_value [OF pick_no_fallback])
       (auto simp: expect_absent_def intro!: steady_Done steady_andok steady_catching harmless_basic harmless_install_ok [OF assms])
qed

lemma harmless_default: "harmless G (default_read A out k)"
  by (simp add: default_read_def)

lemma harmless_heal:
  assumes "reader_ok G A" "recover A \<in> {RESTORE, HEAL}"
  shows "harmless G (heal me A stamp bad)"
  unfolding heal_def
  by (auto intro!: steady_Done steady_andok steady_andthen steady_catching harmless_basic harmless_restore [OF assms(1)] harmless_after
      harmless_default harmless_heal_locked [OF assms] split: sum.split option.split)

lemma harmless_read_from: "reader_ok G A \<Longrightarrow> harmless G (read_from me A stamp n waited)"
proof (induction n arbitrary: waited)
  case (Suc n)
  have "recover A \<in> {RESTORE, HEAL}" if "recover A \<notin> {DEFAULT, CONTENT}" "recover A \<noteq> RAISE"
    using that by (cases "recover A") auto
  note heal = harmless_heal [OF Suc.prems this]
  show ?case
    by (auto simp: candidates_exist_def intro!: steady_Done steady_andok steady_andthen harmless_basic harmless_restore [OF Suc.prems]
        harmless_default heal Suc.IH [OF Suc.prems] split: sum.split option.split)
qed simp

lemma harmless_read: "reader_ok G A \<Longrightarrow> harmless G (read_json_result stack me stamp A)"
  by (simp add: read_json_result_def harmless_read_from)

section \<open>Any programs together\<close>

lemma read_good: "n \<in> insert Live (range Bak) \<Longrightarrow> leads G {} (\<lambda>_. True) (read_bytes_stat n) (\<lambda>v _. G (body v))"
  unfolding read_bytes_stat_def by (rule leads_look) (auto simp: whole_def split: option.splits if_splits)

lemma harmless_verify: "harmless G (verify_write me expected has_backups after)"
proof -
  have "harmless G (suppressed (andok (read_bytes_stat (Bak 1)) (\<lambda>v.
      if decode_strict (body v) = None then Done (Inl ValueError) else save_with_backup_text me (body v) 3 False)))"
    by (intro steady_suppressed harmless_value [OF read_good]) (auto intro: harmless_save)
  then show ?thesis unfolding verify_write_def Let_def
    by (auto intro!: steady_Done steady_andok steady_andthen harmless_basic split: sum.split)
qed

lemma harmless_save_text: "G text \<Longrightarrow> harmless G (save_text me text o')"
  unfolding save_text_def
  by (auto intro!: steady_Done steady_andok steady_andthen steady_catching harmless_basic harmless_save harmless_verify)

lemma harmless_write_json:
  "(\<And>text. file_text X indent sort_keys nulls j = Inr text \<Longrightarrow> G text) \<Longrightarrow> harmless G (write_json X me indent sort_keys nulls j o')"
  unfolding write_json_def
  by (rule harmless_value [where C = G]) (auto intro!: leads_Done harmless_save_text)

lemma harmless_blob: "G text \<Longrightarrow> harmless G (save_blob_once me text)"
  unfolding save_blob_once_def save_bytes_atomic_def save_with_backup_text_def [symmetric]
  by (auto intro!: steady_Done steady_andok steady_catching harmless_basic harmless_save)

lemma harmless_walk: "harmless G (read_json_walk A)"
proof -
  have "harmless G (walk A found ns)" for found ns
    by (induction ns arbitrary: found) (auto intro!: steady_Done steady_andthen harmless_basic split: sum.split)
  then show ?thesis by (simp only: read_json_walk_def)
qed

definition discard :: "'a io \<Rightarrow> (family, unit) proc" where
  "discard p = andthen p (\<lambda>_. Done ())"

inductive_set file_programs :: "(bytes \<Rightarrow> bool) \<Rightarrow> (family, unit) proc set" for G :: "bytes \<Rightarrow> bool" where
  "reader_ok G A \<Longrightarrow> discard (read_json_result stack me stamp A) \<in> file_programs G"
| "discard (read_json_walk A) \<in> file_programs G"
| "(\<And>text. file_text X indent sort_keys nulls j = Inr text \<Longrightarrow> G text) \<Longrightarrow>
     discard (write_json X me indent sort_keys nulls j o') \<in> file_programs G"
| "G text \<Longrightarrow> discard (save_text me text o') \<in> file_programs G"
| "G text \<Longrightarrow> discard (save_blob_once me text) \<in> file_programs G"

text \<open>
  What others do meanwhile: time passes, operations are refused or not, processes end, other files change; the temporary
  files of a save may be removed.
\<close>

definition elsewhere :: "family \<Rightarrow> family \<Rightarrow> bool" where
  "elsewhere w w' \<longleftrightarrow> next_save w \<le> next_save w' \<and> (\<forall>n \<in> insert Live (range Bak). entry w' n = entry w n) \<and> (\<forall>t. kept t w w')"

lemma harmless_discard: "harmless G p \<Longrightarrow> saves.holds G {} (\<lambda>_. True) (discard p) (\<lambda>_ _. True)"
  unfolding discard_def steady_def by (erule saves.holds_andthen) (auto intro: saves.holds_Done)

lemma programs_harmless: "p \<in> file_programs G \<Longrightarrow> saves.holds G {} (\<lambda>_. True) p (\<lambda>_ _. True)"
  by (induction rule: file_programs.induct)
     (auto intro!: harmless_discard intro: harmless_read harmless_walk harmless_write_json harmless_save_text harmless_blob)

text \<open>
  C5: In any interleaving of saves, writes, verifications, reads that heal or restore, walks and blob writes, with kills at
  any step and any operations refused: the file is never absent and never torn, and it and every backup satisfy whatever
  the saved texts, the defaults of the resetting readers and the accepted fallbacks satisfy.
\<close>

theorem live_always_whole:
  assumes "pool_runs (file_programs G) elsewhere ([], w0) c"
    and "entry w0 Live \<noteq> None" "\<forall>n \<in> insert Live (range Bak). \<forall>v. entry w0 n = Some v \<longrightarrow> G (body v)"
  shows "(\<exists>v. entry (snd c) Live = Some v \<and> G (body v)) \<and> (\<forall>i v. entry (snd c) (Bak i) = Some v \<longrightarrow> G (body v))"
proof -
  have "saves.permitted G {} w w'" if "elsewhere w w'" "whole G w" for w w'
  proof -
    have "whole G w'" using that unfolding elsewhere_def whole_def by (metis insertI1)
    then show ?thesis using that by (simp add: elsewhere_def saves.permitted_def)
  qed
  then have "\<exists>Ks. saves.settled G Ks c"
    using assms(2,3) by (intro saves.holds_pool [OF assms(1)] programs_harmless) (auto simp: whole_def)
  then have "whole G (snd c)" by (auto simp: saves.settled_def)
  then show ?thesis by (auto simp: whole_def)
qed

end
