(* ===== verification/Healing_Runs.thy ===== *)
theory Healing_Runs
  imports Healing_Laws
begin

text \<open>
  What a read and a save do with nobody else at work: a read that restores returns the freshest copy that is good and
  loses no bytes, and a save either puts its text in place or leaves the file as it was. With concrete runs.
\<close>

section \<open>A read that restores\<close>

definition calm :: "family \<Rightarrow> bool" where
  "calm w \<longleftrightarrow> (\<forall>p. \<not> refuses w p)"

lemma calm_family [simp]: "calm (put n v w) = calm w" "calm (w\<lparr>sidecar := b\<rparr>) = calm w" "calm (w\<lparr>next_ino := i\<rparr>) = calm w"
  by (simp_all add: calm_def)

definition copy_of :: "reading \<Rightarrow> family \<Rightarrow> name \<Rightarrow> json option" where
  "copy_of A w n = (case entry w n of None \<Rightarrow> None | Some v \<Rightarrow> (case check_json A (body v) of Inl _ \<Rightarrow> None | Inr d \<Rightarrow> Some d))"

definition freshest :: "reading \<Rightarrow> family \<Rightarrow> nat option" where
  "freshest A w = find (\<lambda>i. copy_of A w (Bak i) \<noteq> None) [1, 2, 3]"

lemma alone_reads [simp]:
  "calm w \<Longrightarrow> alone (read_bytes_stat n) w = (case entry w n of None \<Rightarrow> Inl FileNotFoundError | Some v \<Rightarrow> Inr v, w)"
  "alone (exists_file n) w = (Inr (entry w n \<noteq> None), w)"
  "calm w \<Longrightarrow> alone (stat_path n) w = (Inr (map_option stat_key (entry w n)), w)"
  "calm w \<Longrightarrow> alone (mtime_of n) w = (case entry w n of None \<Rightarrow> Inl FileNotFoundError | Some v \<Rightarrow> Inr (mtime v), w)"
  by (simp_all add: read_bytes_stat_def exists_file_def stat_path_def mtime_of_def calm_def split: option.split)

lemma alone_catching: "alone (catching p h) w = (case alone p w of (Inl e, w') \<Rightarrow> alone (h e) w' | (Inr x, w') \<Rightarrow> (Inr x, w'))"
  by (auto simp: catching_def alone_andthen split: prod.split sum.split)

lemmas alone_rules = alone_andthen alone_andok alone_catching

lemma alone_pick_backup:
  "calm w \<Longrightarrow> \<exists>ws. alone (pick_backup A is walked) w = (Inr (find (\<lambda>i. copy_of A w (Bak i) \<noteq> None) is, ws), w)"
proof (induction "is" arbitrary: walked)
  case (Cons i "is")
  then show ?case
    by (cases "entry w (Bak i)")
       (auto simp: alone_rules valid_file_def copy_of_def split: sum.split)
qed simp

lemma freshest_copy: "freshest A w = Some i \<Longrightarrow> \<exists>d. copy_of A w (Bak i) = Some d"
  unfolding freshest_def find_Some_iff by blast

lemma copy_entry: "copy_of A w n = Some d \<Longrightarrow> \<exists>v. entry w n = Some v \<and> check_json A (body v) = Inr d"
  by (auto simp: copy_of_def split: option.splits sum.splits)

lemma alone_pick:
  assumes "calm w" "fallbacks A = []"
  shows "\<exists>ws. alone (pick A) w = (Inr (freshest A w, None, ws), w)"
proof -
  obtain ws where ws: "alone (pick_backup A [1, 2, 3] []) w = (Inr (freshest A w, ws), w)"
    using alone_pick_backup [OF assms(1), of A "[1, 2, 3]" "[]"] unfolding freshest_def by blast
  have "entry w (Bak i) \<noteq> None" if "freshest A w = Some i" for i
    using freshest_copy [OF that] copy_entry by fastforce
  then show ?thesis using ws assms
    by (auto simp: pick_def alone_rules simp del: pick_backup.simps split: option.split)
qed

lemma alone_install:
  assumes "calm w" "copy_of A w (Bak i) = Some d"
  shows "alone (install me A (Some i) None) w = (Inr (d, bak_action i), put Live (entry w (Bak i)) (put (Bak i) None w))"
  using assms
  by (auto simp: install_def checked_def replace_file_def alone_rules copy_of_def calm_def split: option.splits sum.splits)

lemma alone_set_aside:
  "calm w \<Longrightarrow> \<exists>w'. alone (each (set_aside stamp) ws) w = (Inr (), w') \<and> calm w' \<and>
     (\<forall>n. n \<notin> range Bak \<longrightarrow> (\<forall>i. n \<noteq> CorruptBak i stamp) \<longrightarrow> entry w' n = entry w n)"
proof (induction ws arbitrary: w)
  case (Cons c ws)
  have "\<exists>w'. alone (set_aside stamp c) w = (Inr (), w') \<and> calm w' \<and>
     (\<forall>n. n \<notin> range Bak \<longrightarrow> (\<forall>i. n \<noteq> CorruptBak i stamp) \<longrightarrow> entry w' n = entry w n)"
    using Cons.prems
    by (cases "entry w (Bak (fst c))")
       (auto simp: set_aside_def expect_unchanged_def suppressed_def replace_file_def alone_rules calm_def)
  then obtain w' where w': "alone (set_aside stamp c) w = (Inr (), w')" "calm w'"
    "\<forall>n. n \<notin> range Bak \<longrightarrow> (\<forall>i. n \<noteq> CorruptBak i stamp) \<longrightarrow> entry w' n = entry w n" by blast
  then show ?case using Cons.IH [OF w'(2)] by (auto simp: alone_rules)
qed simp

lemma alone_quarantine:
  assumes "calm w" "entry w Live = Some v" "entry w (Corrupt stamp 0) = None"
  shows "alone (quarantine_copy stamp [0..<100]) w = (Inr (Corrupt stamp 0), put (Corrupt stamp 0) (Some v) w)"
proof -
  have "[0..<100] = 0 # [1..<100::nat]" by (simp add: upt_rec)
  then show ?thesis using assms by (simp add: alone_rules link_file_def calm_def Let_def)
qed

lemma alone_lock [simp]: "alone take_lock w = (Inr (), w\<lparr>sidecar := True\<rparr>)"
  by (simp add: take_lock_def)

lemma copy_lock [simp]: "copy_of A (w\<lparr>sidecar := b\<rparr>) = copy_of A w" "freshest A (w\<lparr>sidecar := b\<rparr>) = freshest A w"
  by (simp_all add: copy_of_def freshest_def fun_eq_iff)

text \<open>What the read leaves and gives, as a relation.\<close>

definition restored :: "reading \<Rightarrow> string \<Rightarrow> family \<Rightarrow> json_read res \<Rightarrow> family \<Rightarrow> bool" where
  "restored A stamp w r w' \<longleftrightarrow>
     (case (copy_of A w Live, freshest A w, entry w Live) of
        (Some d, _, _) \<Rightarrow> r = Inr (plain_read d ''ok'' None) \<and> entry w' = entry w
      | (None, Some i, _) \<Rightarrow>
          (\<exists>x. r = Inr x \<and> Some (data x) = copy_of A w (Bak i) \<and> result x = ''restored'') \<and> entry w' Live = entry w (Bak i) \<and>
          (\<forall>v. entry w Live = Some v \<longrightarrow> entry w' (Corrupt stamp 0) = Some v)
      | (None, None, Some v) \<Rightarrow> (\<exists>bad. check_json A (body v) = Inl bad \<and> r = Inl (json_file_error bad)) \<and> entry w' = entry w
      | (None, None, None) \<Rightarrow> (\<exists>d. default A = Some d \<and> r = Inr (plain_read d ''missing'' None)) \<and> entry w' = entry w)"

lemma restored_lock [simp]: "restored A stamp (w\<lparr>sidecar := b\<rparr>) r w' = restored A stamp w r w'"
  by (simp add: restored_def split: option.split)

lemma alone_heal_locked:
  assumes "calm w" "fallbacks A = []" "recover A = RESTORE" "entry w Live = Some v" "check_json A (body v) = Inl bad"
    and "entry w (Corrupt stamp 0) = None"
  shows "case alone (heal_locked me A stamp bad (stat_key v)) w of (r, w') \<Rightarrow> restored A stamp w r w' \<and> r \<noteq> Inl ChangedError"
proof -
  obtain ws where pick: "alone (pick A) w = (Inr (freshest A w, None, ws), w)" using alone_pick [OF assms(1,2)] by blast
  have live: "copy_of A w Live = None" using assms(4,5) by (simp add: copy_of_def)
  show ?thesis
  proof (cases "freshest A w")
    case None
    then show ?thesis using pick assms(3-5) live
      by (simp add: heal_locked_def alone_andok restored_def json_file_error_def)
  next
    case (Some i)
    define q where "q = put (Corrupt stamp 0) (Some v) w"
    obtain d where d: "copy_of A w (Bak i) = Some d" using freshest_copy [OF Some] by blast
    then have inst: "alone (install me A (Some i) None) q = (Inr (d, bak_action i), put Live (entry w (Bak i)) (put (Bak i) None q))"
      using alone_install [of q A i d me] assms(1) by (simp add: q_def copy_of_def)
    define u where "u = put Live (entry w (Bak i)) (put (Bak i) None q)"
    have "calm u" using assms(1) by (simp add: u_def q_def)
    from alone_set_aside [OF this, of stamp ws]
    obtain w' where aside: "alone (each (set_aside stamp) ws) u = (Inr (), w')"
      and others: "\<forall>n. n \<notin> range Bak \<longrightarrow> (\<forall>i. n \<noteq> CorruptBak i stamp) \<longrightarrow> entry w' n = entry u n" by blast
    have "entry w' Live = entry u Live" "entry w' (Corrupt stamp 0) = entry u (Corrupt stamp 0)" using others by blast+
    with aside have w': "alone (each (set_aside stamp) ws) (put Live (entry w (Bak i)) (put (Bak i) None q)) = (Inr (), w')"
      "entry w' Live = entry w (Bak i)" "entry w' (Corrupt stamp 0) = Some v"
      by (auto simp: u_def q_def)
    have same: "alone (expect_unchanged Live (stat_key v)) u = (Inr (), u)" if "calm u" "entry u Live = Some v" for u
      using that by (simp add: expect_unchanged_def alone_andok)
    have "alone (heal_locked me A stamp bad (stat_key v)) w =
      (Inr \<lparr>data = d, result = ''restored'', kind = Some bad, anomaly = Some (anomaly_kind bad, bak_action i, Some (Corrupt stamp 0))\<rparr>, w')"
      using pick Some same [OF assms(1,4)] same [of q] assms(1,3,4) inst w'(1) alone_quarantine [OF assms(1,4,6)]
      by (simp add: heal_locked_def alone_rules io_error_def q_def del: upt_rec_numeral)
    then show ?thesis using live Some d w'(2,3) assms(4) by (simp add: restored_def)
  qed
qed

lemma alone_restore_locked:
  assumes "calm w" "fallbacks A = []" "entry w Live = None"
  shows "case freshest A w of
      None \<Rightarrow> alone (restore_missing_locked me A) w = (Inr (None, False), w)
    | Some i \<Rightarrow> \<exists>x w'. alone (restore_missing_locked me A) w = (Inr (Some x, False), w') \<and>
        Some (data x) = copy_of A w (Bak i) \<and> result x = ''restored'' \<and> entry w' Live = entry w (Bak i)"
proof -
  obtain ws where pick: "alone (pick A) w = (Inr (freshest A w, None, ws), w)" using alone_pick [OF assms(1,2)] by blast
  show ?thesis
  proof (cases "freshest A w")
    case (Some i)
    then obtain d where "copy_of A w (Bak i) = Some d" using freshest_copy by blast
    then show ?thesis using pick Some assms alone_install [of w A i d me]
      by (simp add: restore_missing_locked_def expect_absent_def alone_rules)
  qed (use pick assms in \<open>simp add: restore_missing_locked_def alone_andok\<close>)
qed

lemma missing_restored:
  assumes "calm w" "recover A = RESTORE" "default A = Some d0" "fallbacks A = []" "entry w Live = None"
  shows "case alone (andok (andok (candidates_exist A) (\<lambda>some. if some
                 then andok take_lock (\<lambda>_. restore_missing_locked me A) else Done (Inr (None, False)))) (\<lambda>(restored, retry).
             if retry then again
             else (case restored of Some x \<Rightarrow> Done (Inr x)
               | None \<Rightarrow> (case default A of None \<Rightarrow> Done (Inl JsonFileNotFound) | Some d \<Rightarrow> Done (Inr (plain_read d ''missing'' None)))))) w
    of (r, w') \<Rightarrow> restored A stamp w r w'"
proof -
  let ?l = "w\<lparr>sidecar := True\<rparr>"
  have gone: "freshest A w = None" if "\<not> (\<exists>i \<in> {1, 2, 3}. entry w (Bak i) \<noteq> None)"
    using that by (simp add: freshest_def copy_of_def)
  have live: "copy_of A w Live = None" using assms(5) by (simp add: copy_of_def)
  have locked: "case freshest A w of
      None \<Rightarrow> alone (restore_missing_locked me A) ?l = (Inr (None, False), ?l)
    | Some i \<Rightarrow> \<exists>x w'. alone (restore_missing_locked me A) ?l = (Inr (Some x, False), w') \<and>
        Some (data x) = copy_of A w (Bak i) \<and> result x = ''restored'' \<and> entry w' Live = entry w (Bak i)"
    using alone_restore_locked [of ?l A me] assms by (simp split: option.splits)
  show ?thesis
  proof (cases "freshest A w")
    case None
    then show ?thesis using locked live assms
      by (auto simp: candidates_exist_def alone_rules restored_def)
  next
    case (Some i)
    then have "\<exists>i \<in> {1, 2, 3}. entry w (Bak i) \<noteq> None" using gone by (metis option.distinct(1))
    then have "alone (candidates_exist A) w = (Inr True, w)" by (auto simp: candidates_exist_def)
    then show ?thesis using Some locked live assms by (auto simp: alone_rules restored_def)
  qed
qed

lemma alone_andok_look: "alone (andok (look g) k) w = (case g w of Inl e \<Rightarrow> (Inl e, w) | Inr x \<Rightarrow> alone (k x) w)"
  by (simp add: alone_andok split: sum.split)

lemma read_missing:
  assumes "calm w" "recover A = RESTORE" "entry w Live = None" "waited \<or> \<not> sidecar w"
  shows "alone (read_from me A stamp (Suc n) waited) w =
    alone (andok (andok (candidates_exist A) (\<lambda>some. if some
                 then andok take_lock (\<lambda>_. restore_missing_locked me A) else Done (Inr (None, False)))) (\<lambda>(restored, retry).
             if retry then read_from me A stamp n True
             else (case restored of Some x \<Rightarrow> Done (Inr x)
               | None \<Rightarrow> (case default A of None \<Rightarrow> Done (Inl JsonFileNotFound) | Some d \<Rightarrow> Done (Inr (plain_read d ''missing'' None)))))) w"
  using assms by (auto simp: alone_andthen alone_andok_look)

lemma alone_read_restore:
  assumes "calm w" "recover A = RESTORE" "default A = Some d0" "fallbacks A = []" "entry w (Corrupt stamp 0) = None"
    and "entry w Live \<noteq> None \<or> waited \<or> \<not> sidecar w"
  shows "case alone (read_from me A stamp (Suc n) waited) w of (r, w') \<Rightarrow> restored A stamp w r w'"
proof (cases "entry w Live")
  case None
  then show ?thesis using missing_restored [OF assms(1-4) None, where again = "read_from me A stamp n True" and me = me and stamp = stamp] read_missing [OF assms(1,2) None] assms(6)
    by metis
next
  case (Some v)
  show ?thesis
  proof (cases "check_json A (body v)")
    case (Inl bad)
    let ?l = "w\<lparr>sidecar := True\<rparr>"
    have "case alone (heal_locked me A stamp bad (stat_key v)) ?l of (r, w') \<Rightarrow> restored A stamp ?l r w' \<and> r \<noteq> Inl ChangedError"
      by (rule alone_heal_locked) (use assms Some Inl in simp_all)
    moreover have "alone (read_from me A stamp (Suc n) waited) w =
      alone (catching (heal_locked me A stamp bad (stat_key v)) (\<lambda>e. if e = ChangedError then after_change A bad else Done (Inl e))) ?l"
      using assms(1,2) Some Inl by (simp add: alone_andthen heal_def alone_andok)
    ultimately show ?thesis by (auto simp: alone_catching split: prod.splits sum.splits)
  next
    case (Inr d)
    then show ?thesis using assms Some by (simp add: alone_andthen restored_def copy_of_def)
  qed
qed


section \<open>A save\<close>

text \<open>The entries of the names outside \<open>S\<close> are as they were.\<close>

definition apart_from :: "name set \<Rightarrow> family \<Rightarrow> family \<Rightarrow> bool" where
  "apart_from S w w' \<longleftrightarrow> (\<forall>n. n \<notin> S \<longrightarrow> entry w' n = entry w n)"

lemma apart_refl [simp]: "apart_from S w w"
  by (simp add: apart_from_def)

lemma apart_trans: "apart_from S w u \<Longrightarrow> apart_from S u w' \<Longrightarrow> apart_from S w w'"
  by (simp add: apart_from_def)

lemma apart_mono: "apart_from S w w' \<Longrightarrow> S \<subseteq> S' \<Longrightarrow> apart_from S' w w'"
  by (auto simp: apart_from_def)

lemma alone_write_new:
  assumes "alone (write_file n bs) w = (r, w')"
  shows "apart_from {n} w w'" "r = Inr x \<Longrightarrow> \<exists>v. entry w' n = Some v \<and> body v = bs"
  using assms
  by (auto simp: write_file_def open_new_def write_part_def write_rest_def refill_def alone_andok apart_from_def fresh_def split: if_splits)

lemma alone_unlink:
  assumes "alone (unlink_file n) w = (r, w')"
  shows "apart_from {n} w w'"
  using assms by (auto simp: unlink_file_def apart_from_def split: if_splits)

lemma alone_suppressed: "alone (suppressed p) w = (Inr (), snd (alone p w))"
  by (auto simp: suppressed_def alone_catching split: prod.split sum.split)

lemma alone_each_suppressed:
  "(\<And>x w. x \<in> set xs \<Longrightarrow> \<exists>w'. alone (f x) w = (Inr (), w') \<and> apart_from S w w') \<Longrightarrow> \<exists>w'. alone (each f xs) w = (Inr (), w') \<and> apart_from S w w'"
proof (induction xs arbitrary: w)
  case (Cons x xs)
  obtain u where u: "alone (f x) w = (Inr (), u)" "apart_from S w u" using Cons.prems by force
  obtain w' where "alone (each f xs) u = (Inr (), w')" "apart_from S u w'" using Cons.IH [of u] Cons.prems by force
  with u show ?case by (auto simp: alone_andok intro: apart_trans)
qed simp

definition temp_names :: "name set" where
  "temp_names = {OldNew, OldBakNew} \<union> range New \<union> range BakNew"

lemma alone_unlink_temp: "n \<in> temp_names \<Longrightarrow> \<exists>w'. alone (suppressed (unlink_file n)) w = (Inr (), w') \<and> apart_from temp_names w w'"
  by (auto simp: alone_suppressed unlink_file_def apart_from_def)

lemma alone_sweep: "\<exists>w'. alone (remove_stale_temps me) w = (Inr (), w') \<and> apart_from temp_names w w'"
proof -
  have one: "\<exists>w'. alone (sweep_one me n) w = (Inr (), w') \<and> apart_from temp_names w w'" if "n \<in> temp_names" for n w
    using alone_unlink_temp [OF that] by (auto simp: sweep_one_def alone_andok)
  have "\<exists>u. alone (each (\<lambda>n. suppressed (unlink_file n)) [OldNew, OldBakNew]) w = (Inr (), u) \<and> apart_from temp_names w u"
    by (rule alone_each_suppressed, rule alone_unlink_temp) (auto simp: temp_names_def)
  then obtain u where u: "alone (each (\<lambda>n. suppressed (unlink_file n)) [OldNew, OldBakNew]) w = (Inr (), u)" "apart_from temp_names w u" by blast
  have "set (if refuses u Listing then [] else temps u) \<subseteq> temp_names" by (auto simp: temps_def temp_names_def)
  then obtain w' where "alone (each (sweep_one me) (if refuses u Listing then [] else temps u)) u = (Inr (), w')" "apart_from temp_names u w'"
    using alone_each_suppressed [of "if refuses u Listing then [] else temps u" "sweep_one me" temp_names u] one by blast
  with u show ?thesis unfolding remove_stale_temps_def by (auto simp: alone_andok simp del: each.simps intro: apart_trans)
qed

lemma alone_copy:
  assumes "alone (copy_for_backup Live (BakNew t)) w = (r, w')"
  shows "apart_from {BakNew t} w w'" "r = Inr True \<Longrightarrow> \<exists>b v. entry w' (BakNew t) = Some b \<and> entry w Live = Some v \<and> body b = body v"
    "r = Inr False \<Longrightarrow> entry w Live = None"
  using assms
  by (auto simp: copy_for_backup_def alone_rules alone_suppressed unlink_file_def read_bytes_stat_def copystat_def apart_from_def
      write_file_def open_new_def write_part_def write_rest_def refill_def fresh_def OSError_def split: if_splits option.splits)

lemma alone_rotate_one:
  assumes "alone (rotate_one i) w = (r, w')"
  shows "apart_from {Bak i, Bak (i + 1)} w w'"
    "r = Inr x \<Longrightarrow> entry w (Bak (i + 1)) = None \<Longrightarrow> entry w' (Bak (i + 1)) = entry w (Bak i) \<and> entry w' (Bak i) = None"
  using assms
  by (auto simp: rotate_one_def replace_file_def alone_rules apart_from_def OSError_def split: if_splits option.splits)

lemma alone_rotations:
  assumes "alone (each rotate_one (rev [1..<m])) w = (r, w')"
  shows "apart_from (Bak ` {1..m}) w w'"
    "r = Inr x \<Longrightarrow> 1 \<le> m \<Longrightarrow> entry w (Bak m) = None \<Longrightarrow> entry w' (Bak 1) = None \<and> (\<forall>i. 1 \<le> i \<longrightarrow> i < m \<longrightarrow> entry w' (Bak (i + 1)) = entry w (Bak i))"
  using assms
proof (induction m arbitrary: w r w')
  case (Suc m)
  {
    case 1
    show ?case
    proof (cases "m = 0")
      case False
      obtain r1 u where u: "alone (rotate_one m) w = (r1, u)" by (cases "alone (rotate_one m) w")
      have a: "apart_from (Bak ` {1..Suc m}) w u" by (rule apart_mono [OF alone_rotate_one(1) [OF u]]) (use False in auto)
      show ?thesis
      proof (cases r1)
        case (Inr y)
        then have "alone (each rotate_one (rev [1..<m])) u = (r, w')" using 1 False u by (simp add: alone_andok)
        then have "apart_from (Bak ` {1..Suc m}) u w'" by (intro apart_mono [OF Suc.IH(1)]) auto
        with a show ?thesis by (rule apart_trans)
      qed (use 1 False u a in \<open>simp add: alone_andok\<close>)
    qed (use 1 in simp)
  next
    case 2
    show ?case
    proof (cases "m = 0")
      case False
      obtain r1 u where u: "alone (rotate_one m) w = (r1, u)" by (cases "alone (rotate_one m) w")
      then obtain y where y: "r1 = Inr y" using 2 False by (cases r1) (simp_all add: alone_andok)
      then have step: "alone (each rotate_one (rev [1..<m])) u = (r, w')" using 2 False u by (simp add: alone_andok)
      have m: "entry u (Bak (m + 1)) = entry w (Bak m)" "entry u (Bak m) = None"
        using alone_rotate_one(2) [OF u y] 2 by auto
      have "entry w' (Bak 1) = None \<and> (\<forall>i. 1 \<le> i \<longrightarrow> i < m \<longrightarrow> entry w' (Bak (i + 1)) = entry u (Bak i))"
        using Suc.IH(2) [OF 2(1) _ m(2) step] False by simp
      moreover have "Bak (m + 1) \<notin> Bak ` {1..m}" by auto
      then have "entry w' (Bak (m + 1)) = entry u (Bak (m + 1))" using Suc.IH(1) [OF step] unfolding apart_from_def by blast
      moreover have "entry u (Bak i) = entry w (Bak i)" if "i < m" for i
        using alone_rotate_one(1) [OF u] that by (auto simp: apart_from_def)
      ultimately show ?thesis using m by (auto simp: less_Suc_eq)
    qed (use 2 in auto)
  }
qed auto

lemma alone_rotate:
  assumes "alone (rotate n) w = (r, w')" "1 \<le> n"
  shows "apart_from (range Bak) w w'"
    "r = Inr x \<Longrightarrow> entry w' (Bak 1) = None \<and> (\<forall>i. 1 \<le> i \<longrightarrow> i < n \<longrightarrow> entry w' (Bak (i + 1)) = entry w (Bak i))"
proof -
  obtain r1 u where u: "alone (unlink_file (Bak n)) w = (r1, u)" by (cases "alone (unlink_file (Bak n)) w")
  have a: "apart_from (range Bak) w u" by (rule apart_mono [OF alone_unlink [OF u]]) auto
  have rest: "alone (each rotate_one (rev [1..<n])) u = (r, w')" if "r1 = Inr y" for y
    using assms(1) u that by (simp add: rotate_def alone_andok)
  show "apart_from (range Bak) w w'"
  proof (cases r1)
    case (Inr y)
    from apart_mono [OF alone_rotations(1) [OF rest [OF this]], of "range Bak"] a show ?thesis by (meson apart_trans image_subset_iff rangeI)
  qed (use assms u a in \<open>simp add: rotate_def alone_andok\<close>)
  assume x: "r = Inr x"
  then obtain y where y: "r1 = Inr y" using assms(1) u by (cases r1) (simp_all add: rotate_def alone_andok)
  then have "entry u (Bak n) = None" "\<And>i. i \<noteq> n \<Longrightarrow> entry u (Bak i) = entry w (Bak i)"
    using u by (auto simp: unlink_file_def split: if_splits)
  then show "entry w' (Bak 1) = None \<and> (\<forall>i. 1 \<le> i \<longrightarrow> i < n \<longrightarrow> entry w' (Bak (i + 1)) = entry w (Bak i))"
    using alone_rotations(2) [OF rest [OF y] x assms(2)] by auto
qed

text \<open>The steps of a save, once its number is drawn and the old temporary files are swept.\<close>

definition save_steps :: "nat \<Rightarrow> bytes \<Rightarrow> bool \<Rightarrow> nat \<Rightarrow> unit io" where
  "save_steps t bs keep n =
     andok (write_file (New t) bs) (\<lambda>_.
     andok (if keep then copy_for_backup Live (BakNew t) else Done (Inr False)) (\<lambda>backed_up.
     andok (if keep then rotate n else Done (Inr ())) (\<lambda>_.
     andok (if backed_up then replace_file (BakNew t) (Bak 1) else Done (Inr ())) (\<lambda>_.
     replace_file (New t) Live))))"

text \<open>What a save gave, and what it left.\<close>

definition saved :: "bytes \<Rightarrow> nat \<Rightarrow> bool \<Rightarrow> family \<Rightarrow> unit res \<Rightarrow> family \<Rightarrow> bool" where
  "saved bs n keep w r w' \<longleftrightarrow>
     (case r of
        Inl _ \<Rightarrow> entry w' Live = entry w Live \<and> (\<not> keep \<longrightarrow> (\<forall>i. entry w' (Bak i) = entry w (Bak i)))
      | Inr _ \<Rightarrow>
          (\<exists>v. entry w' Live = Some v \<and> body v = bs) \<and>
          (\<not> keep \<longrightarrow> (\<forall>i. entry w' (Bak i) = entry w (Bak i))) \<and>
          (keep \<longrightarrow> map_option body (entry w' (Bak 1)) = map_option body (entry w Live) \<and>
             (\<forall>i. 1 \<le> i \<longrightarrow> i < n \<longrightarrow> entry w' (Bak (i + 1)) = entry w (Bak i))))"

lemma saved_apart:
  assumes "saved bs n keep u r u'" "apart_from temp_names w u" "apart_from temp_names u' w'"
  shows "saved bs n keep w r w'"
proof -
  have "entry u Live = entry w Live" "entry w' Live = entry u' Live" "\<And>i. entry u (Bak i) = entry w (Bak i)" "\<And>i. entry w' (Bak i) = entry u' (Bak i)"
    using assms(2,3) by (auto simp: apart_from_def temp_names_def)
  then show ?thesis using assms(1) by (simp add: saved_def split: sum.splits)
qed

lemma saved_failed: "apart_from (if keep then insert (New t) (insert (BakNew t) (range Bak)) else {New t, BakNew t}) w w' \<Longrightarrow> saved bs n keep w (Inl e) w'"
  by (auto simp: saved_def apart_from_def split: if_splits)

text \<open>The last two steps, after the rotation.\<close>

lemma alone_publish:
  assumes "alone (andok (if b then replace_file (BakNew t) (Bak 1) else Done (Inr ())) (\<lambda>_. replace_file (New t) Live)) u = (r, w')"
    and "entry u (New t) = Some v" "b \<Longrightarrow> entry u (BakNew t) = Some v'"
  shows "r = Inl e \<Longrightarrow> apart_from (if b then {BakNew t, Bak 1} else {}) u w'"
    "r = Inr () \<Longrightarrow> entry w' = (entry u)(New t := None, Live := Some v, BakNew t := if b then None else entry u (BakNew t), Bak 1 := if b then Some v' else entry u (Bak 1))"
  using assms
  by (auto simp: alone_andok replace_file_def apart_from_def fun_eq_iff split: if_splits)

lemma alone_steps:
  assumes "alone (save_steps t bs keep n) w = (r, w')" "1 \<le> n"
  shows "saved bs n keep w r w'"
proof -
  let ?S = "if keep then insert (New t) (insert (BakNew t) (range Bak)) else {New t, BakNew t}"
  let ?copy = "if keep then copy_for_backup Live (BakNew t) else Done (Inr False)" and ?rotate = "if keep then rotate n else Done (Inr ())"
  obtain r1 w1 where w1: "alone (write_file (New t) bs) w = (r1, w1)" by (cases "alone (write_file (New t) bs) w")
  have a1: "apart_from {New t} w w1" by (rule alone_write_new(1) [OF w1])
  show ?thesis
  proof (cases r1)
    case (Inl e)
    then have "r = Inl e" "w' = w1" using assms(1) w1 by (simp_all add: save_steps_def alone_andok)
    moreover have "apart_from ?S w w1" using a1 by (auto simp: apart_from_def)
    ultimately show ?thesis using saved_failed by simp
  next
    case (Inr x1)
    obtain v where v: "entry w1 (New t) = Some v" "body v = bs" using alone_write_new(2) [OF w1 Inr] by blast
    obtain r2 w2 where w2: "alone ?copy w1 = (r2, w2)" by (cases "alone ?copy w1")
    have a2: "apart_from {BakNew t} w1 w2" using w2 alone_copy(1) [of t w1 r2 w2] by (auto split: if_splits)
    have a12: "apart_from {New t, BakNew t} w w2" using a1 a2 by (auto simp: apart_from_def)
    show ?thesis
    proof (cases r2)
      case (Inl e)
      then have "r = Inl e" "w' = w2" using assms(1) w1 w2 \<open>r1 = Inr x1\<close> by (simp_all add: save_steps_def alone_andok)
      moreover have "apart_from ?S w w2" using a12 by (auto simp: apart_from_def)
      ultimately show ?thesis using saved_failed by simp
    next
      case (Inr b)
      have b: "b \<Longrightarrow> keep \<and> (\<exists>v' l. entry w2 (BakNew t) = Some v' \<and> entry w1 Live = Some l \<and> body v' = body l)" "\<not> b \<Longrightarrow> keep \<Longrightarrow> entry w1 Live = None"
        using w2 Inr alone_copy [of t w1 r2 w2] by (auto split: if_splits)
      obtain r3 w3 where w3: "alone ?rotate w2 = (r3, w3)" by (cases "alone ?rotate w2")
      have a3: "apart_from (if keep then range Bak else {}) w2 w3" using w3 alone_rotate(1) [OF _ assms(2), of w2 r3 w3] by (auto split: if_splits)
      have a123: "apart_from ?S w w3" using a12 a3 by (auto simp: apart_from_def split: if_splits)
      have shifted: "entry w3 (Bak 1) = None \<and> (\<forall>i. 1 \<le> i \<longrightarrow> i < n \<longrightarrow> entry w3 (Bak (i + 1)) = entry w2 (Bak i))" if "r3 = Inr y" keep for y
        using alone_rotate(2) [OF _ assms(2) that(1), of w2] w3 that(2) by simp
      show ?thesis
      proof (cases r3)
        case (Inl e)
        then have "r = Inl e" "w' = w3" using assms(1) w1 w2 w3 \<open>r1 = Inr x1\<close> \<open>r2 = Inr b\<close> by (simp_all add: save_steps_def alone_andok)
        then show ?thesis using saved_failed [OF a123] by simp
      next
        case (Inr x3)
        have last: "alone (andok (if b then replace_file (BakNew t) (Bak 1) else Done (Inr ())) (\<lambda>_. replace_file (New t) Live)) w3 = (r, w')"
          using assms(1) w1 w2 w3 \<open>r1 = Inr x1\<close> \<open>r2 = Inr b\<close> Inr by (simp add: save_steps_def alone_andok)
        have kept3: "entry w3 (New t) = Some v" "entry w3 (BakNew t) = entry w2 (BakNew t)" "entry w2 Live = entry w Live" "entry w1 Live = entry w Live"
          "\<And>i. entry w2 (Bak i) = entry w (Bak i)" "\<not> keep \<Longrightarrow> entry w3 (Bak i) = entry w (Bak i)" for i
          using a1 a2 v(1) a3 [unfolded apart_from_def, THEN spec, of "New t"] a3 [unfolded apart_from_def, THEN spec, of "BakNew t"]
            a3 [unfolded apart_from_def, THEN spec, of "Bak i"]
          by (auto simp: apart_from_def split: if_splits)
        obtain v' where v': "b \<Longrightarrow> entry w3 (BakNew t) = Some v' \<and> map_option body (Some v') = map_option body (entry w Live)"
          using b(1) kept3(2,4) by (cases b) auto
        show ?thesis
        proof (cases r)
          case (Inl e)
          have "apart_from (if b then {BakNew t, Bak 1} else {}) w3 w'" by (rule alone_publish(1) [OF last kept3(1) _ Inl]) (use v' in auto)
          then have "apart_from ?S w w'" using a123 b(1) by (auto simp: apart_from_def split: if_splits)
          then show ?thesis using saved_failed Inl by simp
        next
          case ok: (Inr x)
          have "entry w' = (entry w3)(New t := None, Live := Some v, BakNew t := if b then None else entry w3 (BakNew t), Bak 1 := if b then Some v' else entry w3 (Bak 1))"
            by (rule alone_publish(2) [OF last kept3(1)]) (use v' ok in auto)
          moreover have "keep \<Longrightarrow> entry w3 (Bak 1) = None" "\<And>i. keep \<Longrightarrow> 1 \<le> i \<Longrightarrow> i < n \<Longrightarrow> entry w3 (Bak (i + 1)) = entry w (Bak i)"
            using shifted [OF Inr] kept3(5) by auto
          ultimately show ?thesis using v(2) v' b kept3(4,6) ok unfolding saved_def by auto
        qed
      qed
    qed
  qed
qed


section \<open>Concrete runs\<close>

definition desk :: family where
  "desk = \<lparr>entry = [Live \<mapsto> \<lparr>ino = 0, mtime = 0, body = [49, 10]\<rparr>], next_ino = 1, clock = 5, refuses = \<lambda>_. False, cut = 1,
     next_save = 0, owner = \<lambda>_. 0, registered = {}, running = {}, sidecar = False\<rparr>"

text \<open>A file that broke off, with a good backup.\<close>

definition torn :: family where
  "torn = desk\<lparr>entry := [Live \<mapsto> \<lparr>ino = 1, mtime = 1, body = [123]\<rparr>, Bak 1 \<mapsto> \<lparr>ino = 0, mtime = 0, body = [49, 10]\<rparr>]\<rparr>"

definition strict_reading :: "ext \<Rightarrow> reading" where
  "strict_reading X = \<lparr>lib = \<lparr>wide = \<lambda>_. None, unloadable = \<lambda>_. False\<rparr>, expect = \<lambda>_. True, validate = \<lambda>_. True, default = Some JNull,
     recover = RESTORE, fallbacks = [], floats = X\<rparr>"

definition backed :: saving where
  "backed = \<lparr>backups = 1, verify_after = True, if_missing = False, logs_errors = False\<rparr>"

lemma live_always_whole_witness:
  "\<forall>js X. \<exists>v. entry (snd (schedule js ([discard (save_text 1 [50, 10] backed), discard (save_text 2 [49, 10] backed),
      discard (read_json_result 2 1 ''s'' (strict_reading X))], desk))) Live = Some v \<and> body v \<in> {[49, 10], [50, 10]}"
proof (intro allI)
  fix js X
  let ?G = "\<lambda>b. b \<in> {[49, 10], [50, 10]}"
  let ?ps = "[discard (save_text 1 [50, 10] backed), discard (save_text 2 [49, 10] backed),
      discard (read_json_result 2 1 ''s'' (strict_reading X))]"
  have "reader_ok ?G (strict_reading X)" by (simp add: reader_ok_def strict_reading_def)
  then have "set ?ps \<subseteq> file_programs ?G" by (auto intro!: file_programs.intros)
  then have "pool_runs (file_programs ?G) elsewhere ([], desk) (schedule js (?ps, desk))"
    by (intro schedule_runs joined_runs)
  from live_always_whole [OF this]
  show "\<exists>v. entry (snd (schedule js (?ps, desk))) Live = Some v \<and> body v \<in> {[49, 10], [50, 10]}"
    by (auto simp: desk_def)
qed

lemma torn_copies: "copy_of (strict_reading X) torn Live = None" "copy_of (strict_reading X) torn (Bak 1) = Some (JInt 1)"
proof -
  have "decode_strict [123] = Some [123]" "decode_strict [49, 10] = Some [49, 10]" "without_bom [123] = [123]" "without_bom [49, 10] = [49, 10]"
    by code_simp+
  moreover have "json_loads (map char_of [123 :: nat]) = None" "json_loads (map char_of [49, 10 :: nat]) = Some (JInt 1)"
    by code_simp+
  moreover have "is_space (char_of (123 :: nat)) = False" by code_simp
  then have "\<not> point_space 123" by (simp add: point_space_def)
  ultimately have "check_json (strict_reading X) [123] = Inl ''malformed''" "check_json (strict_reading X) [49, 10] = Inr (JInt 1)"
    by (simp_all add: strict_reading_def check_json_def loads_points_def del: list.map)
  then show "copy_of (strict_reading X) torn Live = None" "copy_of (strict_reading X) torn (Bak 1) = Some (JInt 1)"
    by (simp_all add: copy_of_def torn_def)
qed



end
