(* ===== verification/Spec2Isabelle.thy ===== *)
theory Spec2Isabelle
  imports Self_Test Panel_Laws Gate_Laws Commit_Runs Spreading Forgetting_Runs Retention Embeddings Jsonl_Laws Healing_Runs
begin

text \<open>
  A model of four subsystems of companion-emergence. The first is
  the Kindled link, with which two companion processes of different users talk to each other through an
  untrusted relay (the package \<open>src/brain/kindled_link/\<close>, its endpoints in \<open>bridge/server.py\<close> and its
  call in \<open>bridge/supervisor.py\<close>). The second is the companion's access to the files of its user, who
  must consent to each write (\<open>src/brain/files/\<close>, the file tools in \<open>tools/impls/\<close>, and the consent
  endpoints). The third is what the companion remembers and forgets: the graph of its memories, the table of
  memories with their embeddings, and the pass that fades and loses them (\<open>src/brain/memory/\<close>,
  \<open>src/brain/forgetting/\<close>, with parts of \<open>grief/\<close> and \<open>soul/\<close>). The fourth is how every package keeps
  its JSON on the disk (\<open>src/brain/health/json_io.py\<close>, \<open>src/brain/utils/atomic_write.py\<close>).

  \<^bold>\<open>How the link works.\<close> A process owns an Ed25519 identity and one SQLite store. Two users pair
  their processes by an invite, passed by hand as a connect code; a consent state per peer says what
  may happen from then on. Every five minutes the supervisor calls the tick. It polls the relay, checks
  each delivered item against consent, signature, session key and sequence number, files what it
  accepts, and acknowledges. Then, peer by peer, it drafts an answer with the language model, has the
  gate judge it (a pattern filter, a second model call, a disclosure budget), counts it against the
  caps and hands it to the transport, which encrypts and signs it. From time to time it lets the model
  reflect on the relationship, within bounds the code sets. The panel of the user reads projections of
  the store.

  \<^bold>\<open>How file access works.\<close> The language model calls tools. A read tool asks the read guard, which knows
  files by inode. The write tool only proposes: it asks the write guard, which knows files by real path,
  and stages a card with the text. The user approves or declines a card. An approval claims the card by a
  compare-and-set of its status, asks the guard again, and writes the claimed text. Cards expire after a day,
  and after a crash an approval that was under way is settled by comparing the target with the text.
  Routes, tools and the supervisor run in different threads over the same folder of cards.

  \<^bold>\<open>How forgetting works.\<close> A memory is a row of a table, an edge between two of them a row of another. Now and
  then a pass goes over all memories in the order of their ids. It leaves alone what is recent, what was just
  migrated, and what the soul holds on to: the memories of crystallizations, those under review, and the rows
  either was merged into; if one of these lists cannot be read the pass does nothing. Every other memory gets a
  salience from its emotions, its edges, its recalls, the soul and its freshness. A low one fades to a summary and keeps
  its text aside, a high one comes back, and one that stays below a floor for two passes is lost: a grave is
  written, the row and its edges are deleted, and a strong loss leaves a breadcrumb of grief. Counters and a
  cursor are saved after each memory, so that the pass can pause for a chat and go on later. Every row should carry
  an embedding of its text; the operations that change a text compute it anew, and a backfill works through the
  rows that have none, tick by tick or, by a command, until nothing is left to try.

  \<^bold>\<open>Theories and code.\<close>

  \<^item> \<open>Prelude\<close>: exceptions and results, floats, bytes and hexadecimal, decimals, keyed row lists, the
    state programs \<open>prog\<close> and the collection \<open>keeps_intros\<close> of programs that keep a property; the
    locale \<open>codec\<close> of an encoder and its decoder.
  \<^item> \<open>Pytime\<close>: \<open>datetime\<close>, the wire stamp and the tolerant reader of \<open>utils/time.py\<close>.
  \<^item> \<open>Json\<close>: \<open>codec.py\<close>, with \<open>json.dumps\<close>, \<open>json.loads\<close> and the Python conversions; the record
    \<open>ext\<close> of the functions of code outside the repository.
  \<^item> \<open>Identity\<close>: \<open>identity.py\<close>, with the interleavings of two creators of the key file as an
    inductive step relation.
  \<^item> \<open>Protocol\<close>: \<open>protocol.py\<close>, envelopes and their readers.
  \<^item> \<open>Store\<close>, \<open>Store_Laws\<close>, \<open>Store_Rotation\<close>: \<open>store.py\<close>; one row list per table, one definition per
    method, the datatype \<open>op\<close> of all calls, the abstract consent machine \<open>consent_step\<close>.
  \<^item> \<open>Session\<close>: \<open>session.py\<close>, the three legs of the handshake.
  \<^item> \<open>Connect_Code\<close>, \<open>Pairing\<close>: \<open>connect_code.py\<close>, \<open>pairing.py\<close> and the pairing endpoints.
  \<^item> \<open>Transport\<close>, \<open>Transport_Laws\<close>, \<open>Poll\<close>: \<open>transport.py\<close>, \<open>relay_client.py\<close>, \<open>audit.py\<close>. The world
    is the store, the audit rows, the requests made so far and the pauses; the relay is an arbitrary
    function of the number of the request and its content.
  \<^item> \<open>Regex\<close>, \<open>Gate\<close>, \<open>Gate_Laws\<close>: \<open>gate.py\<close>, \<open>privacy_gate.py\<close>. The language model and the throttle
    are a \<open>mind\<close>: arbitrary answers to the n-th call.
  \<^item> \<open>Relationship\<close>, \<open>Relationship_Laws\<close>: \<open>relationship.py\<close>, \<open>cadence.py\<close>.
  \<^item> \<open>Engine\<close>, \<open>Engine_Laws\<close>: \<open>peer_prompt.py\<close>, \<open>session_engine.py\<close>.
  \<^item> \<open>Tick\<close>, \<open>Tick_Laws\<close>: \<open>tick.py\<close> and \<open>maybe_run_tick\<close> of the supervisor.
  \<^item> \<open>Panel\<close>, \<open>Panel_Laws\<close>: \<open>views.py\<close>, \<open>feed_source.py\<close> and the reading endpoints.
  \<^item> \<open>Self_Test\<close>: \<open>self_test.py\<close>, the link run against itself in two worlds.
  \<^item> \<open>Proc\<close>: programs as resumptions, pools of them in any interleaving with an environment, and two proof
    principles for pools.
  \<^item> \<open>Disk\<close>: names, inodes and symbolic links, \<open>realpath\<close>, expansion of \<open>~\<close> and variables, decoding and
    writing files.
  \<^item> \<open>Guards\<close>: \<open>write_guard.py\<close>, \<open>read_guard.py\<close> and \<open>list_directory.py\<close>.
  \<^item> \<open>Pending\<close>: \<open>pending.py\<close>, \<open>files/audit.py\<close> and the list of cards of \<open>persona_state.py\<close>.
  \<^item> \<open>Commit\<close>, \<open>Commit_Laws\<close>, \<open>Commit_Runs\<close>: \<open>commit.py\<close>, \<open>propose_write.py\<close> and the two consent endpoints,
    their laws in any interleaving, and concrete runs.

  \<^item> \<open>Hebbian\<close>, \<open>Spreading\<close>: \<open>memory/hebbian.py\<close>; the graph as a map from pairs, and what spreading activation
    computes.
  \<^item> \<open>Memories\<close>: the rows of \<open>memory/store.py\<close>, \<open>forgetting/tombstone.py\<close>, the breadcrumb of \<open>grief/\<close>, and
    \<open>soul/candidates.py\<close>.
  \<^item> \<open>Forgetting\<close>, \<open>Forgetting_Laws\<close>, \<open>Forgetting_Runs\<close>, \<open>Retention\<close>: \<open>forgetting/\<close>; passes in any interleaving, a pass
    alone, and the levers that keep memories.
  \<^item> \<open>Backfill\<close>, \<open>Backfill_Laws\<close>, \<open>Embeddings\<close>: \<open>memory/embedding_backfill.py\<close> and the embeddings of the table.
  \<^item> \<open>Jsonl\<close>, \<open>Jsonl_Laws\<close>: files of one JSON object per line, which the logs of all packages are
    (\<open>health/jsonl_reader.py\<close>, the second half of \<open>health/json_io.py\<close>).
  \<^item> \<open>Atomic\<close>: \<open>utils/atomic_write.py\<close> with the operations of \<open>utils/file_ops.py\<close>; the files of one path are the
    record \<open>family\<close>, a save a resumption over it.
  \<^item> \<open>Healing\<close>, \<open>Healing_Laws\<close>, \<open>Healing_Runs\<close>: the first half of \<open>health/json_io.py\<close>, reading a JSON file under a
    recovery policy, healing it and writing it; its laws in any interleaving, and reads and saves alone.

  A method of the code is a definition of the same name; a method that changes the store is a program
  over the store (\<open>writes\<close> for a statement, \<open>reads\<close> for a query), lifted into the transport's world and
  from there into the agent and the tick. A raise is \<open>Inl\<close> of the exception's name, and every
  statement after it is skipped with what was written before it kept, as in the code. The programs of
  the file subsystem are resumptions over the record \<open>files\<close> instead, one atomic step for what the operating
  system or the lock of the card store makes one, since there the interleaving matters. Those of the third subsystem
  are resumptions over the record \<open>brain\<close>, one step for each statement that commits or saves.

  \<^bold>\<open>Interfaces.\<close> \<open>codec\<close> is met by hexadecimal, UTF-8, base64 and canonical JSON. \<open>capped_counter\<close> is met
  by the outbound and the provider reservations, \<open>seq_source\<close> by the outbound sequence numbers and the
  draft ids. \<open>replay_guard\<close> (numbers accepted on a lane strictly increase) is met by \<open>receive\<close>.
  \<open>outbound_gate\<close>, the contract the engine relies on (a gate changes nothing of the world but the
  counters), is met by \<open>review\<close> and by \<open>deny_all\<close>. \<open>pacer\<close> (events of one key are spaced and
  bounded) is met by \<open>engine_call\<close>. \<open>store_invariant\<close>, with \<open>receiving\<close> and \<open>sending\<close> as its parts, turns
  a property kept by every store call into one kept by a whole tick; it is interpreted on the table
  invariant, on the ledger of consumed invites and on reachability by store calls. \<open>ticketed\<close> (what members
  of a pool use up is covered by what was granted) is met by claims and landings; \<open>guarantee\<close> (an
  invariant kept by every step, with the facts a member has read stable under the others) by the
  invariant of the cards and by two relations between the states of the folder: \<open>graveyard\<close>, in which a row that
  is gone has a grave, and \<open>hold\<close>, in which what the soul holds on to keeps its text. \<open>keeper\<close>, what a whole forgetting
  pass needs of the operations it calls to keep such a relation, extends it and is interpreted on both. \<open>rights\<close> (who has
  drawn a number is alone in using what bears it, and relies on that) is met by the saves, whose temporary files bear
  a number.

  \<^bold>\<open>What is shown.\<close> Store: every sequence of calls keeps the tables well formed; consent moves only along
  the abstract machine; caps are met exactly; session keys are written once; a rotation moves a peer's
  whole history. Protocol: opening an envelope succeeds exactly on authentic, fresh and decryptable
  ones, nonces never repeat, both sides of a handshake agree. Transport: consent is a gate for
  everything the relay can deliver, no message is accepted twice, a poll takes at most twenty messages
  of one sender, a call makes at most three requests. Gate and engine: nothing leaves without a
  completed review that cleared it, no text with a leak pattern is sent or shown to a model, sends are
  a minute apart and at most 24 a session. Relationship: a stage rises one step at a time and only on
  grounded evidence; a peer's pull on the emotions is capped. Tick: whatever ticks do to the database is
  a sequence of store calls; a disabled link only listens; one failing peer does not stop the others.
  Panel: no view depends on a draft. Guards: what the write guard accepts is inside the user's home and
  outside the protected places, links resolved; the read guard covers every name of a protected file.
  Consent: in every interleaving with crashes and failures, a card is written at most once per staging,
  only after its own claim and with the staged text; an approval on a quiet disk leaves exactly the
  specified bytes; recovery reports what is on the disk; at most ten cards wait. Graph: the table of edges is a
  map from pairs to weights on the scale; spreading activation covers every walk up to the depth, and each of its values
  is that of a walk, though which one depends on the order in which sets are iterated. Forgetting: in every interleaving
  with crashes and failures, a memory that is gone has a grave and what the soul holds on to is untouched; a
  pass loses only what was low twice; a pause cannot be seen in the result; importance only delays. Embeddings:
  one writer at a time never leaves a row with the vector of another text, two may; the drain ends and leaves
  behind only what cannot be embedded, unless its cursor cannot be saved. Line files: what was appended reads back,
  whatever was torn in between, and reading backwards finds the lines that reading forwards does. JSON files: in every
  interleaving of savers, writers, readers that heal or restore and sweepers, with kills and refused operations, the
  file is never absent and never torn; a restoring read gives the freshest good copy and loses no bytes; a save raises
  if and only if the file is as it was.

  \<^bold>\<open>Bounds and fuel.\<close> The retry loop of the relay client is a recursion over its two backoff pauses; the
  regular expression matcher terminates by the size of the pattern and the text left; the JSON readers
  take fuel equal to the length of their input, which every step shortens, and the round trips show
  that it suffices. \<open>realpath\<close> terminates by the number of links not yet opened. The drain of the backfill takes fuel; \<open>fuel_for\<close>, a
  square of the backlog, is enough, since a tick after which the drain goes on embeds a row or moves the cursor. The reader of a JSON
  file that is told to look again takes the depth of the stack; two looks are enough where nobody else is at work. Everything else is structural recursion.

  \<^bold>\<open>Not modelled.\<close> A \<open>char\<close> is a code point below 256; the few fixed texts with other characters stand as
  their UTF-8 bytes. Floats are rationals with the two infinities and NaN, so rounding is not modelled.
  The cryptographic primitives are functions of \<open>ext\<close> with their documented laws as hypotheses. Opening
  and migrating the SQLite file, failures of the log file and of the cadence files, the logs of
  unparseable verdicts and rejected quotes, and the detail texts of the self-test are left out.
  In the file subsystem a look of a guard at the disk is one step, a look never lacks permissions, special files
  cannot be opened, \<open>OSError\<close> has one text, links that loop resolve as in Python 3.13, a store of works
  is a parameter, and the lock of the card store always opens. The list \<open>events\<close> of the record \<open>files\<close> is a
  ghost that only the proofs read.
  In the third subsystem numbers of memories are reals, the clock is read once per memory, the exemption lists and the
  row of a memory are read as a whole, and reading the database does not fail. The warm matrix of vectors, the emotion
  engine that is told of new rows, the recovery of the felt time from its log, the timing of the embedder and of a
  pass, and the log texts are left out. Of a line file a read sees one content; what the JSON library makes of code points
  above 255 and which texts it cannot load at all are parameters, and the round trip is for records without floats.
  Of a JSON file the lock of a heal excludes nobody, as where the system refuses it, so that what is proved does not
  rest on it. A refused operation stands for all its retries. Permission bits, \<open>fsync\<close>, the
  guessed cause of an anomaly, the check that a fallback is not the file itself, and the legacy helpers
  of \<open>attempt_heal.py\<close> are left out, and the random part of the name of a temporary file is a counter.
  Of the repository's other packages, those built around a language model, an
  embedding model, a network client or an operating system service hold little logic that a kernel
  could check; \<open>PROJECT.json\<close> lists each of them.
\<close>

end
